(* ===== verification/Prelude.thy ===== *)
theory Prelude
  imports Main "HOL-Library.Word"
begin

text \<open>
  Shared vocabulary of the development: the machine integer types of the kernel's C sources,
  collections of rewrite rules, arithmetic of 64-bit words read as natural numbers, bytes and
  little-endian fields, and NULL-terminated linked lists threaded through memory.
\<close>

unbundle bit_operations_syntax

section \<open>Machine integers\<close>

type_synonym u8 = "8 word"
type_synonym u16 = "16 word"
type_synonym u32 = "32 word"
type_synonym u64 = "64 word"

named_theorems word_nat \<open>rules that read word expressions as natural numbers\<close>
named_theorems inv_intros \<open>preservation of component invariants\<close>

lemma two64: "(18446744073709551616::nat) = 2 ^ 64"
  by simp

lemma unat_lt64 [simp, intro]: "unat (w :: u64) < 18446744073709551616"
  using unsigned_less [of w] by simp

lemma unat_plus_u64 [word_nat]:
  "unat (a :: u64) + unat b < 2 ^ 64 \<Longrightarrow> unat (a + b) = unat a + unat b"
  using unat_add_lem [of a b] by simp

lemma unat_minus_u64 [word_nat]:
  "unat (b :: u64) \<le> unat a \<Longrightarrow> unat (a - b) = unat a - unat b"
  by (simp add: unat_sub word_le_nat_alt)

lemma unat_mult_u64 [word_nat]:
  "unat (a :: u64) * unat b < 2 ^ 64 \<Longrightarrow> unat (a * b) = unat a * unat b"
  using unat_mult_lem [of a b] by simp

lemma unat_of_nat_u64 [word_nat]: "n < 2 ^ 64 \<Longrightarrow> unat (of_nat n :: u64) = n"
  by (simp add: unat_of_nat take_bit_nat_eq_self)

lemma unat_offset: "unat p + n \<le> 2 ^ 64 \<Longrightarrow> i < n \<Longrightarrow> unat (p + of_nat i) = unat p + i" for p :: u64
proof -
  assume a: "unat p + n \<le> 2 ^ 64" "i < n"
  have i: "unat (of_nat i :: u64) = i" by (rule unat_of_nat_u64) (use a in simp)
  show ?thesis by (subst unat_plus_u64) (use a i in simp_all)
qed

lemma uint_less_iff: "uint x < uint y \<longleftrightarrow> x < y" for x y :: "'a::len word"
  by (simp add: word_less_alt)

lemma of_nat_of_unat: "unat x = n \<Longrightarrow> x = of_nat n" for x :: "'a::len word"
  by auto

lemma bit_FF: "bit (0xFF :: 'a::len word) n \<longleftrightarrow> n < 8 \<and> n < LENGTH('a)"
proof -
  have "(0xFF :: 'a word) = mask 8" by (simp add: mask_eq_exp_minus_1)
  then show ?thesis by (simp only: bit_mask_iff possible_bit_word) auto
qed

lemma bit_FFFF: "bit (0xFFFF :: 'a::len word) n \<longleftrightarrow> n < 16 \<and> n < LENGTH('a)"
proof -
  have "(0xFFFF :: 'a word) = mask 16" by (simp add: mask_eq_exp_minus_1)
  then show ?thesis by (simp only: bit_mask_iff possible_bit_word) auto
qed

lemma bit_FFFFFFFF: "bit (0xFFFFFFFF :: 'a::len word) n \<longleftrightarrow> n < 32 \<and> n < LENGTH('a)"
proof -
  have "(0xFFFFFFFF :: 'a word) = mask 32" by (simp add: mask_eq_exp_minus_1)
  then show ?thesis by (simp only: bit_mask_iff possible_bit_word) auto
qed

lemmas word_field_bits = bit_FF bit_FFFF bit_FFFFFFFF bit_or_iff bit_and_iff bit_push_bit_iff
  bit_unsigned_iff bit_drop_bit_eq possible_bit_word

lemma unat_push_bit_u64 [word_nat]:
  "unat (a :: u64) * 2 ^ n < 2 ^ 64 \<Longrightarrow> unat (push_bit n a) = unat a * 2 ^ n"
  by (subst unsigned_push_bit_eq) (simp add: take_bit_nat_eq_self push_bit_nat_def)

lemma unat_2p_u64 [word_nat]: "n < 64 \<Longrightarrow> unat (2 ^ n :: u64) = 2 ^ n"
proof -
  assume "n < 64"
  then have "(2 :: nat) ^ n < 2 ^ 64" by (intro power_strict_increasing) auto
  then show ?thesis using unat_of_nat_u64 [of "2 ^ n"] by simp
qed

lemma unat_inc_u64 [word_nat]: "x < y \<Longrightarrow> unat (x + 1) = Suc (unat x)" for x y :: u64
proof -
  assume "x < y"
  then have "unat x < unat y" by (simp add: word_less_nat_alt)
  then have "unat x + unat (1 :: u64) < 2 ^ 64" using unat_lt64 [of y] by (simp del: unat_lt64)
  then show ?thesis by (subst unat_plus_u64) simp_all
qed

text \<open>A power-of-two mask is a subtraction of the remainder.\<close>

lemma and_not_mask_u64: "(x :: u64) AND NOT (mask n) = x - x mod 2 ^ n"
proof -
  have "x AND NOT (mask n) = x AND NOT (x AND mask n)"
    by (rule bit_eqI) (auto simp: bit_simps)
  also have "\<dots> = x - (x AND mask n)"
    by (rule disjunctive_diff [symmetric]) (auto simp: bit_simps)
  finally show ?thesis
    by (simp flip: take_bit_eq_mask take_bit_eq_mod)
qed

text \<open>
  Flipping bit \<open>n\<close> of a number that is a multiple of \<open>2 ^ n\<close> moves it to its neighbour:
  the arithmetic behind the buddy computation of the page allocator.
\<close>

lemma unset_bit_nat_minus: "bit m n \<Longrightarrow> unset_bit n m = m - 2 ^ n" for m :: nat
proof -
  assume b: "bit m n"
  have "m = set_bit n (unset_bit n m)"
    using b by (intro bit_eqI) (auto simp: bit_simps)
  also have "\<dots> = unset_bit n m + 2 ^ n"
    by (simp add: set_bit_eq bit_simps)
  finally show ?thesis by simp
qed

lemma xor_bit_nat:
  "(m :: nat) XOR 2 ^ n = (if even (m div 2 ^ n) then m + 2 ^ n else m - 2 ^ n)"
proof -
  have "m XOR 2 ^ n = flip_bit n m"
    by (simp add: flip_bit_nat_def push_bit_eq_mult)
  then show ?thesis
    by (simp add: flip_bit_eq_if set_bit_eq unset_bit_nat_minus bit_iff_odd)
qed

lemma unat_xor_bit_u64 [word_nat]:
  assumes "n < 64"
  shows "unat ((x :: u64) XOR 2 ^ n) =
    (if even (unat x div 2 ^ n) then unat x + 2 ^ n else unat x - 2 ^ n)"
  using assms by (simp add: unsigned_xor_eq unat_2p_u64 xor_bit_nat)

section \<open>Linked lists in memory\<close>

text \<open>
  \<open>Lst h p xs\<close>: following the \<open>next\<close> fields stored in \<open>h\<close> from pointer \<open>p\<close> visits exactly the
  nodes \<open>xs\<close> and ends at NULL, the pointer 0.
\<close>

fun Lst :: "(u64 \<Rightarrow> u64) \<Rightarrow> u64 \<Rightarrow> u64 list \<Rightarrow> bool" where
  "Lst h p [] \<longleftrightarrow> p = 0"
| "Lst h p (x # xs) \<longleftrightarrow> p = x \<and> x \<noteq> 0 \<and> Lst h (h x) xs"

lemma Lst_NULL [simp]: "Lst h 0 xs \<longleftrightarrow> xs = []"
  by (cases xs) auto

lemma Lst_upd [simp]: "a \<notin> set xs \<Longrightarrow> Lst (h(a := v)) p xs \<longleftrightarrow> Lst h p xs"
  by (induction xs arbitrary: p) auto

lemma Lst_unique: "Lst h p xs \<Longrightarrow> Lst h p ys \<Longrightarrow> xs = ys"
proof (induction xs arbitrary: p ys)
  case (Cons x xs)
  then show ?case by (cases ys) auto
qed (auto simp: neq_Nil_conv)

lemma Lst_nonzero: "Lst h p xs \<Longrightarrow> 0 \<notin> set xs"
  by (induction xs arbitrary: p) auto

lemma Lst_hd: "Lst h p xs \<Longrightarrow> p \<noteq> 0 \<Longrightarrow> \<exists>ys. xs = p # ys \<and> Lst h (h p) ys"
  by (cases xs) auto

lemma Lst_suffix: "Lst h p (xs @ ys) \<Longrightarrow> \<exists>q. Lst h q ys"
  by (induction xs arbitrary: p) auto

lemma Lst_distinct: "Lst h p xs \<Longrightarrow> distinct xs"
proof (induction xs arbitrary: p)
  case (Cons x xs)
  have "x \<notin> set xs"
  proof
    assume "x \<in> set xs"
    then obtain us vs where xs: "xs = us @ x # vs" by (meson split_list)
    have "Lst h x (x # vs)"
      using Cons.prems xs Lst_suffix [of h "h x" us "x # vs"] by auto
    moreover have "Lst h x (x # xs)" using Cons.prems by auto
    ultimately have "x # vs = x # xs" by (rule Lst_unique)
    then show False using xs by simp
  qed
  then show ?case using Cons by auto
qed simp

lemma Lst_unlink:
  "Lst h p (us @ u # x # vs) \<Longrightarrow> Lst (h(u := h x)) p (us @ u # vs)"
proof (induction us arbitrary: p)
  case Nil
  then have "distinct (u # x # vs)" using Lst_distinct by fastforce
  with Nil show ?case by (auto simp del: fun_upd_apply) simp_all
next
  case (Cons w us)
  then have "distinct (w # us @ u # x # vs)" using Lst_distinct by fastforce
  with Cons show ?case by auto
qed

end
