(* ===== verification/Util.thy ===== *)
theory Util
  imports Prelude
begin

text \<open>
  The alignment macros of \<^verbatim>\<open>kernel/includes/main/util/util.h\<close> on 64-bit operands.
\<close>

definition ALIGN_DOWN :: "u64 \<Rightarrow> u64 \<Rightarrow> u64" where
  "ALIGN_DOWN x align = x AND NOT (align - 1)"

definition ALIGN_UP :: "u64 \<Rightarrow> u64 \<Rightarrow> u64" where
  "ALIGN_UP x align = (x + (align - 1)) AND NOT (align - 1)"

lemma ALIGN_DOWN_pow2: "ALIGN_DOWN x (2 ^ n) = x - x mod 2 ^ n"
  by (simp add: ALIGN_DOWN_def mask_eq_exp_minus_1 flip: and_not_mask_u64)

lemma unat_minus_mod_u64: "unat (x - x mod m :: u64) = unat x - unat x mod unat m"
  by (subst unat_minus_u64) (simp_all add: unat_mod)

lemma unat_ALIGN_DOWN:
  assumes "n < 64"
  shows "unat (ALIGN_DOWN x (2 ^ n)) = unat x div 2 ^ n * 2 ^ n"
  unfolding ALIGN_DOWN_pow2 unat_minus_mod_u64 unat_2p_u64 [OF assms]
  by (rule minus_mod_eq_div_mult)

lemma ALIGN_UP_DOWN: "ALIGN_UP x align = ALIGN_DOWN (x + (align - 1)) align"
  by (simp add: ALIGN_UP_def ALIGN_DOWN_def)

lemma unat_ALIGN_UP:
  assumes "n < 64" and "unat x + 2 ^ n \<le> 2 ^ 64"
  shows "unat (ALIGN_UP x (2 ^ n)) = (unat x + (2 ^ n - 1)) div 2 ^ n * 2 ^ n"
proof -
  have m: "unat (2 ^ n - 1 :: u64) = 2 ^ n - 1"
    using assms(1) by (subst unat_minus_u64) (simp_all add: unat_2p_u64)
  have "unat x + (2 ^ n - 1) < 2 ^ 64"
    using assms(2) by (simp add: less_eq_Suc_le)
  then have "unat (x + (2 ^ n - 1)) = unat x + (2 ^ n - 1)"
    using m by (subst unat_plus_u64) simp_all
  then show ?thesis
    using assms(1) by (simp add: ALIGN_UP_DOWN unat_ALIGN_DOWN)
qed

end
