(* ===== verification/Pmm.thy ===== *)
theory Pmm
  imports Util
begin

text \<open>
  The physical page allocator, \<^verbatim>\<open>kernel/main/mm/pmm.c\<close>: a bitmap with one bit per page frame
  and one NULL-terminated free list per block order, the list nodes being stored in the free
  pages themselves and reached through the higher-half direct map (HHDM).

  The static variables of the file are the fields of the record \<open>pmm\<close>. \<open>bitmap s i\<close> is the byte
  \<^verbatim>\<open>pmm_bitmap[i]\<close> and \<open>next_of s v\<close> the field \<^verbatim>\<open>next\<close> of the \<^verbatim>\<open>struct PhysicalMemoryRegion\<close> at
  virtual address \<open>v\<close>. A loop that follows list pointers may run forever on a cyclic list, so it
  is a partial function whose value \<open>None\<close> means that it does not return. Logging is left out.
\<close>

section \<open>Model\<close>

definition PAGE_SIZE :: u64 where
  "PAGE_SIZE = 4096"

definition MAX_ORDER :: nat where
  "MAX_ORDER = 11"

record pmm =
  pmm_total_pages :: u64
  pmm_free_pages :: u64
  bitmap :: "u64 \<Rightarrow> u8"
  pmm_bitmap :: u64
  pmm_max_page :: u64
  hhdm_offset :: u64
  free_lists :: "nat \<Rightarrow> u64"
  next_of :: "u64 \<Rightarrow> u64"

subsection \<open>Bitmap\<close>

definition bitmap_set :: "pmm \<Rightarrow> u64 \<Rightarrow> pmm" where
  "bitmap_set s b = s\<lparr>bitmap := (bitmap s)
     (b div 8 := bitmap s (b div 8) OR push_bit (unat (b mod 8)) 1)\<rparr>"

definition bitmap_clear :: "pmm \<Rightarrow> u64 \<Rightarrow> pmm" where
  "bitmap_clear s b = s\<lparr>bitmap := (bitmap s)
     (b div 8 := bitmap s (b div 8) AND NOT (push_bit (unat (b mod 8)) 1))\<rparr>"

definition bitmap_test :: "pmm \<Rightarrow> u64 \<Rightarrow> bool" where
  "bitmap_test s b \<longleftrightarrow> drop_bit (unat (b mod 8)) (bitmap s (b div 8)) AND 1 \<noteq> 0"

text \<open>The loops \<^verbatim>\<open>for (j = 0; j < n; j++) bitmap_set(page_idx + j)\<close> and their clearing twin.\<close>

primrec bitmap_set_range :: "pmm \<Rightarrow> u64 \<Rightarrow> nat \<Rightarrow> pmm" where
  "bitmap_set_range s page_idx 0 = s"
| "bitmap_set_range s page_idx (Suc j) =
     bitmap_set (bitmap_set_range s page_idx j) (page_idx + of_nat j)"

primrec bitmap_clear_range :: "pmm \<Rightarrow> u64 \<Rightarrow> nat \<Rightarrow> pmm" where
  "bitmap_clear_range s page_idx 0 = s"
| "bitmap_clear_range s page_idx (Suc j) =
     bitmap_clear (bitmap_clear_range s page_idx j) (page_idx + of_nat j)"

subsection \<open>Free lists\<close>

definition pmm_list_add :: "pmm \<Rightarrow> nat \<Rightarrow> u64 \<Rightarrow> pmm" where
  "pmm_list_add s order phys_addr =
     (let region = phys_addr + hhdm_offset s;
          s = s\<lparr>next_of := (next_of s)(region := free_lists s order)\<rparr>
      in s\<lparr>free_lists := (free_lists s)(order := region)\<rparr>)"

text \<open>
  \<^verbatim>\<open>pmm_list_remove\<close> keeps a pointer to the link it came from: the list head, or the \<^verbatim>\<open>next\<close>
  field of a node.
\<close>

datatype link = Head nat | Next u64

fun store_link :: "pmm \<Rightarrow> link \<Rightarrow> u64 \<Rightarrow> pmm" where
  "store_link s (Head order) v = s\<lparr>free_lists := (free_lists s)(order := v)\<rparr>"
| "store_link s (Next node) v = s\<lparr>next_of := (next_of s)(node := v)\<rparr>"

partial_function (option) list_remove_loop :: "pmm \<Rightarrow> link \<Rightarrow> u64 \<Rightarrow> u64 \<Rightarrow> pmm option" where
  "list_remove_loop s prev cur phys_addr =
     (if cur = 0 then Some s
      else if cur - hhdm_offset s = phys_addr then Some (store_link s prev (next_of s cur))
      else list_remove_loop s (Next cur) (next_of s cur) phys_addr)"

declare list_remove_loop.simps [code]

definition pmm_list_remove :: "pmm \<Rightarrow> nat \<Rightarrow> u64 \<Rightarrow> pmm option" where
  "pmm_list_remove s order phys_addr =
     list_remove_loop s (Head order) (free_lists s order) phys_addr"

partial_function (option) list_contains_loop :: "pmm \<Rightarrow> u64 \<Rightarrow> u64 \<Rightarrow> bool option" where
  "list_contains_loop s cur phys_addr =
     (if cur = 0 then Some False
      else if cur - hhdm_offset s = phys_addr then Some True
      else list_contains_loop s (next_of s cur) phys_addr)"

declare list_contains_loop.simps [code]

definition pmm_list_contains :: "pmm \<Rightarrow> nat \<Rightarrow> u64 \<Rightarrow> bool option" where
  "pmm_list_contains s order phys_addr = list_contains_loop s (free_lists s order) phys_addr"

subsection \<open>Allocation\<close>

text \<open>\<^verbatim>\<open>while (i > order)\<close>: return the upper halves of a split block to the lists below it.\<close>

fun split_block :: "pmm \<Rightarrow> u64 \<Rightarrow> nat \<Rightarrow> nat \<Rightarrow> pmm" where
  "split_block s addr order i =
     (if i > order
      then split_block (pmm_list_add s (i - 1) (addr + push_bit (i - 1) PAGE_SIZE)) addr order (i - 1)
      else s)"

declare split_block.simps [simp del]

function palloc_loop :: "pmm \<Rightarrow> nat \<Rightarrow> nat \<Rightarrow> u64 \<times> pmm" where
  "palloc_loop s order i =
     (if i < MAX_ORDER then
        if free_lists s i = 0 then palloc_loop s order (Suc i)
        else
          (let addr = free_lists s i - hhdm_offset s;
               s = s\<lparr>free_lists := (free_lists s)(i := next_of s (free_lists s i))\<rparr>;
               s = split_block s addr order i;
               s = bitmap_set_range s (addr div PAGE_SIZE) (2 ^ order);
               s = s\<lparr>pmm_free_pages := pmm_free_pages s - push_bit order 1\<rparr>
           in (addr, s))
      else (0, s))"
  by pat_completeness auto
termination
  by (relation "measure (\<lambda>(s, order, i). MAX_ORDER - i)") (auto simp: MAX_ORDER_def)

declare palloc_loop.simps [simp del]

definition palloc_order :: "pmm \<Rightarrow> nat \<Rightarrow> u64 \<times> pmm" where
  "palloc_order s order = palloc_loop s order order"

definition palloc :: "pmm \<Rightarrow> u64 \<times> pmm" where
  "palloc s = palloc_order s 0"

subsection \<open>Release\<close>

text \<open>The loop that merges a freed block with its free buddies; it ends with the state, the page
  index of the merged block and its order.\<close>

function coalesce :: "pmm \<Rightarrow> u64 \<Rightarrow> nat \<Rightarrow> (pmm \<times> u64 \<times> nat) option" where
  "coalesce s page_idx order =
     (if order < MAX_ORDER - 1 then
        let buddy_idx = page_idx XOR push_bit order 1;
            buddy_phys = buddy_idx * PAGE_SIZE
        in if buddy_idx \<ge> pmm_max_page s \<or> bitmap_test s buddy_idx then Some (s, page_idx, order)
           else
             (case pmm_list_contains s order buddy_phys of
                None \<Rightarrow> None
              | Some False \<Rightarrow> Some (s, page_idx, order)
              | Some True \<Rightarrow>
                  (case pmm_list_remove s order buddy_phys of
                     None \<Rightarrow> None
                   | Some s \<Rightarrow>
                       coalesce s (if buddy_idx < page_idx then buddy_idx else page_idx)
                         (Suc order)))
      else Some (s, page_idx, order))"
  by pat_completeness auto
termination
  by (relation "measure (\<lambda>(s, page_idx, order). MAX_ORDER - order)") (auto simp: MAX_ORDER_def)

declare coalesce.simps [simp del]

definition pfree_order :: "pmm \<Rightarrow> u64 \<Rightarrow> nat \<Rightarrow> pmm option" where
  "pfree_order s phys_addr order =
     (let page_idx = phys_addr div PAGE_SIZE;
          s = bitmap_clear_range s page_idx (2 ^ order)
      in case coalesce s page_idx order of
           None \<Rightarrow> None
         | Some (s, page_idx, order) \<Rightarrow>
             (let s = pmm_list_add s order (page_idx * PAGE_SIZE)
              in Some (s\<lparr>pmm_free_pages := pmm_free_pages s + push_bit order 1\<rparr>)))"

definition pfree :: "pmm \<Rightarrow> u64 \<Rightarrow> pmm option" where
  "pfree s phys_addr = pfree_order s phys_addr 0"

subsection \<open>Initialisation from the boot loader's memory map\<close>

record limine_memmap_entry =
  me_base :: u64
  me_length :: u64
  me_type :: u64

definition LIMINE_MEMMAP_USABLE :: u64 where
  "LIMINE_MEMMAP_USABLE = 0"

text \<open>The three places where \<^verbatim>\<open>pmm_init\<close> logs a fatal error and halts the machine.\<close>

datatype pmm_fatal = HHDM_not_available | Memmap_not_available | Failed_to_place_bitmap

fun top_addr_loop :: "u64 \<Rightarrow> limine_memmap_entry list \<Rightarrow> u64" where
  "top_addr_loop top_addr [] = top_addr"
| "top_addr_loop top_addr (e # es) =
     (let end = me_base e + me_length e
      in top_addr_loop (if end > top_addr then end else top_addr) es)"

text \<open>Carve the bitmap out of the first usable region that can hold it: the physical address of
  the bitmap and the changed memory map.\<close>

fun place_bitmap ::
  "u64 \<Rightarrow> limine_memmap_entry list \<Rightarrow> u64 option \<times> limine_memmap_entry list" where
  "place_bitmap bitmap_size [] = (None, [])"
| "place_bitmap bitmap_size (e # es) =
     (if me_type e \<noteq> LIMINE_MEMMAP_USABLE \<or> me_length e < bitmap_size
      then (let (r, es) = place_bitmap bitmap_size es in (r, e # es))
      else (Some (me_base e),
            e\<lparr>me_base := me_base e + bitmap_size, me_length := me_length e - bitmap_size\<rparr> # es))"

function init_order :: "u64 \<Rightarrow> u64 \<Rightarrow> nat \<Rightarrow> nat" where
  "init_order cur end order =
     (if order < MAX_ORDER - 1 then
        let size = push_bit (order + 1) PAGE_SIZE
        in if cur + size > end \<or> cur mod size \<noteq> 0 then order
           else init_order cur end (order + 1)
      else order)"
  by pat_completeness auto
termination
  by (relation "measure (\<lambda>(cur, end, order). MAX_ORDER - order)") (auto simp: MAX_ORDER_def)

declare init_order.simps [simp del]

definition init_add_block :: "pmm \<Rightarrow> u64 \<Rightarrow> nat \<Rightarrow> pmm" where
  "init_add_block s cur order =
     (let s = bitmap_clear_range s (cur div PAGE_SIZE) (2 ^ order);
          s = pmm_list_add s order cur
      in s\<lparr>pmm_total_pages := pmm_total_pages s + push_bit order 1,
           pmm_free_pages := pmm_free_pages s + push_bit order 1\<rparr>)"

partial_function (option) init_region :: "pmm \<Rightarrow> u64 \<Rightarrow> u64 \<Rightarrow> pmm option" where
  "init_region s cur end =
     (if cur < end then
        let order = init_order cur end 0
        in init_region (init_add_block s cur order) (cur + push_bit order PAGE_SIZE) end
      else Some s)"

declare init_region.simps [code]

fun init_regions :: "pmm \<Rightarrow> limine_memmap_entry list \<Rightarrow> pmm option" where
  "init_regions s [] = Some s"
| "init_regions s (e # es) =
     (if me_type e \<noteq> LIMINE_MEMMAP_USABLE then init_regions s es
      else
        (case init_region s (ALIGN_UP (me_base e) PAGE_SIZE)
                (ALIGN_DOWN (me_base e + me_length e) PAGE_SIZE) of
           None \<Rightarrow> None
         | Some s \<Rightarrow> init_regions s es))"

text \<open>
  \<^verbatim>\<open>pmm_init\<close> reads the two Limine responses (\<open>None\<close> is a missing response) and changes the memory
  map it was given. Its result is the fatal error at which it halts, or the new state and map.
\<close>

definition pmm_init ::
  "pmm \<Rightarrow> u64 option \<Rightarrow> limine_memmap_entry list option
     \<Rightarrow> (pmm_fatal + pmm \<times> limine_memmap_entry list) option" where
  "pmm_init s hhdm_response memmap_response =
     (case hhdm_response of
        None \<Rightarrow> Some (Inl HHDM_not_available)
      | Some hhdm \<Rightarrow>
     (case memmap_response of
        None \<Rightarrow> Some (Inl Memmap_not_available)
      | Some memmap \<Rightarrow>
     (let s = s\<lparr>hhdm_offset := hhdm\<rparr>;
          top_addr = top_addr_loop 0 memmap;
          s = s\<lparr>pmm_max_page := top_addr div PAGE_SIZE\<rparr>;
          bitmap_size = ALIGN_UP (pmm_max_page s div 8) PAGE_SIZE;
          (placed, memmap) = place_bitmap bitmap_size memmap;
          s = (case placed of
                 None \<Rightarrow> s
               | Some phys \<Rightarrow> s\<lparr>pmm_bitmap := phys + hhdm,
                   bitmap := (\<lambda>i. if i < bitmap_size then 0xFF else bitmap s i)\<rparr>)
      in if pmm_bitmap s = 0 then Some (Inl Failed_to_place_bitmap)
         else
           (let s = s\<lparr>free_lists := (\<lambda>i. if i < MAX_ORDER then 0 else free_lists s i)\<rparr>
            in case init_regions s memmap of
                 None \<Rightarrow> None
               | Some s \<Rightarrow> Some (Inr (s, memmap))))))"

definition pmm_get_total_pages :: "pmm \<Rightarrow> u64" where
  "pmm_get_total_pages s = pmm_total_pages s"

definition pmm_get_free_pages :: "pmm \<Rightarrow> u64" where
  "pmm_get_free_pages s = pmm_free_pages s"

definition pmm_get_used_pages :: "pmm \<Rightarrow> u64" where
  "pmm_get_used_pages s = pmm_total_pages s - pmm_free_pages s"

definition pmm_get_hhdm_offset :: "pmm \<Rightarrow> u64" where
  "pmm_get_hhdm_offset s = hhdm_offset s"

text \<open>The static variables before \<^verbatim>\<open>pmm_init\<close> runs; the memory behind \<open>next_of\<close> is arbitrary.\<close>

definition pmm_static :: "(u64 \<Rightarrow> u64) \<Rightarrow> pmm" where
  "pmm_static memory =
     \<lparr>pmm_total_pages = 0, pmm_free_pages = 0, bitmap = (\<lambda>_. 0), pmm_bitmap = 0,
      pmm_max_page = 0, hhdm_offset = 0, free_lists = (\<lambda>_. 0), next_of = memory\<rparr>"

end
