(* ===== verification/Pmm_Invariant.thy ===== *)
theory Pmm_Invariant
  imports Pmm
begin

text \<open>
  The invariant of the page allocator and its preservation by the list and bitmap operations.

  A free block is a pair of its order and the number of its first page. \<open>pmm_wf s B H\<close> says that
  the free lists of \<open>s\<close> hold exactly the blocks \<open>B\<close>, that the blocks are aligned, in range and
  pairwise disjoint, and that the bitmap marks as free exactly the pages of these blocks and the
  pages \<open>H\<close> that an operation holds in hand between two list operations.
\<close>

section \<open>Bitmap\<close>

lemma unat_mod_8 [simp]: "unat (b mod 8 :: u64) < 8"
  by (simp add: unat_mod)

lemma div_mod_8_eq: "(c :: u64) div 8 = b div 8 \<Longrightarrow> unat (c mod 8) = unat (b mod 8) \<Longrightarrow> c = b"
  by (metis div_mult_mod_eq unsigned_word_eqI)

lemma bitmap_test_iff: "bitmap_test s b \<longleftrightarrow> bit (bitmap s (b div 8)) (unat (b mod 8))"
  by (simp add: bitmap_test_def and_one_eq bit_iff_odd_drop_bit even_iff_mod_2_eq_zero)

lemma bitmap_test_set: "bitmap_test (bitmap_set s b) c \<longleftrightarrow> c = b \<or> bitmap_test s c"
  by (auto simp: bitmap_test_iff bitmap_set_def bit_simps dest: div_mod_8_eq)

lemma bitmap_test_clear: "bitmap_test (bitmap_clear s b) c \<longleftrightarrow> c \<noteq> b \<and> bitmap_test s c"
  by (auto simp: bitmap_test_iff bitmap_clear_def bit_simps dest: div_mod_8_eq)

lemma bitmap_test_set_range:
  "bitmap_test (bitmap_set_range s p n) c \<longleftrightarrow> (\<exists>j<n. c = p + of_nat j) \<or> bitmap_test s c"
  by (induction n) (auto simp: bitmap_test_set less_Suc_eq)

lemma bitmap_test_clear_range:
  "bitmap_test (bitmap_clear_range s p n) c \<longleftrightarrow> (\<forall>j<n. c \<noteq> p + of_nat j) \<and> bitmap_test s c"
  by (induction n) (auto simp: bitmap_test_clear less_Suc_eq)

text \<open>The bitmap operations write the bitmap only, the list operations the lists only.\<close>

lemma bitmap_set_frame [simp]:
  "pmm_total_pages (bitmap_set s b) = pmm_total_pages s"
  "pmm_free_pages (bitmap_set s b) = pmm_free_pages s"
  "pmm_bitmap (bitmap_set s b) = pmm_bitmap s"
  "pmm_max_page (bitmap_set s b) = pmm_max_page s"
  "hhdm_offset (bitmap_set s b) = hhdm_offset s"
  "free_lists (bitmap_set s b) = free_lists s"
  "next_of (bitmap_set s b) = next_of s"
  by (simp_all add: bitmap_set_def)

lemma bitmap_clear_frame [simp]:
  "pmm_total_pages (bitmap_clear s b) = pmm_total_pages s"
  "pmm_free_pages (bitmap_clear s b) = pmm_free_pages s"
  "pmm_bitmap (bitmap_clear s b) = pmm_bitmap s"
  "pmm_max_page (bitmap_clear s b) = pmm_max_page s"
  "hhdm_offset (bitmap_clear s b) = hhdm_offset s"
  "free_lists (bitmap_clear s b) = free_lists s"
  "next_of (bitmap_clear s b) = next_of s"
  by (simp_all add: bitmap_clear_def)

lemma bitmap_set_range_frame [simp]:
  "pmm_total_pages (bitmap_set_range s p n) = pmm_total_pages s"
  "pmm_free_pages (bitmap_set_range s p n) = pmm_free_pages s"
  "pmm_bitmap (bitmap_set_range s p n) = pmm_bitmap s"
  "pmm_max_page (bitmap_set_range s p n) = pmm_max_page s"
  "hhdm_offset (bitmap_set_range s p n) = hhdm_offset s"
  "free_lists (bitmap_set_range s p n) = free_lists s"
  "next_of (bitmap_set_range s p n) = next_of s"
  by (induction n) simp_all

lemma bitmap_clear_range_frame [simp]:
  "pmm_total_pages (bitmap_clear_range s p n) = pmm_total_pages s"
  "pmm_free_pages (bitmap_clear_range s p n) = pmm_free_pages s"
  "pmm_bitmap (bitmap_clear_range s p n) = pmm_bitmap s"
  "pmm_max_page (bitmap_clear_range s p n) = pmm_max_page s"
  "hhdm_offset (bitmap_clear_range s p n) = hhdm_offset s"
  "free_lists (bitmap_clear_range s p n) = free_lists s"
  "next_of (bitmap_clear_range s p n) = next_of s"
  by (induction n) simp_all

lemma pmm_list_add_frame [simp]:
  "pmm_total_pages (pmm_list_add s i a) = pmm_total_pages s"
  "pmm_free_pages (pmm_list_add s i a) = pmm_free_pages s"
  "pmm_bitmap (pmm_list_add s i a) = pmm_bitmap s"
  "pmm_max_page (pmm_list_add s i a) = pmm_max_page s"
  "hhdm_offset (pmm_list_add s i a) = hhdm_offset s"
  "bitmap (pmm_list_add s i a) = bitmap s"
  by (simp_all add: pmm_list_add_def Let_def)

section \<open>Blocks and the invariant\<close>

definition blk :: "nat \<times> nat \<Rightarrow> nat set" where
  "blk b = {snd b ..< snd b + 2 ^ fst b}"

abbreviation block :: "nat \<Rightarrow> nat \<Rightarrow> nat set" where
  "block i p \<equiv> blk (i, p)"

definition page_addr :: "nat \<Rightarrow> u64" where
  "page_addr p = of_nat (p * 4096)"

definition node :: "pmm \<Rightarrow> nat \<Rightarrow> u64" where
  "node s p = page_addr p + hhdm_offset s"

text \<open>The direct map covers the managed memory without wrap-around and never maps to NULL.\<close>

definition hhdm_ok :: "pmm \<Rightarrow> bool" where
  "hhdm_ok s \<longleftrightarrow> hhdm_offset s \<noteq> 0 \<and>
     unat (hhdm_offset s) + unat (pmm_max_page s) * 4096 < 2 ^ 64"

definition block_ok :: "pmm \<Rightarrow> nat \<times> nat \<Rightarrow> bool" where
  "block_ok s b \<longleftrightarrow> fst b < MAX_ORDER \<and> 2 ^ fst b dvd snd b \<and> 0 < snd b \<and>
     snd b + 2 ^ fst b \<le> unat (pmm_max_page s)"

definition blocks_disjoint :: "(nat \<times> nat) set \<Rightarrow> bool" where
  "blocks_disjoint B \<longleftrightarrow> (\<forall>x\<in>B. \<forall>y\<in>B. x \<noteq> y \<longrightarrow> blk x \<inter> blk y = {})"

definition pages_of :: "(nat \<times> nat) set \<Rightarrow> nat set" where
  "pages_of B = (\<Union>x\<in>B. blk x)"

definition lists_hold :: "pmm \<Rightarrow> (nat \<times> nat) set \<Rightarrow> bool" where
  "lists_hold s B \<longleftrightarrow> (\<forall>i<MAX_ORDER. \<exists>ps. set ps = {p. (i, p) \<in> B} \<and>
     Lst (next_of s) (free_lists s i) (map (node s) ps))"

definition pmm_wf :: "pmm \<Rightarrow> (nat \<times> nat) set \<Rightarrow> nat set \<Rightarrow> bool" where
  "pmm_wf s B H \<longleftrightarrow> hhdm_ok s \<and> (\<forall>b\<in>B. block_ok s b) \<and> blocks_disjoint B \<and> lists_hold s B \<and>
     H \<subseteq> {0<..<unat (pmm_max_page s)} \<and> H \<inter> pages_of B = {} \<and>
     (\<forall>p<unat (pmm_max_page s). bitmap_test s (of_nat p) \<longleftrightarrow> p \<notin> pages_of B \<union> H)"

definition pmm_inv :: "pmm \<Rightarrow> bool" where
  "pmm_inv s \<longleftrightarrow> (\<exists>B. pmm_wf s B {})"

text \<open>The free pages, read off the bitmap.\<close>

definition free_set :: "pmm \<Rightarrow> nat set" where
  "free_set s = {p. p < unat (pmm_max_page s) \<and> \<not> bitmap_test s (of_nat p)}"

lemma mem_blk: "x \<in> block i p \<longleftrightarrow> p \<le> x \<and> x < p + 2 ^ i"
  by (simp add: blk_def)

lemma blk_first [simp, intro]: "p \<in> block i p"
  by (simp add: blk_def)

lemma blk_subset_iff: "block i p \<subseteq> {a..<b} \<longleftrightarrow> a \<le> p \<and> p + 2 ^ i \<le> b"
  by (auto simp: blk_def)

lemma blk_halves: "block (Suc i) p = block i p \<union> block i (p + 2 ^ i)"
  by (auto simp: blk_def)

lemma blk_halves_disjoint: "block i p \<inter> block i (p + 2 ^ i) = {}"
  by (auto simp: blk_def)

lemma pages_of_insert: "pages_of (insert b B) = blk b \<union> pages_of B"
  by (auto simp: pages_of_def)

lemma pages_of_delete:
  "blocks_disjoint B \<Longrightarrow> b \<in> B \<Longrightarrow> pages_of (B - {b}) = pages_of B - blk b"
  by (fastforce simp: pages_of_def blocks_disjoint_def)

lemma mem_pages_of: "b \<in> B \<Longrightarrow> x \<in> blk b \<Longrightarrow> x \<in> pages_of B"
  by (auto simp: pages_of_def)

text \<open>\<open>pmm_wf\<close> looks at these fields only.\<close>

lemma pmm_wf_cong:
  assumes "pmm_max_page t = pmm_max_page s" "hhdm_offset t = hhdm_offset s"
    "bitmap t = bitmap s" "free_lists t = free_lists s" "next_of t = next_of s"
  shows "pmm_wf t B H \<longleftrightarrow> pmm_wf s B H"
  using assms
  by (simp add: pmm_wf_def hhdm_ok_def block_ok_def lists_hold_def node_def [abs_def] bitmap_test_def)

lemma pmm_wfD:
  assumes "pmm_wf s B H"
  shows "hhdm_ok s" "\<And>b. b \<in> B \<Longrightarrow> block_ok s b" "blocks_disjoint B" "lists_hold s B"
    "H \<subseteq> {0<..<unat (pmm_max_page s)}" "H \<inter> pages_of B = {}"
    "\<And>p. p < unat (pmm_max_page s) \<Longrightarrow> bitmap_test s (of_nat p) \<longleftrightarrow> p \<notin> pages_of B \<union> H"
  using assms by (simp_all add: pmm_wf_def)

lemma block_ok_lt: "block_ok s b \<Longrightarrow> x \<in> blk b \<Longrightarrow> x < unat (pmm_max_page s)"
  by (simp add: block_ok_def blk_def)

lemma pages_of_range: "pmm_wf s B H \<Longrightarrow> pages_of B \<subseteq> {0<..<unat (pmm_max_page s)}"
  by (auto simp: pages_of_def blk_def block_ok_def dest!: pmm_wfD(2))

lemma free_set_wf: "pmm_wf s B H \<Longrightarrow> free_set s = pages_of B \<union> H"
  using pmm_wfD(5,7) pages_of_range by (fastforce simp: free_set_def)

section \<open>Node addresses\<close>

lemma unat_page_addr: "p * 4096 < 2 ^ 64 \<Longrightarrow> unat (page_addr p) = p * 4096"
  unfolding page_addr_def by (rule unat_of_nat_u64)

lemma unat_node:
  assumes "hhdm_ok s" "p < unat (pmm_max_page s)"
  shows "unat (node s p) = p * 4096 + unat (hhdm_offset s)"
proof -
  have "p * 4096 + unat (hhdm_offset s) < 2 ^ 64" using assms by (simp add: hhdm_ok_def)
  then show ?thesis
    unfolding node_def by (subst unat_plus_u64) (simp_all add: unat_page_addr)
qed

lemma node_inject:
  assumes "hhdm_ok s" "p < unat (pmm_max_page s)" "q < unat (pmm_max_page s)"
  shows "node s p = node s q \<longleftrightarrow> p = q"
proof
  assume "node s p = node s q"
  then have "unat (node s p) = unat (node s q)" by simp
  then show "p = q" by (simp add: unat_node assms)
qed simp

lemma node_nonzero:
  assumes a: "hhdm_ok s" "p < unat (pmm_max_page s)"
  shows "node s p \<noteq> 0"
proof
  assume "node s p = 0"
  then have "p * 4096 + unat (hhdm_offset s) = 0" using unat_node [OF a] by simp
  then show False using a(1) by (simp add: hhdm_ok_def unat_eq_zero)
qed

lemma node_minus [simp]: "node s p - hhdm_offset s = page_addr p"
  by (simp add: node_def)

lemma page_addr_inject:
  assumes "hhdm_ok s" "p < unat (pmm_max_page s)" "q < unat (pmm_max_page s)"
  shows "page_addr p = page_addr q \<longleftrightarrow> p = q"
  using node_inject [OF assms] by (simp add: node_def)

lemma wf_first_lt: "pmm_wf s B H \<Longrightarrow> (i, p) \<in> B \<Longrightarrow> p < unat (pmm_max_page s)"
  using pmm_wfD(2) block_ok_lt blk_first by blast

section \<open>Pushing a block\<close>

lemma node_cong: "hhdm_offset t = hhdm_offset s \<Longrightarrow> node t = node s"
  by (simp add: node_def fun_eq_iff)

lemma hhdm_ok_cong:
  "hhdm_offset t = hhdm_offset s \<Longrightarrow> pmm_max_page t = pmm_max_page s \<Longrightarrow> hhdm_ok t = hhdm_ok s"
  by (simp add: hhdm_ok_def)

lemma block_ok_cong: "pmm_max_page t = pmm_max_page s \<Longrightarrow> block_ok t b = block_ok s b"
  by (simp add: block_ok_def)

lemma bitmap_test_cong: "bitmap t = bitmap s \<Longrightarrow> bitmap_test t x = bitmap_test s x"
  by (simp add: bitmap_test_def)

lemmas pmm_cong = node_cong hhdm_ok_cong block_ok_cong bitmap_test_cong

lemma node_upd [simp]:
  "node (s\<lparr>free_lists := x\<rparr>) = node s"
  "node (s\<lparr>next_of := y\<rparr>) = node s"
  by (rule node_cong; simp)+

text \<open>A block taken from the hand is well-formed.\<close>

lemma hand_block_ok:
  assumes "pmm_wf s B H" "i < MAX_ORDER" "2 ^ i dvd p" "block i p \<subseteq> H"
  shows "block_ok s (i, p)"
proof -
  obtain k where "(2 :: nat) ^ i = Suc k" by (cases "(2 :: nat) ^ i") auto
  then have "p \<in> block i p" "p + 2 ^ i - 1 \<in> block i p"
    by (simp_all add: mem_blk)
  then have "p \<in> H" "p + 2 ^ i - 1 \<in> H"
    using assms(4) by auto
  then have "0 < p" "p + 2 ^ i - 1 < unat (pmm_max_page s)"
    using pmm_wfD(5) [OF assms(1)] by auto
  then show ?thesis using assms(2,3) by (simp add: block_ok_def)
qed

lemma list_add_cong [simp]:
  "hhdm_ok (pmm_list_add s i a) = hhdm_ok s"
  "block_ok (pmm_list_add s i a) b = block_ok s b"
  "bitmap_test (pmm_list_add s i a) x = bitmap_test s x"
  by (rule pmm_cong; simp)+

lemma lists_hold_add:
  assumes "lists_hold s B" and ok: "hhdm_ok s" "\<And>b. b \<in> B \<Longrightarrow> block_ok s b"
    and p: "p < unat (pmm_max_page s)" "\<And>j. (j, p) \<notin> B"
  shows "lists_hold (pmm_list_add s i (page_addr p)) (insert (i, p) B)"
proof -
  let ?t = "pmm_list_add s i (page_addr p)"
  have [simp]: "node ?t = node s" by (rule node_cong) simp
  have nx: "next_of ?t = (next_of s)(node s p := free_lists s i)"
    and fl: "free_lists ?t = (free_lists s)(i := node s p)"
    by (simp_all add: pmm_list_add_def node_def Let_def)
  show ?thesis
    unfolding lists_hold_def
  proof (intro allI impI)
    fix j assume "j < MAX_ORDER"
    then obtain ps where ps: "set ps = {p. (j, p) \<in> B}"
      and L: "Lst (next_of s) (free_lists s j) (map (node s) ps)"
      using assms(1) by (auto simp: lists_hold_def)
    have "node s p \<notin> node s ` {q. (j, q) \<in> B}"
    proof
      assume "node s p \<in> node s ` {q. (j, q) \<in> B}"
      then obtain q where q: "(j, q) \<in> B" "node s p = node s q" by auto
      then have "q < unat (pmm_max_page s)" using ok(2) block_ok_lt blk_first by blast
      then have "p = q" using q node_inject [OF ok(1) p(1)] by simp
      then show False using q(1) p(2) by simp
    qed
    then have L': "Lst (next_of ?t) (free_lists s j) (map (node s) ps)"
      using L ps by (simp add: nx)
    show "\<exists>ps. set ps = {q. (j, q) \<in> insert (i, p) B} \<and>
        Lst (next_of ?t) (free_lists ?t j) (map (node ?t) ps)"
    proof (cases "j = i")
      case True
      then show ?thesis
        using ps L' node_nonzero [OF ok(1) p(1)]
        by (intro exI [of _ "p # ps"]) (auto simp: nx fl)
    next
      case False
      then show ?thesis using ps L' by (intro exI [of _ ps]) (auto simp: fl)
    qed
  qed
qed

lemma wf_list_add:
  assumes wf: "pmm_wf s B H" and i: "i < MAX_ORDER" "2 ^ i dvd p" and sub: "block i p \<subseteq> H"
  shows "pmm_wf (pmm_list_add s i (page_addr p)) (insert (i, p) B) (H - block i p)"
proof -
  note D = pmm_wfD [OF wf]
  have ok: "block_ok s (i, p)" by (rule hand_block_ok [OF wf i sub])
  have p: "p < unat (pmm_max_page s)" using ok block_ok_lt blk_first by blast
  have disj: "block i p \<inter> pages_of B = {}" using sub D(6) by blast
  then have "(j, p) \<notin> B" for j by (auto dest: mem_pages_of)
  then have "lists_hold (pmm_list_add s i (page_addr p)) (insert (i, p) B)"
    using lists_hold_add D(1,2,4) p by blast
  moreover have "blocks_disjoint (insert (i, p) B)"
    using D(3) disj by (fastforce simp: blocks_disjoint_def pages_of_def)
  moreover have "(pages_of (insert (i, p) B) \<union> (H - block i p)) = pages_of B \<union> H"
    using sub by (auto simp: pages_of_insert)
  moreover have "(H - block i p) \<inter> pages_of (insert (i, p) B) = {}"
    using D(6) by (auto simp: pages_of_insert)
  ultimately show ?thesis
    using D(1,2,5,7) ok by (auto simp: pmm_wf_def)
qed

section \<open>Popping and searching a list\<close>

lemma wf_delete:
  assumes wf: "pmm_wf s B H" and b: "(i, p) \<in> B"
    and t: "lists_hold t (B - {(i, p)})" "pmm_max_page t = pmm_max_page s"
      "hhdm_offset t = hhdm_offset s" "bitmap t = bitmap s"
  shows "pmm_wf t (B - {(i, p)}) (H \<union> block i p)"
proof -
  note D = pmm_wfD [OF wf]
  have ok: "block_ok s (i, p)" using D(2) b .
  have "hhdm_ok t" "\<And>b. block_ok t b \<longleftrightarrow> block_ok s b" "\<And>x. bitmap_test t x \<longleftrightarrow> bitmap_test s x"
    using D(1) t by (simp_all add: pmm_cong [of t s])
  moreover have "pages_of (B - {(i, p)}) = pages_of B - block i p"
    using pages_of_delete [OF D(3) b] .
  moreover have "block i p \<subseteq> pages_of B" using b by (auto simp: pages_of_def)
  moreover have "block i p \<subseteq> {0<..<unat (pmm_max_page s)}"
    using ok by (auto simp: block_ok_def blk_def)
  moreover have "blocks_disjoint (B - {(i, p)})"
    using D(3) by (simp add: blocks_disjoint_def)
  ultimately show ?thesis
    using D(2,5,6,7) t(1,2) by (auto simp: pmm_wf_def)
qed

lemma lists_hold_pop:
  assumes "lists_hold s B" "i < MAX_ORDER" "free_lists s i \<noteq> 0"
  obtains p where "(i, p) \<in> B" "free_lists s i = node s p"
    "lists_hold (s\<lparr>free_lists := (free_lists s)(i := next_of s (free_lists s i))\<rparr>) (B - {(i, p)})"
proof -
  let ?t = "s\<lparr>free_lists := (free_lists s)(i := next_of s (free_lists s i))\<rparr>"
  obtain ps where ps: "set ps = {p. (i, p) \<in> B}"
    and L: "Lst (next_of s) (free_lists s i) (map (node s) ps)"
    using assms(1,2) by (auto simp: lists_hold_def)
  then obtain p qs where pq: "ps = p # qs" using assms(3) by (cases ps) auto
  have "p \<notin> set qs" using Lst_distinct [OF L] pq by (auto simp: distinct_map)
  then have qs: "set qs = {q. (i, q) \<in> B - {(i, p)}}" using ps pq by auto
  have "lists_hold ?t (B - {(i, p)})"
    unfolding lists_hold_def
  proof (intro allI impI)
    fix j assume "j < MAX_ORDER"
    show "\<exists>ps. set ps = {q. (j, q) \<in> B - {(i, p)}} \<and>
        Lst (next_of ?t) (free_lists ?t j) (map (node ?t) ps)"
    proof (cases "j = i")
      case True
      have "Lst (next_of ?t) (free_lists ?t j) (map (node ?t) qs)" using L pq True by simp
      then show ?thesis using qs True by blast
    next
      case False
      then have "{q. (j, q) \<in> B - {(i, p)}} = {q. (j, q) \<in> B}" "free_lists ?t j = free_lists s j"
        by auto
      then show ?thesis using assms(1) \<open>j < MAX_ORDER\<close> by (simp add: lists_hold_def)
    qed
  qed
  moreover have "(i, p) \<in> B" "free_lists s i = node s p" using ps L pq by auto
  ultimately show ?thesis using that by blast
qed

lemma wf_pop:
  assumes wf: "pmm_wf s B H" and i: "i < MAX_ORDER" "free_lists s i \<noteq> 0"
  obtains p where "(i, p) \<in> B" "free_lists s i = node s p"
    "pmm_wf (s\<lparr>free_lists := (free_lists s)(i := next_of s (free_lists s i))\<rparr>)
       (B - {(i, p)}) (H \<union> block i p)"
proof -
  obtain p where p: "(i, p) \<in> B" "free_lists s i = node s p"
    "lists_hold (s\<lparr>free_lists := (free_lists s)(i := next_of s (free_lists s i))\<rparr>) (B - {(i, p)})"
    using lists_hold_pop [OF pmm_wfD(4) [OF wf] i] by blast
  then show ?thesis using that wf_delete [OF wf p(1) p(3)] by simp
qed

lemma list_contains_loop_correct:
  assumes "hhdm_ok s" "p < unat (pmm_max_page s)"
    and "Lst (next_of s) cur (map (node s) ps)" "\<forall>q\<in>set ps. q < unat (pmm_max_page s)"
  shows "list_contains_loop s cur (page_addr p) = Some (p \<in> set ps)"
  using assms(3,4)
proof (induction ps arbitrary: cur)
  case Nil
  then show ?case by (simp add: list_contains_loop.simps)
next
  case (Cons q ps)
  then show ?case
    using page_addr_inject [OF assms(1,2), of q]
    by (subst list_contains_loop.simps) auto
qed

lemma wf_contains:
  assumes wf: "pmm_wf s B H" and i: "i < MAX_ORDER" "p < unat (pmm_max_page s)"
  shows "pmm_list_contains s i (page_addr p) = Some ((i, p) \<in> B)"
proof -
  obtain ps where ps: "set ps = {p. (i, p) \<in> B}"
    and L: "Lst (next_of s) (free_lists s i) (map (node s) ps)"
    using pmm_wfD(4) [OF wf] i(1) by (auto simp: lists_hold_def)
  have "\<forall>q\<in>set ps. q < unat (pmm_max_page s)" using ps wf_first_lt [OF wf] by auto
  then have "list_contains_loop s (free_lists s i) (page_addr p) = Some (p \<in> set ps)"
    by (rule list_contains_loop_correct [OF pmm_wfD(1) [OF wf] i(2) L])
  then show ?thesis using ps by (simp add: pmm_list_contains_def)
qed

lemma list_remove_loop_correct:
  assumes "hhdm_ok s" "p < unat (pmm_max_page s)"
    and "Lst (next_of s) cur (map (node s) ps)" "\<forall>q\<in>set ps. q < unat (pmm_max_page s)"
    and "p \<in> set ps"
  shows "\<exists>us vs. ps = us @ p # vs \<and>
    list_remove_loop s prev cur (page_addr p) =
      Some (store_link s (if us = [] then prev else Next (node s (last us))) (next_of s (node s p)))"
  using assms(3-)
proof (induction ps arbitrary: cur prev)
  case (Cons q ps)
  have cur: "cur = node s q" "cur \<noteq> 0" using Cons.prems by auto
  show ?case
  proof (cases "q = p")
    case True
    then show ?thesis
      using cur by (intro exI [of _ "[]"] exI [of _ ps]) (simp add: list_remove_loop.simps)
  next
    case False
    then have "cur - hhdm_offset s \<noteq> page_addr p"
      using page_addr_inject [OF assms(1), of q p] Cons.prems assms(2) cur by auto
    then have step: "list_remove_loop s prev cur (page_addr p) =
        list_remove_loop s (Next cur) (next_of s cur) (page_addr p)"
      using cur by (subst list_remove_loop.simps) simp
    obtain us vs where "ps = us @ p # vs" and
      "list_remove_loop s (Next cur) (next_of s cur) (page_addr p) =
       Some (store_link s (if us = [] then Next cur else Next (node s (last us))) (next_of s (node s p)))"
      using Cons.IH [of "next_of s cur" "Next cur"] Cons.prems cur False by auto
    then show ?thesis
      using step cur by (intro exI [of _ "q # us"] exI [of _ vs]) auto
  qed
qed simp

section \<open>Unlinking a block, marking and clearing a range\<close>

lemma store_link_frame [simp]:
  "pmm_total_pages (store_link s l v) = pmm_total_pages s"
  "pmm_free_pages (store_link s l v) = pmm_free_pages s"
  "pmm_bitmap (store_link s l v) = pmm_bitmap s"
  "pmm_max_page (store_link s l v) = pmm_max_page s"
  "hhdm_offset (store_link s l v) = hhdm_offset s"
  "bitmap (store_link s l v) = bitmap s"
  "node (store_link s l v) = node s"
  by (cases l; simp)+

text \<open>Unlinking the node of block \<open>p\<close> from the list of its order.\<close>

lemma lists_hold_unlink:
  assumes hold: "lists_hold s B" and ok: "hhdm_ok s" "\<And>b. b \<in> B \<Longrightarrow> block_ok s b"
    and dj: "blocks_disjoint B" and i: "i < MAX_ORDER"
    and ps: "set (us @ p # vs) = {q. (i, q) \<in> B}"
    and L: "Lst (next_of s) (free_lists s i) (map (node s) (us @ p # vs))"
  shows "lists_hold (store_link s (if us = [] then Head i else Next (node s (last us)))
     (next_of s (node s p))) (B - {(i, p)})"
    (is "lists_hold ?t _")
  unfolding lists_hold_def
proof (intro allI impI)
  fix j assume j: "j < MAX_ORDER"
  have lt: "\<And>k q. (k, q) \<in> B \<Longrightarrow> q < unat (pmm_max_page s)"
    using ok(2) block_ok_lt blk_first by blast
  have "distinct (us @ p # vs)" using Lst_distinct [OF L] unfolding distinct_map by blast
  then have set': "set (us @ vs) = {q. (i, q) \<in> B - {(i, p)}}" using ps by auto
  show "\<exists>qs. set qs = {q. (j, q) \<in> B - {(i, p)}} \<and>
      Lst (next_of ?t) (free_lists ?t j) (map (node ?t) qs)"
  proof (cases "j = i")
    case True
    have "Lst (next_of ?t) (free_lists ?t i) (map (node s) (us @ vs))"
    proof (cases us rule: rev_cases)
      case Nil
      then show ?thesis using L by simp
    next
      case (snoc ws w)
      then show ?thesis
        using Lst_unlink [of "next_of s" "free_lists s i" "map (node s) ws" "node s w" "node s p"
            "map (node s) vs"] L by simp
    qed
    then show ?thesis using set' True by (intro exI [of _ "us @ vs"]) simp
  next
    case False
    obtain qs where qs: "set qs = {q. (j, q) \<in> B}"
      "Lst (next_of s) (free_lists s j) (map (node s) qs)"
      using hold j by (auto simp: lists_hold_def)
    have "us \<noteq> [] \<Longrightarrow> node s (last us) \<notin> node s ` set qs"
    proof
      assume "us \<noteq> []" "node s (last us) \<in> node s ` set qs"
      then obtain q where q: "(j, q) \<in> B" "node s (last us) = node s q" using qs by auto
      have u: "(i, last us) \<in> B" using ps \<open>us \<noteq> []\<close> last_in_set by fastforce
      have "last us = q" using q(2) node_inject [OF ok(1) lt [OF u] lt [OF q(1)]] by simp
      then have "blk (i, last us) \<inter> blk (j, q) \<noteq> {}" by auto
      then show False using dj u q(1) False by (auto simp: blocks_disjoint_def)
    qed
    then have "Lst (next_of ?t) (free_lists ?t j) (map (node ?t) qs)"
      using qs(2) False by (cases "us = []") simp_all
    moreover have "{q. (j, q) \<in> B - {(i, p)}} = {q. (j, q) \<in> B}" using False by auto
    ultimately show ?thesis using qs(1) by (intro exI [of _ qs]) simp
  qed
qed

lemma wf_remove:
  assumes wf: "pmm_wf s B H" and b: "(i, p) \<in> B"
  obtains t where "pmm_list_remove s i (page_addr p) = Some t"
    "pmm_wf t (B - {(i, p)}) (H \<union> block i p)"
    "pmm_max_page t = pmm_max_page s" "hhdm_offset t = hhdm_offset s"
    "pmm_free_pages t = pmm_free_pages s" "pmm_total_pages t = pmm_total_pages s"
    "pmm_bitmap t = pmm_bitmap s" "bitmap t = bitmap s"
proof -
  note D = pmm_wfD [OF wf]
  have i: "i < MAX_ORDER" using D(2) [OF b] by (simp add: block_ok_def)
  obtain ps where ps: "set ps = {p. (i, p) \<in> B}"
    and L: "Lst (next_of s) (free_lists s i) (map (node s) ps)"
    using D(4) i by (auto simp: lists_hold_def)
  have lt: "\<forall>q\<in>set ps. q < unat (pmm_max_page s)" and "p \<in> set ps"
    using ps wf_first_lt [OF wf] b by auto
  then obtain us vs where uv: "ps = us @ p # vs" and
    r: "list_remove_loop s (Head i) (free_lists s i) (page_addr p) =
      Some (store_link s (if us = [] then Head i else Next (node s (last us))) (next_of s (node s p)))"
      (is "_ = Some ?t")
    using list_remove_loop_correct [OF D(1) wf_first_lt [OF wf b] L] by blast
  have "lists_hold ?t (B - {(i, p)})"
    using lists_hold_unlink [OF D(4) D(1,2) D(3) i] ps L uv by blast
  then have "pmm_wf ?t (B - {(i, p)}) (H \<union> block i p)"
    by (rule wf_delete [OF wf b]) simp_all
  then show ?thesis using that [of ?t] r by (simp add: pmm_list_remove_def)
qed

section \<open>Bitmap ranges\<close>

lemma of_nat_eq_page:
  "p < unat (m :: u64) \<Longrightarrow> q < unat m \<Longrightarrow> (of_nat p :: u64) = of_nat q \<longleftrightarrow> p = q"
  using unat_of_nat_u64 [of p] unat_of_nat_u64 [of q] unat_lt64 [of m]
  by (metis two64 less_trans)

lemma ex_range: "(\<exists>j<n. q = p + j) \<longleftrightarrow> p \<le> q \<and> q < p + n" for q :: nat
  by (auto simp: le_iff_add)

lemma test_set_range_page:
  assumes "q < unat (pmm_max_page s)" "p + n \<le> unat (pmm_max_page s)"
  shows "bitmap_test (bitmap_set_range s (of_nat p) n) (of_nat q) \<longleftrightarrow>
    q \<in> {p..<p + n} \<or> bitmap_test s (of_nat q)"
proof -
  have "(\<exists>j<n. (of_nat q :: u64) = of_nat p + of_nat j) \<longleftrightarrow> (\<exists>j<n. q = p + j)"
    using assms by (auto simp: of_nat_eq_page [of _ "pmm_max_page s"] simp flip: of_nat_add)
  then show ?thesis by (simp add: bitmap_test_set_range ex_range)
qed

lemma test_clear_range_page:
  assumes "q < unat (pmm_max_page s)" "p + n \<le> unat (pmm_max_page s)"
  shows "bitmap_test (bitmap_clear_range s (of_nat p) n) (of_nat q) \<longleftrightarrow>
    q \<notin> {p..<p + n} \<and> bitmap_test s (of_nat q)"
proof -
  have "(\<exists>j<n. (of_nat q :: u64) = of_nat p + of_nat j) \<longleftrightarrow> (\<exists>j<n. q = p + j)"
    using assms by (auto simp: of_nat_eq_page [of _ "pmm_max_page s"] simp flip: of_nat_add)
  then show ?thesis by (simp add: bitmap_test_clear_range ex_range) blast
qed

lemma set_range_cong [simp]:
  "hhdm_ok (bitmap_set_range s p n) = hhdm_ok s"
  "block_ok (bitmap_set_range s p n) b = block_ok s b"
  "lists_hold (bitmap_set_range s p n) B = lists_hold s B"
  "node (bitmap_set_range s p n) = node s"
  by (simp_all add: hhdm_ok_def block_ok_def lists_hold_def node_def [abs_def])

lemma clear_range_cong [simp]:
  "hhdm_ok (bitmap_clear_range s p n) = hhdm_ok s"
  "block_ok (bitmap_clear_range s p n) b = block_ok s b"
  "lists_hold (bitmap_clear_range s p n) B = lists_hold s B"
  "node (bitmap_clear_range s p n) = node s"
  by (simp_all add: hhdm_ok_def block_ok_def lists_hold_def node_def [abs_def])

lemma wf_set_range:
  assumes wf: "pmm_wf s B H" and sub: "block i p \<subseteq> H"
  shows "pmm_wf (bitmap_set_range s (of_nat p) (2 ^ i)) B (H - block i p)"
proof -
  note D = pmm_wfD [OF wf]
  have "block i p \<subseteq> {0..<unat (pmm_max_page s)}" using sub D(5) by force
  then have "p + 2 ^ i \<le> unat (pmm_max_page s)" by (simp add: blk_subset_iff)
  then have "bitmap_test (bitmap_set_range s (of_nat p) (2 ^ i)) (of_nat q) \<longleftrightarrow>
      q \<notin> pages_of B \<union> (H - block i p)" if "q < unat (pmm_max_page s)" for q
    using test_set_range_page [OF that] D(6) D(7) [OF that] sub by (auto simp: mem_blk)
  then show ?thesis using D by (auto simp: pmm_wf_def)
qed

lemma wf_clear_range:
  assumes wf: "pmm_wf s B H" and r: "0 < p" "p + 2 ^ i \<le> unat (pmm_max_page s)"
    and disj: "block i p \<inter> pages_of B = {}"
  shows "pmm_wf (bitmap_clear_range s (of_nat p) (2 ^ i)) B (H \<union> block i p)"
proof -
  note D = pmm_wfD [OF wf]
  have "bitmap_test (bitmap_clear_range s (of_nat p) (2 ^ i)) (of_nat q) \<longleftrightarrow>
      q \<notin> pages_of B \<union> (H \<union> block i p)" if "q < unat (pmm_max_page s)" for q
    using test_clear_range_page [OF that r(2)] D(7) [OF that] by (auto simp: mem_blk)
  moreover have "block i p \<subseteq> {0<..<unat (pmm_max_page s)}" using r by (auto simp: blk_def)
  ultimately show ?thesis using D disj by (auto simp: pmm_wf_def)
qed

end
