(* ===== verification/Pmm_Alloc.thy ===== *)
theory Pmm_Alloc
  imports Pmm_Invariant
begin

text \<open>
  Correctness of allocation (\<^verbatim>\<open>palloc_order\<close>) and release (\<^verbatim>\<open>pfree_order\<close>) over the
  invariant of \<open>Pmm_Invariant\<close>: splitting, marking, coalescing and the page accounting.
\<close>

section \<open>Allocation\<close>

lemma page_addr_add: "page_addr p + push_bit i PAGE_SIZE = page_addr (p + 2 ^ i)"
  by (simp add: page_addr_def PAGE_SIZE_def push_bit_eq_mult distrib_right)

lemma page_addr_code [code]: "page_addr p = of_nat p * 4096"
  by (simp add: page_addr_def)

lemma page_addr_mult: "of_nat p * PAGE_SIZE = page_addr p"
  by (simp add: page_addr_def PAGE_SIZE_def)

lemma page_addr_div: "p * 4096 < 2 ^ 64 \<Longrightarrow> page_addr p div PAGE_SIZE = of_nat p"
  unfolding PAGE_SIZE_def
  by (rule word_unat_eq_iff [THEN iffD2]) (simp add: unat_div unat_page_addr unat_of_nat_u64)

lemma wf_page_bound: "hhdm_ok s \<Longrightarrow> p < unat (pmm_max_page s) \<Longrightarrow> p * 4096 < 2 ^ 64"
  by (simp add: hhdm_ok_def)

text \<open>What an allocation leaves alone.\<close>

definition pmm_same_config :: "pmm \<Rightarrow> pmm \<Rightarrow> bool" where
  "pmm_same_config s t \<longleftrightarrow> pmm_max_page t = pmm_max_page s \<and> hhdm_offset t = hhdm_offset s \<and>
     pmm_bitmap t = pmm_bitmap s \<and> pmm_total_pages t = pmm_total_pages s"

lemma split_block_frame:
  "pmm_same_config s (split_block s a order i) \<and>
   pmm_free_pages (split_block s a order i) = pmm_free_pages s \<and>
   bitmap (split_block s a order i) = bitmap s"
proof (induction s a order i rule: split_block.induct)
  case (1 s a order i)
  then show ?case
    by (subst (1 2 3) split_block.simps) (auto simp: pmm_same_config_def)
qed

lemma wf_split_block:
  assumes "pmm_wf s B H" "block i p \<subseteq> H" "order \<le> i" "i < MAX_ORDER" "2 ^ i dvd p"
  shows "\<exists>B'. pmm_wf (split_block s (page_addr p) order i) B' (H - (block i p - block order p))"
  using assms
proof (induction i arbitrary: s B H)
  case 0
  then show ?case by (auto simp: split_block.simps)
next
  case (Suc i)
  show ?case
  proof (cases "order = Suc i")
    case True
    then show ?thesis using Suc.prems by (auto simp: split_block.simps)
  next
    case False
    let ?t = "pmm_list_add s i (page_addr (p + 2 ^ i))" and ?H = "H - block i (p + 2 ^ i)"
    have d: "2 ^ i dvd p" using Suc.prems(5) by (rule dvd_trans [rotated]) simp
    have sub: "block i (p + 2 ^ i) \<subseteq> H" "block i p \<subseteq> ?H"
      using Suc.prems(2) blk_halves [of i p] blk_halves_disjoint [of i p] by auto
    have "pmm_wf ?t (insert (i, p + 2 ^ i) B) ?H"
      using wf_list_add [OF Suc.prems(1) _ _ sub(1)] Suc.prems(4) d by simp
    then have "\<exists>B'. pmm_wf (split_block ?t (page_addr p) order i) B'
        (?H - (block i p - block order p))"
      using Suc.IH sub(2) Suc.prems(3,4) False d by simp
    moreover have "split_block s (page_addr p) order (Suc i) = split_block ?t (page_addr p) order i"
      using Suc.prems(3) False by (subst split_block.simps) (simp add: page_addr_add)
    moreover have "block order p \<subseteq> block i p"
      using Suc.prems(3) False by (auto simp: blk_def intro: less_le_trans power_increasing)
    then have "?H - (block i p - block order p) = H - (block (Suc i) p - block order p)"
      using blk_halves [of i p] blk_halves_disjoint [of i p] by blast
    ultimately show ?thesis by simp
  qed
qed

text \<open>The outcome of taking the head block of list \<open>i\<close>.\<close>

definition palloc_take :: "pmm \<Rightarrow> nat \<Rightarrow> nat \<Rightarrow> u64 \<times> pmm" where
  "palloc_take s order i =
     (let addr = free_lists s i - hhdm_offset s;
          s = s\<lparr>free_lists := (free_lists s)(i := next_of s (free_lists s i))\<rparr>;
          s = split_block s addr order i;
          s = bitmap_set_range s (addr div PAGE_SIZE) (2 ^ order);
          s = s\<lparr>pmm_free_pages := pmm_free_pages s - push_bit order 1\<rparr>
      in (addr, s))"

lemma palloc_loop_take:
  "palloc_loop s order i =
     (if i < MAX_ORDER
      then if free_lists s i = 0 then palloc_loop s order (Suc i) else palloc_take s order i
      else (0, s))"
  by (subst palloc_loop.simps) (simp add: palloc_take_def)

definition alloc_ok :: "pmm \<Rightarrow> nat \<Rightarrow> u64 \<Rightarrow> pmm \<Rightarrow> bool" where
  "alloc_ok s order a t \<longleftrightarrow> (\<exists>p. a = page_addr p \<and> block_ok s (order, p) \<and>
     block order p \<subseteq> free_set s \<and> free_set t = free_set s - block order p) \<and>
     pmm_inv t \<and> pmm_same_config s t \<and> pmm_free_pages t = pmm_free_pages s - 2 ^ order"

lemma palloc_take_ok:
  assumes wf: "pmm_wf s B {}" and i: "order \<le> i" "i < MAX_ORDER" "free_lists s i \<noteq> 0"
    and r: "palloc_take s order i = (a, t)"
  shows "alloc_ok s order a t"
proof -
  let ?s1 = "s\<lparr>free_lists := (free_lists s)(i := next_of s (free_lists s i))\<rparr>"
  obtain p where p: "(i, p) \<in> B" "free_lists s i = node s p"
    and wf1: "pmm_wf ?s1 (B - {(i, p)}) (block i p)"
    using wf_pop [OF wf i(2,3)] by auto
  have ok: "block_ok s (i, p)" using pmm_wfD(2) [OF wf p(1)] .
  have lt: "p < unat (pmm_max_page s)" using ok block_ok_lt blk_first by blast
  define s2 where "s2 = split_block ?s1 (page_addr p) order i"
  have dv: "2 ^ i dvd p" using ok by (simp add: block_ok_def)
  have sub: "block order p \<subseteq> block i p"
    using i(1) by (auto simp: blk_def intro: less_le_trans power_increasing)
  then have "block i p - (block i p - block order p) = block order p" by blast
  then obtain B' where wf2: "pmm_wf s2 B' (block order p)"
    using wf_split_block [OF wf1 subset_refl i(1,2) dv] unfolding s2_def by auto
  have fr: "pmm_same_config s s2" "pmm_free_pages s2 = pmm_free_pages s" "bitmap s2 = bitmap s"
    using split_block_frame [of ?s1 "page_addr p" order i]
    by (simp_all add: s2_def pmm_same_config_def)
  define s3 where "s3 = bitmap_set_range s2 (of_nat p) (2 ^ order)"
  have wf3: "pmm_wf s3 B' {}"
    using wf_set_range [OF wf2 subset_refl] by (simp add: s3_def)
  have "page_addr p div PAGE_SIZE = of_nat p"
    by (rule page_addr_div [OF wf_page_bound [OF pmm_wfD(1) [OF wf] lt]])
  then have res: "a = page_addr p" "t = s3\<lparr>pmm_free_pages := pmm_free_pages s3 - 2 ^ order\<rparr>"
    using r p(2) by (auto simp: palloc_take_def Let_def s2_def s3_def)
  have max: "pmm_max_page s2 = pmm_max_page s" using fr(1) by (simp add: pmm_same_config_def)
  have "pmm_wf t B' {}" using wf3 pmm_wf_cong [of t s3] res(2) by simp
  then have inv: "pmm_inv t" by (auto simp: pmm_inv_def)
  have le: "p + 2 ^ order \<le> unat (pmm_max_page s)"
  proof -
    have "(2 :: nat) ^ order \<le> 2 ^ i" using i(1) by (simp add: power_increasing)
    moreover have "p + 2 ^ i \<le> unat (pmm_max_page s)" using ok by (simp add: block_ok_def)
    ultimately show ?thesis by linarith
  qed
  have oko: "block_ok s (order, p)"
    using ok le i le_imp_power_dvd [of order i "2 :: nat"]
    by (auto simp: block_ok_def intro: dvd_trans)
  have "bitmap_test t (of_nat q) \<longleftrightarrow> q \<in> block order p \<or> bitmap_test s (of_nat q)"
    if "q < unat (pmm_max_page s)" for q
  proof -
    have "bitmap_test t (of_nat q) \<longleftrightarrow> bitmap_test s3 (of_nat q)"
      by (rule bitmap_test_cong) (simp add: res(2))
    also have "\<dots> \<longleftrightarrow> q \<in> {p..<p + 2 ^ order} \<or> bitmap_test s2 (of_nat q)"
      unfolding s3_def by (rule test_set_range_page) (use that le max in simp_all)
    also have "bitmap_test s2 (of_nat q) \<longleftrightarrow> bitmap_test s (of_nat q)"
      by (rule bitmap_test_cong) (rule fr(3))
    finally show ?thesis by (simp add: blk_def)
  qed
  then have fs: "free_set t = free_set s - block order p"
    using max by (auto simp: free_set_def res(2) s3_def)
  have "block order p \<subseteq> free_set s"
    using sub mem_pages_of [OF p(1)] free_set_wf [OF wf] by auto
  then show ?thesis
    using res inv oko fs fr max
    by (auto simp: alloc_ok_def pmm_same_config_def s3_def)
qed

lemma palloc_loop_ok:
  assumes "pmm_wf s B {}" "order \<le> i" "palloc_loop s order i = (a, t)"
  shows "a = 0 \<and> t = s \<and> (\<forall>k. i \<le> k \<and> k < MAX_ORDER \<longrightarrow> free_lists s k = 0) \<or>
    a \<noteq> 0 \<and> alloc_ok s order a t"
  using assms
proof (induction s order i rule: palloc_loop.induct)
  case (1 s order i)
  show ?case
  proof (cases "i < MAX_ORDER")
    case False
    then show ?thesis using "1.prems"(3) by (auto simp: palloc_loop_take)
  next
    case True
    show ?thesis
    proof (cases "free_lists s i = 0")
      case True
      then have "palloc_loop s order (Suc i) = (a, t)"
        using "1.prems"(3) \<open>i < MAX_ORDER\<close> by (subst (asm) palloc_loop_take) simp
      then have "a = 0 \<and> t = s \<and> (\<forall>k. Suc i \<le> k \<and> k < MAX_ORDER \<longrightarrow> free_lists s k = 0) \<or>
          a \<noteq> 0 \<and> alloc_ok s order a t"
        using "1.IH" [OF \<open>i < MAX_ORDER\<close> True "1.prems"(1)] "1.prems"(2) by simp
      then show ?thesis using True by (metis Suc_leI le_neq_implies_less)
    next
      case False
      then have "palloc_take s order i = (a, t)"
        using "1.prems"(3) \<open>i < MAX_ORDER\<close> by (subst (asm) palloc_loop_take) simp
      then have ok: "alloc_ok s order a t"
        by (rule palloc_take_ok [OF "1.prems"(1,2) \<open>i < MAX_ORDER\<close> False])
      then obtain p where p: "a = page_addr p" "block_ok s (order, p)" by (auto simp: alloc_ok_def)
      then have "p < unat (pmm_max_page s)" "0 < p"
        using block_ok_lt blk_first by (blast, simp add: block_ok_def)
      then have "a \<noteq> 0"
        using p(1) unat_page_addr [OF wf_page_bound [OF pmm_wfD(1) [OF "1.prems"(1)]], of p]
        by auto
      then show ?thesis using ok by simp
    qed
  qed
qed

section \<open>Release\<close>

definition buddy :: "nat \<Rightarrow> nat \<Rightarrow> nat" where
  "buddy i p = (if even (p div 2 ^ i) then p + 2 ^ i else p - 2 ^ i)"

lemma buddy_xor:
  assumes "i < 64" "p + 2 ^ i < 2 ^ 64"
  shows "(of_nat p :: u64) XOR push_bit i 1 = of_nat (buddy i p)"
proof -
  have p: "unat (of_nat p :: u64) = p" using assms(2) by (intro unat_of_nat_u64) linarith
  have "buddy i p < 2 ^ 64" using assms(2) by (auto simp: buddy_def)
  then have b: "unat (of_nat (buddy i p) :: u64) = buddy i p" by (rule unat_of_nat_u64)
  have "unat ((of_nat p :: u64) XOR 2 ^ i) = buddy i p"
    using unat_xor_bit_u64 [OF assms(1), of "of_nat p"] unfolding p buddy_def .
  then have "(of_nat p :: u64) XOR 2 ^ i = of_nat (buddy i p)"
    using b by (intro word_unat_eq_iff [THEN iffD2]) simp
  then show ?thesis by simp
qed

lemma buddy_cases:
  assumes "2 ^ i dvd p"
  obtains m where "p = 2 ^ i * (2 * m)" "buddy i p = 2 ^ i * (2 * m) + 2 ^ i"
    | m where "p = 2 ^ i * (2 * m) + 2 ^ i" "buddy i p = 2 ^ i * (2 * m)"
proof -
  obtain k where k: "p = 2 ^ i * k" using assms by (auto elim: dvdE)
  show thesis
  proof (cases "even k")
    case True
    then show thesis using k that(1) [of "k div 2"] by (auto simp: buddy_def)
  next
    case False
    then obtain m where "k = Suc (2 * m)" by (metis oddE Suc_eq_plus1)
    then show thesis using k that(2) [of m] by (auto simp: buddy_def algebra_simps)
  qed
qed

lemma buddy_dvd:
  assumes "2 ^ i dvd p"
  shows "2 ^ i dvd buddy i p" "2 ^ Suc i dvd min p (buddy i p)"
    "block (Suc i) (min p (buddy i p)) = block i p \<union> block i (buddy i p)"
    "block i p \<inter> block i (buddy i p) = {}"
proof -
  define b where "b = buddy i p"
  have "2 ^ i dvd b \<and> 2 ^ Suc i dvd min p b \<and>
    block (Suc i) (min p b) = block i p \<union> block i b \<and> block i p \<inter> block i b = {}"
    using assms
  proof (cases rule: buddy_cases)
    case (1 m)
    then have e: "b = p + 2 ^ i" "2 ^ Suc i dvd p" "2 ^ i dvd p" by (simp_all add: b_def)
    show ?thesis using e by (auto simp: blk_def)
  next
    case (2 m)
    then have e: "p = b + 2 ^ i" "2 ^ Suc i dvd b" "2 ^ i dvd b" by (simp_all add: b_def)
    show ?thesis unfolding e(1) using e(2,3) by (auto simp: blk_def)
  qed
  then show "2 ^ i dvd buddy i p" "2 ^ Suc i dvd min p (buddy i p)"
    "block (Suc i) (min p (buddy i p)) = block i p \<union> block i (buddy i p)"
    "block i p \<inter> block i (buddy i p) = {}" by (simp_all add: b_def)
qed

lemma buddy_words:
  assumes wf: "pmm_wf s B (block i p)" and i: "i < MAX_ORDER" "2 ^ i dvd p"
  shows "(of_nat p :: u64) XOR push_bit i 1 = of_nat (buddy i p)"
    "unat (of_nat (buddy i p) :: u64) = buddy i p" "unat (of_nat p :: u64) = p"
proof -
  have "block_ok s (i, p)" by (rule hand_block_ok [OF wf i subset_refl])
  then have lt: "p < unat (pmm_max_page s)" using block_ok_lt blk_first by blast
  have pb: "p * 4096 < 2 ^ 64" by (rule wf_page_bound [OF pmm_wfD(1) [OF wf] lt])
  have i10: "(2 :: nat) ^ i \<le> 2 ^ 10" using i by (intro power_increasing) (auto simp: MAX_ORDER_def)
  then show "(of_nat p :: u64) XOR push_bit i 1 = of_nat (buddy i p)"
    using pb i by (intro buddy_xor) (auto simp: MAX_ORDER_def)
  have "buddy i p < 2 ^ 64" using pb i10 by (auto simp: buddy_def)
  then show "unat (of_nat (buddy i p) :: u64) = buddy i p" by (rule unat_of_nat_u64)
  show "unat (of_nat p :: u64) = p" using pb by (intro unat_of_nat_u64) simp
qed

definition mergeable :: "pmm \<Rightarrow> (nat \<times> nat) set \<Rightarrow> nat \<Rightarrow> nat \<Rightarrow> bool" where
  "mergeable s B i p \<longleftrightarrow> i < MAX_ORDER - 1 \<and> buddy i p < unat (pmm_max_page s) \<and>
     \<not> bitmap_test s (of_nat (buddy i p)) \<and> (i, buddy i p) \<in> B"

lemma coalesce_stop:
  assumes wf: "pmm_wf s B (block i p)" and i: "i < MAX_ORDER" "2 ^ i dvd p"
    and m: "\<not> mergeable s B i p"
  shows "coalesce s (of_nat p) i = Some (s, of_nat p, i)"
proof (cases "i < MAX_ORDER - 1 \<and> buddy i p < unat (pmm_max_page s) \<and>
    \<not> bitmap_test s (of_nat (buddy i p))")
  case True
  then have "pmm_list_contains s i (page_addr (buddy i p)) = Some False"
    using wf_contains [OF wf i(1), of "buddy i p"] m by (simp add: mergeable_def)
  then show ?thesis
    using True buddy_words [OF wf i]
    by (subst coalesce.simps) (simp add: Let_def page_addr_mult word_le_nat_alt)
next
  case False
  then show ?thesis
    using buddy_words [OF wf i] by (subst coalesce.simps) (auto simp: Let_def word_le_nat_alt)
qed

lemma coalesce_merge:
  assumes wf: "pmm_wf s B (block i p)" and i: "i < MAX_ORDER" "2 ^ i dvd p"
    and m: "mergeable s B i p"
  obtains t q where "coalesce s (of_nat p) i = coalesce t (of_nat q) (Suc i)"
    "pmm_wf t (B - {(i, buddy i p)}) (block (Suc i) q)" "2 ^ Suc i dvd q" "bitmap t = bitmap s"
    "pmm_same_config s t" "pmm_free_pages t = pmm_free_pages s"
proof -
  let ?b = "buddy i p"
  have c: "pmm_list_contains s i (page_addr ?b) = Some True"
    using wf_contains [OF wf i(1), of ?b] m by (simp add: mergeable_def)
  obtain t where t: "pmm_list_remove s i (page_addr ?b) = Some t"
    "pmm_wf t (B - {(i, ?b)}) (block i p \<union> block i ?b)"
    "pmm_max_page t = pmm_max_page s" "hhdm_offset t = hhdm_offset s"
    "pmm_free_pages t = pmm_free_pages s" "pmm_total_pages t = pmm_total_pages s"
    "pmm_bitmap t = pmm_bitmap s" "bitmap t = bitmap s"
    using wf_remove [OF wf, of i ?b] m unfolding mergeable_def by metis
  have "pmm_wf t (B - {(i, ?b)}) (block (Suc i) (min p ?b))"
    using t(2) buddy_dvd(3) [OF i(2)] by simp
  moreover have "coalesce s (of_nat p) i = coalesce t (of_nat (min p ?b)) (Suc i)"
    using m c t(1) buddy_words [OF wf i] unfolding mergeable_def
    by (subst coalesce.simps)
      (auto simp: Let_def page_addr_mult word_le_nat_alt word_less_nat_alt min_def)
  moreover have "pmm_same_config s t" using t by (simp add: pmm_same_config_def)
  ultimately show thesis using that buddy_dvd(2) [OF i(2)] t(5,8) by blast
qed

lemma wf_coalesce:
  assumes "pmm_wf s B (block i p)" "i < MAX_ORDER" "2 ^ i dvd p"
  shows "\<exists>t B' j q. coalesce s (of_nat p) i = Some (t, of_nat q, j) \<and> pmm_wf t B' (block j q) \<and>
    i \<le> j \<and> j < MAX_ORDER \<and> 2 ^ j dvd q \<and> bitmap t = bitmap s \<and> pmm_same_config s t \<and>
    pmm_free_pages t = pmm_free_pages s \<and> (mergeable s B i p \<longrightarrow> i < j)"
  using assms
proof (induction "MAX_ORDER - i" arbitrary: s B i p rule: less_induct)
  case less
  show ?case
  proof (cases "mergeable s B i p")
    case False
    then show ?thesis
      using coalesce_stop [OF less.prems False] less.prems
      by (intro exI [of _ s] exI [of _ B] exI [of _ i] exI [of _ p])
        (simp add: pmm_same_config_def)
  next
    case True
    obtain t q where t: "coalesce s (of_nat p) i = coalesce t (of_nat q) (Suc i)"
      "pmm_wf t (B - {(i, buddy i p)}) (block (Suc i) q)" "2 ^ Suc i dvd q" "bitmap t = bitmap s"
      "pmm_same_config s t" "pmm_free_pages t = pmm_free_pages s"
      using coalesce_merge [OF less.prems True] .
    have i: "MAX_ORDER - Suc i < MAX_ORDER - i" "Suc i < MAX_ORDER"
      using True by (auto simp: mergeable_def)
    obtain u B' j r where u: "coalesce t (of_nat q) (Suc i) = Some (u, of_nat r, j)"
      "pmm_wf u B' (block j r)" "Suc i \<le> j" "j < MAX_ORDER" "2 ^ j dvd r" "bitmap u = bitmap t"
      "pmm_same_config t u" "pmm_free_pages u = pmm_free_pages t"
      using less.hyps [OF i(1) t(2) i(2) t(3)] by blast
    have "pmm_same_config s u" using t(5) u(7) by (simp add: pmm_same_config_def)
    then show ?thesis
      using t u by (intro exI [of _ u] exI [of _ B'] exI [of _ j] exI [of _ r]) simp
  qed
qed

lemma pfree_order_wf:
  assumes wf: "pmm_wf s B {}" and i: "i < MAX_ORDER" "2 ^ i dvd p" "0 < p"
    and r: "p + 2 ^ i \<le> unat (pmm_max_page s)" and dj: "block i p \<inter> free_set s = {}"
  shows "\<exists>t j. pfree_order s (page_addr p) i = Some t \<and> pmm_inv t \<and> pmm_same_config s t \<and>
    free_set t = free_set s \<union> block i p \<and> i \<le> j \<and> j < MAX_ORDER \<and>
    pmm_free_pages t = pmm_free_pages s + 2 ^ j \<and>
    (i < MAX_ORDER - 1 \<and> (i, buddy i p) \<in> B \<longrightarrow> i < j)"
proof -
  have ok: "p < unat (pmm_max_page s)" 
  proof -
    have "(0 :: nat) < 2 ^ i" by simp
    then show ?thesis using r by linarith
  qed
  have d: "page_addr p div PAGE_SIZE = of_nat p"
    by (rule page_addr_div [OF wf_page_bound [OF pmm_wfD(1) [OF wf] ok]])
  define s1 where "s1 = bitmap_clear_range s (of_nat p) (2 ^ i)"
  have "block i p \<inter> pages_of B = {}" using dj free_set_wf [OF wf] by auto
  then have wf1: "pmm_wf s1 B (block i p)"
    using wf_clear_range [OF wf i(3) r] by (simp add: s1_def)
  obtain s2 B' j q where c: "coalesce s1 (of_nat p) i = Some (s2, of_nat q, j)"
    and wf2: "pmm_wf s2 B' (block j q)" and j: "i \<le> j" "j < MAX_ORDER" "2 ^ j dvd q"
    and fr: "bitmap s2 = bitmap s1" "pmm_same_config s1 s2" "pmm_free_pages s2 = pmm_free_pages s1"
    and mrg: "mergeable s1 B i p \<longrightarrow> i < j"
    using wf_coalesce [OF wf1 i(1,2)] by blast
  define s3 where "s3 = pmm_list_add s2 j (page_addr q)"
  define t where "t = s3\<lparr>pmm_free_pages := pmm_free_pages s3 + 2 ^ j\<rparr>"
  have "pmm_wf s3 (insert (j, q) B') {}"
    using wf_list_add [OF wf2 j(2,3) subset_refl] by (simp add: s3_def)
  then have "pmm_wf t (insert (j, q) B') {}" using pmm_wf_cong [of t s3] by (simp add: t_def)
  then have inv: "pmm_inv t" by (auto simp: pmm_inv_def)
  have res: "pfree_order s (page_addr p) i = Some t"
    by (simp add: pfree_order_def d Let_def c [unfolded s1_def] page_addr_mult t_def s3_def)
  have cfg: "pmm_same_config s t"
    using fr(2) by (simp add: pmm_same_config_def t_def s3_def s1_def)
  have free: "pmm_free_pages t = pmm_free_pages s + 2 ^ j"
    using fr(3) by (simp add: t_def s3_def s1_def)
  have "bitmap_test t (of_nat x) \<longleftrightarrow> x \<notin> block i p \<and> bitmap_test s (of_nat x)"
    if "x < unat (pmm_max_page s)" for x
  proof -
    have "bitmap_test t (of_nat x) \<longleftrightarrow> bitmap_test s1 (of_nat x)"
      by (rule bitmap_test_cong) (simp add: t_def s3_def fr(1))
    also have "\<dots> \<longleftrightarrow> x \<notin> {p..<p + 2 ^ i} \<and> bitmap_test s (of_nat x)"
      unfolding s1_def by (rule test_clear_range_page) (use that r in simp_all)
    finally show ?thesis by (simp add: blk_def)
  qed
  then have "free_set t = free_set s \<union> block i p"
    using cfg i(3) r by (auto simp: free_set_def pmm_same_config_def blk_def)
  moreover have "mergeable s1 B i p" if m: "i < MAX_ORDER - 1" "(i, buddy i p) \<in> B"
  proof -
    have "block_ok s1 (i, buddy i p)" using pmm_wfD(2) [OF wf1 m(2)] .
    then have "buddy i p < unat (pmm_max_page s1)" using block_ok_lt blk_first by blast
    then show ?thesis
      using m wf1 mem_pages_of [OF m(2)] by (auto simp: mergeable_def pmm_wf_def)
  qed
  ultimately show ?thesis using res inv cfg free j mrg by blast
qed

end
