(* ===== verification/Pmm_Init.thy ===== *)
theory Pmm_Init
  imports Pmm_Alloc
begin

text \<open>
  Correctness of \<^verbatim>\<open>pmm_init\<close>. What the boot loader promises of its memory map (Limine protocol:
  usable entries are page aligned, do not overlap any other entry and leave out page 0; physical
  addresses have at most 52 bits) is \<open>memmap_ok\<close>.
\<close>

section \<open>The memory map\<close>

definition entry_end :: "limine_memmap_entry \<Rightarrow> nat" where
  "entry_end e = unat (me_base e) + unat (me_length e)"

definition usable :: "limine_memmap_entry \<Rightarrow> bool" where
  "usable e \<longleftrightarrow> me_type e = LIMINE_MEMMAP_USABLE"

definition entry_ok :: "limine_memmap_entry \<Rightarrow> bool" where
  "entry_ok e \<longleftrightarrow> entry_end e \<le> 2 ^ 52 \<and>
     (usable e \<longrightarrow> 4096 \<le> unat (me_base e) \<and> 4096 dvd unat (me_base e) \<and> 4096 dvd unat (me_length e))"

fun memmap_ok :: "limine_memmap_entry list \<Rightarrow> bool" where
  "memmap_ok [] \<longleftrightarrow> True"
| "memmap_ok (e # es) \<longleftrightarrow> entry_ok e \<and> memmap_ok es \<and>
     (usable e \<longrightarrow> (\<forall>f\<in>set es. usable f \<longrightarrow>
        entry_end e \<le> unat (me_base f) \<or> entry_end f \<le> unat (me_base e)))"

definition entry_pages :: "limine_memmap_entry \<Rightarrow> nat set" where
  "entry_pages e = (if usable e then {unat (me_base e) div 4096 ..< entry_end e div 4096} else {})"

definition usable_pages :: "limine_memmap_entry list \<Rightarrow> nat set" where
  "usable_pages es = (\<Union>e\<in>set es. entry_pages e)"

definition shrunk :: "limine_memmap_entry \<Rightarrow> limine_memmap_entry \<Rightarrow> bool" where
  "shrunk f f' \<longleftrightarrow> usable f' = usable f \<and> entry_end f' = entry_end f \<and>
     unat (me_base f) \<le> unat (me_base f')"

definition pages_at :: "u64 \<Rightarrow> u64 \<Rightarrow> nat set" where
  "pages_at phys sz = {unat phys div 4096 ..< (unat phys + unat sz) div 4096}"

definition bitmap_covers :: "nat \<Rightarrow> bool" where
  "bitmap_covers n \<longleftrightarrow> n mod 8 = 0 \<or> n div 8 mod 4096 \<noteq> 0"

section \<open>Adding a region\<close>

lemma disjoint_mono: "A \<subseteq> A' \<Longrightarrow> B \<subseteq> B' \<Longrightarrow> A' \<inter> B' = {} \<Longrightarrow> A \<inter> B = {}"
  by blast

lemma page_addr_less_iff:
  assumes "c * 4096 < 2 ^ 64" "e * 4096 < 2 ^ 64"
  shows "page_addr c < page_addr e \<longleftrightarrow> c < e" "page_addr c \<le> page_addr e \<longleftrightarrow> c \<le> e"
  using assms by (simp_all add: word_less_nat_alt word_le_nat_alt unat_page_addr)

lemma page_addr_mod_iff:
  assumes "c * 4096 < 2 ^ 64" "k \<le> 20"
  shows "page_addr c mod push_bit k PAGE_SIZE = 0 \<longleftrightarrow> 2 ^ k dvd c"
proof -
  have le: "(2 :: nat) ^ k \<le> 2 ^ 20" using assms(2) by (intro power_increasing) auto
  then have s: "unat (push_bit k PAGE_SIZE) = 2 ^ k * 4096"
    using page_addr_add [of 0 k] unat_page_addr [of "2 ^ k"] by (simp add: page_addr_def)
  have "page_addr c mod push_bit k PAGE_SIZE = 0 \<longleftrightarrow> unat (page_addr c mod push_bit k PAGE_SIZE) = 0"
    by (simp add: unat_eq_0)
  also have "\<dots> \<longleftrightarrow> (c * 4096) mod (2 ^ k * 4096) = 0"
    unfolding unat_mod s unat_page_addr [OF assms(1)] ..
  also have "\<dots> \<longleftrightarrow> 2 ^ k dvd c" by (simp flip: dvd_eq_mod_eq_0)
  finally show ?thesis .
qed

lemma init_order_ok:
  assumes "c < e" "e * 4096 \<le> 2 ^ 52" "k < MAX_ORDER" "2 ^ k dvd c" "c + 2 ^ k \<le> e"
    and "init_order (page_addr c) (page_addr e) k = j"
  shows "j < MAX_ORDER \<and> 2 ^ j dvd c \<and> c + 2 ^ j \<le> e"
  using assms(3-)
proof (induction "MAX_ORDER - k" arbitrary: k rule: less_induct)
  case less
  show ?case
  proof (cases "k < MAX_ORDER - 1")
    case False
    then have "j = k" using less.prems(4) by (subst (asm) init_order.simps) simp
    then show ?thesis using less.prems by simp
  next
    case True
    have le: "(2 :: nat) ^ (k + 1) \<le> 2 ^ 10"
      using True by (intro power_increasing) (auto simp: MAX_ORDER_def)
    have c: "(c + 2 ^ (k + 1)) * 4096 < 2 ^ 64" "c * 4096 < 2 ^ 64" "e * 4096 < 2 ^ 64"
      using le assms(1,2) by simp_all
    have g: "page_addr c + push_bit (k + 1) PAGE_SIZE > page_addr e \<longleftrightarrow> e < c + 2 ^ (k + 1)"
      unfolding page_addr_add using page_addr_less_iff(1) [OF c(3,1)] .
    have m: "page_addr c mod push_bit (k + 1) PAGE_SIZE = 0 \<longleftrightarrow> 2 ^ (k + 1) dvd c"
      using page_addr_mod_iff [OF c(2), of "k + 1"] True by (simp add: MAX_ORDER_def)
    have step: "init_order (page_addr c) (page_addr e) k =
      (if e < c + 2 ^ (k + 1) \<or> \<not> 2 ^ (k + 1) dvd c then k else init_order (page_addr c) (page_addr e) (k + 1))"
      using True unfolding g [symmetric] m [symmetric] by (subst init_order.simps) (simp only: Let_def if_True)
    show ?thesis
    proof (cases "e < c + 2 ^ (k + 1) \<or> \<not> 2 ^ (k + 1) dvd c")
      case True
      then show ?thesis using less.prems step by simp
    next
      case False
      then have "init_order (page_addr c) (page_addr e) (k + 1) = j"
        using step less.prems(4) by (simp only: if_False)
      moreover have "MAX_ORDER - (k + 1) < MAX_ORDER - k" "k + 1 < MAX_ORDER" using True by auto
      moreover have "2 ^ (k + 1) dvd c" "c + 2 ^ (k + 1) \<le> e" using False by (simp_all add: not_less)
      ultimately show ?thesis using less.hyps by blast
    qed
  qed
qed

lemma init_add_block_wf:
  assumes wf: "pmm_wf s B {}" and i: "i < MAX_ORDER" "2 ^ i dvd p" "0 < p"
    and r: "p + 2 ^ i \<le> unat (pmm_max_page s)" and dj: "block i p \<inter> free_set s = {}"
    and t: "t = init_add_block s (page_addr p) i"
  shows "pmm_inv t \<and> pmm_max_page t = pmm_max_page s \<and> hhdm_offset t = hhdm_offset s \<and>
    pmm_bitmap t = pmm_bitmap s \<and> free_set t = free_set s \<union> block i p \<and>
    pmm_total_pages t = pmm_total_pages s + of_nat (2 ^ i) \<and>
    pmm_free_pages t = pmm_free_pages s + of_nat (2 ^ i)"
proof -
  have "(0 :: nat) < 2 ^ i" by simp
  then have lt: "p < unat (pmm_max_page s)" using r by linarith
  have d: "page_addr p div PAGE_SIZE = of_nat p"
    by (rule page_addr_div [OF wf_page_bound [OF pmm_wfD(1) [OF wf] lt]])
  define s1 where "s1 = bitmap_clear_range s (of_nat p) (2 ^ i)"
  have "block i p \<inter> pages_of B = {}" using dj free_set_wf [OF wf] by auto
  then have wf1: "pmm_wf s1 B (block i p)"
    using wf_clear_range [OF wf i(3) r] by (simp add: s1_def)
  define s2 where "s2 = pmm_list_add s1 i (page_addr p)"
  have "pmm_wf s2 (insert (i, p) B) {}"
    using wf_list_add [OF wf1 i(1,2) subset_refl] by (simp add: s2_def)
  moreover have t2: "t = s2\<lparr>pmm_total_pages := pmm_total_pages s2 + 2 ^ i,
      pmm_free_pages := pmm_free_pages s2 + 2 ^ i\<rparr>"
    by (simp add: t init_add_block_def d Let_def s2_def s1_def)
  ultimately have "pmm_wf t (insert (i, p) B) {}" using pmm_wf_cong [of t s2] by simp
  then have "pmm_inv t" by (auto simp: pmm_inv_def)
  moreover have "bitmap_test t (of_nat x) \<longleftrightarrow> x \<notin> block i p \<and> bitmap_test s (of_nat x)"
    if "x < unat (pmm_max_page s)" for x
  proof -
    have "bitmap_test t (of_nat x) \<longleftrightarrow> bitmap_test s1 (of_nat x)"
      by (rule bitmap_test_cong) (simp add: t2 s2_def)
    also have "\<dots> \<longleftrightarrow> x \<notin> {p..<p + 2 ^ i} \<and> bitmap_test s (of_nat x)"
      unfolding s1_def by (rule test_clear_range_page) (use that r in simp_all)
    finally show ?thesis by (simp add: blk_def)
  qed
  then have "free_set t = free_set s \<union> block i p"
    using i(3) r by (auto simp: free_set_def blk_def t2 s2_def s1_def)
  ultimately show ?thesis by (simp add: t2 s2_def s1_def)
qed

lemma init_region_ok:
  assumes "pmm_inv s" "0 < c" "c \<le> e" "e \<le> unat (pmm_max_page s)" "e * 4096 \<le> 2 ^ 52"
    and "{c..<e} \<inter> free_set s = {}"
  shows "\<exists>t. init_region s (page_addr c) (page_addr e) = Some t \<and> pmm_inv t \<and>
    pmm_max_page t = pmm_max_page s \<and> hhdm_offset t = hhdm_offset s \<and>
    pmm_bitmap t = pmm_bitmap s \<and> free_set t = free_set s \<union> {c..<e} \<and>
    pmm_total_pages t = pmm_total_pages s + of_nat (e - c) \<and>
    pmm_free_pages t = pmm_free_pages s + of_nat (e - c)"
  using assms
proof (induction "e - c" arbitrary: s c rule: less_induct)
  case less
  have b: "c * 4096 < 2 ^ 64" "e * 4096 < 2 ^ 64" using less.prems(3,5) by simp_all
  show ?case
  proof (cases "c < e")
    case False
    then show ?thesis
      using less.prems by (subst init_region.simps) (auto simp: page_addr_less_iff [OF b])
  next
    case True
    define j where "j = init_order (page_addr c) (page_addr e) 0"
    have j: "j < MAX_ORDER" "2 ^ j dvd c" "c + 2 ^ j \<le> e"
      using init_order_ok [OF True less.prems(5), of 0 j] True by (auto simp: j_def MAX_ORDER_def)
    define t where "t = init_add_block s (page_addr c) j"
    obtain B where wf: "pmm_wf s B {}" using less.prems(1) by (auto simp: pmm_inv_def)
    have sub: "block j c \<subseteq> {c..<e}" using j(3) by (auto simp: blk_def)
    have t: "pmm_inv t" "pmm_max_page t = pmm_max_page s" "hhdm_offset t = hhdm_offset s"
      "pmm_bitmap t = pmm_bitmap s" "free_set t = free_set s \<union> block j c"
      "pmm_total_pages t = pmm_total_pages s + of_nat (2 ^ j)"
      "pmm_free_pages t = pmm_free_pages s + of_nat (2 ^ j)"
      using init_add_block_wf [OF wf j(1,2) less.prems(2) _ _ t_def] j(3) less.prems(4,6) sub
      by auto
    have step: "init_region s (page_addr c) (page_addr e) = init_region t (page_addr (c + 2 ^ j)) (page_addr e)"
      using True by (subst init_region.simps)
        (simp add: page_addr_less_iff [OF b] Let_def page_addr_add t_def j_def)
    have "{c + 2 ^ j..<e} \<inter> free_set s = {}"
      by (rule disjoint_mono [OF _ subset_refl less.prems(6)]) auto
    moreover have "{c + 2 ^ j..<e} \<inter> block j c = {}" by (auto simp: blk_def)
    ultimately have "{c + 2 ^ j..<e} \<inter> free_set t = {}" using t(5) by (simp add: Int_Un_distrib)
    moreover have "e - (c + 2 ^ j) < e - c" using True by (intro diff_less_mono2) auto
    ultimately obtain u where u: "init_region t (page_addr (c + 2 ^ j)) (page_addr e) = Some u"
      "pmm_inv u" "pmm_max_page u = pmm_max_page t" "hhdm_offset u = hhdm_offset t"
      "pmm_bitmap u = pmm_bitmap t" "free_set u = free_set t \<union> {c + 2 ^ j..<e}"
      "pmm_total_pages u = pmm_total_pages t + of_nat (e - (c + 2 ^ j))"
      "pmm_free_pages u = pmm_free_pages t + of_nat (e - (c + 2 ^ j))"
      using less.hyps [of "c + 2 ^ j" t] t(1,2) j(3) less.prems(4,5) by auto
    have "(of_nat (2 ^ j) :: u64) + of_nat (e - (c + 2 ^ j)) = of_nat (e - c)"
    proof -
      have "2 ^ j + (e - (c + 2 ^ j)) = e - c" using j(3) by simp
      then show ?thesis by (metis of_nat_add)
    qed
    moreover have "block j c \<union> {c + 2 ^ j..<e} = {c..<e}" using j(3) by (auto simp: blk_def)
    ultimately show ?thesis
      using u t step by (auto simp: Un_assoc add.assoc simp del: of_nat_power)
  qed
qed

section \<open>Adding all regions\<close>

lemma aligned_page_addr: "4096 dvd unat a \<Longrightarrow> a = page_addr (unat a div 4096)"
  by (simp add: page_addr_def)

lemma entry_aligned:
  assumes "entry_ok e" "usable e"
  shows "ALIGN_UP (me_base e) PAGE_SIZE = page_addr (unat (me_base e) div 4096)" (is ?up)
    "ALIGN_DOWN (me_base e + me_length e) PAGE_SIZE = page_addr (entry_end e div 4096)" (is ?down)
    "0 < unat (me_base e) div 4096" "entry_end e div 4096 * 4096 = entry_end e"
    "unat (me_base e) div 4096 * 4096 = unat (me_base e)"
proof -
  have a: "4096 dvd unat (me_base e)" "4096 dvd entry_end e" "4096 \<le> unat (me_base e)"
    "entry_end e \<le> 2 ^ 52" "unat (me_base e) \<le> 2 ^ 52"
    using assms by (auto simp: entry_ok_def entry_end_def)
  have n: "unat (me_base e + me_length e) = entry_end e"
    using a(4) by (simp add: entry_end_def unat_plus_u64)
  have up: "unat (ALIGN_UP (me_base e) PAGE_SIZE) = unat (me_base e)"
    using a(1,5) unat_ALIGN_UP [of 12 "me_base e"] by (auto simp: PAGE_SIZE_def elim!: dvdE)
  show ?up using up a(1) by (metis aligned_page_addr word_unat_eq_iff)
  have "unat (ALIGN_DOWN (me_base e + me_length e) PAGE_SIZE) = entry_end e"
    using a(2) n unat_ALIGN_DOWN [of 12 "me_base e + me_length e"]
    by (auto simp: PAGE_SIZE_def elim!: dvdE)
  then show ?down using a(2) by (metis aligned_page_addr)
  show "0 < unat (me_base e) div 4096" "entry_end e div 4096 * 4096 = entry_end e"
    "unat (me_base e) div 4096 * 4096 = unat (me_base e)" using a by auto
qed

lemma init_regions_ok:
  assumes "pmm_inv s" "memmap_ok es" "\<forall>e\<in>set es. entry_end e div 4096 \<le> unat (pmm_max_page s)"
    and "usable_pages es \<inter> free_set s = {}"
  shows "\<exists>t. init_regions s es = Some t \<and> pmm_inv t \<and>
    pmm_max_page t = pmm_max_page s \<and> hhdm_offset t = hhdm_offset s \<and>
    pmm_bitmap t = pmm_bitmap s \<and> free_set t = free_set s \<union> usable_pages es \<and>
    pmm_total_pages t = pmm_total_pages s + of_nat (card (usable_pages es)) \<and>
    pmm_free_pages t = pmm_free_pages s + of_nat (card (usable_pages es))"
  using assms
proof (induction es arbitrary: s)
  case Nil
  then show ?case by (auto simp: usable_pages_def)
next
  case (Cons e es)
  have u: "usable_pages (e # es) = entry_pages e \<union> usable_pages es"
    by (simp add: usable_pages_def)
  show ?case
  proof (cases "usable e")
    case False
    then show ?thesis
      using Cons u by (auto simp: entry_pages_def usable_def)
  next
    case True
    let ?c = "unat (me_base e) div 4096" and ?e = "entry_end e div 4096"
    have ok: "entry_ok e" using Cons.prems(2) by simp
    note al = entry_aligned [OF ok True]
    have ce: "?c \<le> ?e" by (rule div_le_mono) (simp add: entry_end_def)
    have ep: "entry_pages e = {?c..<?e}" using True by (simp add: entry_pages_def)
    have fr: "{?c..<?e} \<inter> free_set s = {}" using Cons.prems(4) ep u by auto
    have "?e * 4096 \<le> 2 ^ 52" using al(4) ok by (simp add: entry_ok_def)
    then obtain t where t: "init_region s (page_addr ?c) (page_addr ?e) = Some t" "pmm_inv t"
      "pmm_max_page t = pmm_max_page s" "hhdm_offset t = hhdm_offset s"
      "pmm_bitmap t = pmm_bitmap s" "free_set t = free_set s \<union> {?c..<?e}"
      "pmm_total_pages t = pmm_total_pages s + of_nat (?e - ?c)"
      "pmm_free_pages t = pmm_free_pages s + of_nat (?e - ?c)"
      using init_region_ok [OF Cons.prems(1) al(3) ce _ _ fr] Cons.prems(3) by auto
    have "entry_pages f \<inter> {?c..<?e} = {}" if "f \<in> set es" for f
    proof (cases "usable f")
      case True
      have "entry_end e \<le> unat (me_base f) \<or> entry_end f \<le> unat (me_base e)"
        using Cons.prems(2) \<open>usable e\<close> True that by auto
      then have "?e \<le> unat (me_base f) div 4096 \<or> entry_end f div 4096 \<le> ?c"
        using div_le_mono by blast
      then show ?thesis using True by (auto simp: entry_pages_def)
    qed (simp add: entry_pages_def)
    then have dj: "usable_pages es \<inter> {?c..<?e} = {}" by (auto simp: usable_pages_def)
    then have "usable_pages es \<inter> free_set t = {}" using Cons.prems(4) u t(6) by auto
    then obtain v where v: "init_regions t es = Some v" "pmm_inv v"
      "pmm_max_page v = pmm_max_page t" "hhdm_offset v = hhdm_offset t"
      "pmm_bitmap v = pmm_bitmap t" "free_set v = free_set t \<union> usable_pages es"
      "pmm_total_pages v = pmm_total_pages t + of_nat (card (usable_pages es))"
      "pmm_free_pages v = pmm_free_pages t + of_nat (card (usable_pages es))"
      using Cons.IH [OF t(2)] Cons.prems(2,3) t(3) by auto
    have "finite (usable_pages es)" by (simp add: usable_pages_def entry_pages_def)
    then have "card (usable_pages (e # es)) = (?e - ?c) + card (usable_pages es)"
      using dj u ep by (simp add: card_Un_disjoint Int_commute)
    moreover have "init_regions s (e # es) = Some v"
      using True v(1) t(1) al(1,2) by (simp add: usable_def)
    ultimately show ?thesis using v t u ep by (auto simp: Un_assoc add.assoc)
  qed
qed

section \<open>Placing the bitmap\<close>

lemma top_addr_loop_ok:
  assumes "\<forall>e\<in>set es. entry_end e \<le> 2 ^ 52" "unat tp \<le> 2 ^ 52"
  shows "unat (top_addr_loop tp es) \<le> 2 ^ 52 \<and> unat tp \<le> unat (top_addr_loop tp es) \<and>
    (\<forall>e\<in>set es. entry_end e \<le> unat (top_addr_loop tp es))"
  using assms
proof (induction es arbitrary: tp)
  case (Cons e es)
  have n: "unat (me_base e + me_length e) = entry_end e"
    using Cons.prems(1) by (simp add: entry_end_def unat_plus_u64)
  let ?tp = "if me_base e + me_length e > tp then me_base e + me_length e else tp"
  have "unat ?tp \<le> 2 ^ 52" "entry_end e \<le> unat ?tp" "unat tp \<le> unat ?tp"
    using Cons.prems n by (auto simp: word_less_nat_alt)
  moreover have "top_addr_loop tp (e # es) = top_addr_loop ?tp es" by (simp add: Let_def)
  ultimately show ?case using Cons.IH [of ?tp] Cons.prems(1) by fastforce
qed simp

lemma memmap_ok_entry: "memmap_ok es \<Longrightarrow> e \<in> set es \<Longrightarrow> entry_ok e"
  by (induction es) auto

lemma shrunk_pages: "shrunk f f' \<Longrightarrow> entry_pages f' \<subseteq> entry_pages f"
proof -
  assume "shrunk f f'"
  then have "usable f' = usable f" "entry_end f' = entry_end f"
    "unat (me_base f) div 4096 \<le> unat (me_base f') div 4096"
    by (auto simp: shrunk_def intro: div_le_mono)
  then show ?thesis by (auto simp: entry_pages_def)
qed

lemma carve_entry:
  assumes ok: "entry_ok e" "usable e" and sz: "4096 dvd unat sz" "sz \<le> me_length e"
    and e': "e' = e\<lparr>me_base := me_base e + sz, me_length := me_length e - sz\<rparr>"
  shows "entry_ok e'" "shrunk e e'" "entry_pages e' = entry_pages e - pages_at (me_base e) sz"
    "pages_at (me_base e) sz \<subseteq> entry_pages e"
proof -
  have le: "unat sz \<le> unat (me_length e)" using sz(2) by (simp add: word_le_nat_alt)
  have b: "unat (me_base e') = unat (me_base e) + unat sz"
    using ok(1) le by (simp add: e' entry_ok_def entry_end_def unat_plus_u64)
  have l: "unat (me_length e') = unat (me_length e) - unat sz"
    using le by (simp add: e' unat_minus_u64)
  have en: "entry_end e' = entry_end e" using b l le by (simp add: entry_end_def)
  have us: "usable e'" using ok(2) by (simp add: e' usable_def)
  show "entry_ok e'" using ok sz(1) b l en le by (auto simp: entry_ok_def)
  show "shrunk e e'" using us ok(2) en b by (simp add: shrunk_def)
  have "(unat (me_base e) + unat sz) div 4096 \<le> entry_end e div 4096"
    using le by (intro div_le_mono) (simp add: entry_end_def)
  moreover have "unat (me_base e) div 4096 \<le> (unat (me_base e) + unat sz) div 4096"
    by (intro div_le_mono) simp
  ultimately show "entry_pages e' = entry_pages e - pages_at (me_base e) sz"
    "pages_at (me_base e) sz \<subseteq> entry_pages e"
    using us ok(2) b en by (auto simp: entry_pages_def pages_at_def)
qed

lemma memmap_ok_disjoint:
  assumes "memmap_ok (e # es)" "usable e" "f \<in> set es"
  shows "entry_pages e \<inter> entry_pages f = {}"
proof (cases "usable f")
  case True
  have "entry_end e \<le> unat (me_base f) \<or> entry_end f \<le> unat (me_base e)"
    using assms True by auto
  then have "entry_end e div 4096 \<le> unat (me_base f) div 4096 \<or>
      entry_end f div 4096 \<le> unat (me_base e) div 4096"
    using div_le_mono by blast
  then show ?thesis by (auto simp: entry_pages_def)
qed (simp add: entry_pages_def)

lemma memmap_ok_shrunk:
  assumes "memmap_ok (e # es)" "list_all2 shrunk es es'" "memmap_ok es'" "entry_ok e'" "shrunk e e'"
  shows "memmap_ok (e' # es')"
proof -
  have "entry_end e' \<le> unat (me_base f') \<or> entry_end f' \<le> unat (me_base e')"
    if u: "usable e'" "usable f'" and f': "f' \<in> set es'" for f'
  proof -
    obtain f where f: "f \<in> set es" "shrunk f f'"
      using assms(2) f' by (metis in_set_conv_nth list_all2_conv_all_nth)
    then have "entry_end e \<le> unat (me_base f) \<or> entry_end f \<le> unat (me_base e)"
      using assms(1,5) u by (auto simp: shrunk_def)
    then show ?thesis using f(2) assms(5) by (auto simp: shrunk_def)
  qed
  then show ?thesis using assms(3,4) by auto
qed

lemma shrunk_refl [simp]: "shrunk e e"
  by (simp add: shrunk_def)

lemma place_bitmap_ok:
  assumes "memmap_ok es" "4096 dvd unat sz" "\<exists>e\<in>set es. usable e \<and> sz \<le> me_length e"
  shows "\<exists>phys es'. place_bitmap sz es = (Some phys, es') \<and> memmap_ok es' \<and> list_all2 shrunk es es' \<and>
    4096 \<le> unat phys \<and> 4096 dvd unat phys \<and> (\<exists>e\<in>set es. unat phys + unat sz \<le> entry_end e) \<and>
    pages_at phys sz \<subseteq> usable_pages es \<and> usable_pages es' = usable_pages es - pages_at phys sz"
  using assms(1,3)
proof (induction es)
  case Nil
  then show ?case by simp
next
  case (Cons e es)
  have u: "usable_pages (f # fs) = entry_pages f \<union> usable_pages fs" for f fs
    by (simp add: usable_pages_def)
  show ?case
  proof (cases "usable e \<and> sz \<le> me_length e")
    case True
    define e' where "e' = e\<lparr>me_base := me_base e + sz, me_length := me_length e - sz\<rparr>"
    have ok: "entry_ok e" using Cons.prems(1) by simp
    note c = carve_entry [OF ok conjunct1 [OF True] assms(2) conjunct2 [OF True] e'_def]
    have dj: "usable_pages es \<inter> pages_at (me_base e) sz = {}"
      using memmap_ok_disjoint [OF Cons.prems(1)] True c(4) by (fastforce simp: usable_pages_def)
    have "unat sz \<le> unat (me_length e)" using True by (simp add: word_le_nat_alt)
    then have "unat (me_base e) + unat sz \<le> entry_end e" "4096 \<le> unat (me_base e)"
      "4096 dvd unat (me_base e)"
      using ok True by (auto simp: entry_ok_def entry_end_def)
    moreover have "place_bitmap sz (e # es) = (Some (me_base e), e' # es)"
      using True by (auto simp: usable_def e'_def)
    moreover have "memmap_ok (e' # es)"
      by (rule memmap_ok_shrunk [OF Cons.prems(1) _ _ c(1,2)])
        (use Cons.prems(1) in \<open>simp_all add: list_all2_refl\<close>)
    moreover have "list_all2 shrunk (e # es) (e' # es)" using c(2) by (simp add: list_all2_refl)
    ultimately show ?thesis using c(3,4) dj u by (intro exI [of _ "me_base e"] exI [of _ "e' # es"]) auto
  next
    case False
    have "memmap_ok es" "\<exists>e\<in>set es. usable e \<and> sz \<le> me_length e"
      using False Cons.prems by auto
    then obtain phys es' where r: "place_bitmap sz es = (Some phys, es')" "memmap_ok es'"
      "list_all2 shrunk es es'" "4096 \<le> unat phys" "4096 dvd unat phys"
      "\<exists>e\<in>set es. unat phys + unat sz \<le> entry_end e" "pages_at phys sz \<subseteq> usable_pages es"
      "usable_pages es' = usable_pages es - pages_at phys sz"
      using Cons.IH by blast
    have "entry_pages e \<inter> usable_pages es = {}"
      using memmap_ok_disjoint [OF Cons.prems(1)]
      by (cases "usable e") (auto simp: usable_pages_def, auto simp: entry_pages_def)
    then have "usable_pages (e # es') = usable_pages (e # es) - pages_at phys sz"
      using r(7,8) u by auto
    moreover have "memmap_ok (e # es')"
      by (rule memmap_ok_shrunk [OF Cons.prems(1) r(3,2)]) (use Cons.prems(1) in simp_all)
    moreover have "place_bitmap sz (e # es) = (Some phys, e # es')"
      using False r(1) by (auto simp: usable_def not_less)
    ultimately show ?thesis
      using r u by (intro exI [of _ phys] exI [of _ "e # es'"]) auto
  qed
qed

lemma le_round_up: "m \<le> (m + 4095) div 4096 * (4096 :: nat)"
  using div_mult_mod_eq [of "m + 4095" 4096] mod_less_divisor [of 4096 "m + 4095"] by linarith

lemma bitmap_covers_byte:
  assumes "bitmap_covers n" "p < n" shows "p div 8 < (n div 8 + 4095) div 4096 * 4096"
proof (cases "n mod 8 = 0")
  case True
  then have "p div 8 < n div 8" using assms(2) by (metis div_less_iff_less_mult dvd_div_mult_self mod_0_imp_dvd zero_less_numeral)
  also have "\<dots> \<le> (n div 8 + 4095) div 4096 * 4096" by (rule le_round_up)
  finally show ?thesis .
next
  case False
  then have "n div 8 mod 4096 \<noteq> 0" using assms(1) by (simp add: bitmap_covers_def)
  then have "n div 8 \<noteq> (n div 8 + 4095) div 4096 * 4096" by (metis mod_mult_self2_is_0)
  then have "n div 8 < (n div 8 + 4095) div 4096 * 4096" using le_round_up [of "n div 8"] by linarith
  then show ?thesis using assms(2) div_le_mono [of p n 8] by linarith
qed

lemma pmm_wf_empty:
  assumes "hhdm_ok s" "\<And>i. i < MAX_ORDER \<Longrightarrow> free_lists s i = 0"
    and "\<And>p. p < unat (pmm_max_page s) \<Longrightarrow> bitmap_test s (of_nat p)"
  shows "pmm_wf s {} {}"
  using assms by (auto simp: pmm_wf_def lists_hold_def blocks_disjoint_def pages_of_def)

lemma bitmap_test_full:
  "bitmap s (b div 8) = 0xFF \<Longrightarrow> bitmap_test s b"
  using unat_mod_8 [of b] by (auto simp: bitmap_test_iff bit_simps numeral_eq_Suc less_Suc_eq)

section \<open>Initialisation\<close>

lemma hhdm_bitmap_nonzero:
  fixes phys hhdm :: u64
  assumes "0 < unat phys" "unat phys + unat hhdm < 2 ^ 64" shows "phys + hhdm \<noteq> 0"
  using assms by (metis add_is_0 less_numeral_extra(3) unat_0 unat_plus_u64)

lemma pmm_init_ok:
  assumes mm: "memmap_ok mm" and hhdm: "hhdm \<noteq> 0" "unat hhdm + unat (top_addr_loop 0 mm) < 2 ^ 64"
    and max: "max_page = top_addr_loop 0 mm div PAGE_SIZE" and cov: "bitmap_covers (unat max_page)"
    and sz: "sz = ALIGN_UP (max_page div 8) PAGE_SIZE"
    and room: "\<exists>e\<in>set mm. usable e \<and> sz \<le> me_length e"
  shows "\<exists>t mm' phys. pmm_init (pmm_static memory) (Some hhdm) (Some mm) = Some (Inr (t, mm')) \<and>
    pmm_inv t \<and> hhdm_offset t = hhdm \<and> pmm_max_page t = max_page \<and> pmm_bitmap t = phys + hhdm \<and>
    pages_at phys sz \<subseteq> usable_pages mm \<and> free_set t = usable_pages mm - pages_at phys sz \<and>
    pmm_total_pages t = of_nat (card (free_set t)) \<and> pmm_free_pages t = of_nat (card (free_set t)) \<and>
    memmap_ok mm' \<and> usable_pages mm' = free_set t"
proof -
  have top: "unat (top_addr_loop 0 mm) \<le> 2 ^ 52" "\<And>e. e \<in> set mm \<Longrightarrow> entry_end e \<le> unat (top_addr_loop 0 mm)"
    using top_addr_loop_ok [of mm 0] memmap_ok_entry [OF mm] by (auto simp: entry_ok_def)
  have mx: "unat max_page = unat (top_addr_loop 0 mm) div 4096"
    by (simp add: max PAGE_SIZE_def unat_div)
  have mb: "unat max_page \<le> 2 ^ 40" using div_le_mono [OF top(1), of 4096] by (simp add: mx)
  have szn: "unat sz = (unat max_page div 8 + 4095) div 4096 * 4096"
    using unat_ALIGN_UP [of 12 "max_page div 8"] mb by (simp add: sz PAGE_SIZE_def unat_div)
  obtain phys mm' where p: "place_bitmap sz mm = (Some phys, mm')" "memmap_ok mm'"
    "list_all2 shrunk mm mm'" "4096 \<le> unat phys" "\<exists>e\<in>set mm. unat phys + unat sz \<le> entry_end e"
    "pages_at phys sz \<subseteq> usable_pages mm" "usable_pages mm' = usable_pages mm - pages_at phys sz"
    using place_bitmap_ok [OF mm _ room] szn by (metis dvd_triv_right)
  define s where "s = \<lparr>pmm_total_pages = 0, pmm_free_pages = 0,
      bitmap = (\<lambda>i. if i < sz then 0xFF else 0), pmm_bitmap = phys + hhdm,
      pmm_max_page = max_page, hhdm_offset = hhdm,
      free_lists = (\<lambda>i :: nat. 0), next_of = memory\<rparr>"
  have "unat phys \<le> unat (top_addr_loop 0 mm)" using p(5) top(2) by fastforce
  then have nz: "phys + hhdm \<noteq> 0" by (intro hhdm_bitmap_nonzero) (use p(4) hhdm in linarith)+
  have init: "pmm_init (pmm_static memory) (Some hhdm) (Some mm) =
      (case init_regions s mm' of None \<Rightarrow> None | Some t \<Rightarrow> Some (Inr (t, mm')))"
    using nz p(1) by (simp add: pmm_init_def pmm_static_def Let_def s_def max sz if_distrib cong: if_cong)
  have "unat max_page * 4096 \<le> unat (top_addr_loop 0 mm)" unfolding mx by (rule div_times_less_eq_dividend)
  then have "hhdm_ok s" using hhdm by (simp add: hhdm_ok_def s_def)
  moreover have "bitmap_test s (of_nat q)" if "q < unat max_page" for q
  proof (rule bitmap_test_full)
    have "unat (of_nat q :: u64) = q" using that mb by (intro unat_of_nat_u64) simp
    then have "of_nat q div 8 < sz"
      using bitmap_covers_byte [OF cov that] szn by (simp add: word_less_nat_alt unat_div)
    then show "bitmap s (of_nat q div 8) = 0xFF" by (simp add: s_def)
  qed
  ultimately have wf: "pmm_wf s {} {}" by (intro pmm_wf_empty) (simp_all add: s_def)
  then have inv: "pmm_inv s" "free_set s = {}"
    using free_set_wf [OF wf] by (auto simp: pmm_inv_def pages_of_def)
  have "\<forall>e\<in>set mm'. entry_end e div 4096 \<le> unat (pmm_max_page s)"
  proof
    fix e assume "e \<in> set mm'"
    then obtain f where "f \<in> set mm" "shrunk f e"
      using p(3) by (metis in_set_conv_nth list_all2_conv_all_nth)
    then have "entry_end e \<le> unat (top_addr_loop 0 mm)" using top(2) by (simp add: shrunk_def)
    then show "entry_end e div 4096 \<le> unat (pmm_max_page s)"
      using div_le_mono by (simp add: s_def mx)
  qed
  then obtain t where "init_regions s mm' = Some t" "pmm_inv t" "pmm_max_page t = max_page"
    "hhdm_offset t = hhdm" "pmm_bitmap t = phys + hhdm" "free_set t = usable_pages mm'"
    "pmm_total_pages t = of_nat (card (usable_pages mm'))"
    "pmm_free_pages t = of_nat (card (usable_pages mm'))"
    using init_regions_ok [OF inv(1) p(2)] inv(2) by (auto simp: s_def)
  then show ?thesis using init p(2,6,7) by (intro exI [of _ t] exI [of _ mm'] exI [of _ phys]) simp
qed

end
