(* ===== verification/Pmm_Correct.thy ===== *)
theory Pmm_Correct
  imports Pmm_Init
begin

text \<open>
  The properties of the page allocator: \<^verbatim>\<open>palloc_order\<close>, \<^verbatim>\<open>pfree_order\<close>, \<^verbatim>\<open>pmm_init\<close>, and the
  ownership discipline over whole runs of clients.
\<close>

section \<open>Clients of the allocator\<close>

text \<open>
  A run of the allocator by clients that free only blocks they hold: the state and the set of
  blocks (order, address) handed out and not yet returned.
\<close>

inductive pmm_run :: "pmm \<Rightarrow> pmm \<Rightarrow> (nat \<times> u64) set \<Rightarrow> bool" for s0 :: pmm where
  run_start: "pmm_run s0 s0 {}"
| run_alloc: "pmm_run s0 s held \<Longrightarrow> order < MAX_ORDER \<Longrightarrow> palloc_order s order = (a, t) \<Longrightarrow> a \<noteq> 0 \<Longrightarrow>
    pmm_run s0 t (insert (order, a) held)"
| run_alloc_fail: "pmm_run s0 s held \<Longrightarrow> order < MAX_ORDER \<Longrightarrow> palloc_order s order = (0, t) \<Longrightarrow>
    pmm_run s0 t held"
| run_free: "pmm_run s0 s held \<Longrightarrow> (order, a) \<in> held \<Longrightarrow> pfree_order s a order = Some t \<Longrightarrow>
    pmm_run s0 t (held - {(order, a)})"

definition held_pages :: "nat \<times> u64 \<Rightarrow> nat set" where
  "held_pages h = block (fst h) (unat (snd h div PAGE_SIZE))"

text \<open>What a held block is: an aligned block in range with its address.\<close>

definition held_ok :: "pmm \<Rightarrow> nat \<times> u64 \<Rightarrow> bool" where
  "held_ok s h \<longleftrightarrow> (\<exists>p. snd h = page_addr p \<and> block_ok s (fst h, p) \<and> held_pages h = block (fst h) p)"

definition run_inv :: "pmm \<Rightarrow> pmm \<Rightarrow> (nat \<times> u64) set \<Rightarrow> bool" where
  "run_inv s0 s held \<longleftrightarrow> pmm_inv s \<and> pmm_same_config s0 s \<and> (\<forall>h\<in>held. held_ok s h) \<and>
     (\<forall>h\<in>held. held_pages h \<inter> free_set s = {}) \<and>
     (\<forall>h\<in>held. \<forall>k\<in>held. h \<noteq> k \<longrightarrow> held_pages h \<inter> held_pages k = {}) \<and>
     free_set s \<union> (\<Union>h\<in>held. held_pages h) = free_set s0"

definition demo_pmm_empty :: pmm where
  "demo_pmm_empty = \<lparr>pmm_total_pages = 0, pmm_free_pages = 0, bitmap = (\<lambda>_. 0xFF),
     pmm_bitmap = 1, pmm_max_page = 16, hhdm_offset = 0xFFFF800000000000,
     free_lists = (\<lambda>_. 0), next_of = (\<lambda>_. 0)\<rparr>"

definition demo_pmm :: pmm where
  "demo_pmm = init_add_block demo_pmm_empty (page_addr 8) 2"

definition demo_memmap :: "limine_memmap_entry list" where
  "demo_memmap =
     [\<lparr>me_base = 0, me_length = 0x1000, me_type = 1\<rparr>,
      \<lparr>me_base = 0x1000, me_length = 0x9000, me_type = LIMINE_MEMMAP_USABLE\<rparr>]"

lemma palloc_order_ok:
  assumes "pmm_inv s" "palloc_order s order = (a, t)"
  shows "a = 0 \<and> t = s \<and> (\<forall>k. order \<le> k \<and> k < MAX_ORDER \<longrightarrow> free_lists s k = 0) \<or>
    a \<noteq> 0 \<and> alloc_ok s order a t"
  using assms palloc_loop_ok [of s _ order order a t] by (auto simp: palloc_order_def pmm_inv_def)

lemma inv_page_bound: "pmm_inv s \<Longrightarrow> block_ok s (i, p) \<Longrightarrow> p * 4096 < 2 ^ 64"
  unfolding pmm_inv_def using wf_page_bound [OF pmm_wfD(1)] block_ok_lt blk_first by blast

lemma held_pages_page_addr:
  assumes "pmm_inv s" "block_ok s (i, p)"
  shows "held_pages (i, page_addr p) = block i p"
proof -
  have "p * 4096 < 2 ^ 64" using inv_page_bound [OF assms] .
  moreover have "unat (of_nat p :: u64) = p" using calculation by (intro unat_of_nat_u64) simp
  ultimately show ?thesis by (simp add: held_pages_def page_addr_div)
qed

lemma held_ok_cong: "pmm_same_config s t \<Longrightarrow> held_ok t h = held_ok s h"
  by (simp add: held_ok_def block_ok_def pmm_same_config_def)

lemma same_config_trans: "pmm_same_config s t \<Longrightarrow> pmm_same_config t u \<Longrightarrow> pmm_same_config s u"
  by (simp add: pmm_same_config_def)

lemma run_inv_alloc:
  assumes "run_inv s0 s held" "alloc_ok s order a t"
  shows "run_inv s0 t (insert (order, a) held)"
proof -
  obtain p where p: "a = page_addr p" "block_ok s (order, p)" "block order p \<subseteq> free_set s"
    "free_set t = free_set s - block order p" "pmm_inv t" "pmm_same_config s t"
    using assms(2) by (auto simp: alloc_ok_def)
  have inv: "pmm_inv s" using assms(1) by (simp add: run_inv_def)
  have hp: "held_pages (order, a) = block order p"
    unfolding p(1) by (rule held_pages_page_addr [OF inv p(2)])
  then have h: "held_ok s (order, a)" using p by (auto simp: held_ok_def)
  have ri: "pmm_same_config s0 s" "\<forall>h\<in>held. held_ok s h" "\<forall>h\<in>held. held_pages h \<inter> free_set s = {}"
    "\<forall>h\<in>held. \<forall>k\<in>held. h \<noteq> k \<longrightarrow> held_pages h \<inter> held_pages k = {}"
    "free_set s \<union> (\<Union>h\<in>held. held_pages h) = free_set s0"
    using assms(1) by (simp_all add: run_inv_def)
  have new: "held_pages k \<inter> block order p = {}" if "k \<in> held" for k
    using ri(3) that p(3) by (metis disjoint_mono subset_refl)
  have "held_pages k \<inter> free_set t = {}" if "k \<in> insert (order, a) held" for k
    using that ri(3) hp p(4) by auto
  moreover have "free_set t \<union> (\<Union>h\<in>insert (order, a) held. held_pages h) = free_set s0"
    unfolding ri(5) [symmetric] using p(3,4) hp by auto
  moreover have "held_pages k \<inter> held_pages l = {}"
    if "k \<in> insert (order, a) held" "l \<in> insert (order, a) held" "k \<noteq> l" for k l
    using that ri(4) new hp by (metis insertE inf_commute)
  ultimately show ?thesis
    using h p(5) ri(2) same_config_trans [OF ri(1) p(6)] held_ok_cong [OF p(6)]
    by (simp add: run_inv_def)
qed

lemma pfree_order_ok:
  assumes "pmm_inv s" "block_ok s (i, p)" "block i p \<inter> free_set s = {}"
  shows "\<exists>t j. pfree_order s (page_addr p) i = Some t \<and> pmm_inv t \<and> pmm_same_config s t \<and>
    free_set t = free_set s \<union> block i p \<and> i \<le> j \<and> j < MAX_ORDER \<and>
    pmm_free_pages t = pmm_free_pages s + 2 ^ j"
  using assms pfree_order_wf unfolding pmm_inv_def block_ok_def by (metis fst_conv snd_conv)

lemma run_inv_free:
  assumes "run_inv s0 s held" "(order, a) \<in> held" "pfree_order s a order = Some t"
  shows "run_inv s0 t (held - {(order, a)})"
proof -
  obtain p where p: "a = page_addr p" "block_ok s (order, p)"
    and hp: "held_pages (order, a) = block order p"
    using assms(1,2) by (fastforce simp: run_inv_def held_ok_def)
  have inv: "pmm_inv s" and dj: "block order p \<inter> free_set s = {}"
    using assms(1,2) hp by (auto simp: run_inv_def)
  then have t: "pmm_inv t" "pmm_same_config s t" "free_set t = free_set s \<union> block order p"
    using pfree_order_ok [OF inv p(2) dj] assms(3) p(1) by auto
  have ri: "pmm_same_config s0 s" "\<forall>h\<in>held. held_ok s h" "\<forall>h\<in>held. held_pages h \<inter> free_set s = {}"
    "\<forall>h\<in>held. \<forall>k\<in>held. h \<noteq> k \<longrightarrow> held_pages h \<inter> held_pages k = {}"
    "free_set s \<union> (\<Union>h\<in>held. held_pages h) = free_set s0"
    using assms(1) by (simp_all add: run_inv_def)
  have "held_pages h \<inter> free_set t = {}" if "h \<in> held - {(order, a)}" for h
    using ri(3,4) that assms(2) hp t(3) by (metis DiffE Int_Un_distrib Un_empty singletonI)
  moreover have "free_set t \<union> (\<Union>h\<in>held - {(order, a)}. held_pages h) = free_set s0"
    using ri(5) hp t(3) assms(2) by auto
  ultimately show ?thesis
    using t(1) ri(2,4) same_config_trans [OF ri(1) t(2)] held_ok_cong [OF t(2)]
    by (simp add: run_inv_def)
qed

lemma run_inv_run: "pmm_run s0 s held \<Longrightarrow> pmm_inv s0 \<Longrightarrow> run_inv s0 s held"
proof (induction rule: pmm_run.induct)
  case run_start
  then show ?case by (simp add: run_inv_def pmm_same_config_def)
next
  case (run_alloc s held order a t)
  then have "pmm_inv s" by (simp add: run_inv_def)
  then have "alloc_ok s order a t" using palloc_order_ok run_alloc by blast
  then show ?case using run_inv_alloc run_alloc by blast
next
  case (run_alloc_fail s held order t)
  then have "pmm_inv s" by (simp add: run_inv_def)
  then have "t = s" using palloc_order_ok run_alloc_fail by blast
  then show ?case using run_alloc_fail by simp
next
  case (run_free s held order a t)
  then show ?case using run_inv_free by blast
qed

lemma demo_pmm_empty_wf: "pmm_wf demo_pmm_empty {} {}"
  by (intro pmm_wf_empty bitmap_test_full) (simp_all add: demo_pmm_empty_def hhdm_ok_def)

lemma demo_pmm_inv: "pmm_inv demo_pmm" "free_set demo_pmm = {8..<12}"
proof -
  have e: "free_set demo_pmm_empty = {}" using free_set_wf [OF demo_pmm_empty_wf] by (simp add: pages_of_def)
  have *: "2 < MAX_ORDER" "2 ^ 2 dvd (8::nat)" "0 < (8::nat)"
    "8 + 2 ^ 2 \<le> unat (pmm_max_page demo_pmm_empty)" "block 2 8 \<inter> free_set demo_pmm_empty = {}"
    unfolding e by (simp_all add: MAX_ORDER_def demo_pmm_empty_def)
  show "pmm_inv demo_pmm" "free_set demo_pmm = {8..<12}"
    using init_add_block_wf [OF demo_pmm_empty_wf * demo_pmm_def] e by (simp_all add: blk_def)
qed


lemma demo_pmm_max: "pmm_max_page demo_pmm = 16"
  by (simp add: demo_pmm_def init_add_block_def Let_def demo_pmm_empty_def)

text \<open>C1: \<open>palloc_order\<close> keeps the allocator invariant. It returns 0 only when no list from
  the requested order upwards holds a block, and then changes nothing. Otherwise it returns the address of an aligned
  block of \<open>2 ^ order\<close> free pages, and exactly these pages stop being free; the page counter falls
  by their number.\<close>

theorem palloc_order_correct:
  assumes "pmm_inv s" "palloc_order s order = (a, t)"
  shows "pmm_inv t \<and>
    (if a = 0 then t = s \<and> (\<forall>k. order \<le> k \<and> k < MAX_ORDER \<longrightarrow> free_lists s k = 0)
     else \<exists>p. a = page_addr p \<and> 2 ^ order dvd p \<and> 0 < p \<and> {p..<p + 2 ^ order} \<subseteq> free_set s \<and>
       free_set t = free_set s - {p..<p + 2 ^ order} \<and>
       pmm_free_pages t = pmm_free_pages s - 2 ^ order)"
  using palloc_order_ok [OF assms] assms(1) by (auto simp: alloc_ok_def block_ok_def blk_def)

theorem palloc_order_correct_witness:
  "pmm_inv demo_pmm \<and> fst (palloc_order demo_pmm 1) = page_addr 8 \<and>
   fst (palloc_order demo_pmm 3) = 0 \<and> pmm_inv (snd (palloc_order demo_pmm 1)) \<and>
   snd (palloc_order demo_pmm 3) = demo_pmm"
proof -
  have "fst (palloc_order demo_pmm 1) = page_addr 8" by code_simp
  moreover have f: "fst (palloc_order demo_pmm 3) = 0" by code_simp
  ultimately show ?thesis
    using palloc_order_correct [OF demo_pmm_inv(1) prod.collapse [symmetric], of 1]
      palloc_order_correct [OF demo_pmm_inv(1) prod.collapse [symmetric], of 3] demo_pmm_inv(1)
    by simp
qed

text \<open>C2: \<open>pfree_order\<close>, given an aligned block of allocated pages, always returns (its list
  searches end), keeps the allocator invariant, whatever merging with buddies takes place, and makes
  exactly the pages of the block free.\<close>

theorem pfree_order_correct:
  assumes "pmm_inv s" "order < MAX_ORDER" "2 ^ order dvd p" "0 < p"
    and "p + 2 ^ order \<le> unat (pmm_max_page s)" "{p..<p + 2 ^ order} \<inter> free_set s = {}"
  shows "\<exists>t. pfree_order s (page_addr p) order = Some t \<and> pmm_inv t \<and> pmm_same_config s t \<and>
    free_set t = free_set s \<union> {p..<p + 2 ^ order}"
  using pfree_order_ok [of s order p] assms by (auto simp: block_ok_def blk_def)

theorem pfree_order_correct_witness:
  "\<exists>t. pfree_order demo_pmm (page_addr 4) 2 = Some t \<and> pmm_inv t \<and>
     pmm_same_config demo_pmm t \<and> free_set t = {8..<12} \<union> {4..<4 + 2 ^ 2}"
  using pfree_order_correct [OF demo_pmm_inv(1), of 2 4]
  by (simp add: demo_pmm_inv(2) demo_pmm_max MAX_ORDER_def)

text \<open>C3: over any sequence of allocations and releases by clients that free only blocks they
  hold, no page has two owners: held blocks are pairwise disjoint and disjoint from the free pages,
  no page of the initial free memory is lost, and every held block can be released.\<close>

theorem pmm_run_safe:
  assumes "pmm_inv s0" "pmm_run s0 s held"
  shows "pmm_inv s \<and> free_set s \<union> (\<Union>h\<in>held. held_pages h) = free_set s0 \<and>
    (\<forall>h\<in>held. held_pages h \<inter> free_set s = {} \<and>
      (\<forall>k\<in>held. h \<noteq> k \<longrightarrow> held_pages h \<inter> held_pages k = {}) \<and>
      (\<exists>t. pfree_order s (snd h) (fst h) = Some t))"
proof -
  have r: "run_inv s0 s held" by (rule run_inv_run [OF assms(2,1)])
  have "\<exists>t. pfree_order s (snd h) (fst h) = Some t" if "h \<in> held" for h
  proof -
    have "pmm_inv s" "held_ok s h" "held_pages h \<inter> free_set s = {}"
      using r that by (simp_all add: run_inv_def)
    then show ?thesis unfolding held_ok_def using pfree_order_ok [of s "fst h"] by metis
  qed
  then show ?thesis using r by (simp add: run_inv_def)
qed

theorem pmm_run_safe_witness:
  "\<exists>s. pmm_run demo_pmm s {(1, page_addr 8)} \<and> pmm_inv s \<and>
     free_set s \<union> held_pages (1, page_addr 8) = {8..<12}"
proof -
  have a: "fst (palloc_order demo_pmm 1) = page_addr 8" by code_simp
  have "page_addr 8 \<noteq> 0" by (simp add: page_addr_def)
  then have "pmm_run demo_pmm (snd (palloc_order demo_pmm 1)) {(1, page_addr 8)}"
    using run_alloc [OF run_start, of 1 demo_pmm "page_addr 8" "snd (palloc_order demo_pmm 1)"] a
    by (simp add: MAX_ORDER_def prod_eq_iff)
  then show ?thesis
    using pmm_run_safe [OF demo_pmm_inv(1)] demo_pmm_inv(2) by (intro exI conjI) auto
qed

text \<open>C5: the page counter is wrong after a merging release. When the buddy of the freed block is
  on its free list, the free set grows by the \<open>2 ^ i\<close> pages of the block, but \<open>pmm_free_pages\<close> grows
  by \<open>2 ^ j\<close> for the order \<open>j > i\<close> of the merged block.\<close>

theorem pfree_order_overcounts:
  assumes "pmm_inv s" "block_ok s (i, p)" "block i p \<inter> free_set s = {}" "i < MAX_ORDER - 1"
    and "pmm_list_contains s i (page_addr (buddy i p)) = Some True" "buddy i p < unat (pmm_max_page s)"
    and "pfree_order s (page_addr p) i = Some t"
  shows "free_set t = free_set s \<union> block i p \<and>
    (\<exists>j. i < j \<and> j < MAX_ORDER \<and> pmm_free_pages t = pmm_free_pages s + 2 ^ j) \<and>
    pmm_free_pages t \<noteq> pmm_free_pages s + 2 ^ i"
proof -
  obtain B where wf: "pmm_wf s B {}" using assms(1) by (auto simp: pmm_inv_def)
  have b: "(i, buddy i p) \<in> B" using wf_contains [OF wf _ assms(6), of i] assms(4,5) by simp
  obtain j where j: "free_set t = free_set s \<union> block i p" "i < j" "j < MAX_ORDER"
    "pmm_free_pages t = pmm_free_pages s + 2 ^ j"
    using pfree_order_wf [OF wf, of i p] assms(2,3,4,7) b unfolding block_ok_def by auto
  have "(2 :: u64) ^ j \<noteq> 2 ^ i"
  proof
    assume "(2 :: u64) ^ j = 2 ^ i"
    then have "unat ((2 :: u64) ^ j) = unat ((2 :: u64) ^ i)" by simp
    then show False using j(2,3) by (simp add: unat_2p_u64 MAX_ORDER_def)
  qed
  then show ?thesis using j by auto
qed

theorem pfree_order_overcounts_witness:
  "\<exists>t. pfree_order demo_pmm (page_addr 12) 2 = Some t \<and>
     free_set t = {8..<12} \<union> {12..<16} \<and> pmm_free_pages t \<noteq> pmm_free_pages demo_pmm + 2 ^ 2"
proof -
  have b: "block_ok demo_pmm (2, 12)" by (simp add: block_ok_def demo_pmm_max MAX_ORDER_def)
  obtain t where t: "pfree_order demo_pmm (page_addr 12) 2 = Some t"
    using pfree_order_ok [OF demo_pmm_inv(1) b] by (auto simp: demo_pmm_inv(2) blk_def)
  have "pmm_list_contains demo_pmm 2 (page_addr (buddy 2 12)) = Some True" by code_simp
  moreover have "buddy 2 12 = 8" by (simp add: buddy_def)
  ultimately show ?thesis
    using pfree_order_overcounts [OF demo_pmm_inv(1) b, of t] t
    by (simp add: demo_pmm_inv(2) demo_pmm_max MAX_ORDER_def blk_def)
qed



end
