(* ===== verification/Page_Allocator.thy ===== *)
theory Page_Allocator
  imports Pmm_Correct
begin

text \<open>
  The interface through which the rest of the kernel sees the page allocator: single pages of
  physical memory. \<open>free_pages_of\<close> is the set of free page numbers, \<open>limit\<close> the number of pages of
  the machine. The page allocator of \<open>Pmm\<close> is shown to keep the contract.
\<close>

locale page_source =
  fixes inv :: "'p \<Rightarrow> bool"
    and alloc :: "'p \<Rightarrow> u64 \<times> 'p"
    and free_pages_of :: "'p \<Rightarrow> nat set"
    and limit :: "'p \<Rightarrow> nat"
  assumes alloc_inv: "inv m \<Longrightarrow> alloc m = (a, m') \<Longrightarrow> inv m' \<and> limit m' = limit m"
    and alloc_same: "inv m \<Longrightarrow> alloc m = (0, m') \<Longrightarrow> m' = m"
    and alloc_some: "inv m \<Longrightarrow> alloc m = (a, m') \<Longrightarrow> a \<noteq> 0 \<Longrightarrow>
      \<exists>p. a = page_addr p \<and> p \<in> free_pages_of m \<and> free_pages_of m' = free_pages_of m - {p}"
    and free_range: "inv m \<Longrightarrow> p \<in> free_pages_of m \<Longrightarrow> 0 < p \<and> p < limit m"
begin

lemma alloc_mono: "inv m \<Longrightarrow> alloc m = (a, m') \<Longrightarrow> free_pages_of m' \<subseteq> free_pages_of m"
  using alloc_same alloc_some by (cases "a = 0") blast+

lemma alloc_fresh:
  assumes "inv m" "alloc m = (a, m')" "a \<noteq> 0"
  obtains p where "a = page_addr p" "p \<in> free_pages_of m" "p \<notin> free_pages_of m'" "0 < p" "p < limit m"
  using alloc_some [OF assms] free_range [OF assms(1)] by blast

end

text \<open>An allocator that also gives 0 only when nothing is free.\<close>

locale page_allocator = page_source +
  assumes alloc_empty: "inv m \<Longrightarrow> alloc m = (0, m') \<Longrightarrow> free_pages_of m = {}"
begin

lemma alloc_none: "inv m \<Longrightarrow> alloc m = (0, m') \<Longrightarrow> m' = m \<and> free_pages_of m = {}"
  using alloc_same alloc_empty by blast

end

text \<open>
  Pages \<open>X\<close> that are in use can be counted as free by a client that only wants to know what an operation
  leaves alone: the allocator never hands them out.
\<close>

definition protects :: "('p \<Rightarrow> bool) \<Rightarrow> ('p \<Rightarrow> nat set) \<Rightarrow> ('p \<Rightarrow> nat) \<Rightarrow> nat set \<Rightarrow> 'p \<Rightarrow> bool" where
  "protects pinv frees plimit X m \<longleftrightarrow> pinv m \<and> X \<inter> frees m = {} \<and> (\<forall>p\<in>X. 0 < p \<and> p < plimit m)"

context page_source
begin

lemma protected: "page_source (protects inv free_pages_of limit X) alloc (\<lambda>m. free_pages_of m \<union> X) limit"
proof
  fix m a m' assume m: "protects inv free_pages_of limit X m" and r: "alloc m = (a, m')"
  then have i: "inv m" by (simp add: protects_def)
  show "protects inv free_pages_of limit X m' \<and> limit m' = limit m"
    using alloc_inv [OF i r] alloc_mono [OF i r] m by (auto simp: protects_def)
  show "\<exists>p. a = page_addr p \<and> p \<in> free_pages_of m \<union> X \<and> free_pages_of m' \<union> X = free_pages_of m \<union> X - {p}" if "a \<noteq> 0"
    using alloc_some [OF i r that] m by (auto simp: protects_def)
qed (use alloc_same free_range in \<open>auto simp: protects_def\<close>)

end

lemma empty_lists:
  assumes "pmm_inv s" "\<forall>k<MAX_ORDER. free_lists s k = 0"
  shows "free_set s = {}"
proof -
  obtain B where wf: "pmm_wf s B {}" using assms(1) by (auto simp: pmm_inv_def)
  have "(k, p) \<notin> B" for k p
  proof
    assume b: "(k, p) \<in> B"
    then have k: "k < MAX_ORDER" using pmm_wfD(2) [OF wf] by (auto simp: block_ok_def)
    then obtain ps where "set ps = {p. (k, p) \<in> B}" "Lst (next_of s) 0 (map (node s) ps)"
      using pmm_wfD(4) [OF wf] assms(2) by (auto simp: lists_hold_def)
    then show False using b by (auto simp: Lst_NULL)
  qed
  then show ?thesis using free_set_wf [OF wf] by (auto simp: pages_of_def)
qed

lemma palloc_block:
  assumes "pmm_inv s" "palloc s = (a, t)"
  shows "a = 0 \<and> t = s \<and> free_set s = {} \<or> a \<noteq> 0 \<and> alloc_ok s 0 a t"
  using palloc_order_ok [of s 0 a t] empty_lists [OF assms(1)] assms by (auto simp: palloc_def)

interpretation pmm: page_allocator pmm_inv palloc free_set "\<lambda>s. unat (pmm_max_page s)"
proof
  fix m a m' assume i: "pmm_inv m" and r: "palloc m = (a, m')"
  show "pmm_inv m' \<and> unat (pmm_max_page m') = unat (pmm_max_page m)"
    using palloc_block [OF i r] i by (auto simp: alloc_ok_def pmm_same_config_def)
  show "\<exists>p. a = page_addr p \<and> p \<in> free_set m \<and> free_set m' = free_set m - {p}" if "a \<noteq> 0"
    using palloc_block [OF i r] that by (auto simp: alloc_ok_def blk_def)
next
  fix m m' assume "pmm_inv m" "palloc m = (0, m')"
  then show "m' = m" "free_set m = {}" using palloc_block by blast+
next
  fix m p assume "pmm_inv m" "p \<in> free_set m"
  then show "0 < p \<and> p < unat (pmm_max_page m)"
    using free_set_wf pages_of_range unfolding pmm_inv_def by fastforce
qed

end
