(* ===== verification/Vmm.thy ===== *)
theory Vmm
  imports Page_Allocator
begin

text \<open>
  Model of \<^verbatim>\<open>kernel/main/mm/vmm.c\<close>: four-level page tables in memory.

  Memory is a map from the virtual addresses of 64-bit words to their contents; \<open>table[idx]\<close> is the
  word at \<open>table + 8 * idx\<close>. The page allocator is the argument \<open>alloc\<close> and its state the field
  \<open>pm\<close>, so that the model can be used with any allocator that keeps the contract of
  \<open>page_allocator\<close>; the kernel runs it with \<open>palloc\<close>. The field \<open>invlpg_log\<close> records the TLB
  invalidations, latest first. A result \<open>None\<close> is the halt of the machine in \<^verbatim>\<open>alloc_table\<close>.
\<close>

section \<open>Page-table entries\<close>

definition PTE_PRESENT :: u64 where "PTE_PRESENT = 2 ^ 0"
definition PTE_WRITABLE :: u64 where "PTE_WRITABLE = 2 ^ 1"
definition PTE_USER :: u64 where "PTE_USER = 2 ^ 2"
definition PTE_PS :: u64 where "PTE_PS = 2 ^ 7"
definition PTE_NX :: u64 where "PTE_NX = 2 ^ 63"
definition PTE_ADDR_MASK :: u64 where "PTE_ADDR_MASK = 0x000FFFFFFFFFF000"

definition PML4_INDEX :: "u64 \<Rightarrow> u64" where "PML4_INDEX v = drop_bit 39 v AND 0x1FF"
definition PDPT_INDEX :: "u64 \<Rightarrow> u64" where "PDPT_INDEX v = drop_bit 30 v AND 0x1FF"
definition PD_INDEX :: "u64 \<Rightarrow> u64" where "PD_INDEX v = drop_bit 21 v AND 0x1FF"
definition PT_INDEX :: "u64 \<Rightarrow> u64" where "PT_INDEX v = drop_bit 12 v AND 0x1FF"

definition USER_STACK_TOP :: u64 where "USER_STACK_TOP = 0x0000700000000000"
definition GUARD_PAGE_SIZE :: u64 where "GUARD_PAGE_SIZE = PAGE_SIZE"

section \<open>State\<close>

record 'p vmm =
  v_hhdm_offset :: u64
  kernel_pml4 :: u64
  mem :: "u64 \<Rightarrow> u64"
  pm :: 'p
  cr3 :: u64
  invlpg_log :: "u64 list"

definition phys_to_virt :: "'p vmm \<Rightarrow> u64 \<Rightarrow> u64" where
  "phys_to_virt s phys = phys + v_hhdm_offset s"

definition virt_to_phys :: "'p vmm \<Rightarrow> u64 \<Rightarrow> u64" where
  "virt_to_phys s virt = virt - v_hhdm_offset s"

text \<open>\<^verbatim>\<open>table[idx]\<close> read and written, and \<^verbatim>\<open>memset(p, 0, PAGE_SIZE)\<close>.\<close>

definition rd :: "'p vmm \<Rightarrow> u64 \<Rightarrow> u64 \<Rightarrow> u64" where
  "rd s table idx = mem s (table + 8 * idx)"

definition wr :: "'p vmm \<Rightarrow> u64 \<Rightarrow> u64 \<Rightarrow> u64 \<Rightarrow> 'p vmm" where
  "wr s table idx v = s\<lparr>mem := (mem s)(table + 8 * idx := v)\<rparr>"

definition zero_page :: "'p vmm \<Rightarrow> u64 \<Rightarrow> 'p vmm" where
  "zero_page s p = s\<lparr>mem := (\<lambda>a. if a - p < PAGE_SIZE then 0 else mem s a)\<rparr>"

definition invlpg :: "'p vmm \<Rightarrow> u64 \<Rightarrow> 'p vmm" where
  "invlpg s virt = s\<lparr>invlpg_log := virt # invlpg_log s\<rparr>"

section \<open>Walking and mapping\<close>

definition alloc_table :: "('p \<Rightarrow> u64 \<times> 'p) \<Rightarrow> 'p vmm \<Rightarrow> (u64 \<times> 'p vmm) option" where
  "alloc_table alloc s =
     (let (phys, pm') = alloc (pm s);
          s = s\<lparr>pm := pm'\<rparr>
      in if phys = 0 then None
         else Some (phys_to_virt s phys, zero_page s (phys_to_virt s phys)))"

definition walk_or_alloc ::
  "('p \<Rightarrow> u64 \<times> 'p) \<Rightarrow> 'p vmm \<Rightarrow> u64 \<Rightarrow> u64 \<Rightarrow> u64 \<Rightarrow> (u64 \<times> 'p vmm) option" where
  "walk_or_alloc alloc s table idx user_bit =
     (if rd s table idx AND PTE_PRESENT = 0 then
        (case alloc_table alloc s of
           None \<Rightarrow> None
         | Some (child, s) \<Rightarrow>
             Some (child, wr s table idx
               ((virt_to_phys s child AND NOT 0xFFF) OR PTE_PRESENT OR PTE_WRITABLE OR user_bit)))
      else
        (let s = wr s table idx (rd s table idx OR user_bit)
         in Some (phys_to_virt s (rd s table idx AND NOT 0xFFF), s)))"

text \<open>The loop that fills a new table with the 512 small pages of a huge page.\<close>

primrec split_huge :: "'p vmm \<Rightarrow> u64 \<Rightarrow> u64 \<Rightarrow> u64 \<Rightarrow> nat \<Rightarrow> 'p vmm" where
  "split_huge s pt huge_phys low_flags 0 = s"
| "split_huge s pt huge_phys low_flags (Suc i) =
     wr (split_huge s pt huge_phys low_flags i) pt (of_nat i)
       ((huge_phys + of_nat i * PAGE_SIZE) OR low_flags)"

definition map_page ::
  "('p \<Rightarrow> u64 \<times> 'p) \<Rightarrow> 'p vmm \<Rightarrow> u64 \<Rightarrow> u64 \<Rightarrow> u64 \<Rightarrow> 'p vmm option" where
  "map_page alloc s virt phys flags =
     (let user_bit = flags AND PTE_USER
      in case walk_or_alloc alloc s (kernel_pml4 s) (PML4_INDEX virt) user_bit of
           None \<Rightarrow> None
         | Some (pdpt, s) \<Rightarrow>
         (case walk_or_alloc alloc s pdpt (PDPT_INDEX virt) user_bit of
           None \<Rightarrow> None
         | Some (pd, s) \<Rightarrow>
             (if rd s pd (PD_INDEX virt) AND PTE_PS \<noteq> 0 then
                (let huge_phys = rd s pd (PD_INDEX virt) AND 0x000FFFFFFFE00000;
                     huge_flags = (rd s pd (PD_INDEX virt) AND 0xFFF) AND NOT PTE_PS
                 in case alloc_table alloc s of
                      None \<Rightarrow> None
                    | Some (pt, s) \<Rightarrow>
                        (let s = split_huge s pt huge_phys (huge_flags OR user_bit) 512;
                             s = wr s pd (PD_INDEX virt)
                               ((virt_to_phys s pt AND NOT 0xFFF) OR PTE_PRESENT OR PTE_WRITABLE
                                 OR user_bit);
                             s = wr s pt (PT_INDEX virt) ((phys AND NOT 0xFFF) OR flags OR PTE_PRESENT)
                         in Some (invlpg s virt)))
              else
                (case walk_or_alloc alloc s pd (PD_INDEX virt) user_bit of
                   None \<Rightarrow> None
                 | Some (pt, s) \<Rightarrow>
                     (let s = wr s pt (PT_INDEX virt) ((phys AND NOT 0xFFF) OR flags OR PTE_PRESENT)
                      in Some (invlpg s virt))))))"

definition unmap_page :: "'p vmm \<Rightarrow> u64 \<Rightarrow> 'p vmm" where
  "unmap_page s virt =
     (if rd s (kernel_pml4 s) (PML4_INDEX virt) AND PTE_PRESENT = 0 then s
      else let pdpt = phys_to_virt s (rd s (kernel_pml4 s) (PML4_INDEX virt) AND NOT 0xFFF)
      in if rd s pdpt (PDPT_INDEX virt) AND PTE_PRESENT = 0 then s
      else let pd = phys_to_virt s (rd s pdpt (PDPT_INDEX virt) AND NOT 0xFFF)
      in if rd s pd (PD_INDEX virt) AND PTE_PRESENT = 0 then s
      else let pt = phys_to_virt s (rd s pd (PD_INDEX virt) AND NOT 0xFFF)
      in invlpg (wr s pt (PT_INDEX virt) 0) virt)"

definition virt_to_phys_user :: "'p vmm \<Rightarrow> u64 \<Rightarrow> u64" where
  "virt_to_phys_user s virt =
     (if rd s (kernel_pml4 s) (PML4_INDEX virt) AND PTE_PRESENT = 0 then 0
      else let pdpt = phys_to_virt s (rd s (kernel_pml4 s) (PML4_INDEX virt) AND PTE_ADDR_MASK)
      in if rd s pdpt (PDPT_INDEX virt) AND PTE_PRESENT = 0 then 0
      else let pd = phys_to_virt s (rd s pdpt (PDPT_INDEX virt) AND PTE_ADDR_MASK)
      in if rd s pd (PD_INDEX virt) AND PTE_PRESENT = 0 then 0
      else if rd s pd (PD_INDEX virt) AND PTE_PS \<noteq> 0
      then (rd s pd (PD_INDEX virt) AND PTE_ADDR_MASK) + (virt AND 0x1FFFFF)
      else let pt = phys_to_virt s (rd s pd (PD_INDEX virt) AND PTE_ADDR_MASK)
      in if rd s pt (PT_INDEX virt) AND PTE_PRESENT = 0 then 0
      else (rd s pt (PT_INDEX virt) AND PTE_ADDR_MASK) + (virt AND 0xFFF))"

section \<open>Cache lines, CR3, initialisation and user stacks\<close>

text \<open>The lines flushed by \<^verbatim>\<open>while (p < end) { clflush(p); p += 64; }\<close>, in order.\<close>

partial_function (option) clflush_loop :: "u64 \<Rightarrow> u64 \<Rightarrow> u64 list option" where
  "clflush_loop p end =
     (if p < end
      then Option.bind (clflush_loop (p + 64) end) (\<lambda>ls. Some (p # ls))
      else Some [])"

definition phys_flush_cache :: "u64 \<Rightarrow> u64 \<Rightarrow> u64 list option" where
  "phys_flush_cache addr sz = clflush_loop (addr AND NOT 63) (addr + sz)"

definition phys_invalidate_cache :: "u64 \<Rightarrow> u64 \<Rightarrow> u64 list option" where
  "phys_invalidate_cache addr sz = phys_flush_cache addr sz"

definition get_current_cr3 :: "'p vmm \<Rightarrow> u64" where
  "get_current_cr3 s = cr3 s AND NOT 0xFFF"

definition load_cr3 :: "'p vmm \<Rightarrow> u64 \<Rightarrow> 'p vmm" where
  "load_cr3 s cr3_phys = s\<lparr>cr3 := cr3_phys, kernel_pml4 := phys_to_virt s cr3_phys\<rparr>"

definition set_kernel_pml4 :: "'p vmm \<Rightarrow> u64 \<Rightarrow> 'p vmm" where
  "set_kernel_pml4 s pml4 = s\<lparr>kernel_pml4 := pml4\<rparr>"

definition vmm_init :: "('p \<Rightarrow> u64) \<Rightarrow> 'p vmm \<Rightarrow> 'p vmm" where
  "vmm_init get_hhdm_offset s =
     (let s = s\<lparr>v_hhdm_offset := get_hhdm_offset (pm s)\<rparr>
      in s\<lparr>kernel_pml4 := phys_to_virt s (cr3 s AND NOT 0xFFF)\<rparr>)"

text \<open>\<^verbatim>\<open>map_page(addr, palloc(), flags)\<close>: the frame is allocated first and not tested for 0.\<close>

definition map_fresh :: "('p \<Rightarrow> u64 \<times> 'p) \<Rightarrow> 'p vmm \<Rightarrow> u64 \<Rightarrow> u64 \<Rightarrow> 'p vmm option" where
  "map_fresh alloc s addr flags =
     (let (phys, pm') = alloc (pm s) in map_page alloc (s\<lparr>pm := pm'\<rparr>) addr phys flags)"

primrec user_stack_loop ::
  "('p \<Rightarrow> u64 \<times> 'p) \<Rightarrow> 'p vmm \<Rightarrow> u64 \<Rightarrow> nat \<Rightarrow> 'p vmm option" where
  "user_stack_loop alloc s stack_bottom 0 = Some s"
| "user_stack_loop alloc s stack_bottom (Suc i) =
     (case user_stack_loop alloc s stack_bottom i of
        None \<Rightarrow> None
      | Some s \<Rightarrow> map_fresh alloc s (stack_bottom + of_nat i * PAGE_SIZE)
          (PTE_PRESENT OR PTE_USER OR PTE_WRITABLE))"

definition create_user_stack ::
  "('p \<Rightarrow> u64 \<times> 'p) \<Rightarrow> 'p vmm \<Rightarrow> u64 \<Rightarrow> (u64 \<times> 'p vmm) option" where
  "create_user_stack alloc s sz =
     (let num_pages = ALIGN_UP sz PAGE_SIZE div PAGE_SIZE;
          stack_bottom = USER_STACK_TOP - sz
      in case user_stack_loop alloc s stack_bottom (unat num_pages) of
           None \<Rightarrow> None
         | Some s \<Rightarrow> Some (USER_STACK_TOP, s))"

function guard_stack_loop :: "('p \<Rightarrow> u64 \<times> 'p) \<Rightarrow> 'p vmm \<Rightarrow> u64 \<Rightarrow> 'p vmm option" where
  "guard_stack_loop alloc s addr =
     (if addr < USER_STACK_TOP then
        (case map_fresh alloc s addr (PTE_PRESENT OR PTE_WRITABLE OR PTE_USER) of
           None \<Rightarrow> None
         | Some s \<Rightarrow> guard_stack_loop alloc s (addr + PAGE_SIZE))
      else Some s)"
  by pat_completeness auto
termination
proof (relation "measure (\<lambda>(alloc, s, addr). 2 ^ 64 - unat addr)", simp)
  fix alloc :: "'p \<Rightarrow> u64 \<times> 'p" and s t :: "'p vmm" and addr :: u64
  assume "addr < USER_STACK_TOP"
  then have "unat addr < 0x0000700000000000"
    by (simp add: USER_STACK_TOP_def word_less_nat_alt)
  then have "unat (addr + PAGE_SIZE) = unat addr + 4096"
    by (subst unat_plus_u64) (simp_all add: PAGE_SIZE_def)
  then show "((alloc, t, addr + PAGE_SIZE), alloc, s, addr)
      \<in> measure (\<lambda>(alloc, s, addr). 2 ^ 64 - unat addr)"
    using \<open>unat addr < _\<close> by simp
qed

declare guard_stack_loop.simps [simp del]

definition map_user_stack_with_guard ::
  "('p \<Rightarrow> u64 \<times> 'p) \<Rightarrow> 'p vmm \<Rightarrow> u64 \<Rightarrow> (u64 \<times> 'p vmm) option" where
  "map_user_stack_with_guard alloc s stack_size =
     (let stack_bottom = USER_STACK_TOP - stack_size - GUARD_PAGE_SIZE
      in case guard_stack_loop alloc s (stack_bottom + GUARD_PAGE_SIZE) of
           None \<Rightarrow> None
         | Some s \<Rightarrow> Some (USER_STACK_TOP, s))"

end
