(* ===== verification/Vmm_Tables.thy ===== *)
theory Vmm_Tables
  imports Vmm "HOL-Library.Sublist"
begin

text \<open>
  Page tables abstractly: a table is a page number, its entries a function of page and index, and
  \<open>tab E r \<pi>\<close> the table reached from the root \<open>r\<close> along the path \<open>\<pi>\<close>. \<open>tables_ok\<close> says that the tables
  form a tree of pages that the page allocator does not hold; linking a fresh table and writing an
  entry of a last-level table keep it.
\<close>

section \<open>The tree of tables\<close>

definition pr :: "u64 \<Rightarrow> bool" where "pr e \<longleftrightarrow> e AND PTE_PRESENT \<noteq> 0"
definition ps :: "u64 \<Rightarrow> bool" where "ps e \<longleftrightarrow> e AND PTE_PS \<noteq> 0"
definition child :: "u64 \<Rightarrow> nat" where "child e = unat (e AND PTE_ADDR_MASK) div 4096"

type_synonym entries = "nat \<Rightarrow> nat \<Rightarrow> u64"

fun tab :: "entries \<Rightarrow> nat \<Rightarrow> nat list \<Rightarrow> nat option" where
  "tab E p [] = Some p"
| "tab E p (i # is) = (if pr (E p i) \<and> \<not> ps (E p i) then tab E (child (E p i)) is else None)"

definition idx :: "nat list \<Rightarrow> bool" where
  "idx is \<longleftrightarrow> (\<forall>i\<in>set is. i < 512)"

definition HIGH_BITS :: u64 where
  "HIGH_BITS = 0xFFF0000000000000"

definition entry_fine :: "u64 \<Rightarrow> bool" where
  "entry_fine e \<longleftrightarrow> (if ps e then e AND 0x1FF000 = 0 else e AND HIGH_BITS = 0)"

definition tables_ok :: "entries \<Rightarrow> nat \<Rightarrow> nat \<Rightarrow> nat set \<Rightarrow> bool" where
  "tables_ok E r n F \<longleftrightarrow>
     (\<forall>\<pi> p. length \<pi> \<le> 3 \<and> idx \<pi> \<and> tab E r \<pi> = Some p \<longrightarrow> p \<notin> F \<and> 0 < p \<and> p < n) \<and>
     (\<forall>\<pi> \<rho> p. length \<pi> \<le> 3 \<and> idx \<pi> \<and> length \<rho> \<le> 3 \<and> idx \<rho> \<and> tab E r \<pi> = Some p \<and>
        tab E r \<rho> = Some p \<longrightarrow> \<pi> = \<rho>) \<and>
     (\<forall>\<pi> p i. length \<pi> \<le> 2 \<and> idx \<pi> \<and> i < 512 \<and> tab E r \<pi> = Some p \<and> pr (E p i) \<longrightarrow>
        entry_fine (E p i) \<and> (length \<pi> \<le> 1 \<longrightarrow> \<not> ps (E p i)))"

definition ix4 :: "u64 \<Rightarrow> nat" where "ix4 v = unat (PML4_INDEX v)"
definition ix3 :: "u64 \<Rightarrow> nat" where "ix3 v = unat (PDPT_INDEX v)"
definition ix2 :: "u64 \<Rightarrow> nat" where "ix2 v = unat (PD_INDEX v)"
definition ix1 :: "u64 \<Rightarrow> nat" where "ix1 v = unat (PT_INDEX v)"

definition leaf :: "u64 \<Rightarrow> u64 \<Rightarrow> u64" where
  "leaf f v = (if pr f then (f AND PTE_ADDR_MASK) + (v AND 0xFFF) else 0)"

definition translate :: "entries \<Rightarrow> nat \<Rightarrow> u64 \<Rightarrow> u64" where
  "translate E r v =
     (case tab E r [ix4 v, ix3 v] of
        None \<Rightarrow> 0
      | Some d \<Rightarrow>
          (let e = E d (ix2 v)
           in if \<not> pr e then 0
              else if ps e then (e AND PTE_ADDR_MASK) + (v AND 0x1FFFFF)
              else leaf (E (child e) (ix1 v)) v))"

lemma tables_okD:
  assumes "tables_ok E r n F"
  shows "\<And>\<pi> p. tab E r \<pi> = Some p \<Longrightarrow> length \<pi> \<le> 3 \<Longrightarrow> idx \<pi> \<Longrightarrow> p \<notin> F \<and> 0 < p \<and> p < n"
    "\<And>\<pi> \<rho> p. tab E r \<pi> = Some p \<Longrightarrow> tab E r \<rho> = Some p \<Longrightarrow> length \<pi> \<le> 3 \<Longrightarrow> idx \<pi> \<Longrightarrow>
       length \<rho> \<le> 3 \<Longrightarrow> idx \<rho> \<Longrightarrow> \<pi> = \<rho>"
    "\<And>\<pi> p i. tab E r \<pi> = Some p \<Longrightarrow> length \<pi> \<le> 2 \<Longrightarrow> idx \<pi> \<Longrightarrow> i < 512 \<Longrightarrow> pr (E p i) \<Longrightarrow>
       entry_fine (E p i) \<and> (length \<pi> \<le> 1 \<longrightarrow> \<not> ps (E p i))"
  using assms unfolding tables_ok_def by blast+

lemma tab_append: "tab E p (xs @ ys) = (case tab E p xs of None \<Rightarrow> None | Some q \<Rightarrow> tab E q ys)"
  by (induction xs arbitrary: p) auto

lemma tab_snoc:
  "tab E p (xs @ [i]) = (case tab E p xs of None \<Rightarrow> None
     | Some q \<Rightarrow> if pr (E q i) \<and> \<not> ps (E q i) then Some (child (E q i)) else None)"
  by (simp add: tab_append split: option.split)

lemma idx_simps [simp]: "idx []" "idx (i # is) \<longleftrightarrow> i < 512 \<and> idx is" "idx (xs @ ys) \<longleftrightarrow> idx xs \<and> idx ys"
  by (auto simp: idx_def)

lemma idx_prefix: "prefix xs ys \<Longrightarrow> idx ys \<Longrightarrow> idx xs"
  by (auto simp: prefix_def)

lemma tab_cong:
  assumes "\<And>p i. pr (E' p i) = pr (E p i) \<and> ps (E' p i) = ps (E p i) \<and> child (E' p i) = child (E p i)"
  shows "tab E' p \<pi> = tab E p \<pi>"
  using assms by (induction \<pi> arbitrary: p) auto

lemma tables_ok_cong:
  assumes "tables_ok E r n F"
    and "\<And>p i. pr (E' p i) = pr (E p i) \<and> ps (E' p i) = ps (E p i) \<and> child (E' p i) = child (E p i) \<and>
      entry_fine (E' p i) = entry_fine (E p i)"
  shows "tables_ok E' r n F"
proof -
  have "tab E' p \<pi> = tab E p \<pi>" for p \<pi> by (rule tab_cong) (use assms(2) in blast)
  then show ?thesis
    using assms(1) unfolding tables_ok_def by (simp only: assms(2) simp_thms)
qed

text \<open>A table \<open>q\<close> that was free is linked at entry \<open>i\<close> of the table at path \<open>\<pi>\<close>.\<close>

definition links ::
  "entries \<Rightarrow> entries \<Rightarrow> nat \<Rightarrow> nat \<Rightarrow> nat set \<Rightarrow> nat list \<Rightarrow> nat \<Rightarrow> nat \<Rightarrow> nat \<Rightarrow> bool" where
  "links E E' r n F \<pi> p i q \<longleftrightarrow>
     tables_ok E r n F \<and> tab E r \<pi> = Some p \<and> length \<pi> \<le> 2 \<and> idx \<pi> \<and> i < 512 \<and>
     tab E r (\<pi> @ [i]) = None \<and> q \<in> F \<and> 0 < q \<and> q < n \<and>
     (\<forall>x j. x \<noteq> q \<longrightarrow> (x, j) \<noteq> (p, i) \<longrightarrow> E' x j = E x j) \<and>
     pr (E' p i) \<and> \<not> ps (E' p i) \<and> child (E' p i) = q \<and> entry_fine (E' p i) \<and>
     (length \<pi> \<le> 1 \<longrightarrow> (\<forall>j. \<not> pr (E' q j)))"

lemma linksD:
  assumes "links E E' r n F \<pi> p i q"
  shows "tables_ok E r n F" "tab E r \<pi> = Some p" "length \<pi> \<le> 2" "idx \<pi>" "i < 512"
    "tab E r (\<pi> @ [i]) = None" "q \<in> F" "0 < q" "q < n"
    "\<And>x j. x \<noteq> q \<Longrightarrow> (x, j) \<noteq> (p, i) \<Longrightarrow> E' x j = E x j"
    "pr (E' p i)" "\<not> ps (E' p i)" "child (E' p i) = q" "entry_fine (E' p i)"
    "\<And>j. length \<pi> \<le> 1 \<Longrightarrow> \<not> pr (E' q j)"
  using assms unfolding links_def by blast+

lemma link_frame:
  assumes l: "links E E' r n F \<pi> p i q" and "length \<rho> \<le> 3" "idx \<rho>" "\<not> prefix (\<pi> @ [i]) \<rho>"
  shows "tab E' r \<rho> = tab E r \<rho>"
  using assms(2-)
proof (induction \<rho> rule: rev_induct)
  case (snoc j \<sigma>)
  have "\<not> prefix (\<pi> @ [i]) \<sigma>" using snoc.prems(3) by (metis prefix_prefix)
  then have IH: "tab E' r \<sigma> = tab E r \<sigma>" using snoc by simp
  show ?case
  proof (cases "tab E r \<sigma>")
    case None
    then show ?thesis using IH by (simp add: tab_snoc)
  next
    case (Some x)
    have "x \<noteq> q" using tables_okD(1) [OF linksD(1) [OF l] Some] linksD(7) [OF l] snoc.prems by auto
    moreover have "(x, j) \<noteq> (p, i)"
      using tables_okD(2) [OF linksD(1) [OF l], of \<sigma> x \<pi>] Some linksD(2-5) [OF l] snoc.prems by auto
    ultimately have "E' x j = E x j" by (rule linksD(10) [OF l])
    then show ?thesis using IH Some by (simp add: tab_snoc)
  qed
qed simp

lemma link_at:
  assumes l: "links E E' r n F \<pi> p i q"
  shows "tab E' r \<pi> = Some p" "tab E' r (\<pi> @ [i]) = Some q"
proof -
  show *: "tab E' r \<pi> = Some p" using link_frame [OF l, of \<pi>] linksD(2-4) [OF l] by (auto simp: prefix_def)
  show "tab E' r (\<pi> @ [i]) = Some q" using * linksD(11-13) [OF l] by (simp add: tab_snoc)
qed

lemma link_below:
  assumes l: "links E E' r n F \<pi> p i q" and "tab E' r \<rho> = Some x" "length \<rho> \<le> 3" "idx \<rho>" "prefix (\<pi> @ [i]) \<rho>"
  shows "\<rho> = \<pi> @ [i]" "x = q"
proof -
  obtain \<sigma> where \<sigma>: "\<rho> = (\<pi> @ [i]) @ \<sigma>" using assms(5) by (auto simp: prefix_def)
  have "\<sigma> = []"
  proof (rule ccontr)
    assume "\<sigma> \<noteq> []"
    then obtain j \<tau> where s: "\<sigma> = j # \<tau>" by (cases \<sigma>) auto
    have "tab E' q (j # \<tau>) = Some x" using assms(2) link_at(2) [OF l] \<sigma> s by (simp only: tab_append) simp
    moreover have "\<not> pr (E' q j)" using linksD(15) [OF l] assms(3) \<sigma> s by simp
    ultimately show False by simp
  qed
  then show "\<rho> = \<pi> @ [i]" "x = q" using \<sigma> assms(2) link_at(2) [OF l] by auto
qed

lemma link_ok:
  assumes l: "links E E' r n F \<pi> p i q"
  shows "tables_ok E' r n (F - {q})"
proof -
  note ok = linksD(1) [OF l] and q = linksD(7-9) [OF l] and new = linksD(11-14) [OF l]
  have cases: "x = q \<and> \<rho> = \<pi> @ [i] \<or> x \<noteq> q \<and> tab E r \<rho> = Some x \<and> \<not> prefix (\<pi> @ [i]) \<rho>"
    if "tab E' r \<rho> = Some x" "length \<rho> \<le> 3" "idx \<rho>" for \<rho> x
  proof (cases "prefix (\<pi> @ [i]) \<rho>")
    case True
    then show ?thesis using link_below [OF l that] by blast
  next
    case False
    then have "tab E r \<rho> = Some x" using link_frame [OF l] that by simp
    then show ?thesis using False tables_okD(1) [OF ok] that q by blast
  qed
  show ?thesis
    unfolding tables_ok_def
  proof (intro conjI allI impI; (elim conjE)?)
    fix \<rho> x assume "length \<rho> \<le> 3" "idx \<rho>" "tab E' r \<rho> = Some x"
    then have "x \<notin> F - {q} \<and> 0 < x \<and> x < n" using cases [of \<rho> x] tables_okD(1) [OF ok] q by blast
    then show "x \<notin> F - {q}" "0 < x" "x < n" by auto
  next
    fix \<rho> \<sigma> x
    assume "length \<rho> \<le> 3" "idx \<rho>" "length \<sigma> \<le> 3" "idx \<sigma>" "tab E' r \<rho> = Some x" "tab E' r \<sigma> = Some x"
    then show "\<rho> = \<sigma>" using cases [of \<rho> x] cases [of \<sigma> x] tables_okD(2) [OF ok] by blast
  next
    fix \<rho> x j assume a: "length \<rho> \<le> 2" "idx \<rho>" "j < 512" "tab E' r \<rho> = Some x" "pr (E' x j)"
    have "entry_fine (E' x j) \<and> (length \<rho> \<le> 1 \<longrightarrow> \<not> ps (E' x j))"
    proof (cases "x = q")
      case True
      then have "\<rho> = \<pi> @ [i]" using cases [of \<rho> x] a by simp
      then show ?thesis using a linksD(15) [OF l] True by simp
    next
      case False
      then have x: "tab E r \<rho> = Some x" using cases [of \<rho> x] a by simp
      show ?thesis
      proof (cases "(x, j) = (p, i)")
        case True
        then show ?thesis using new by simp
      next
        case False
        then show ?thesis using linksD(10) [OF l, of x j] \<open>x \<noteq> q\<close> tables_okD(3) [OF ok x] a by simp
      qed
    qed
    then show "entry_fine (E' x j)" "length \<rho> \<le> 1 \<Longrightarrow> \<not> ps (E' x j)" by auto
  qed
qed

section \<open>Translation\<close>

declare tab.simps(2) [simp del]

lemma and_1FF_less: "unat (x AND 0x1FF :: u64) < 512"
proof -
  have "x AND 0x1FF = take_bit 9 x" by (simp add: take_bit_eq_mask mask_eq_exp_minus_1)
  moreover have "unat (take_bit 9 x) < 2 ^ 9" by (simp only: unsigned_take_bit_eq) (rule take_bit_nat_less_exp)
  ultimately show ?thesis by simp
qed

lemma ix_less [simp]: "ix4 v < 512" "ix3 v < 512" "ix2 v < 512" "ix1 v < 512"
  unfolding ix4_def ix3_def ix2_def ix1_def PML4_INDEX_def PDPT_INDEX_def PD_INDEX_def PT_INDEX_def
  by (rule and_1FF_less)+

lemma translate_link:
  assumes l: "links E E' r n F \<pi> p i q"
    and H: "\<And>v. \<pi> = [ix4 v, ix3 v] \<Longrightarrow> ix2 v = i \<Longrightarrow> leaf (E' q (ix1 v)) v =
      (if pr (E p i) then (E p i AND PTE_ADDR_MASK) + (v AND 0x1FFFFF) else 0)"
  shows "translate E' r v = translate E r v"
proof -
  let ?\<rho> = "[ix4 v, ix3 v]"
  note ok = linksD(1) [OF l]
  show ?thesis
  proof (cases "prefix (\<pi> @ [i]) ?\<rho>")
    case True
    then obtain \<sigma> where \<sigma>: "?\<rho> = (\<pi> @ [i]) @ \<sigma>" by (auto simp: prefix_def)
    have "tab E r ?\<rho> = None" unfolding \<sigma> by (subst tab_append) (simp add: linksD(6) [OF l])
    then have old: "translate E r v = 0" by (simp add: translate_def)
    have len: "length \<pi> \<le> 1" using arg_cong [OF \<sigma>, of length] by simp
    have "translate E' r v = 0"
    proof (cases "tab E' r ?\<rho>")
      case (Some x)
      then have "x = q" using link_below(2) [OF l Some] True by simp
      then show ?thesis using Some linksD(15) [OF l len] by (simp add: translate_def)
    qed (simp add: translate_def)
    then show ?thesis using old by simp
  next
    case False
    then have t: "tab E' r ?\<rho> = tab E r ?\<rho>" using link_frame [OF l] by simp
    show ?thesis
    proof (cases "tab E r ?\<rho>")
      case None
      then show ?thesis using t by (simp add: translate_def)
    next
      case (Some d)
      have dq: "d \<noteq> q" using tables_okD(1) [OF ok Some] linksD(7) [OF l] by auto
      show ?thesis
      proof (cases "(d, ix2 v) = (p, i)")
        case True
        then have \<pi>: "\<pi> = ?\<rho>"
          using tables_okD(2) [OF ok linksD(2) [OF l], of ?\<rho>] Some linksD(3,4) [OF l] by simp
        have "\<not> pr (E p i) \<or> ps (E p i)"
          using linksD(6) [OF l] linksD(2) [OF l] by (auto simp: tab_snoc split: if_splits)
        then show ?thesis
          using H [OF \<pi>] True t Some linksD(11-13) [OF l] by (auto simp: translate_def Let_def)
      next
        case False
        then have e: "E' d (ix2 v) = E d (ix2 v)" using linksD(10) [OF l dq] by simp
        have "E' (child (E d (ix2 v))) j = E (child (E d (ix2 v))) j"
          if "pr (E d (ix2 v))" "\<not> ps (E d (ix2 v))" for j
        proof -
          let ?c = "child (E d (ix2 v))"
          have c: "tab E r (?\<rho> @ [ix2 v]) = Some ?c" using Some that by (subst tab_snoc) simp
          have "?c \<noteq> q" using tables_okD(1) [OF ok c] linksD(7) [OF l] by auto
          moreover have "?c \<noteq> p"
            using tables_okD(2) [OF ok linksD(2) [OF l], of "?\<rho> @ [ix2 v]"] c linksD(3,4) [OF l] by auto
          ultimately show ?thesis using linksD(10) [OF l] by simp
        qed
        then show ?thesis using t Some e by (simp add: translate_def Let_def)
      qed
    qed
  qed
qed

text \<open>Writing an entry of a last-level table.\<close>

definition set_entry :: "entries \<Rightarrow> nat \<Rightarrow> nat \<Rightarrow> u64 \<Rightarrow> entries" where
  "set_entry E p i e = (\<lambda>x j. if x = p \<and> j = i then e else E x j)"

lemma leaf_write_tab:
  assumes ok: "tables_ok E r n F" and t: "tab E r \<pi> = Some t" "length \<pi> = 3" "idx \<pi>"
    and "length \<rho> \<le> 3" "idx \<rho>"
  shows "tab (set_entry E t k f) r \<rho> = tab E r \<rho>"
  using assms(5-)
proof (induction \<rho> rule: rev_induct)
  case (snoc j \<sigma>)
  have "x \<noteq> t" if "tab E r \<sigma> = Some x" for x
    using tables_okD(2) [OF ok t(1), of \<sigma>] that snoc.prems t by auto
  then show ?case using snoc by (auto simp: tab_snoc set_entry_def split: option.splits)
qed simp

lemma leaf_write_ok:
  assumes ok: "tables_ok E r n F" and t: "tab E r \<pi> = Some t" "length \<pi> = 3" "idx \<pi>"
  shows "tables_ok (set_entry E t k f) r n F"
proof -
  have "x \<noteq> t" if "tab E r \<sigma> = Some x" "length \<sigma> \<le> 2" "idx \<sigma>" for x \<sigma>
    using tables_okD(2) [OF ok t(1), of \<sigma>] that t by auto
  then have e: "set_entry E t k f x j = E x j" if "tab E r \<sigma> = Some x" "length \<sigma> \<le> 2" "idx \<sigma>" for x j \<sigma>
    using that by (auto simp: set_entry_def)
  note tb = leaf_write_tab [OF assms, where k = k and f = f]
  show ?thesis
    unfolding tables_ok_def
  proof (intro conjI allI impI; (elim conjE)?)
    fix \<rho> x assume "length \<rho> \<le> 3" "idx \<rho>" "tab (set_entry E t k f) r \<rho> = Some x"
    then show "x \<notin> F" "0 < x" "x < n" using tables_okD(1) [OF ok] tb by simp_all
  next
    fix \<rho> \<sigma> x
    assume "length \<rho> \<le> 3" "idx \<rho>" "length \<sigma> \<le> 3" "idx \<sigma>"
      "tab (set_entry E t k f) r \<rho> = Some x" "tab (set_entry E t k f) r \<sigma> = Some x"
    then show "\<rho> = \<sigma>" using tables_okD(2) [OF ok] tb by simp
  next
    fix \<rho> x j
    assume a: "length \<rho> \<le> 2" "idx \<rho>" "j < 512" "tab (set_entry E t k f) r \<rho> = Some x"
      "pr (set_entry E t k f x j)"
    then have x: "tab E r \<rho> = Some x" using tb by simp
    then show "entry_fine (set_entry E t k f x j)" "length \<rho> \<le> 1 \<Longrightarrow> \<not> ps (set_entry E t k f x j)"
      using tables_okD(3) [OF ok x] a e [OF x] by simp_all
  qed
qed

lemma translate_leaf_write:
  assumes ok: "tables_ok E r n F" and t: "tab E r [a, b, c] = Some t" "a < 512" "b < 512" "c < 512"
  shows "translate (set_entry E t k f) r v =
    (if [ix4 v, ix3 v, ix2 v, ix1 v] = [a, b, c, k] then leaf f v else translate E r v)"
proof -
  let ?E = "set_entry E t k f" and ?\<rho> = "[ix4 v, ix3 v]"
  have tb: "tab ?E r ?\<rho> = tab E r ?\<rho>" by (rule leaf_write_tab [OF ok t(1)]) (simp_all add: t)
  show ?thesis
  proof (cases "tab E r ?\<rho>")
    case None
    then have "[ix4 v, ix3 v] \<noteq> [a, b]" using t(1) tab_append [of E r "[a, b]" "[c]"] by auto
    then show ?thesis using None tb by (auto simp: translate_def)
  next
    case (Some d)
    have "d \<noteq> t" using tables_okD(2) [OF ok t(1), of ?\<rho>] Some t by auto
    then have e: "?E d j = E d j" for j by (simp add: set_entry_def)
    show ?thesis
    proof (cases "pr (E d (ix2 v)) \<and> \<not> ps (E d (ix2 v))")
      case True
      then have c: "tab E r [ix4 v, ix3 v, ix2 v] = Some (child (E d (ix2 v)))"
        using Some tab_snoc [of E r ?\<rho> "ix2 v"] by simp
      have "child (E d (ix2 v)) = t \<longleftrightarrow> [ix4 v, ix3 v, ix2 v] = [a, b, c]"
        using tables_okD(2) [OF ok t(1), of "[ix4 v, ix3 v, ix2 v]"] c t by auto
      then show ?thesis using True Some tb e by (auto simp: translate_def Let_def set_entry_def)
    next
      case False
      then have "tab E r [ix4 v, ix3 v, ix2 v] = None"
        using Some tab_snoc [of E r ?\<rho> "ix2 v"] by simp
      then have "[ix4 v, ix3 v, ix2 v] \<noteq> [a, b, c]" using t(1) by auto
      then show ?thesis using False Some tb e by (auto simp: translate_def Let_def)
    qed
  qed
qed

end
