(* ===== verification/Vmm_Memory.thy ===== *)
theory Vmm_Memory
  imports Vmm_Tables
begin

text \<open>
  From memory to tables: the bits of page-table entries, the words of table pages in the direct map,
  and what the writes of the code do to the abstract tables.
\<close>

declare bit_numeral_word_iff [simp del] bit_neg_numeral_word_iff [simp del]

lemmas word_bits = bit_and_iff bit_or_iff bit_not_iff bit_take_bit_iff possible_bit_word

definition ptr :: "'p vmm \<Rightarrow> nat \<Rightarrow> u64" where
  "ptr s p = phys_to_virt s (page_addr p)"

definition ents :: "nat \<Rightarrow> 'p vmm \<Rightarrow> entries" where
  "ents n s = (\<lambda>p i. if p < n \<and> i < 512 then rd s (ptr s p) (of_nat i) else 0)"

definition direct_map_ok :: "nat \<Rightarrow> 'p vmm \<Rightarrow> bool" where
  "direct_map_ok n s \<longleftrightarrow> unat (v_hhdm_offset s) + n * 4096 \<le> 2 ^ 64 \<and> n * 4096 \<le> 2 ^ 52"

section \<open>Bits of entries\<close>

lemma pr_bit: "pr e \<longleftrightarrow> bit e 0"
  by (simp add: pr_def PTE_PRESENT_def bit_0 odd_iff_mod_2_eq_one and_one_eq even_iff_mod_2_eq_zero)

lemma ps_bit: "ps e \<longleftrightarrow> bit e 7"
  unfolding ps_def PTE_PS_def by (simp only: and_exp_eq_0_iff_not_bit not_not)

lemma mask_bits:
  "bit PTE_ADDR_MASK k \<longleftrightarrow> 12 \<le> k \<and> k < 52"
  "bit (0xFFF :: u64) k \<longleftrightarrow> k < 12"
  "bit (0x1FF000 :: u64) k \<longleftrightarrow> 12 \<le> k \<and> k < 21"
  "bit (0x1FFFFF :: u64) k \<longleftrightarrow> k < 21"
  "bit (0x000FFFFFFFE00000 :: u64) k \<longleftrightarrow> 21 \<le> k \<and> k < 52"
  "bit HIGH_BITS k \<longleftrightarrow> 52 \<le> k \<and> k < 64"
  "bit (0x1FF :: u64) k \<longleftrightarrow> k < 9"
  "bit (-4096 :: u64) k \<longleftrightarrow> 12 \<le> k \<and> k < 64"
proof -
  have "PTE_ADDR_MASK = mask 52 AND NOT (mask 12)" "(0xFFF :: u64) = mask 12"
    "(0x1FF000 :: u64) = mask 21 AND NOT (mask 12)" "(0x1FFFFF :: u64) = mask 21"
    "(0x000FFFFFFFE00000 :: u64) = mask 52 AND NOT (mask 21)"
    "HIGH_BITS = NOT (mask 52)" "(0x1FF :: u64) = mask 9"
    "(-4096 :: u64) = NOT (mask 12)"
    by (simp_all add: PTE_ADDR_MASK_def HIGH_BITS_def mask_eq_exp_minus_1)
  note * = this
  show "bit PTE_ADDR_MASK k \<longleftrightarrow> 12 \<le> k \<and> k < 52"
    "bit (0xFFF :: u64) k \<longleftrightarrow> k < 12"
    "bit (0x1FF000 :: u64) k \<longleftrightarrow> 12 \<le> k \<and> k < 21"
    "bit (0x1FFFFF :: u64) k \<longleftrightarrow> k < 21"
    "bit (0x000FFFFFFFE00000 :: u64) k \<longleftrightarrow> 21 \<le> k \<and> k < 52"
    "bit HIGH_BITS k \<longleftrightarrow> 52 \<le> k \<and> k < 64"
    "bit (0x1FF :: u64) k \<longleftrightarrow> k < 9"
    "bit (-4096 :: u64) k \<longleftrightarrow> 12 \<le> k \<and> k < 64"
    unfolding * by (auto simp: bit_simps)
qed

lemma bit_page_addr:
  assumes "q * 4096 < 2 ^ 52" "bit (page_addr q) k"
  shows "12 \<le> k \<and> k < 52"
proof -
  have n: "unat (page_addr q) = q * 4096" using assms(1) by (intro unat_page_addr) simp
  have "odd (q * 4096 div 2 ^ k)"
    using assms(2) bit_unsigned_iff [of "page_addr q" k]
    by (metis bit_iff_odd n possible_bit_nat)
  moreover have "even (q * 4096 div 2 ^ k)" if "k < 12"
  proof -
    have "(4096 :: nat) = 2 ^ k * 2 ^ (12 - k)" using that by (simp flip: power_add)
    then have "q * 4096 = q * 2 ^ (12 - k) * 2 ^ k" by (simp add: mult.commute)
    then have "q * 4096 div 2 ^ k = q * 2 ^ (12 - k)" by (simp only: nonzero_mult_div_cancel_right power_not_zero) simp
    then show ?thesis using that by simp
  qed
  moreover have "q * 4096 div 2 ^ k = 0" if "52 \<le> k"
    using assms(1) power_increasing [OF that, of "2 :: nat"] by (intro div_less) linarith
  ultimately show ?thesis by (metis even_zero not_less)
qed

lemma flag_bits:
  "bit PTE_PRESENT k \<longleftrightarrow> k = 0" "bit PTE_WRITABLE k \<longleftrightarrow> k = 1" "bit PTE_USER k \<longleftrightarrow> k = 2"
  unfolding PTE_PRESENT_def PTE_WRITABLE_def PTE_USER_def
  by (simp_all only: bit_exp_iff possible_bit_word) auto

lemma child_entry:
  assumes "q * 4096 < 2 ^ 52" "ub = 0 \<or> ub = PTE_USER"
  defines "e \<equiv> page_addr q OR PTE_PRESENT OR PTE_WRITABLE OR ub"
  shows "pr e" "\<not> ps e" "child e = q" "entry_fine e"
proof -
  have b: "bit e k \<longleftrightarrow> bit (page_addr q) k \<or> k = 0 \<or> k = 1 \<or> k = 2 \<and> ub = PTE_USER" for k
    using assms(2) unfolding e_def
    by (auto simp: bit_or_iff flag_bits)
  show "pr e" unfolding pr_bit b by simp
  show ps: "\<not> ps e" unfolding ps_bit b using bit_page_addr [OF assms(1)] by force
  have "e AND PTE_ADDR_MASK = page_addr q"
    by (rule bit_eqI) (use bit_page_addr [OF assms(1)] in \<open>force simp: bit_and_iff b mask_bits\<close>)
  then show "child e = q" using assms(1) by (simp add: child_def unat_page_addr)
  have "e AND HIGH_BITS = 0"
  proof (rule bit_eqI)
    fix k show "bit (e AND HIGH_BITS) k = bit (0 :: u64) k"
      using bit_page_addr [OF assms(1), of k] by (auto simp: bit_and_iff b mask_bits)
  qed
  then show "entry_fine e" using ps by (simp add: entry_fine_def)
qed

lemma user_bit_entry:
  assumes "ub = 0 \<or> ub = PTE_USER"
  shows "pr (e OR ub) = pr e" "ps (e OR ub) = ps e" "(e OR ub) AND PTE_ADDR_MASK = e AND PTE_ADDR_MASK"
    "child (e OR ub) = child e" "entry_fine (e OR ub) = entry_fine e"
proof -
  have b: "bit (e OR ub) k \<longleftrightarrow> bit e k \<or> k = 2 \<and> ub = PTE_USER" for k
    using assms by (auto simp: bit_or_iff flag_bits)
  show "pr (e OR ub) = pr e" unfolding pr_bit b by simp
  show ps: "ps (e OR ub) = ps e" unfolding ps_bit b by simp
  have msk: "(e OR ub) AND x = e AND x" if "\<not> bit x 2" for x
  proof (rule bit_eqI)
    fix k show "bit ((e OR ub) AND x) k = bit (e AND x) k"
      using that by (auto simp: bit_and_iff b)
  qed
  show "(e OR ub) AND PTE_ADDR_MASK = e AND PTE_ADDR_MASK" by (rule msk) (simp add: mask_bits)
  then show "child (e OR ub) = child e" by (simp add: child_def)
  show "entry_fine (e OR ub) = entry_fine e"
    unfolding entry_fine_def ps by (simp add: msk mask_bits)
qed

lemma entry_pointer:
  "\<not> ps e \<Longrightarrow> entry_fine e \<Longrightarrow> e AND NOT 0xFFF = e AND PTE_ADDR_MASK"
  "e AND PTE_ADDR_MASK = page_addr (child e)"
proof -
  assume "\<not> ps e" "entry_fine e"
  then have z: "e AND HIGH_BITS = 0" by (simp add: entry_fine_def)
  have nb: "\<not> bit e k" if "52 \<le> k" "k < 64" for k
  proof
    assume "bit e k"
    then have "bit (e AND HIGH_BITS) k" using that by (simp add: bit_and_iff mask_bits)
    then show False using z by simp
  qed
  show "e AND NOT 0xFFF = e AND PTE_ADDR_MASK"
  proof (rule bit_eqI)
    fix k assume "possible_bit TYPE(64 word) k"
    then show "bit (e AND NOT 0xFFF) k = bit (e AND PTE_ADDR_MASK) k"
      using nb [of k] by (cases "52 \<le> k") (auto simp: word_bits mask_bits)
  qed
next
  have "4096 dvd unat (e AND PTE_ADDR_MASK)"
  proof -
    have "take_bit 12 (e AND PTE_ADDR_MASK) = 0"
      by (rule bit_eqI) (auto simp: word_bits mask_bits)
    then have "take_bit 12 (unat (e AND PTE_ADDR_MASK)) = 0"
      by (metis unsigned_0 unsigned_take_bit_eq)
    then show ?thesis by (simp add: take_bit_eq_mod mod_eq_0_iff_dvd)
  qed
  then show "e AND PTE_ADDR_MASK = page_addr (child e)" by (simp add: child_def page_addr_def)
qed

section \<open>Table pages in memory\<close>

lemma word_mult_8: "unat (8 * of_nat i :: u64) = 8 * i" if "i < 512"
proof -
  have "(8 * of_nat i :: u64) = of_nat (8 * i)" by simp
  then show ?thesis using that by (simp only:) (rule unat_of_nat_u64, simp)
qed

lemma unat_slot:
  assumes "direct_map_ok n s" "p < n" "i < 512"
  shows "unat (ptr s p + 8 * of_nat i) = unat (v_hhdm_offset s) + p * 4096 + 8 * i"
proof -
  have p: "(p + 1) * 4096 \<le> n * 4096" using assms(2) by simp
  have "p * 4096 < 2 ^ 64" using p assms(1) by (simp add: direct_map_ok_def)
  then have "unat (page_addr p) = p * 4096" by (rule unat_page_addr)
  then have "unat (ptr s p) = p * 4096 + unat (v_hhdm_offset s)"
    using p assms(1) unfolding ptr_def phys_to_virt_def
    by (subst unat_plus_u64) (simp_all add: direct_map_ok_def)
  then show ?thesis
    using p assms word_mult_8 [OF assms(3)] by (subst unat_plus_u64) (simp_all add: direct_map_ok_def)
qed

lemma slot_inject:
  assumes "direct_map_ok n s" "p < n" "i < 512" "q < n" "j < 512"
  shows "ptr s p + 8 * of_nat i = ptr s q + 8 * of_nat j \<longleftrightarrow> p = q \<and> i = j"
proof
  assume "ptr s p + 8 * of_nat i = ptr s q + 8 * of_nat j"
  then have "p * 4096 + 8 * i = q * 4096 + 8 * j"
    using unat_slot [OF assms(1-3)] unat_slot [OF assms(1,4,5)] by simp
  then have "(p * 512 + i) = (q * 512 + j)" by simp
  then have "(p * 512 + i) div 512 = (q * 512 + j) div 512" "(p * 512 + i) mod 512 = (q * 512 + j) mod 512"
    by simp_all
  then show "p = q \<and> i = j" using assms(3,5) by simp
qed simp

lemma ptr_wr [simp]: "ptr (wr s a i v) = ptr s"
  by (simp add: fun_eq_iff ptr_def phys_to_virt_def wr_def)

lemma vmm_wr_frame [simp]:
  "pm (wr s a i v) = pm s" "kernel_pml4 (wr s a i v) = kernel_pml4 s"
  "v_hhdm_offset (wr s a i v) = v_hhdm_offset s"
  by (simp_all add: wr_def)

lemma zero_page_frame [simp]:
  "pm (zero_page s a) = pm s" "kernel_pml4 (zero_page s a) = kernel_pml4 s"
  "v_hhdm_offset (zero_page s a) = v_hhdm_offset s" "ptr (zero_page s a) = ptr s"
  by (simp_all add: zero_page_def fun_eq_iff ptr_def phys_to_virt_def)

lemma vmm_upd_frame [simp]:
  "ptr (s\<lparr>pm := m\<rparr>) = ptr s" "ents n (s\<lparr>pm := m\<rparr>) = ents n s"
  "ptr (invlpg s v) = ptr s" "ents n (invlpg s v) = ents n s"
  "pm (invlpg s v) = pm s" "kernel_pml4 (invlpg s v) = kernel_pml4 s"
  "v_hhdm_offset (invlpg s v) = v_hhdm_offset s"
  by (simp_all add: ents_def fun_eq_iff ptr_def phys_to_virt_def rd_def invlpg_def)

lemma direct_map_ok_cong: "v_hhdm_offset t = v_hhdm_offset s \<Longrightarrow> direct_map_ok n t = direct_map_ok n s"
  by (simp add: direct_map_ok_def)

lemma ents_rd: "p < n \<Longrightarrow> i < 512 \<Longrightarrow> rd s (ptr s p) (of_nat i) = ents n s p i"
  by (simp add: ents_def)

lemma ents_wr:
  assumes "direct_map_ok n s" "p < n" "i < 512"
  shows "ents n (wr s (ptr s p) (of_nat i) v) = set_entry (ents n s) p i v"
  using slot_inject [OF assms(1) _ _ assms(2,3)] assms
  by (auto simp: ents_def set_entry_def fun_eq_iff rd_def wr_def ptr_def phys_to_virt_def)

lemma ents_zero:
  assumes "direct_map_ok n s" "q < n"
  shows "ents n (zero_page s (ptr s q)) = (ents n s)(q := \<lambda>_. 0)"
proof -
  have d: "ptr s p + 8 * of_nat i - ptr s q < PAGE_SIZE \<longleftrightarrow> p = q" if "p < n" "i < 512" for p i
  proof -
    let ?a = "ptr s p + 8 * of_nat i"
    have a: "unat ?a = unat (v_hhdm_offset s) + p * 4096 + 8 * i"
      by (rule unat_slot [OF assms(1) that])
    have q: "unat (ptr s q) = unat (v_hhdm_offset s) + q * 4096"
      using unat_slot [OF assms, of 0] by simp
    show ?thesis
    proof (cases "q \<le> p")
      case True
      then have "q * 4096 \<le> p * 4096" by simp
      then have "unat (?a - ptr s q) = p * 4096 + 8 * i - q * 4096"
        using a q by (subst unat_minus_u64) simp_all
      moreover have "p * 4096 + 8 * i - q * 4096 < 4096 \<longleftrightarrow> p = q"
        using True that(2) by (cases "p = q") auto
      ultimately show ?thesis by (simp add: word_less_nat_alt PAGE_SIZE_def)
    next
      case False
      then have lt: "(p + 1) * 4096 \<le> q * 4096" by simp
      have d: "unat (ptr s q - ?a) = q * 4096 - (p * 4096 + 8 * i)"
        using a q lt that(2) by (subst unat_minus_u64) simp_all
      have "(?a - ptr s q) + (ptr s q - ?a) = 0" by simp
      then have "2 ^ 64 \<le> unat (?a - ptr s q) + unat (ptr s q - ?a)"
        using unat_plus_u64 [of "?a - ptr s q" "ptr s q - ?a"] d lt that(2) by (intro leI) auto
      moreover have "q * 4096 \<le> 2 ^ 52" using assms by (simp add: direct_map_ok_def)
      ultimately have "4096 \<le> unat (?a - ptr s q)" using d by simp
      then show ?thesis using False by (simp add: word_less_nat_alt PAGE_SIZE_def)
    qed
  qed
  have m: "mem (zero_page s a) = (\<lambda>b. if b - a < PAGE_SIZE then 0 else mem s b)" for a
    by (simp add: zero_page_def)
  show ?thesis
  proof (intro ext)
    fix p i show "ents n (zero_page s (ptr s q)) p i = ((ents n s)(q := \<lambda>_. 0)) p i"
      using d [of p i] by (simp only: ents_def rd_def m zero_page_frame) auto
  qed
qed

section \<open>Pages that keep their contents\<close>

definition in_page :: "'p vmm \<Rightarrow> nat \<Rightarrow> u64 \<Rightarrow> bool" where
  "in_page s p a \<longleftrightarrow> a - ptr s p < PAGE_SIZE"

definition same_pages :: "nat set \<Rightarrow> 'p vmm \<Rightarrow> 'p vmm \<Rightarrow> bool" where
  "same_pages P s t \<longleftrightarrow> (\<forall>p\<in>P. \<forall>a. in_page s p a \<longrightarrow> mem t a = mem s a)"

lemma unat_page_ptr: "direct_map_ok n s \<Longrightarrow> p < n \<Longrightarrow> unat (ptr s p) = unat (v_hhdm_offset s) + p * 4096"
  using unat_slot [of n s p 0] by simp

lemma in_page_iff:
  assumes "direct_map_ok n s" "p < n"
  shows "in_page s p a \<longleftrightarrow>
    unat (v_hhdm_offset s) + p * 4096 \<le> unat a \<and> unat a < unat (v_hhdm_offset s) + (p + 1) * 4096"
proof -
  have "(p + 1) * 4096 \<le> n * 4096" using assms(2) by (intro mult_right_mono) simp_all
  then have b: "unat (ptr s p) + 4096 \<le> 2 ^ 64" using unat_page_ptr [OF assms] assms(1) by (simp add: direct_map_ok_def)
  show ?thesis
  proof (cases "unat (ptr s p) \<le> unat a")
    case True
    then show ?thesis using unat_page_ptr [OF assms] by (auto simp: in_page_def word_less_nat_alt PAGE_SIZE_def unat_minus_u64)
  next
    case False
    have "unat (a - ptr s p) = 2 ^ 64 + unat a - unat (ptr s p)"
      using False by (simp add: unat_sub_if' size_word.rep_eq word_le_nat_alt)
    then have "4096 \<le> unat (a - ptr s p)" using False b unat_lt64 [of "ptr s p"] by (simp del: unat_lt64)
    then show ?thesis using False unat_page_ptr [OF assms] by (simp add: in_page_def word_less_nat_alt PAGE_SIZE_def)
  qed
qed

lemma in_page_unique:
  assumes "direct_map_ok n s" "p < n" "q < n" "in_page s p a" "in_page s q a"
  shows "p = q"
proof -
  have "unat a - unat (v_hhdm_offset s) = x \<Longrightarrow> x div 4096 = p \<and> x div 4096 = q" for x
    using assms in_page_iff [OF assms(1)] by (auto simp: div_nat_eqI)
  then show ?thesis by blast
qed

lemma same_pages_refl [simp]: "same_pages P s s"
  by (simp add: same_pages_def)

lemma same_pages_mono: "same_pages P s t \<Longrightarrow> Q \<subseteq> P \<Longrightarrow> same_pages Q s t"
  by (auto simp: same_pages_def)

lemma same_pages_trans:
  assumes "same_pages P s t" "same_pages P t u" "ptr t = ptr s" shows "same_pages P s u"
  using assms unfolding same_pages_def in_page_def by simp

lemma same_pages_wr:
  assumes "direct_map_ok n s" "p < n" "p \<notin> P" "\<forall>x\<in>P. x < n" "i < 512"
  shows "same_pages P s (wr s (ptr s p) (of_nat i) v)"
  unfolding same_pages_def
proof (intro ballI allI impI)
  fix x a assume x: "x \<in> P" and a: "in_page s x a"
  have "unat (ptr s p + 8 * of_nat i) = unat (v_hhdm_offset s) + p * 4096 + 8 * i" by (rule unat_slot [OF assms(1,2,5)])
  then have "in_page s p (ptr s p + 8 * of_nat i)" using in_page_iff [OF assms(1,2)] assms(5) by simp
  then have "a \<noteq> ptr s p + 8 * of_nat i" using in_page_unique [OF assms(1,2) _ _ a] x assms(3,4) by blast
  then show "mem (wr s (ptr s p) (of_nat i) v) a = mem s a" by (simp add: wr_def)
qed

lemma same_pages_zero:
  assumes "direct_map_ok n s" "q < n" "q \<notin> P" "\<forall>x\<in>P. x < n"
  shows "same_pages P s (zero_page s (ptr s q))"
  unfolding same_pages_def
proof (intro ballI allI impI)
  fix x a assume x: "x \<in> P" and a: "in_page s x a"
  then have "\<not> in_page s q a" using in_page_unique [OF assms(1,2) _ _ a] x assms(3,4) by blast
  then show "mem (zero_page s (ptr s q)) a = mem s a" by (simp add: zero_page_def in_page_def)
qed

section \<open>Tables of a state\<close>

definition vmm_wf ::
  "('p \<Rightarrow> bool) \<Rightarrow> ('p \<Rightarrow> nat set) \<Rightarrow> ('p \<Rightarrow> nat) \<Rightarrow> nat \<Rightarrow> 'p vmm \<Rightarrow> bool" where
  "vmm_wf pinv pfree_set plimit r s \<longleftrightarrow> pinv (pm s) \<and> kernel_pml4 s = ptr s r \<and>
     direct_map_ok (plimit (pm s)) s \<and>
     tables_ok (ents (plimit (pm s)) s) r (plimit (pm s)) (pfree_set (pm s))"

lemma vmm_wfD:
  assumes "vmm_wf pinv pfree_set plimit r s"
  shows "pinv (pm s)" "kernel_pml4 s = ptr s r" "direct_map_ok (plimit (pm s)) s"
    "tables_ok (ents (plimit (pm s)) s) r (plimit (pm s)) (pfree_set (pm s))"
  using assms by (simp_all add: vmm_wf_def)

lemma ix_of_nat:
  "PML4_INDEX v = of_nat (ix4 v)" "PDPT_INDEX v = of_nat (ix3 v)"
  "PD_INDEX v = of_nat (ix2 v)" "PT_INDEX v = of_nat (ix1 v)"
  by (simp_all add: ix4_def ix3_def ix2_def ix1_def)

lemma phys_to_virt_child: "phys_to_virt s (e AND PTE_ADDR_MASK) = ptr s (child e)"
  by (simp add: ptr_def entry_pointer(2))

lemma translate_cong:
  assumes "\<And>p i. pr (E' p i) = pr (E p i) \<and> ps (E' p i) = ps (E p i) \<and>
      E' p i AND PTE_ADDR_MASK = E p i AND PTE_ADDR_MASK"
  shows "translate E' r v = translate E r v"
proof -
  have c: "child (E' p i) = child (E p i)" for p i using assms by (simp add: child_def)
  have "tab E' r \<pi> = tab E r \<pi>" for \<pi> by (rule tab_cong) (use assms c in blast)
  then show ?thesis by (simp add: translate_def leaf_def Let_def assms c split: option.split)
qed

text \<open>The code's walk is the translation of the abstract tables.\<close>

lemma virt_to_phys_user_eq:
  assumes "vmm_wf pinv pfree_set plimit r s"
  shows "virt_to_phys_user s v = translate (ents (plimit (pm s)) s) r v"
proof -
  let ?n = "plimit (pm s)" let ?E = "ents ?n s"
  note ok = vmm_wfD(4) [OF assms]
  have n: "p < ?n" if "tab ?E r \<pi> = Some p" "length \<pi> \<le> 3" "idx \<pi>" for \<pi> p
    using tables_okD(1) [OF ok] that by blast
  have r: "r < ?n" by (rule n [of "[]"]) simp_all
  note [simp] = vmm_wfD(2) [OF assms] ix_of_nat phys_to_virt_child
  note unf = virt_to_phys_user_def Let_def
  have e4: "rd s (ptr s r) (of_nat (ix4 v)) = ?E r (ix4 v)" using r by (intro ents_rd) simp_all
  show ?thesis
  proof (cases "pr (?E r (ix4 v))")
    case False
    then have "tab ?E r [ix4 v, ix3 v] = None" by (simp add: tab.simps)
    then show ?thesis using False by (simp add: unf translate_def e4 pr_def)
  next
    case True
    let ?p = "child (?E r (ix4 v))"
    have "\<not> ps (?E r (ix4 v))" using tables_okD(3) [OF ok, of "[]" r "ix4 v"] True by simp
    then have t1: "tab ?E r [ix4 v] = Some ?p" using True by (simp add: tab.simps)
    have e3: "rd s (ptr s ?p) (of_nat (ix3 v)) = ?E ?p (ix3 v)"
      using n [OF t1] by (intro ents_rd) simp_all
    have t2: "tab ?E r [ix4 v, ix3 v] =
        (if pr (?E ?p (ix3 v)) \<and> \<not> ps (?E ?p (ix3 v)) then Some (child (?E ?p (ix3 v))) else None)"
      using tab_snoc [of ?E r "[ix4 v]" "ix3 v"] t1 by simp
    show ?thesis
    proof (cases "pr (?E ?p (ix3 v))")
      case False
      then show ?thesis using True t2 by (simp add: unf translate_def e4 e3 pr_def)
    next
      case pr3: True
      let ?d = "child (?E ?p (ix3 v))"
      have "\<not> ps (?E ?p (ix3 v))" using tables_okD(3) [OF ok t1] pr3 by simp
      then have t2: "tab ?E r [ix4 v, ix3 v] = Some ?d" using t2 pr3 by simp
      have e2: "rd s (ptr s ?d) (of_nat (ix2 v)) = ?E ?d (ix2 v)"
        using n [OF t2] by (intro ents_rd) simp_all
      have e1: "rd s (ptr s (child (?E ?d (ix2 v)))) (of_nat (ix1 v)) = ?E (child (?E ?d (ix2 v))) (ix1 v)"
        if "pr (?E ?d (ix2 v))" "\<not> ps (?E ?d (ix2 v))"
      proof -
        have "tab ?E r [ix4 v, ix3 v, ix2 v] = Some (child (?E ?d (ix2 v)))"
          using tab_snoc [of ?E r "[ix4 v, ix3 v]" "ix2 v"] t2 that by simp
        from n [OF this] show ?thesis by (intro ents_rd) simp_all
      qed
      show ?thesis
        using True pr3 t2 e1
        by (simp add: unf translate_def leaf_def e4 e3 e2 pr_def ps_def)
    qed
  qed
qed

lemma page_addr_and_not_FFF: "q * 4096 < 2 ^ 52 \<Longrightarrow> page_addr q AND NOT 0xFFF = page_addr q"
proof (rule bit_eqI)
  fix k assume "q * 4096 < 2 ^ 52"
  then show "bit (page_addr q AND NOT 0xFFF) k = bit (page_addr q) k"
    using bit_page_addr [of q k] by (auto simp: word_bits mask_bits)
qed

lemma virt_to_phys_ptr: "ptr t = ptr s \<Longrightarrow> v_hhdm_offset t = v_hhdm_offset s \<Longrightarrow> virt_to_phys t (ptr s q) = page_addr q"
  by (simp add: ptr_def phys_to_virt_def virt_to_phys_def)

context page_source
begin

lemma alloc_table_ok:
  assumes wf: "vmm_wf inv free_pages_of limit r s" and a: "alloc_table alloc s = Some (c, t)"
  obtains q where "c = ptr s q" "q \<in> free_pages_of (pm s)" "0 < q" "q < limit (pm s)"
    "free_pages_of (pm t) = free_pages_of (pm s) - {q}" "inv (pm t)" "limit (pm t) = limit (pm s)"
    "ents (limit (pm s)) t = (ents (limit (pm s)) s)(q := \<lambda>_. 0)"
    "v_hhdm_offset t = v_hhdm_offset s" "kernel_pml4 t = kernel_pml4 s" "ptr t = ptr s"
    "same_pages (free_pages_of (pm t)) s t"
proof -
  obtain phys m where al: "alloc (pm s) = (phys, m)" by fastforce
  let ?s = "s\<lparr>pm := m\<rparr>"
  have r: "phys \<noteq> 0" "c = phys_to_virt ?s phys" "t = zero_page ?s c"
    using a al by (auto simp: alloc_table_def Let_def split: if_splits)
  obtain q where q: "phys = page_addr q" "q \<in> free_pages_of (pm s)" "free_pages_of m = free_pages_of (pm s) - {q}"
    using alloc_some [OF vmm_wfD(1) [OF wf] al r(1)] by blast
  have n: "0 < q" "q < limit (pm s)" using free_range [OF vmm_wfD(1) [OF wf] q(2)] by auto
  have c: "c = ptr ?s q" unfolding ptr_def using r(2) q(1) by simp
  have "direct_map_ok (limit (pm s)) ?s" using vmm_wfD(3) [OF wf] by (simp add: direct_map_ok_def)
  then have "ents (limit (pm s)) t = (ents (limit (pm s)) s)(q := \<lambda>_. 0)"
    using ents_zero [of "limit (pm s)" ?s q] n c r(3) by simp
  moreover have i: "inv m" "limit m = limit (pm s)" using alloc_inv [OF vmm_wfD(1) [OF wf] al] by auto
  moreover have "same_pages (free_pages_of m) s (zero_page s (ptr s q))"
    by (rule same_pages_zero [OF vmm_wfD(3) [OF wf] n(2)]) (use q(3) free_range [OF i(1)] i(2) in auto)
  then have "same_pages (free_pages_of m) s t" using c r(3) by (simp add: same_pages_def zero_page_def cong: if_cong)
  ultimately show thesis using that [of q] q n c r(3) by simp
qed

lemma walk_or_alloc_ok:
  assumes wf: "vmm_wf inv free_pages_of limit r s"
    and at: "tab (ents (limit (pm s)) s) r \<pi> = Some p" "length \<pi> \<le> 2" "idx \<pi>" "i < 512"
    and ub: "ub = 0 \<or> ub = PTE_USER"
    and nps: "\<not> (pr (ents (limit (pm s)) s p i) \<and> ps (ents (limit (pm s)) s p i))"
    and w: "walk_or_alloc alloc s (ptr s p) (of_nat i) ub = Some (c, t)"
  shows "\<exists>q. c = ptr t q \<and> tab (ents (limit (pm t)) t) r (\<pi> @ [i]) = Some q \<and>
    vmm_wf inv free_pages_of limit r t \<and> limit (pm t) = limit (pm s) \<and>
    free_pages_of (pm t) \<subseteq> free_pages_of (pm s) \<and>
    card (free_pages_of (pm s) - free_pages_of (pm t)) \<le> 1 \<and>
    same_pages (free_pages_of (pm t)) s t \<and> ptr t = ptr s \<and> v_hhdm_offset t = v_hhdm_offset s \<and>
    (\<forall>v. translate (ents (limit (pm t)) t) r v = translate (ents (limit (pm s)) s) r v)"
proof -
  let ?n = "limit (pm s)" let ?E = "ents ?n s"
  note ok = vmm_wfD(4) [OF wf] and dm = vmm_wfD(3) [OF wf]
  have p: "p < ?n" "p \<notin> free_pages_of (pm s)" using tables_okD(1) [OF ok at(1)] at by auto
  have rd: "rd s (ptr s p) (of_nat i) = ?E p i" by (rule ents_rd [OF p(1) at(4)])
  show ?thesis
  proof (cases "pr (?E p i)")
    case False
    then obtain u where a: "alloc_table alloc s = Some (c, u)"
      and t: "t = wr u (ptr s p) (of_nat i)
        ((virt_to_phys u c AND NOT 0xFFF) OR PTE_PRESENT OR PTE_WRITABLE OR ub)"
      using w rd by (auto simp: walk_or_alloc_def pr_def split: option.splits)
    obtain q where q: "c = ptr s q" "q \<in> free_pages_of (pm s)" "0 < q" "q < ?n"
      "free_pages_of (pm u) = free_pages_of (pm s) - {q}" "inv (pm u)" "limit (pm u) = ?n"
      "ents ?n u = ?E(q := \<lambda>_. 0)" "v_hhdm_offset u = v_hhdm_offset s"
      "kernel_pml4 u = kernel_pml4 s" "ptr u = ptr s" "same_pages (free_pages_of (pm u)) s u"
      using alloc_table_ok [OF wf a] by metis
    have qb: "q * 4096 < 2 ^ 52" using q(4) dm by (simp add: direct_map_ok_def)
    let ?e = "page_addr q OR PTE_PRESENT OR PTE_WRITABLE OR ub"
    have t': "t = wr u (ptr u p) (of_nat i) ?e"
      using t virt_to_phys_ptr [OF q(11,9)] page_addr_and_not_FFF [OF qb] q(1,11) by simp
    have dm': "direct_map_ok ?n u" using dm direct_map_ok_cong [OF q(9)] by blast
    let ?E' = "set_entry (?E(q := \<lambda>_. 0)) p i ?e"
    have E': "ents ?n t = ?E'" using ents_wr [OF dm' p(1) at(4)] q(8) t' by simp
    have pq: "p \<noteq> q" using p(2) q(2) by auto
    have l: "links ?E ?E' r ?n (free_pages_of (pm s)) \<pi> p i q"
      unfolding links_def using ok at False q(2-4) child_entry [OF qb ub] pq
      by (auto simp: tab_snoc set_entry_def pr_def)
    have "translate ?E' r v = translate ?E r v" for v
      by (rule translate_link [OF l]) (use False pq in \<open>auto simp: set_entry_def leaf_def pr_def\<close>)
    moreover have "tab ?E' r (\<pi> @ [i]) = Some q" by (rule link_at(2) [OF l])
    moreover have "vmm_wf inv free_pages_of limit r t"
      using link_ok [OF l] q dm' vmm_wfD(2) [OF wf] E' t' direct_map_ok_cong [of t u]
      by (simp add: vmm_wf_def)
    moreover have "free_pages_of (pm s) - free_pages_of (pm t) \<subseteq> {q}" using q(5) t' by auto
    then have "card (free_pages_of (pm s) - free_pages_of (pm t)) \<le> 1"
      using card_mono [of "{q}"] by fastforce
    moreover have "same_pages (free_pages_of (pm u)) u t"
      unfolding t' by (rule same_pages_wr [OF dm' p(1)]) (use p(2) q(5) free_range [OF q(6)] q(7) at(4) in auto)
    then have "same_pages (free_pages_of (pm t)) s t" using same_pages_trans [OF q(12) _ q(11)] t' by simp
    ultimately show ?thesis using q(1,5,7,9,11) E' t' by (intro exI [of _ q]) auto
  next
    case True
    let ?e = "?E p i OR ub" and ?E' = "set_entry ?E p i (?E p i OR ub)"
    have t: "t = wr s (ptr s p) (of_nat i) ?e" "c = phys_to_virt t (rd t (ptr s p) (of_nat i) AND NOT 0xFFF)"
      using w rd True by (auto simp: walk_or_alloc_def pr_def Let_def)
    have E': "ents ?n t = ?E'" using ents_wr [OF dm p(1) at(4)] t(1) by simp
    have fine: "entry_fine (?E p i)" using tables_okD(3) [OF ok at(1-4)] True by simp
    have same: "pr (?E' x j) = pr (?E x j) \<and> ps (?E' x j) = ps (?E x j) \<and> child (?E' x j) = child (?E x j)"
      "entry_fine (?E' x j) = entry_fine (?E x j)" "?E' x j AND PTE_ADDR_MASK = ?E x j AND PTE_ADDR_MASK"
      for x j using user_bit_entry [OF ub] by (auto simp: set_entry_def)
    have tr: "translate ?E' r v = translate ?E r v" for v by (rule translate_cong) (use same in blast)
    have ok': "tables_ok ?E' r ?n (free_pages_of (pm s))" by (rule tables_ok_cong [OF ok]) (use same in blast)
    have "rd t (ptr s p) (of_nat i) = ?e"
      using ents_rd [of p ?n i t] p(1) at(4) E' t(1) by (simp add: set_entry_def)
    moreover have "?e AND NOT 0xFFF = ?e AND PTE_ADDR_MASK"
      by (rule entry_pointer(1)) (use user_bit_entry [OF ub] nps True fine in auto)
    ultimately have c: "c = ptr t (child (?E p i))"
      using t(2) user_bit_entry(4) [OF ub] by (simp add: phys_to_virt_child)
    have "tab ?E' r \<pi> = Some p" using tab_cong [of ?E' ?E] same at(1) by simp
    then have "tab ?E' r (\<pi> @ [i]) = Some (child (?E p i))"
      using True nps user_bit_entry [OF ub] by (simp add: tab_snoc set_entry_def)
    moreover have "vmm_wf inv free_pages_of limit r t"
      using ok' dm vmm_wfD(1,2) [OF wf] E' t(1) direct_map_ok_cong [of t s] by (simp add: vmm_wf_def)
    moreover have "same_pages (free_pages_of (pm s)) s t"
      unfolding t(1) by (rule same_pages_wr [OF dm p(1,2)]) (use free_range [OF vmm_wfD(1) [OF wf]] at(4) in auto)
    ultimately show ?thesis using c tr E' t(1) by (intro exI [of _ "child (?E p i)"]) simp
  qed
qed

end

section \<open>Huge pages\<close>

definition same_page :: "u64 \<Rightarrow> u64 \<Rightarrow> bool" where
  "same_page v w \<longleftrightarrow> [ix4 v, ix3 v, ix2 v, ix1 v] = [ix4 w, ix3 w, ix2 w, ix1 w]"

lemma bit_of_nat_small: "i < 512 \<Longrightarrow> bit (of_nat i :: u64) k \<Longrightarrow> k < 9"
proof (rule ccontr)
  assume a: "i < 512" "bit (of_nat i :: u64) k" "\<not> k < 9"
  have "unat (of_nat i :: u64) = i" using a(1) by (intro unat_of_nat_u64) simp
  then have "odd (i div 2 ^ k)" using a(2) bit_unsigned_iff [of "of_nat i :: u64" k]
    by (metis bit_iff_odd possible_bit_nat)
  moreover have "i < 2 ^ k" using a(1,3) power_increasing [of 9 k "2 :: nat"] by simp
  ultimately show False by simp
qed

lemma low_bits_split: "v AND 0x1FFFFF = of_nat (ix1 v) * PAGE_SIZE + (v AND 0xFFF)"
proof -
  have p: "of_nat (ix1 v) * PAGE_SIZE = push_bit 12 (PT_INDEX v)"
    by (simp add: ix_of_nat PAGE_SIZE_def push_bit_eq_mult mult.commute)
  have "push_bit 12 (PT_INDEX v) + (v AND 0xFFF) = push_bit 12 (PT_INDEX v) OR (v AND 0xFFF)"
    by (rule disjunctive_add) (auto simp: bit_push_bit_iff word_bits mask_bits)
  also have "\<dots> = v AND 0x1FFFFF"
    by (rule bit_eqI) (auto simp: PT_INDEX_def bit_push_bit_iff bit_drop_bit_eq word_bits mask_bits)
  finally show ?thesis using p by simp
qed

text \<open>Translation through a page of a split huge page.\<close>

lemma split_leaf:
  assumes e: "ps e" "pr e \<Longrightarrow> entry_fine e" and ub: "ub = 0 \<or> ub = PTE_USER"
  shows "leaf (((e AND 0x000FFFFFFFE00000) + of_nat (ix1 v) * PAGE_SIZE) OR
      ((e AND 0xFFF) AND NOT PTE_PS) OR ub) v =
    (if pr e then (e AND PTE_ADDR_MASK) + (v AND 0x1FFFFF) else 0)"
proof -
  let ?h = "e AND 0x000FFFFFFFE00000" let ?i = "push_bit 12 (PT_INDEX v)"
  let ?f = "(?h + of_nat (ix1 v) * PAGE_SIZE) OR ((e AND 0xFFF) AND NOT PTE_PS) OR ub"
  have p: "of_nat (ix1 v) * PAGE_SIZE = ?i"
    by (simp add: ix_of_nat PAGE_SIZE_def push_bit_eq_mult mult.commute)
  have ib: "bit ?i k \<Longrightarrow> 12 \<le> k \<and> k < 21" for k
    using bit_of_nat_small [of "ix1 v" "k - 12"] by (auto simp: bit_push_bit_iff ix_of_nat)
  have add: "?h + ?i = ?h OR ?i"
    by (rule disjunctive_add) (use ib in \<open>force simp: word_bits mask_bits\<close>)
  have PS: "bit PTE_PS k \<longleftrightarrow> k = 7" for k
    unfolding PTE_PS_def by (simp only: bit_exp_iff possible_bit_word) auto
  have b: "bit ?f k \<longleftrightarrow> bit ?h k \<or> bit ?i k \<or> bit e k \<and> k < 12 \<and> k \<noteq> 7 \<or> k = 2 \<and> ub = PTE_USER" for k
    using ub unfolding p add by (auto simp: word_bits mask_bits PS flag_bits dest: bit_imp_le_length)
  have "pr ?f \<longleftrightarrow> pr e" unfolding pr_bit b using ib [of 0] by (auto simp: word_bits mask_bits)
  moreover have "(?f AND PTE_ADDR_MASK) + (v AND 0xFFF) = (e AND PTE_ADDR_MASK) + (v AND 0x1FFFFF)" if "pr e"
  proof -
    have z: "e AND 0x1FF000 = 0" using e that by (simp add: entry_fine_def)
    have nb: "\<not> bit e k" if "12 \<le> k" "k < 21" for k
    proof
      assume "bit e k"
      then have "bit (e AND 0x1FF000) k" using that by (simp add: word_bits mask_bits)
      then show False using z by simp
    qed
    have "?f AND PTE_ADDR_MASK = ?h OR ?i"
    proof (rule bit_eqI)
      fix k show "bit (?f AND PTE_ADDR_MASK) k = bit (?h OR ?i) k"
        using ib [of k] by (auto simp: bit_and_iff [of ?f] bit_or_iff [of ?h] b mask_bits(1)) (auto simp: word_bits mask_bits)
    qed
    moreover have "?h = e AND PTE_ADDR_MASK"
    proof (rule bit_eqI)
      fix k show "bit ?h k = bit (e AND PTE_ADDR_MASK) k"
        using nb [of k] by (cases "k < 21") (auto simp: word_bits mask_bits)
    qed
    ultimately show ?thesis using add p low_bits_split [of v] by (simp add: add.assoc)
  qed
  ultimately show ?thesis by (simp add: leaf_def)
qed

lemma mapped_leaf:
  assumes "flags AND PTE_ADDR_MASK = 0"
  shows "leaf ((phys AND NOT 0xFFF) OR flags OR PTE_PRESENT) v = (phys AND PTE_ADDR_MASK) + (v AND 0xFFF)"
proof -
  let ?f = "(phys AND NOT 0xFFF) OR flags OR PTE_PRESENT"
  have "pr ?f" unfolding pr_bit by (simp add: bit_or_iff flag_bits)
  moreover have "?f AND PTE_ADDR_MASK = phys AND PTE_ADDR_MASK"
  proof (rule bit_eqI)
    fix k
    have "bit (flags AND PTE_ADDR_MASK) k = bit (0 :: u64) k" using assms by simp
    then show "bit (?f AND PTE_ADDR_MASK) k = bit (phys AND PTE_ADDR_MASK) k"
      by (auto simp: word_bits mask_bits flag_bits)
  qed
  ultimately show ?thesis by (simp add: leaf_def)
qed

lemma split_huge_frame [simp]:
  "pm (split_huge s pt h l k) = pm s" "kernel_pml4 (split_huge s pt h l k) = kernel_pml4 s"
  "v_hhdm_offset (split_huge s pt h l k) = v_hhdm_offset s" "ptr (split_huge s pt h l k) = ptr s"
  by (induction k) simp_all

lemma ents_split_huge:
  assumes "direct_map_ok n s" "q < n" "k \<le> 512"
  shows "ents n (split_huge s (ptr s q) h l k) =
    (ents n s)(q := \<lambda>j. if j < k then (h + of_nat j * PAGE_SIZE) OR l else ents n s q j)"
  using assms(3)
proof (induction k)
  case (Suc k)
  let ?s = "split_huge s (ptr s q) h l k"
  have "direct_map_ok n ?s" using assms(1) by (simp add: direct_map_ok_def)
  then have "ents n (split_huge s (ptr s q) h l (Suc k)) =
      set_entry (ents n ?s) q k ((h + of_nat k * PAGE_SIZE) OR l)"
    using ents_wr [of n ?s q k] assms(2) Suc.prems by simp
  then show ?case using Suc by (auto simp: set_entry_def fun_eq_iff less_Suc_eq)
qed (simp add: fun_eq_iff)

lemma same_pages_split_huge:
  assumes "direct_map_ok n s" "q < n" "q \<notin> P" "\<forall>x\<in>P. x < n" "k \<le> 512"
  shows "same_pages P s (split_huge s (ptr s q) h l k)"
  using assms(5)
proof (induction k)
  case (Suc k)
  let ?s = "split_huge s (ptr s q) h l k"
  have "direct_map_ok n ?s" using assms(1) by (simp add: direct_map_ok_def)
  from same_pages_wr [OF this assms(2-4), of k "(h + of_nat k * PAGE_SIZE) OR l"] Suc
  have "same_pages P ?s (split_huge s (ptr s q) h l (Suc k))" by simp
  then show ?case using Suc same_pages_trans [of P s ?s] by simp
qed simp

end
