(* ===== verification/Vmm_Correct.thy ===== *)
theory Vmm_Correct
  imports Vmm_Memory "HOL-Library.Monad_Syntax"
begin

text \<open>
  Correctness of \<^verbatim>\<open>vmm.c\<close>, proved once for every allocator that keeps the contract \<open>page_allocator\<close>
  and then stated for the kernel's own allocator.
\<close>

section \<open>Mapping\<close>

lemma split_links:
  assumes ok: "tables_ok E r n F" and at: "tab E r [a, b] = Some d" "a < 512" "b < 512" "i < 512"
    and ps: "ps (E d i)" and q: "q \<in> F" "0 < q" "q < n" "q * 4096 < 2 ^ 52" and ub: "ub = 0 \<or> ub = PTE_USER"
  shows "links E (set_entry (E(q := g)) d i (page_addr q OR PTE_PRESENT OR PTE_WRITABLE OR ub)) r n F [a, b] d i q"
proof -
  have dq: "d \<noteq> q" using tables_okD(1) [OF ok at(1)] at q by auto
  have "tab E r ([a, b] @ [i]) = None" using at(1) ps by (subst tab_snoc) simp
  then show ?thesis
    unfolding links_def using ok at q child_entry [OF q(4) ub] dq by (auto simp: set_entry_def)
qed

context page_source
begin

lemma map_leaf_ok:
  assumes wf: "vmm_wf inv free_pages_of limit r s"
    and at: "tab (ents (limit (pm s)) s) r [ix4 virt, ix3 virt, ix2 virt] = Some q"
    and t: "t = invlpg (wr s (ptr s q) (PT_INDEX virt) f) virt"
  shows "vmm_wf inv free_pages_of limit r t"
    "translate (ents (limit (pm t)) t) r v =
      (if same_page v virt then leaf f v else translate (ents (limit (pm s)) s) r v)"
proof -
  let ?n = "limit (pm s)" let ?E = "ents ?n s"
  note ok = vmm_wfD(4) [OF wf] and dm = vmm_wfD(3) [OF wf]
  have q: "q < ?n" using tables_okD(1) [OF ok at] by simp
  have E: "ents ?n t = set_entry ?E q (ix1 virt) f"
    using ents_wr [OF dm q, of "ix1 virt" f] by (simp add: t ix_of_nat)
  have "tables_ok (set_entry ?E q (ix1 virt) f) r ?n (free_pages_of (pm s))"
    by (rule leaf_write_ok [OF ok at]) simp_all
  then show "vmm_wf inv free_pages_of limit r t"
    using E vmm_wfD(1,2) [OF wf] dm direct_map_ok_cong [of t s] by (simp add: vmm_wf_def t)
  show "translate (ents (limit (pm t)) t) r v =
      (if same_page v virt then leaf f v else translate ?E r v)"
    using translate_leaf_write [OF ok at, of "ix1 virt" f v] E by (simp add: t same_page_def)
qed

lemma split_ok:
  assumes wf: "vmm_wf inv free_pages_of limit r s" and ub: "ub = 0 \<or> ub = PTE_USER"
    and at: "tab (ents (limit (pm s)) s) r [a, b] = Some d" "a < 512" "b < 512" "i < 512"
    and ps: "ps (ents (limit (pm s)) s d i)" and al: "alloc_table alloc s = Some (pt, u)"
    and t: "t = (let e = ents (limit (pm s)) s d i;
      w = split_huge u pt (e AND 0x000FFFFFFFE00000) (((e AND 0xFFF) AND NOT PTE_PS) OR ub) 512
      in wr w (ptr s d) (of_nat i) ((virt_to_phys w pt AND NOT 0xFFF) OR PTE_PRESENT OR PTE_WRITABLE OR ub))"
  shows "\<exists>q. pt = ptr t q \<and> tab (ents (limit (pm t)) t) r [a, b, i] = Some q \<and>
    vmm_wf inv free_pages_of limit r t \<and> free_pages_of (pm t) \<subseteq> free_pages_of (pm s) \<and>
    card (free_pages_of (pm s) - free_pages_of (pm t)) \<le> 1 \<and>
    same_pages (free_pages_of (pm t)) s t \<and> ptr t = ptr s \<and> v_hhdm_offset t = v_hhdm_offset s \<and>
    (\<forall>v. translate (ents (limit (pm t)) t) r v = translate (ents (limit (pm s)) s) r v)"
proof -
  let ?n = "limit (pm s)" let ?E = "ents ?n s" let ?e = "?E d i"
  let ?h = "?e AND 0x000FFFFFFFE00000" let ?l = "((?e AND 0xFFF) AND NOT PTE_PS) OR ub"
  note ok = vmm_wfD(4) [OF wf] and dm = vmm_wfD(3) [OF wf]
  obtain q where q: "pt = ptr s q" "q \<in> free_pages_of (pm s)" "0 < q" "q < ?n"
    "free_pages_of (pm u) = free_pages_of (pm s) - {q}" "inv (pm u)" "limit (pm u) = ?n"
    "ents ?n u = ?E(q := \<lambda>_. 0)" "v_hhdm_offset u = v_hhdm_offset s"
    "kernel_pml4 u = kernel_pml4 s" "ptr u = ptr s" "same_pages (free_pages_of (pm u)) s u"
    using alloc_table_ok [OF wf al] by metis
  have qb: "q * 4096 < 2 ^ 52" using q(4) dm by (simp add: direct_map_ok_def)
  have d: "d < ?n" using tables_okD(1) [OF ok at(1)] at by simp
  define w where "w = split_huge u pt ?h ?l 512"
  define g where "g = (\<lambda>j :: nat. if j < 512 then (?h + of_nat j * PAGE_SIZE) OR ?l else 0)"
  let ?p = "page_addr q OR PTE_PRESENT OR PTE_WRITABLE OR ub"
  have dmu: "direct_map_ok ?n u" using dm direct_map_ok_cong [OF q(9)] by blast
  have Ew: "ents ?n w = ?E(q := g)"
    using ents_split_huge [OF dmu q(4), of 512 ?h ?l] q(1,8,11) by (auto simp: w_def g_def fun_eq_iff)
  have wf': "ptr w = ptr s" "v_hhdm_offset w = v_hhdm_offset s" "pm w = pm u" "kernel_pml4 w = kernel_pml4 s"
    using q by (simp_all add: w_def)
  have t': "t = wr w (ptr w d) (of_nat i) ?p"
    using t virt_to_phys_ptr [OF wf'(1,2)] page_addr_and_not_FFF [OF qb] q(1) wf'(1)
    by (simp add: Let_def w_def)
  have dmw: "direct_map_ok ?n w" using dm direct_map_ok_cong [OF wf'(2)] by blast
  let ?E' = "set_entry (?E(q := g)) d i ?p"
  have E': "ents ?n t = ?E'" using ents_wr [OF dmw d at(4)] Ew t' by simp
  have l: "links ?E ?E' r ?n (free_pages_of (pm s)) [a, b] d i q"
    by (rule split_links [OF ok at ps q(2-4) qb ub])
  have fine: "pr ?e \<Longrightarrow> entry_fine ?e" using tables_okD(3) [OF ok at(1)] at by simp
  have dq: "q \<noteq> d" using tables_okD(1) [OF ok at(1)] at q by auto
  have "translate ?E' r v = translate ?E r v" for v
    by (rule translate_link [OF l])
      (use split_leaf [OF ps fine ub] dq in \<open>simp add: set_entry_def g_def\<close>)
  moreover have "tab ?E' r [a, b, i] = Some q" using link_at(2) [OF l] by simp
  moreover have "vmm_wf inv free_pages_of limit r t"
    using link_ok [OF l] q dmw vmm_wfD(2) [OF wf] E' t' wf' direct_map_ok_cong [of t w]
    by (simp add: vmm_wf_def)
  moreover have "same_pages (free_pages_of (pm u)) s t"
  proof -
    have fr: "\<forall>x\<in>free_pages_of (pm u). x < ?n" using free_range [OF q(6)] q(7) by auto
    have "same_pages (free_pages_of (pm u)) u w"
      unfolding w_def q(1) using same_pages_split_huge [OF dmu q(4), of "free_pages_of (pm u)"] fr q(5,11) by simp
    moreover have "d \<notin> free_pages_of (pm u)" using tables_okD(1) [OF ok at(1)] at q(5) by auto
    then have "same_pages (free_pages_of (pm u)) w t"
      unfolding t' by (rule same_pages_wr [OF dmw d]) (use fr at(4) in auto)
    ultimately show ?thesis using same_pages_trans q(11,12) wf'(1) by metis
  qed
  moreover have "free_pages_of (pm s) - free_pages_of (pm u) = {q}" using q(2,5) by auto
  then have "card (free_pages_of (pm s) - free_pages_of (pm u)) \<le> 1" by simp
  ultimately show ?thesis using q(1,5,7) E' t' wf' by (intro exI [of _ q]) auto
qed

lemma card_used:
  assumes "inv m" "card (free_pages_of m - B) \<le> a" "card (B - C) \<le> b" "B \<subseteq> free_pages_of m"
  shows "card (free_pages_of m - C) \<le> a + b"
proof -
  have "finite (free_pages_of m)" using free_range [OF assms(1)] by (meson finite_lessThan finite_subset lessThan_iff subsetI)
  then have f: "finite (free_pages_of m - B)" "finite (B - C)" using assms(4) by (auto intro: finite_subset)
  have "card (free_pages_of m - C) \<le> card ((free_pages_of m - B) \<union> (B - C))" by (rule card_mono) (use f in auto)
  also have "\<dots> \<le> card (free_pages_of m - B) + card (B - C)" by (rule card_Un_le)
  finally show ?thesis using assms(2,3) by linarith
qed

end

lemma user_bit_cases: "flags AND PTE_USER = 0 \<or> flags AND PTE_USER = PTE_USER"
proof (cases "bit flags 2")
  case True
  have "flags AND PTE_USER = PTE_USER"
    by (rule bit_eqI) (use True in \<open>auto simp: bit_and_iff flag_bits\<close>)
  then show ?thesis ..
next
  case False
  have "flags AND PTE_USER = 0"
    by (rule bit_eqI) (use False in \<open>auto simp: bit_and_iff flag_bits\<close>)
  then show ?thesis ..
qed

context page_source
begin

lemma map_page_walk:
  assumes wf: "vmm_wf inv free_pages_of limit r s"
    and m: "map_page alloc s virt phys flags = Some t"
  obtains w q where "vmm_wf inv free_pages_of limit r w"
    "tab (ents (limit (pm w)) w) r [ix4 virt, ix3 virt, ix2 virt] = Some q"
    "t = invlpg (wr w (ptr w q) (PT_INDEX virt) ((phys AND NOT 0xFFF) OR flags OR PTE_PRESENT)) virt"
    "\<And>v. translate (ents (limit (pm w)) w) r v = translate (ents (limit (pm s)) s) r v"
    "free_pages_of (pm w) \<subseteq> free_pages_of (pm s)"
    "same_pages (free_pages_of (pm w)) s w" "ptr w = ptr s" "v_hhdm_offset w = v_hhdm_offset s"
    "card (free_pages_of (pm s) - free_pages_of (pm w)) \<le> 3"
proof -
  define ub where "ub = flags AND PTE_USER"
  have ub: "ub = 0 \<or> ub = PTE_USER" unfolding ub_def by (rule user_bit_cases)
  note mdef = m [unfolded map_page_def Let_def, folded ub_def]
  have nps: "\<not> (pr (ents (limit (pm s)) s r (ix4 virt)) \<and> ps (ents (limit (pm s)) s r (ix4 virt)))"
    using tables_okD(3) [OF vmm_wfD(4) [OF wf], of "[]" r "ix4 virt"] by auto
  obtain c1 s1 where w1: "walk_or_alloc alloc s (ptr s r) (of_nat (ix4 virt)) ub = Some (c1, s1)"
    using mdef vmm_wfD(2) [OF wf] by (auto simp: ix_of_nat split: option.splits)
  obtain p1 where p1: "c1 = ptr s1 p1" "tab (ents (limit (pm s1)) s1) r [ix4 virt] = Some p1"
    "vmm_wf inv free_pages_of limit r s1"
    "\<And>v. translate (ents (limit (pm s1)) s1) r v = translate (ents (limit (pm s)) s) r v"
    "free_pages_of (pm s1) \<subseteq> free_pages_of (pm s)"
    "same_pages (free_pages_of (pm s1)) s s1" "ptr s1 = ptr s" "v_hhdm_offset s1 = v_hhdm_offset s"
    "card (free_pages_of (pm s) - free_pages_of (pm s1)) \<le> 1"
    using walk_or_alloc_ok [OF wf _ _ _ _ ub nps w1, of "[]"] by auto
  have nps1: "\<not> (pr (ents (limit (pm s1)) s1 p1 (ix3 virt)) \<and> ps (ents (limit (pm s1)) s1 p1 (ix3 virt)))"
    using tables_okD(3) [OF vmm_wfD(4) [OF p1(3)] p1(2), of "ix3 virt"] by auto
  obtain c2 s2 where w2: "walk_or_alloc alloc s1 (ptr s1 p1) (of_nat (ix3 virt)) ub = Some (c2, s2)"
    using mdef vmm_wfD(2) [OF wf] w1 p1(1) by (auto simp: ix_of_nat split: option.splits)
  obtain d where d': "c2 = ptr s2 d" "tab (ents (limit (pm s2)) s2) r [ix4 virt, ix3 virt] = Some d"
    "vmm_wf inv free_pages_of limit r s2"
    "\<And>v. translate (ents (limit (pm s2)) s2) r v = translate (ents (limit (pm s1)) s1) r v"
    "free_pages_of (pm s2) \<subseteq> free_pages_of (pm s1)"
    "same_pages (free_pages_of (pm s2)) s1 s2" "ptr s2 = ptr s1" "v_hhdm_offset s2 = v_hhdm_offset s1"
    "card (free_pages_of (pm s1) - free_pages_of (pm s2)) \<le> 1"
    using walk_or_alloc_ok [OF p1(3,2) _ _ _ ub nps1 w2] by auto
  have d: "c2 = ptr s2 d" "tab (ents (limit (pm s2)) s2) r [ix4 virt, ix3 virt] = Some d"
    "vmm_wf inv free_pages_of limit r s2"
    "\<And>v. translate (ents (limit (pm s2)) s2) r v = translate (ents (limit (pm s)) s) r v"
    "free_pages_of (pm s2) \<subseteq> free_pages_of (pm s)"
    "same_pages (free_pages_of (pm s2)) s s2" "ptr s2 = ptr s" "v_hhdm_offset s2 = v_hhdm_offset s"
    "card (free_pages_of (pm s) - free_pages_of (pm s2)) \<le> 2"
    using d' p1(4-8) same_pages_trans [OF same_pages_mono [OF p1(6) d'(5)] d'(6) p1(7)]
      card_used [OF vmm_wfD(1) [OF wf] p1(9) d'(9) p1(5)] by auto
  let ?n = "limit (pm s2)" let ?E = "ents ?n s2"
  have dn: "d < ?n" using tables_okD(1) [OF vmm_wfD(4) [OF d(3)] d(2)] by simp
  have rd: "rd s2 c2 (of_nat (ix2 virt)) = ?E d (ix2 virt)" unfolding d(1) by (rule ents_rd [OF dn]) simp
  note mdef2 = mdef [unfolded vmm_wfD(2) [OF wf] ix_of_nat w1 option.case prod.case, folded p1(1),
    unfolded p1(1) w2 option.case prod.case rd]
  show thesis
  proof (cases "ps (?E d (ix2 virt))")
    case True
    then obtain pt u where al: "alloc_table alloc s2 = Some (pt, u)"
      and t: "t = invlpg (wr (let e = ?E d (ix2 virt);
          w = split_huge u pt (e AND 0x000FFFFFFFE00000) (((e AND 0xFFF) AND NOT PTE_PS) OR ub) 512
        in wr w (ptr s2 d) (of_nat (ix2 virt)) ((virt_to_phys w pt AND NOT 0xFFF) OR PTE_PRESENT OR PTE_WRITABLE OR ub))
        pt (PT_INDEX virt) ((phys AND NOT 0xFFF) OR flags OR PTE_PRESENT)) virt"
      using mdef2 by (auto simp: ps_def d(1) Let_def ix_of_nat split: option.splits)
    obtain q w where f: "pt = ptr w q" "tab (ents (limit (pm w)) w) r [ix4 virt, ix3 virt, ix2 virt] = Some q"
      "vmm_wf inv free_pages_of limit r w"
      "w = (let e = ?E d (ix2 virt);
          w = split_huge u pt (e AND 0x000FFFFFFFE00000) (((e AND 0xFFF) AND NOT PTE_PS) OR ub) 512
        in wr w (ptr s2 d) (of_nat (ix2 virt)) ((virt_to_phys w pt AND NOT 0xFFF) OR PTE_PRESENT OR PTE_WRITABLE OR ub))"
      "\<And>v. translate (ents (limit (pm w)) w) r v = translate ?E r v"
      "free_pages_of (pm w) \<subseteq> free_pages_of (pm s2)"
      "same_pages (free_pages_of (pm w)) s2 w" "ptr w = ptr s2" "v_hhdm_offset w = v_hhdm_offset s2"
      "card (free_pages_of (pm s2) - free_pages_of (pm w)) \<le> 1"
      using split_ok [OF d(3) ub d(2) _ _ _ True al refl] by auto
    have "t = invlpg (wr w (ptr w q) (PT_INDEX virt) ((phys AND NOT 0xFFF) OR flags OR PTE_PRESENT)) virt"
      unfolding f(1) [symmetric] using t unfolding f(4) [symmetric] .
    moreover have "same_pages (free_pages_of (pm w)) s w"
      by (rule same_pages_trans [OF same_pages_mono [OF d(6) f(6)] f(7) d(7)])
    moreover have "card (free_pages_of (pm s) - free_pages_of (pm w)) \<le> 2 + 1"
      by (rule card_used [OF vmm_wfD(1) [OF wf] d(9) f(10) d(5)])
    ultimately show thesis by (intro that [OF f(3,2)]) (use f(5,6,8,9) d(4,5,7,8) in auto)
  next
    case False
    then obtain pt w where w3: "walk_or_alloc alloc s2 (ptr s2 d) (of_nat (ix2 virt)) ub = Some (pt, w)"
      and t: "t = invlpg (wr w pt (PT_INDEX virt) ((phys AND NOT 0xFFF) OR flags OR PTE_PRESENT)) virt"
      using mdef2 by (auto simp: ps_def d(1) Let_def ix_of_nat split: option.splits)
    obtain q where f: "pt = ptr w q" "tab (ents (limit (pm w)) w) r [ix4 virt, ix3 virt, ix2 virt] = Some q"
      "vmm_wf inv free_pages_of limit r w"
      "\<And>v. translate (ents (limit (pm w)) w) r v = translate ?E r v"
      "free_pages_of (pm w) \<subseteq> free_pages_of (pm s2)"
      "same_pages (free_pages_of (pm w)) s2 w" "ptr w = ptr s2" "v_hhdm_offset w = v_hhdm_offset s2"
      "card (free_pages_of (pm s2) - free_pages_of (pm w)) \<le> 1"
      using walk_or_alloc_ok [OF d(3,2) _ _ _ ub _ w3] False by auto
    have "same_pages (free_pages_of (pm w)) s w"
      by (rule same_pages_trans [OF same_pages_mono [OF d(6) f(5)] f(6) d(7)])
    moreover have "card (free_pages_of (pm s) - free_pages_of (pm w)) \<le> 2 + 1"
      by (rule card_used [OF vmm_wfD(1) [OF wf] d(9) f(9) d(5)])
    ultimately show thesis by (intro that [OF f(3,2)]) (use f(1,4,5,7,8) d(4,5,7,8) t in auto)
  qed
qed

lemma map_page_ok:
  assumes wf: "vmm_wf inv free_pages_of limit r s" and fl: "flags AND PTE_ADDR_MASK = 0"
    and m: "map_page alloc s virt phys flags = Some t"
  shows "vmm_wf inv free_pages_of limit r t"
    "virt_to_phys_user t v =
      (if same_page v virt then (phys AND PTE_ADDR_MASK) + (v AND 0xFFF) else virt_to_phys_user s v)"
    "\<exists>log. invlpg_log t = virt # log"
proof -
  obtain w q where w: "vmm_wf inv free_pages_of limit r w"
    "tab (ents (limit (pm w)) w) r [ix4 virt, ix3 virt, ix2 virt] = Some q"
    "t = invlpg (wr w (ptr w q) (PT_INDEX virt) ((phys AND NOT 0xFFF) OR flags OR PTE_PRESENT)) virt"
    "\<And>v. translate (ents (limit (pm w)) w) r v = translate (ents (limit (pm s)) s) r v"
    using map_page_walk [OF wf m] by blast
  show ok: "vmm_wf inv free_pages_of limit r t" by (rule map_leaf_ok(1) [OF w(1-3)])
  show "virt_to_phys_user t v =
      (if same_page v virt then (phys AND PTE_ADDR_MASK) + (v AND 0xFFF) else virt_to_phys_user s v)"
    unfolding virt_to_phys_user_eq [OF ok] virt_to_phys_user_eq [OF wf] map_leaf_ok(2) [OF w(1-3)]
      mapped_leaf [OF fl] w(4) ..
  show "\<exists>log. invlpg_log t = virt # log" unfolding w(3) by (simp add: invlpg_def)
qed

end

section \<open>Unmapping, returning\<close>

lemma tables_ok_mono: "tables_ok E r n F \<Longrightarrow> F' \<subseteq> F \<Longrightarrow> tables_ok E r n F'"
  unfolding tables_ok_def by blast

lemma and_not_FFF_child:
  "\<not> ps e \<Longrightarrow> entry_fine e \<Longrightarrow> phys_to_virt s (e AND - 4096) = ptr s (child e)"
  using entry_pointer(1) [of e] phys_to_virt_child [of s e] by simp

lemma translate_none: "tab E r [ix4 v, ix3 v] = None \<Longrightarrow> translate E r v = 0"
  by (simp add: translate_def)

lemma same_page_translate0:
  assumes "same_page v w" "tab E r [ix4 w, ix3 w] = Some d" "\<not> pr (E d (ix2 w))"
  shows "translate E r v = 0"
  using assms by (simp add: translate_def same_page_def)

definition pd_entry :: "'p vmm \<Rightarrow> u64 \<Rightarrow> u64" where
  "pd_entry s virt =
     (let pdpt = phys_to_virt s (rd s (kernel_pml4 s) (PML4_INDEX virt) AND NOT 0xFFF);
          pd = phys_to_virt s (rd s pdpt (PDPT_INDEX virt) AND NOT 0xFFF)
      in rd s pd (PD_INDEX virt))"

context page_allocator
begin

lemma unmap_page_ok:
  assumes wf: "vmm_wf inv free_pages_of limit r s" and nh: "pd_entry s virt AND PTE_PS = 0"
  shows "vmm_wf inv free_pages_of limit r (unmap_page s virt)"
    "virt_to_phys_user (unmap_page s virt) v =
      (if same_page v virt then 0 else virt_to_phys_user s v)"
proof -
  let ?n = "limit (pm s)" let ?E = "ents ?n s" let ?u = "unmap_page s virt"
  note ok = vmm_wfD(4) [OF wf]
  have n: "p < ?n" if "tab ?E r \<pi> = Some p" "length \<pi> \<le> 3" "idx \<pi>" for \<pi> p
    using tables_okD(1) [OF ok] that by blast
  have r: "r < ?n" by (rule n [of "[]"]) simp_all
  note root = vmm_wfD(2) [OF wf]
  have e4: "rd s (ptr s r) (of_nat (ix4 virt)) = ?E r (ix4 virt)" using r by (intro ents_rd) simp_all
  have stop: "vmm_wf inv free_pages_of limit r ?u \<and>
    virt_to_phys_user ?u v = (if same_page v virt then 0 else virt_to_phys_user s v)"
    if "?u = s" "same_page v virt \<Longrightarrow> translate ?E r v = 0"
    using that wf virt_to_phys_user_eq [OF wf, of v] by auto
  have "vmm_wf inv free_pages_of limit r ?u \<and>
    virt_to_phys_user ?u v = (if same_page v virt then 0 else virt_to_phys_user s v)"
  proof (cases "pr (?E r (ix4 virt))")
    case False
    then have "?u = s" by (simp add: unmap_page_def root ix_of_nat e4 pr_def)
    moreover have "tab ?E r [ix4 virt, ix3 virt] = None" using False by (simp add: tab.simps)
    ultimately show ?thesis using translate_none by (intro stop) (simp_all add: same_page_def)
  next
    case p4: True
    let ?p = "child (?E r (ix4 virt))"
    have f4: "\<not> ps (?E r (ix4 virt))" "entry_fine (?E r (ix4 virt))"
      using tables_okD(3) [OF ok, of "[]" r "ix4 virt"] p4 by simp_all
    then have t1: "tab ?E r [ix4 virt] = Some ?p" using p4 by (simp add: tab.simps)
    have e3: "rd s (ptr s ?p) (of_nat (ix3 virt)) = ?E ?p (ix3 virt)"
      using n [OF t1] by (intro ents_rd) simp_all
    note s4 = and_not_FFF_child [OF f4]
    show ?thesis
    proof (cases "pr (?E ?p (ix3 virt))")
      case False
      then have "?u = s" using p4 by (simp add: unmap_page_def root ix_of_nat e4 s4 e3 pr_def Let_def)
      moreover have "tab ?E r [ix4 virt, ix3 virt] = None"
        using False t1 tab_snoc [of ?E r "[ix4 virt]" "ix3 virt"] by simp
      ultimately show ?thesis using translate_none by (intro stop) (simp_all add: same_page_def)
    next
      case p3: True
      let ?d = "child (?E ?p (ix3 virt))"
      have f3: "\<not> ps (?E ?p (ix3 virt))" "entry_fine (?E ?p (ix3 virt))"
        using tables_okD(3) [OF ok t1] p3 by simp_all
      then have t2: "tab ?E r [ix4 virt, ix3 virt] = Some ?d"
        using p3 t1 tab_snoc [of ?E r "[ix4 virt]" "ix3 virt"] by simp
      have e2: "rd s (ptr s ?d) (of_nat (ix2 virt)) = ?E ?d (ix2 virt)"
        using n [OF t2] by (intro ents_rd) simp_all
      note s3 = and_not_FFF_child [OF f3]
      have nps: "\<not> ps (?E ?d (ix2 virt))"
        using nh by (simp add: pd_entry_def Let_def root ix_of_nat e4 s4 e3 s3 e2 ps_def)
      show ?thesis
      proof (cases "pr (?E ?d (ix2 virt))")
        case False
        then have "?u = s" using p4 p3
          by (simp add: unmap_page_def root ix_of_nat e4 s4 e3 s3 e2 pr_def Let_def)
        then show ?thesis by (rule stop) (rule same_page_translate0 [OF _ t2 False])
      next
        case p2: True
        let ?q = "child (?E ?d (ix2 virt))"
        have f2: "entry_fine (?E ?d (ix2 virt))" using tables_okD(3) [OF ok t2] p2 by simp
        have t3: "tab ?E r [ix4 virt, ix3 virt, ix2 virt] = Some ?q"
          using p2 nps t2 tab_snoc [of ?E r "[ix4 virt, ix3 virt]" "ix2 virt"] by simp
        have u: "?u = invlpg (wr s (ptr s ?q) (PT_INDEX virt) 0) virt"
          using p4 p3 p2
          by (simp add: unmap_page_def root ix_of_nat e4 s4 e3 s3 e2 pr_def Let_def
              and_not_FFF_child [OF nps f2])
        note m = map_leaf_ok [OF wf t3 u]
        have "leaf 0 v = 0" by (simp add: leaf_def pr_def)
        then show ?thesis
          using m(1) virt_to_phys_user_eq [OF m(1), of v] virt_to_phys_user_eq [OF wf, of v] m(2) [of v]
          by simp
      qed
    qed
  qed
  then show "vmm_wf inv free_pages_of limit r ?u"
    "virt_to_phys_user ?u v = (if same_page v virt then 0 else virt_to_phys_user s v)" by auto
qed

lemma alloc_table_some:
  assumes "vmm_wf inv free_pages_of limit r s" "free_pages_of (pm s) \<noteq> {}"
  shows "\<exists>c t. alloc_table alloc s = Some (c, t)"
  using alloc_none [OF vmm_wfD(1) [OF assms(1)]] assms(2)
  by (auto simp: alloc_table_def Let_def split: prod.split)

lemma finite_free: "inv m \<Longrightarrow> finite (free_pages_of m)"
  using free_range [of m] by (meson finite_lessThan finite_subset lessThan_iff subsetI)

lemma walk_or_alloc_some:
  assumes "vmm_wf inv free_pages_of limit r s" "free_pages_of (pm s) \<noteq> {}"
  shows "\<exists>c t. walk_or_alloc alloc s table i ub = Some (c, t)"
  using alloc_table_some [OF assms] by (auto simp: walk_or_alloc_def Let_def)

lemma card_left:
  assumes "inv m" "free_pages_of m' \<subseteq> free_pages_of m"
    "card (free_pages_of m - free_pages_of m') \<le> 1" "Suc k \<le> card (free_pages_of m)"
  shows "k \<le> card (free_pages_of m')" "free_pages_of m \<noteq> {}"
proof -
  have "card (free_pages_of m - free_pages_of m') = card (free_pages_of m) - card (free_pages_of m')"
    using finite_free [OF assms(1)] assms(2) by (intro card_Diff_subset) (auto intro: finite_subset)
  then show "k \<le> card (free_pages_of m')" "free_pages_of m \<noteq> {}" using assms(3,4) by auto
qed

end

section \<open>User stacks\<close>

lemma unat_and_1FF: "unat (drop_bit k v AND 0x1FF :: u64) = unat v div 2 ^ k mod 512"
proof -
  have "drop_bit k v AND 0x1FF = take_bit 9 (drop_bit k v)" by (simp add: take_bit_eq_mask mask_eq_exp_minus_1)
  then show ?thesis by (simp only: unsigned_take_bit_eq unat_drop_bit_eq) (simp add: take_bit_eq_mod drop_bit_eq_div)
qed

lemma ix_nat:
  "ix4 v = unat v div 2 ^ 39 mod 512" "ix3 v = unat v div 2 ^ 30 mod 512"
  "ix2 v = unat v div 2 ^ 21 mod 512" "ix1 v = unat v div 2 ^ 12 mod 512"
  by (simp_all only: ix4_def ix3_def ix2_def ix1_def PML4_INDEX_def PDPT_INDEX_def PD_INDEX_def
      PT_INDEX_def unat_and_1FF)

lemma digits_sum:
  fixes m :: nat
  assumes "m = x * 512 + c" "x = y * 512 + b" "y = z * 512 + a"
  shows "m = z * 2 ^ 27 + a * 2 ^ 18 + b * 2 ^ 9 + c"
  by (simp add: assms)

lemma page_number_digits:
  assumes "m < 2 ^ 36"
  shows "m = m div 2 ^ 27 mod 512 * 2 ^ 27 + m div 2 ^ 18 mod 512 * 2 ^ 18 + m div 2 ^ 9 mod 512 * 2 ^ 9 + m mod (512 :: nat)"
proof -
  define x y z where "x = m div 2 ^ 9" and "y = m div 2 ^ 18" and "z = m div 2 ^ 27"
  have "y = x div 512" "z = y div 512" by (simp_all add: x_def y_def z_def div_mult2_eq [symmetric])
  then have "x = y * 512 + x mod 512" "y = z * 512 + y mod 512" by simp_all
  moreover have "m = x * 512 + m mod 512" using div_mult_mod_eq [of m 512] by (simp add: x_def)
  ultimately have "m = z * 2 ^ 27 + y mod 512 * 2 ^ 18 + x mod 512 * 2 ^ 9 + m mod 512"
    using digits_sum by blast
  moreover have "z mod 512 = z" using assms by (simp add: z_def less_mult_imp_div_less)
  ultimately show ?thesis by (simp only: x_def y_def z_def)
qed

lemma same_page_iff:
  assumes "unat v < 2 ^ 48" "unat w < 2 ^ 48"
  shows "same_page v w \<longleftrightarrow> unat v div 4096 = unat w div 4096"
proof -
  have d: "ix4 x = unat x div 4096 div 2 ^ 27 mod 512" "ix3 x = unat x div 4096 div 2 ^ 18 mod 512"
    "ix2 x = unat x div 4096 div 2 ^ 9 mod 512" "ix1 x = unat x div 4096 mod 512" for x
    by (simp_all add: ix_nat div_mult2_eq [symmetric])
  have b: "unat x div 4096 < 2 ^ 36" if "unat x < 2 ^ 48" for x :: u64
    using that by (simp add: less_mult_imp_div_less)
  show ?thesis
  proof
    assume "same_page v w"
    then show "unat v div 4096 = unat w div 4096"
      using page_number_digits [OF b [OF assms(1)]] page_number_digits [OF b [OF assms(2)]]
      by (simp only: same_page_def list.inject d)
  qed (simp add: same_page_def d)
qed

lemma virt_to_phys_user_pm [simp]: "virt_to_phys_user (s\<lparr>pm := m\<rparr>) v = virt_to_phys_user s v"
  by (simp add: virt_to_phys_user_def rd_def phys_to_virt_def Let_def)

lemma page_addr_mask:
  assumes "p * 4096 < 2 ^ 52" shows "page_addr p AND PTE_ADDR_MASK = page_addr p"
  by (rule bit_eqI) (use bit_page_addr [OF assms] in \<open>auto simp: bit_and_iff mask_bits\<close>)

lemma stack_flags [simp]:
  "(PTE_PRESENT OR PTE_USER OR PTE_WRITABLE) AND PTE_ADDR_MASK = 0"
  "(PTE_PRESENT OR PTE_WRITABLE OR PTE_USER) AND PTE_ADDR_MASK = 0"
  by (simp_all add: PTE_PRESENT_def PTE_USER_def PTE_WRITABLE_def PTE_ADDR_MASK_def)

definition stack_top_page :: nat where
  "stack_top_page = 0x700000000"

lemma stack_top: "USER_STACK_TOP = page_addr stack_top_page"
  by (simp add: USER_STACK_TOP_def page_addr_def stack_top_page_def)

context page_source
begin

lemma map_page_frame:
  assumes wf: "vmm_wf inv free_pages_of limit r s" and m: "map_page alloc s virt phys flags = Some t"
  shows "same_pages (free_pages_of (pm t)) s t" "ptr t = ptr s" "v_hhdm_offset t = v_hhdm_offset s"
    "card (free_pages_of (pm s) - free_pages_of (pm t)) \<le> 3"
proof -
  obtain w q where w: "vmm_wf inv free_pages_of limit r w"
    "tab (ents (limit (pm w)) w) r [ix4 virt, ix3 virt, ix2 virt] = Some q"
    "t = invlpg (wr w (ptr w q) (PT_INDEX virt) ((phys AND NOT 0xFFF) OR flags OR PTE_PRESENT)) virt"
    "same_pages (free_pages_of (pm w)) s w" "ptr w = ptr s" "v_hhdm_offset w = v_hhdm_offset s"
    "card (free_pages_of (pm s) - free_pages_of (pm w)) \<le> 3"
    using map_page_walk [OF wf m] by blast
  have q: "q < limit (pm w)" "q \<notin> free_pages_of (pm w)" using tables_okD(1) [OF vmm_wfD(4) [OF w(1)] w(2)] by auto
  have "same_pages (free_pages_of (pm w)) w (wr w (ptr w q) (PT_INDEX virt) ((phys AND NOT 0xFFF) OR flags OR PTE_PRESENT))"
    unfolding ix_of_nat by (rule same_pages_wr [OF vmm_wfD(3) [OF w(1)] q]) (use free_range [OF vmm_wfD(1) [OF w(1)]] in auto)
  then have "same_pages (free_pages_of (pm t)) w t" unfolding w(3) by (simp add: same_pages_def invlpg_def)
  then show "same_pages (free_pages_of (pm t)) s t" using same_pages_trans [OF w(4) _ w(5)] w(3) by simp
  show "ptr t = ptr s" "v_hhdm_offset t = v_hhdm_offset s" "card (free_pages_of (pm s) - free_pages_of (pm t)) \<le> 3"
    using w(3,5-7) by simp_all
qed

lemma vmm_wf_alloc:
  assumes "vmm_wf inv free_pages_of limit r s" "alloc (pm s) = (a, m)"
  shows "vmm_wf inv free_pages_of limit r (s\<lparr>pm := m\<rparr>)"
  using assms alloc_inv [OF vmm_wfD(1) [OF assms(1)] assms(2)]
    alloc_mono [OF vmm_wfD(1) [OF assms(1)] assms(2)]
  by (auto simp: vmm_wf_def direct_map_ok_def elim: tables_ok_mono)

lemma alloc_frame:
  assumes wf: "vmm_wf inv free_pages_of limit r s" and a: "alloc (pm s) = (phys, m)"
  shows "\<exists>p. phys = page_addr p \<and> (p = 0 \<or> p \<in> free_pages_of (pm s)) \<and> p * 4096 < 2 ^ 52"
proof (cases "phys = 0")
  case True
  then show ?thesis by (intro exI [of _ 0]) (simp add: page_addr_def)
next
  case False
  then obtain p where p: "phys = page_addr p" "p \<in> free_pages_of (pm s)"
    using alloc_some [OF vmm_wfD(1) [OF wf] a] by blast
  have "p < limit (pm s)" using free_range [OF vmm_wfD(1) [OF wf] p(2)] by simp
  then have "p * 4096 < 2 ^ 52" using vmm_wfD(3) [OF wf] by (simp add: direct_map_ok_def)
  then show ?thesis using p by blast
qed

lemma map_page_free:
  assumes wf: "vmm_wf inv free_pages_of limit r s" and m: "map_page alloc s virt phys flags = Some t"
  shows "free_pages_of (pm t) \<subseteq> free_pages_of (pm s)"
proof -
  obtain w q where "free_pages_of (pm w) \<subseteq> free_pages_of (pm s)"
    "t = invlpg (wr w (ptr w q) (PT_INDEX virt) ((phys AND NOT 0xFFF) OR flags OR PTE_PRESENT)) virt"
    using map_page_walk [OF wf m] by blast
  then show ?thesis by simp
qed

lemma map_fresh_ok:
  assumes wf: "vmm_wf inv free_pages_of limit r s" and fl: "flags AND PTE_ADDR_MASK = 0"
    and m: "map_fresh alloc s addr flags = Some t"
  shows "vmm_wf inv free_pages_of limit r t"
    "\<exists>p. (p = 0 \<or> p \<in> free_pages_of (pm s)) \<and> (\<forall>v. virt_to_phys_user t v =
      (if same_page v addr then page_addr p + (v AND 0xFFF) else virt_to_phys_user s v))"
    "free_pages_of (pm t) \<subseteq> free_pages_of (pm s)"
proof -
  obtain phys m' where a: "alloc (pm s) = (phys, m')" by fastforce
  let ?s = "s\<lparr>pm := m'\<rparr>"
  have w: "vmm_wf inv free_pages_of limit r ?s" by (rule vmm_wf_alloc [OF wf a])
  have mp: "map_page alloc ?s addr phys flags = Some t" using m a by (simp add: map_fresh_def)
  note ok = map_page_ok [OF w fl mp]
  show "vmm_wf inv free_pages_of limit r t" by (rule ok(1))
  obtain p where p: "phys = page_addr p" "p = 0 \<or> p \<in> free_pages_of (pm s)" "p * 4096 < 2 ^ 52"
    using alloc_frame [OF wf a] by blast
  show "\<exists>p. (p = 0 \<or> p \<in> free_pages_of (pm s)) \<and> (\<forall>v. virt_to_phys_user t v =
      (if same_page v addr then page_addr p + (v AND 0xFFF) else virt_to_phys_user s v))"
    using p ok(2) page_addr_mask [OF p(3)] by (intro exI [of _ p]) simp
  show "free_pages_of (pm t) \<subseteq> free_pages_of (pm s)"
    using map_page_free [OF w mp] alloc_mono [OF vmm_wfD(1) [OF wf] a] by auto
qed

lemma guard_stack_loop_ok:
  assumes "vmm_wf inv free_pages_of limit r s" "a \<le> stack_top_page"
    and "guard_stack_loop alloc s (page_addr a) = Some t"
  shows "vmm_wf inv free_pages_of limit r t \<and> free_pages_of (pm t) \<subseteq> free_pages_of (pm s) \<and>
    (\<forall>v. unat v < 2 ^ 48 \<longrightarrow>
      (if a \<le> unat v div 4096 \<and> unat v div 4096 < stack_top_page
       then \<exists>p. (p = 0 \<or> p \<in> free_pages_of (pm s)) \<and> virt_to_phys_user t v = page_addr p + (v AND 0xFFF)
       else virt_to_phys_user t v = virt_to_phys_user s v))"
  using assms
proof (induction "stack_top_page - a" arbitrary: a s)
  case 0
  then have "a = stack_top_page" by simp
  then show ?case using "0.prems" by (subst (asm) guard_stack_loop.simps) (auto simp: stack_top)
next
  case (Suc k)
  have lt: "a < stack_top_page" using Suc.hyps(2) by simp
  have ab: "a * 4096 < 2 ^ 64" "stack_top_page * 4096 < 2 ^ 64" using lt by (simp_all add: stack_top_page_def)
  have "page_addr a < USER_STACK_TOP" using page_addr_less_iff(1) [OF ab] lt by (simp add: stack_top)
  then obtain u where u: "map_fresh alloc s (page_addr a) (PTE_PRESENT OR PTE_WRITABLE OR PTE_USER) = Some u"
    and t: "guard_stack_loop alloc u (page_addr a + PAGE_SIZE) = Some t"
    using Suc.prems(3) by (subst (asm) guard_stack_loop.simps) (auto split: option.splits)
  note ok = map_fresh_ok [OF Suc.prems(1) stack_flags(2) u]
  obtain p where p: "p = 0 \<or> p \<in> free_pages_of (pm s)" "\<And>v. virt_to_phys_user u v =
      (if same_page v (page_addr a) then page_addr p + (v AND 0xFFF) else virt_to_phys_user s v)"
    using ok(2) by blast
  have sp: "same_page v (page_addr a) \<longleftrightarrow> unat v div 4096 = a" if "unat v < 2 ^ 48" for v
    using same_page_iff [OF that, of "page_addr a"] unat_page_addr [OF ab(1)] lt
    by (simp add: stack_top_page_def)
  have "page_addr a + PAGE_SIZE = page_addr (Suc a)"
    using page_addr_add [of a 0] by simp
  then have IH: "vmm_wf inv free_pages_of limit r t \<and> free_pages_of (pm t) \<subseteq> free_pages_of (pm u) \<and>
    (\<forall>v. unat v < 2 ^ 48 \<longrightarrow>
      (if Suc a \<le> unat v div 4096 \<and> unat v div 4096 < stack_top_page
       then \<exists>p. (p = 0 \<or> p \<in> free_pages_of (pm u)) \<and> virt_to_phys_user t v = page_addr p + (v AND 0xFFF)
       else virt_to_phys_user t v = virt_to_phys_user u v))"
    using Suc.hyps(1) [of "Suc a" u] Suc.hyps(2) ok(1) t lt by simp
  have "if a \<le> unat v div 4096 \<and> unat v div 4096 < stack_top_page
       then \<exists>p. (p = 0 \<or> p \<in> free_pages_of (pm s)) \<and> virt_to_phys_user t v = page_addr p + (v AND 0xFFF)
       else virt_to_phys_user t v = virt_to_phys_user s v" if v: "unat v < 2 ^ 48" for v
  proof (cases "unat v div 4096 = a")
    case True
    then have "virt_to_phys_user t v = page_addr p + (v AND 0xFFF)"
      using IH v p(2) sp [OF v] by auto
    then show ?thesis using True lt p(1) by auto
  next
    case False
    then have "virt_to_phys_user u v = virt_to_phys_user s v" using p(2) sp [OF v] by simp
    then show ?thesis
      using IH [THEN conjunct2, THEN conjunct2, rule_format, OF v] False ok(3) by (auto split: if_splits)
  qed
  then show ?case using IH ok(3) by auto
qed

end

context page_allocator
begin

lemma map_page_returns:
  assumes wf: "vmm_wf inv free_pages_of limit r s" and c: "3 \<le> card (free_pages_of (pm s))"
  shows "\<exists>t. map_page alloc s virt phys flags = Some t"
proof -
  define ub where "ub = flags AND PTE_USER"
  have ub: "ub = 0 \<or> ub = PTE_USER" unfolding ub_def by (rule user_bit_cases)
  have nps: "\<not> (pr (ents (limit (pm s)) s r (ix4 virt)) \<and> ps (ents (limit (pm s)) s r (ix4 virt)))"
    using tables_okD(3) [OF vmm_wfD(4) [OF wf], of "[]" r "ix4 virt"] by auto
  have "free_pages_of (pm s) \<noteq> {}" using c by auto
  then obtain c1 s1 where w1: "walk_or_alloc alloc s (ptr s r) (of_nat (ix4 virt)) ub = Some (c1, s1)"
    using walk_or_alloc_some [OF wf] by blast
  obtain p1 where p1: "c1 = ptr s1 p1" "tab (ents (limit (pm s1)) s1) r [ix4 virt] = Some p1"
    "vmm_wf inv free_pages_of limit r s1" "free_pages_of (pm s1) \<subseteq> free_pages_of (pm s)"
    "card (free_pages_of (pm s) - free_pages_of (pm s1)) \<le> 1"
    using walk_or_alloc_ok [OF wf _ _ _ _ ub nps w1, of "[]"] by auto
  have c1: "2 \<le> card (free_pages_of (pm s1))"
    using card_left(1) [OF vmm_wfD(1) [OF wf] p1(4,5), of 2] c by simp
  have nps1: "\<not> (pr (ents (limit (pm s1)) s1 p1 (ix3 virt)) \<and> ps (ents (limit (pm s1)) s1 p1 (ix3 virt)))"
    using tables_okD(3) [OF vmm_wfD(4) [OF p1(3)] p1(2), of "ix3 virt"] by auto
  have "free_pages_of (pm s1) \<noteq> {}" using c1 by auto
  then obtain c2 s2 where w2: "walk_or_alloc alloc s1 (ptr s1 p1) (of_nat (ix3 virt)) ub = Some (c2, s2)"
    using walk_or_alloc_some [OF p1(3)] by blast
  obtain d where d: "vmm_wf inv free_pages_of limit r s2" "free_pages_of (pm s2) \<subseteq> free_pages_of (pm s1)"
    "card (free_pages_of (pm s1) - free_pages_of (pm s2)) \<le> 1"
    using walk_or_alloc_ok [OF p1(3,2) _ _ _ ub nps1 w2] by auto
  have "1 \<le> card (free_pages_of (pm s2))"
    using card_left(1) [OF vmm_wfD(1) [OF p1(3)] d(2,3), of 1] c1 by simp
  then have ne: "free_pages_of (pm s2) \<noteq> {}" by auto
  obtain c3 s3 where w3: "walk_or_alloc alloc s2 c2 (of_nat (ix2 virt)) ub = Some (c3, s3)"
    using walk_or_alloc_some [OF d(1) ne] by blast
  obtain c4 s4 where w4: "alloc_table alloc s2 = Some (c4, s4)" using alloc_table_some [OF d(1) ne] by blast
  have "\<exists>t. map_page alloc s virt phys flags = Some t"
    unfolding map_page_def Let_def
    by (simp only: ub_def [symmetric] vmm_wfD(2) [OF wf] ix_of_nat w1 p1(1) [symmetric] option.case prod.case)
      (simp add: p1(1) w2 w3 w4)
  then show ?thesis .
qed

lemma user_stack_guard:
  assumes wf: "vmm_wf inv free_pages_of limit r s" and sz: "stack_size = page_addr k" "k < stack_top_page"
    and m: "map_user_stack_with_guard alloc s stack_size = Some (a, t)"
  shows "a = USER_STACK_TOP \<and> vmm_wf inv free_pages_of limit r t \<and>
    (\<forall>v. unat v < 2 ^ 48 \<longrightarrow>
      (if stack_top_page - k \<le> unat v div 4096 \<and> unat v div 4096 < stack_top_page
       then \<exists>p. (p = 0 \<or> p \<in> free_pages_of (pm s)) \<and> virt_to_phys_user t v = page_addr p + (v AND 0xFFF)
       else virt_to_phys_user t v = virt_to_phys_user s v))"
proof -
  have "page_addr stack_top_page - page_addr k = page_addr (stack_top_page - k)"
    using sz(2) by (simp add: page_addr_def of_nat_diff left_diff_distrib)
  then have st: "USER_STACK_TOP - stack_size - GUARD_PAGE_SIZE + GUARD_PAGE_SIZE = page_addr (stack_top_page - k)"
    by (simp add: sz(1) stack_top)
  have "guard_stack_loop alloc s (page_addr (stack_top_page - k)) = Some t" "a = USER_STACK_TOP"
    using m unfolding map_user_stack_with_guard_def Let_def st by (auto split: option.splits)
  then show ?thesis using guard_stack_loop_ok [OF wf, of "stack_top_page - k" t] by simp
qed

end

section \<open>Cache lines\<close>

lemma clflush_loop_ok:
  assumes "unat p + n * 64 = m" "unat e \<le> m" "m < unat e + 64 \<or> n = 0" "m < 2 ^ 64" "n = 0 \<Longrightarrow> unat e \<le> unat p"
  shows "clflush_loop p e = Some (map (\<lambda>i. p + 64 * of_nat i) [0..<n])"
  using assms
proof (induction n arbitrary: p)
  case 0
  then show ?case by (subst clflush_loop.simps) (simp add: word_less_nat_alt)
next
  case (Suc n)
  have lt: "p < e" using Suc.prems(1,3) by (simp add: word_less_nat_alt)
  have p64: "unat (p + 64) = unat p + 64" using Suc.prems(1,4) by (subst unat_plus_u64) simp_all
  have "clflush_loop (p + 64) e = Some (map (\<lambda>i. p + 64 + 64 * of_nat i) [0..<n])"
    using Suc.prems p64 by (intro Suc.IH) auto
  moreover have "map (\<lambda>i. p + 64 + 64 * of_nat i) [0..<n] = map (\<lambda>i. p + 64 * of_nat i) [1..<Suc n]"
    unfolding One_nat_def map_Suc_upt [symmetric] by (simp add: algebra_simps)
  ultimately show ?case
    using lt by (subst clflush_loop.simps) (simp add: upt_conv_Cons [of 0] del: upt_Suc)
qed

lemma unat_line: "unat (x AND NOT 63) = unat x div 64 * 64" for x :: u64
  using unat_ALIGN_DOWN [of 6 x] by (simp add: ALIGN_DOWN_def)

lemma flush_cache_loop:
  assumes "unat addr + unat sz + 64 \<le> 2 ^ 64"
  shows "phys_flush_cache addr sz =
    Some (map (\<lambda>i. (addr AND NOT 63) + 64 * of_nat i) [0..<(unat addr + unat sz + 63) div 64 - unat addr div 64])"
proof -
  let ?p = "addr AND NOT 63" and ?e = "addr + sz"
  have e: "unat ?e = unat addr + unat sz" using assms by (intro unat_plus_u64) simp
  define n where "n = (unat ?e + 63) div 64 - unat addr div 64"
  have le: "unat addr div 64 \<le> (unat ?e + 63) div 64" using e by (intro div_le_mono) simp
  then have m: "unat ?p + n * 64 = (unat ?e + 63) div 64 * 64"
    unfolding unat_line n_def by (simp flip: distrib_right)
  have up: "(unat ?e + 63) div 64 * 64 \<le> unat ?e + 63" by (rule div_times_less_eq_dividend)
  have "unat ?e \<le> (unat ?e + 63) div 64 * 64"
    using div_mult_mod_eq [of "unat ?e + 63" 64] mod_less_divisor [of 64 "unat ?e + 63"] by linarith
  moreover have "(unat ?e + 63) div 64 * 64 < unat ?e + 64" using up by linarith
  moreover have "unat ?e + 64 \<le> 2 ^ 64" using assms e by simp
  ultimately have "phys_flush_cache addr sz = Some (map (\<lambda>i. ?p + 64 * of_nat i) [0..<n])"
    unfolding phys_flush_cache_def
    by (intro clflush_loop_ok [OF m]) (assumption, blast, linarith, use m in simp)
  then show ?thesis unfolding n_def e .
qed

lemma clflush_ends:
  assumes "clflush_loop p e = Some ls"
  shows "\<not> (64 dvd unat p \<and> 2 ^ 64 - 64 < unat e)"
proof (rule clflush_loop.raw_induct [OF _ assms, where P = "\<lambda>p e ls. \<not> (64 dvd unat p \<and> 2 ^ 64 - 64 < unat e)"])
  fix f :: "u64 \<Rightarrow> u64 \<Rightarrow> u64 list option" and p e :: u64 and ls
  assume IH: "\<And>p e ls. f p e = Some ls \<Longrightarrow> \<not> (64 dvd unat p \<and> 2 ^ 64 - 64 < unat e)"
    and r: "(if p < e then f (p + 64) e \<bind> (\<lambda>ls. Some (p # ls)) else Some []) = Some ls"
  show "\<not> (64 dvd unat p \<and> 2 ^ 64 - 64 < unat e)"
  proof
    assume a: "64 dvd unat p \<and> 2 ^ 64 - 64 < unat e"
    obtain k where k: "unat p = 64 * k" using a by (auto elim: dvdE)
    have "64 * k < 18446744073709551616" using unat_lt64 [of p] unfolding k .
    then have le: "unat p \<le> 2 ^ 64 - 64" unfolding k by simp
    then have "p < e" using a by (simp add: word_less_nat_alt)
    then obtain ls' where "f (p + 64) e = Some ls'" using r by (auto simp: bind_eq_Some_conv)
    moreover have "64 dvd unat (p + 64)"
    proof (cases "unat p = 2 ^ 64 - 64")
      case True
      then have "p = - 64" by (simp add: word_unat_eq_iff)
      then show ?thesis by simp
    next
      case False
      then have "unat (p + 64) = unat p + 64"
        using le by (subst unat_plus_u64) simp_all
      then show ?thesis using a by simp
    qed
    ultimately show False using IH a by blast
  qed
qed

section \<open>The kernel\<close>

definition vmm_inv :: "nat \<Rightarrow> pmm vmm \<Rightarrow> bool" where
  "vmm_inv r s \<longleftrightarrow> vmm_wf pmm_inv free_set (\<lambda>m. unat (pmm_max_page m)) r s"

definition demo_vmm :: "pmm vmm" where
  "demo_vmm = \<lparr>v_hhdm_offset = 0xFFFF800000000000, kernel_pml4 = 0xFFFF800000001000, mem = (\<lambda>_. 0),
     pm = demo_pmm, cr3 = 0x1000, invlpg_log = []\<rparr>"

text \<open>C6: \<open>map_page\<close> returns whenever three pages are free. When it returns, the page tables are
  still a well-formed tree disjoint from free memory, the TLB entry of \<open>virt\<close> was invalidated last, the
  addresses of the page of \<open>virt\<close> translate to the frame \<open>phys\<close>, and the translation of every other
  address is what it was, also when a huge page had to be split.\<close>

theorem map_page_correct:
  assumes "vmm_inv r s" "flags AND PTE_ADDR_MASK = 0"
  shows "(3 \<le> card (free_set (pm s)) \<longrightarrow> (\<exists>t. map_page palloc s virt phys flags = Some t)) \<and>
    (\<forall>t. map_page palloc s virt phys flags = Some t \<longrightarrow> vmm_inv r t \<and>
      (\<exists>log. invlpg_log t = virt # log) \<and>
      (\<forall>v. virt_to_phys_user t v =
        (if same_page v virt then (phys AND PTE_ADDR_MASK) + (v AND 0xFFF) else virt_to_phys_user s v)))"
  using assms pmm.map_page_ok(1,3) pmm.map_page_ok(2) [of r s flags virt phys] pmm.map_page_returns
  unfolding vmm_inv_def by (intro conjI allI impI) blast+

lemma demo_vmm_entry: "rd demo_vmm a i = 0"
  by (simp add: rd_def demo_vmm_def)

lemma demo_vmm_inv: "vmm_inv 1 demo_vmm"
proof -
  let ?E = "ents 16 demo_vmm"
  have "?E p i = 0" for p i by (simp add: ents_def demo_vmm_entry)
  then have t: "tab ?E 1 \<pi> = Some p \<longleftrightarrow> \<pi> = [] \<and> p = 1" for \<pi> p
    by (cases \<pi>) (auto simp: tab.simps pr_def)
  have "tables_ok ?E 1 16 (free_set demo_pmm)"
    unfolding tables_ok_def t using \<open>\<And>p i. ?E p i = 0\<close>
    by (auto simp: demo_pmm_inv(2) pr_def)
  moreover have "direct_map_ok 16 demo_vmm" by (simp add: direct_map_ok_def demo_vmm_def)
  moreover have "kernel_pml4 demo_vmm = ptr demo_vmm 1"
    by (simp add: ptr_def phys_to_virt_def demo_vmm_def page_addr_def)
  moreover have "pm demo_vmm = demo_pmm" by (simp add: demo_vmm_def)
  ultimately show ?thesis
    by (simp add: vmm_inv_def vmm_wf_def demo_pmm_inv(1) demo_pmm_max)
qed

theorem map_page_correct_witness:
  "\<exists>t. map_page palloc demo_vmm 0x400000 0x9000 3 = Some t \<and> vmm_inv 1 t \<and>
     virt_to_phys_user t 0x400123 = 0x9123 \<and> virt_to_phys_user t 0x401123 = virt_to_phys_user demo_vmm 0x401123"
proof -
  have "card (free_set (pm demo_vmm)) = 4" by (simp add: demo_vmm_def demo_pmm_inv(2))
  moreover have "(3 :: u64) AND PTE_ADDR_MASK = 0" by (simp add: PTE_ADDR_MASK_def)
  ultimately obtain t where t: "map_page palloc demo_vmm 0x400000 0x9000 3 = Some t" "vmm_inv 1 t"
    "\<And>v. virt_to_phys_user t v = (if same_page v 0x400000 then (0x9000 AND PTE_ADDR_MASK) + (v AND 0xFFF)
       else virt_to_phys_user demo_vmm v)"
    using map_page_correct [OF demo_vmm_inv, of 3 "0x400000" "0x9000"] by auto
  have "same_page 0x400123 0x400000" "\<not> same_page 0x401123 0x400000"
    by (subst same_page_iff; simp)+
  then show ?thesis using t by (simp add: PTE_ADDR_MASK_def)
qed

text \<open>C7: \<open>unmap_page\<close>, on an address that no huge page maps, makes the addresses of its page
  untranslated, keeps the translation of all others and keeps the tables well formed.\<close>

theorem unmap_page_correct:
  assumes "vmm_inv r s" "pd_entry s virt AND PTE_PS = 0"
  shows "vmm_inv r (unmap_page s virt) \<and>
    (\<forall>v. virt_to_phys_user (unmap_page s virt) v = (if same_page v virt then 0 else virt_to_phys_user s v))"
  using assms pmm.unmap_page_ok unfolding vmm_inv_def by blast

theorem unmap_page_correct_witness:
  "pd_entry demo_vmm 0x400000 AND PTE_PS = 0 \<and> vmm_inv 1 (unmap_page demo_vmm 0x400000) \<and>
   virt_to_phys_user (unmap_page demo_vmm 0x400000) 0x400123 = 0"
proof -
  have *: "pd_entry demo_vmm 0x400000 AND PTE_PS = 0" by (simp add: pd_entry_def demo_vmm_entry Let_def)
  moreover have "same_page 0x400123 0x400000" by (subst same_page_iff) simp_all
  ultimately show ?thesis using unmap_page_correct [OF demo_vmm_inv *] by simp
qed

text \<open>On an address mapped by a 2 MiB page, \<open>unmap_page\<close> takes the frame of the huge page
  for a page table: the only memory it changes is a word of the mapped data, which becomes 0, and the
  mapping stays.\<close>

theorem unmap_page_huge:
  assumes p: "rd s (kernel_pml4 s) (PML4_INDEX virt) AND PTE_PRESENT \<noteq> 0"
    "rd s (phys_to_virt s (rd s (kernel_pml4 s) (PML4_INDEX virt) AND NOT 0xFFF)) (PDPT_INDEX virt) AND PTE_PRESENT \<noteq> 0"
    and h: "pd_entry s virt AND PTE_PRESENT \<noteq> 0" "pd_entry s virt AND PTE_PS \<noteq> 0"
  shows "mem (unmap_page s virt) = (mem s)(phys_to_virt s (pd_entry s virt AND NOT 0xFFF) + 8 * PT_INDEX virt := 0)"
  using assms by (simp add: unmap_page_def pd_entry_def Let_def wr_def invlpg_def)


lemma demo_card_after_alloc:
  assumes "palloc demo_pmm = (a, m)"
  shows "card (free_set m) = 3"
proof -
  obtain p where "p \<in> free_set demo_pmm" "free_set m = free_set demo_pmm - {p}"
    using pmm.alloc_some [OF demo_pmm_inv(1) assms] pmm.alloc_none [OF demo_pmm_inv(1), of m] assms
    by (cases "a = 0") (auto simp: demo_pmm_inv(2))
  then show ?thesis by (simp add: demo_pmm_inv(2))
qed


text \<open>C9: \<open>phys_flush_cache\<close> returns when the range does not end within the last cache line of the
  address space, and then it has flushed the line of every byte of the range.\<close>

theorem phys_flush_cache_lines:
  assumes "unat addr + unat sz + 64 \<le> 2 ^ 64"
  shows "\<exists>ls. phys_flush_cache addr sz = Some ls \<and>
    (\<forall>b. unat addr \<le> unat b \<and> unat b < unat addr + unat sz \<longrightarrow> (b AND NOT 63) \<in> set ls)"
proof -
  let ?p = "addr AND NOT 63"
  define n where "n = (unat addr + unat sz + 63) div 64 - unat addr div 64"
  note dn = unat_line
  have loop: "phys_flush_cache addr sz = Some (map (\<lambda>i. ?p + 64 * of_nat i) [0..<n])"
    unfolding n_def by (rule flush_cache_loop [OF assms])
  have "(b AND NOT 63) \<in> set (map (\<lambda>i. ?p + 64 * of_nat i) [0..<n])"
    if b: "unat addr \<le> unat b" "unat b < unat addr + unat sz" for b
  proof -
    let ?i = "unat b div 64 - unat addr div 64"
    have lb: "unat addr div 64 \<le> unat b div 64" by (rule div_le_mono [OF b(1)])
    have "unat b div 64 < (unat addr + unat sz + 63) div 64" using b(2) by (simp add: div_less_iff_less_mult le_div_geq)
    then have "?i < n" using lb unfolding n_def by (rule diff_less_mono)
    moreover have "b AND NOT 63 = ?p + 64 * of_nat ?i"
    proof -
      have i: "64 * ?i \<le> unat b - unat addr div 64 * 64"
        using div_times_less_eq_dividend [of "unat b" 64] by (simp add: diff_mult_distrib2)
      have "64 * of_nat ?i = (of_nat (64 * ?i) :: u64)" by simp
      moreover have "unat (of_nat (64 * ?i) :: u64) = 64 * ?i"
      proof (rule unat_of_nat_u64)
        have "64 * ?i < 18446744073709551616"
          using i unat_lt64 [of b] by (meson diff_le_self le_less_trans)
        then show "64 * ?i < 2 ^ 64" by simp
      qed
      ultimately have "unat (64 * of_nat ?i :: u64) = 64 * ?i" by (simp only:)
      moreover have sum: "unat ?p + 64 * ?i = unat b div 64 * 64"
        unfolding dn using lb by (simp add: diff_mult_distrib2)
      moreover have "unat b div 64 * 64 < 2 ^ 64"
        using le_less_trans [OF div_times_less_eq_dividend [of "unat b" 64] unat_lt64 [of b]] by simp
      ultimately have "unat (?p + 64 * of_nat ?i) = unat b div 64 * 64"
        by (subst unat_plus_u64) (simp_all only:)
      then show ?thesis using dn [of b] by (intro word_unat_eq_iff [THEN iffD2]) simp
    qed
    ultimately show ?thesis by auto
  qed
  then show ?thesis using loop by blast
qed

theorem phys_flush_cache_lines_witness:
  "\<exists>ls. phys_flush_cache 0x1010 0x80 = Some ls \<and> (0x1090 - 1 AND NOT 63) \<in> set ls"
proof -
  obtain ls where "phys_flush_cache 0x1010 0x80 = Some ls"
    "\<forall>b. unat (0x1010 :: u64) \<le> unat b \<and> unat b < unat (0x1010 :: u64) + unat (0x80 :: u64) \<longrightarrow>
      (b AND NOT 63) \<in> set ls"
    using phys_flush_cache_lines [of "0x1010" "0x80"] by auto
  from this(1) this(2) [rule_format, of "0x1090 - 1"] show ?thesis
    by (intro exI [of _ ls] conjI) simp_all
qed

theorem phys_flush_cache_diverges:
  assumes "2 ^ 64 - 64 < unat (addr + sz)"
  shows "phys_flush_cache addr sz = None"
proof -
  have "unat (addr AND NOT 63) = unat addr div 64 * 64"
    using unat_ALIGN_DOWN [of 6 addr] by (simp add: ALIGN_DOWN_def)
  then have "64 dvd unat (addr AND NOT 63)" by simp
  then show ?thesis using clflush_ends [of "addr AND NOT 63" "addr + sz"] assms
    unfolding phys_flush_cache_def by (cases "clflush_loop (addr AND NOT 63) (addr + sz)") blast+
qed

end
