(* ===== verification/Pfndb.thy ===== *)
theory Pfndb
  imports Vmm Pmm_Init
begin

text \<open>
  Model of \<^verbatim>\<open>kernel/main/mm/pfndb.c\<close>, the page-frame database: one descriptor per physical page, in
  an array carved out of the memory map. A pointer \<^verbatim>\<open>&mem_map[i]\<close> is the address
  \<open>mem_map + 64 * i\<close>, since descriptors are aligned to 64 bytes; the array itself is the function
  \<open>pages\<close> of the index. A result \<open>None\<close> is one of the two halts.
\<close>

section \<open>Model\<close>

definition PAGE_FREE :: u64 where "PAGE_FREE = 2 ^ 0"
definition PAGE_USED :: u64 where "PAGE_USED = 2 ^ 1"
definition PAGE_RESERVED :: u64 where "PAGE_RESERVED = 2 ^ 2"

record page_t =
  pg_next :: u64
  pg_sharecount :: u64
  pg_flags :: u64
  pg_refcount :: u32

definition sizeof_page_t :: u64 where "sizeof_page_t = 64"

record pfndb =
  mem_map :: u64
  pages :: "u64 \<Rightarrow> page_t"
  max_pfn :: u64
  pfndb_phys :: u64

fun pfndb_calc_max_pfn :: "u64 \<Rightarrow> limine_memmap_entry list \<Rightarrow> u64" where
  "pfndb_calc_max_pfn mx [] = mx"
| "pfndb_calc_max_pfn mx (e # es) =
     (if me_type e \<noteq> LIMINE_MEMMAP_USABLE then pfndb_calc_max_pfn mx es
      else let end = (me_base e + me_length e + PAGE_SIZE - 1) div PAGE_SIZE
           in pfndb_calc_max_pfn (if end > mx then end else mx) es)"

fun pfndb_reserve ::
  "u64 \<Rightarrow> limine_memmap_entry list \<Rightarrow> (u64 \<times> limine_memmap_entry list) option" where
  "pfndb_reserve sz [] = None"
| "pfndb_reserve sz (e # es) =
     (if me_type e \<noteq> LIMINE_MEMMAP_USABLE \<or> me_length e < sz
      then (case pfndb_reserve sz es of None \<Rightarrow> None | Some (phys, es) \<Rightarrow> Some (phys, e # es))
      else Some (me_base e,
        e\<lparr>me_base := me_base e + sz, me_length := me_length e - sz\<rparr> # es))"

text \<open>\<^verbatim>\<open>for (i = 0; i <= max_pfn; i++)\<close>; \<open>max_pfn\<close> is a quotient by the page size, so the counter never
  wraps.\<close>

primrec reserve_all :: "pfndb \<Rightarrow> nat \<Rightarrow> pfndb" where
  "reserve_all s 0 = s"
| "reserve_all s (Suc i) =
     (let s = reserve_all s i
      in s\<lparr>pages := (pages s)(of_nat i := (pages s (of_nat i))
             \<lparr>pg_flags := PAGE_RESERVED, pg_refcount := 0,
              pg_next := if of_nat i < max_pfn s then mem_map s + sizeof_page_t * (of_nat i + 1) else 0\<rparr>)\<rparr>)"

text \<open>The mask is a 32-bit \<^verbatim>\<open>unsigned\<close>, so the complement clears the upper half of the flags too.\<close>

definition mark_free :: "page_t \<Rightarrow> page_t" where
  "mark_free p = p\<lparr>pg_flags := (pg_flags p AND 0xFFFFFFF9) OR PAGE_FREE\<rparr>"

function mark_range :: "pfndb \<Rightarrow> u64 \<Rightarrow> u64 \<Rightarrow> pfndb" where
  "mark_range s pfn end =
     (if pfn < end \<and> pfn \<le> max_pfn s
      then mark_range (s\<lparr>pages := (pages s)(pfn := mark_free (pages s pfn))\<rparr>) (pfn + 1) end
      else s)"
  by pat_completeness auto
termination
proof (relation "measure (\<lambda>(s, pfn, end). unat end - unat pfn)", simp)
  fix s :: pfndb and pfn end' :: u64
  assume "pfn < end' \<and> pfn \<le> max_pfn s"
  then have "unat pfn < unat end'" "unat (pfn + 1) = Suc (unat pfn)"
    by (auto simp: word_less_nat_alt intro: unat_inc_u64)
  then show "((s\<lparr>pages := (pages s)(pfn := mark_free (pages s pfn))\<rparr>, pfn + 1, end'), s, pfn, end')
      \<in> measure (\<lambda>(s, pfn, end). unat end - unat pfn)" by simp
qed

declare mark_range.simps [simp del]

fun mark_usable :: "pfndb \<Rightarrow> limine_memmap_entry list \<Rightarrow> pfndb" where
  "mark_usable s [] = s"
| "mark_usable s (e # es) =
     (if me_type e \<noteq> LIMINE_MEMMAP_USABLE then mark_usable s es
      else mark_usable
        (mark_range s (me_base e div PAGE_SIZE) ((me_base e + me_length e) div PAGE_SIZE)) es)"

definition pfndb_size :: "u64 \<Rightarrow> u64" where
  "pfndb_size mx = ALIGN_UP ((mx + 1) * sizeof_page_t) PAGE_SIZE"

definition pfndb_init ::
  "(u64 \<Rightarrow> u64) \<Rightarrow> pfndb \<Rightarrow> limine_memmap_entry list \<Rightarrow> (pfndb \<times> limine_memmap_entry list) option" where
  "pfndb_init to_virt s memmap =
     (let s = s\<lparr>max_pfn := pfndb_calc_max_pfn 0 memmap\<rparr>
      in case pfndb_reserve (pfndb_size (max_pfn s)) memmap of
           None \<Rightarrow> None
         | Some (phys, memmap) \<Rightarrow>
             (let s = s\<lparr>pfndb_phys := phys, mem_map := to_virt phys\<rparr>
              in if mem_map s = 0 then None
                 else
                   (let s = reserve_all s (Suc (unat (max_pfn s)));
                        s = mark_usable s memmap;
                        s = s\<lparr>pages := (pages s)(0 := (pages s 0)
                              \<lparr>pg_flags := PAGE_RESERVED, pg_refcount := 0\<rparr>)\<rparr>
                    in Some (s, memmap))))"

text \<open>\<^verbatim>\<open>pfndb_dump\<close>: the ranges it prints, and the number of free pages.\<close>

datatype page_state = USED | RESERVED | FREE | UNKNOWN

definition state_of :: "u8 \<Rightarrow> page_state" where
  "state_of cur =
     (if cur AND ucast PAGE_USED \<noteq> 0 then USED
      else if cur AND ucast PAGE_RESERVED \<noteq> 0 then RESERVED
      else if cur AND ucast PAGE_FREE \<noteq> 0 then FREE
      else UNKNOWN)"

primrec dump_loop ::
  "pfndb \<Rightarrow> nat \<Rightarrow> (u64 \<times> u64 \<times> page_state) list \<times> u64 \<times> u8 \<times> u64" where
  "dump_loop s 0 =
     (let cur = ucast (pg_flags (pages s 0)) :: u8
      in ([], 0, cur, if cur AND ucast PAGE_FREE \<noteq> 0 then 1 else 0))"
| "dump_loop s (Suc i) =
     (let (out, range_start, cur, free_pages) = dump_loop s i;
          f = ucast (pg_flags (pages s (of_nat (Suc i)))) :: u8;
          free_pages = (if f AND ucast PAGE_FREE \<noteq> 0 then free_pages + 1 else free_pages)
      in if f \<noteq> cur
         then (out @ [(range_start * PAGE_SIZE, (of_nat (Suc i) - 1) * PAGE_SIZE, state_of cur)],
               of_nat (Suc i), f, free_pages)
         else (out, range_start, cur, free_pages))"

definition pfndb_dump :: "pfndb \<Rightarrow> (u64 \<times> u64 \<times> page_state) list \<times> u64 \<times> u64" where
  "pfndb_dump s =
     (let (out, range_start, cur, free_pages) = dump_loop s (unat (max_pfn s))
      in (out @ [(range_start * PAGE_SIZE, max_pfn s * PAGE_SIZE, state_of cur)],
          free_pages, max_pfn s + 1))"

definition pfndb_getdb :: "pfndb \<Rightarrow> u64" where
  "pfndb_getdb s = mem_map s"

definition pfndb_getmax :: "pfndb \<Rightarrow> u64" where
  "pfndb_getmax s = max_pfn s"

definition pfndb_pfnaddr :: "pfndb \<Rightarrow> u64 \<Rightarrow> u64" where
  "pfndb_pfnaddr s pfn = (if pfn > max_pfn s then 0 else pfn * PAGE_SIZE)"

definition pfndb_getptr :: "pfndb \<Rightarrow> u64 \<Rightarrow> u64" where
  "pfndb_getptr s pfn = (if pfn > max_pfn s then 0 else mem_map s + sizeof_page_t * pfn)"

definition pfndb_getpfn :: "pfndb \<Rightarrow> u64 \<Rightarrow> u64" where
  "pfndb_getpfn s page =
     (if page = 0 \<or> mem_map s = 0 then -1
      else if page < mem_map s \<or> page > mem_map s + sizeof_page_t * max_pfn s then -1
      else (page - mem_map s) div sizeof_page_t)"

definition pfndb_page_to_phys :: "pfndb \<Rightarrow> u64 \<Rightarrow> u64" where
  "pfndb_page_to_phys s page =
     (if page = 0 \<or> mem_map s = 0 then 0
      else if page < mem_map s \<or> page > mem_map s + sizeof_page_t * max_pfn s then 0
      else (page - mem_map s) div sizeof_page_t * PAGE_SIZE)"

definition pfndb_phys_to_page :: "pfndb \<Rightarrow> u64 \<Rightarrow> u64" where
  "pfndb_phys_to_page s phys =
     (let pfn = phys div PAGE_SIZE
      in if pfn > max_pfn s then 0 else mem_map s + sizeof_page_t * pfn)"

end
