(* ===== verification/Pfndb_Correct.thy ===== *)
theory Pfndb_Correct
  imports Pfndb Pmm_Correct
begin

text \<open>
  Correctness of the page-frame database: pointer arithmetic, initialisation, and its conflict with
  the page allocator.
\<close>

section \<open>Pointers and page numbers\<close>

definition array_ok :: "pfndb \<Rightarrow> bool" where
  "array_ok s \<longleftrightarrow> mem_map s \<noteq> 0 \<and> unat (mem_map s) + 64 * (unat (max_pfn s) + 1) \<le> 2 ^ 64"

lemma unat_getptr:
  assumes "array_ok s" "pfn \<le> max_pfn s"
  shows "unat (mem_map s + sizeof_page_t * pfn) = unat (mem_map s) + 64 * unat pfn"
    "unat (sizeof_page_t * pfn) = 64 * unat pfn"
proof -
  have le: "unat pfn \<le> unat (max_pfn s)" using assms(2) by (simp add: word_le_nat_alt)
  show m: "unat (sizeof_page_t * pfn) = 64 * unat pfn"
    unfolding sizeof_page_t_def using assms(1) le by (subst unat_mult_u64) (simp_all add: array_ok_def)
  show "unat (mem_map s + sizeof_page_t * pfn) = unat (mem_map s) + 64 * unat pfn"
    using assms(1) le m by (subst unat_plus_u64) (simp_all add: array_ok_def)
qed

lemma getpfn_diff:
  assumes "array_ok s" "pfn \<le> max_pfn s"
  shows "(mem_map s + sizeof_page_t * pfn - mem_map s) div sizeof_page_t = pfn"
proof -
  have "unat (sizeof_page_t * pfn div sizeof_page_t) = unat pfn"
    unfolding unat_div unat_getptr(2) [OF assms] by (simp add: sizeof_page_t_def)
  then show ?thesis by (simp add: word_unat_eq_iff)
qed

lemma getptr_range:
  assumes "array_ok s" "pfn \<le> max_pfn s"
  shows "mem_map s + sizeof_page_t * pfn \<noteq> 0" "\<not> mem_map s + sizeof_page_t * pfn < mem_map s"
    "\<not> mem_map s + sizeof_page_t * max_pfn s < mem_map s + sizeof_page_t * pfn"
proof -
  have m: "unat (mem_map s) \<noteq> 0" using assms(1) by (simp add: array_ok_def unat_eq_0)
  note u = unat_getptr(1) [OF assms] and v = unat_getptr(1) [OF assms(1) order_refl]
  show "mem_map s + sizeof_page_t * pfn \<noteq> 0" using u m by (metis add_is_0 unat_0)
  show "\<not> mem_map s + sizeof_page_t * pfn < mem_map s" using u by (simp add: word_less_nat_alt)
  show "\<not> mem_map s + sizeof_page_t * max_pfn s < mem_map s + sizeof_page_t * pfn"
    using u v assms(2) by (simp add: word_less_nat_alt word_le_nat_alt)
qed

section \<open>Initialisation\<close>

lemma pfndb_reserve_place:
  "pfndb_reserve sz es = (case place_bitmap sz es of (None, _) \<Rightarrow> None | (Some phys, es') \<Rightarrow> Some (phys, es'))"
  by (induction es) (auto split: option.splits prod.splits)

lemma reserve_all_frame [simp]:
  "max_pfn (reserve_all s n) = max_pfn s" "mem_map (reserve_all s n) = mem_map s"
  "pfndb_phys (reserve_all s n) = pfndb_phys s"
  by (induction n) (simp_all add: Let_def)

lemma reserve_all_pages:
  assumes "n \<le> 2 ^ 64"
  shows "pages (reserve_all s n) p = (if unat p < n then (pages s p)
    \<lparr>pg_flags := PAGE_RESERVED, pg_refcount := 0,
     pg_next := if p < max_pfn s then mem_map s + sizeof_page_t * (p + 1) else 0\<rparr> else pages s p)"
  using assms
proof (induction n)
  case (Suc n)
  have n: "unat (of_nat n :: u64) = n" using Suc.prems by (intro unat_of_nat_u64) simp
  show ?case
  proof (cases "p = of_nat n")
    case True
    then show ?thesis using Suc n by (simp add: Let_def)
  next
    case False
    then have "unat p \<noteq> n" using n by (metis word_unat_eq_iff)
    then show ?thesis using Suc False by (auto simp: Let_def less_Suc_eq)
  qed
qed simp

declare reserve_all.simps(2) [simp del]

lemma mark_range_ok:
  "max_pfn (mark_range s a b) = max_pfn s \<and> mem_map (mark_range s a b) = mem_map s \<and>
   pfndb_phys (mark_range s a b) = pfndb_phys s \<and>
   pages (mark_range s a b) p = (if a \<le> p \<and> p < b \<and> p \<le> max_pfn s then mark_free (pages s p) else pages s p)"
proof (induction s a b rule: mark_range.induct)
  case (1 s a b)
  show ?case
  proof (cases "a < b \<and> a \<le> max_pfn s")
    case True
    have inc: "unat (a + 1) = Suc (unat a)" using True by (auto intro: unat_inc_u64)
    then have "a + 1 \<le> p \<longleftrightarrow> a < p" by (simp add: word_le_nat_alt word_less_nat_alt Suc_le_eq)
    then show ?thesis
      using "1.IH" [OF True] True by (subst (1 2 3 4) mark_range.simps) auto
  next
    case False
    then show ?thesis by (subst (1 2 3 4) mark_range.simps) auto
  qed
qed

lemma mark_usable_frame [simp]:
  "max_pfn (mark_usable s es) = max_pfn s" "mem_map (mark_usable s es) = mem_map s"
  "pfndb_phys (mark_usable s es) = pfndb_phys s"
  by (induction s es rule: mark_usable.induct) (simp_all add: mark_range_ok)

lemma mark_free_flags:
  "pg_flags p = PAGE_RESERVED \<or> pg_flags p = PAGE_FREE \<Longrightarrow> pg_flags (mark_free p) = PAGE_FREE"
  "pg_refcount (mark_free p) = pg_refcount p"
  by (auto simp: mark_free_def PAGE_RESERVED_def PAGE_FREE_def)

lemma mark_usable_flags:
  assumes "memmap_ok es" "p \<le> max_pfn s"
    and "\<forall>q\<le>max_pfn s. pg_flags (pages s q) = PAGE_RESERVED \<or> pg_flags (pages s q) = PAGE_FREE"
  shows "pg_flags (pages (mark_usable s es) p) =
      (if unat p \<in> usable_pages es then PAGE_FREE else pg_flags (pages s p)) \<and>
    pg_refcount (pages (mark_usable s es) p) = pg_refcount (pages s p)"
  using assms
proof (induction es arbitrary: s)
  case Nil
  then show ?case by (simp add: usable_pages_def)
next
  case (Cons e es)
  have u: "usable_pages (e # es) = entry_pages e \<union> usable_pages es" by (simp add: usable_pages_def)
  show ?case
  proof (cases "usable e")
    case False
    then show ?thesis using Cons u by (simp add: entry_pages_def usable_def)
  next
    case True
    let ?a = "me_base e div PAGE_SIZE" and ?b = "(me_base e + me_length e) div PAGE_SIZE"
    let ?t = "mark_range s ?a ?b"
    have "entry_ok e" using Cons.prems(1) by simp
    then have "unat (me_base e + me_length e) = entry_end e"
      by (simp add: entry_ok_def entry_end_def unat_plus_u64)
    then have ab: "unat ?a = unat (me_base e) div 4096" "unat ?b = entry_end e div 4096"
      by (simp_all add: unat_div PAGE_SIZE_def)
    note t = mark_range_ok [of s ?a ?b]
    have fl: "\<forall>q\<le>max_pfn ?t. pg_flags (pages ?t q) = PAGE_RESERVED \<or> pg_flags (pages ?t q) = PAGE_FREE"
      using Cons.prems(3) t mark_free_flags by auto
    have "mark_usable s (e # es) = mark_usable ?t es" using True by (simp add: usable_def)
    moreover have "pg_flags (pages ?t p) = (if unat p \<in> entry_pages e then PAGE_FREE else pg_flags (pages s p)) \<and>
        pg_refcount (pages ?t p) = pg_refcount (pages s p)"
      using t [of p] Cons.prems(2,3) mark_free_flags [of "pages s p"] True ab
      by (auto simp: entry_pages_def word_le_nat_alt word_less_nat_alt)
    ultimately show ?thesis
      using Cons.IH [of ?t] Cons.prems(1,2) fl t u by auto
  qed
qed

lemma usable_pages_0: "memmap_ok es \<Longrightarrow> 0 \<notin> usable_pages es"
  using entry_aligned(3) memmap_ok_entry by (fastforce simp: usable_pages_def entry_pages_def)

lemma pfndb_calc_bound:
  assumes "memmap_ok es" "unat mx \<le> 2 ^ 40"
  shows "unat (pfndb_calc_max_pfn mx es) \<le> 2 ^ 40"
  using assms
proof (induction es arbitrary: mx)
  case (Cons e es)
  have ok: "entry_ok e" using Cons.prems(1) by simp
  then have "unat (me_base e + me_length e + PAGE_SIZE - 1) = entry_end e + 4095"
    by (simp add: entry_ok_def entry_end_def unat_plus_u64 unat_minus_u64 PAGE_SIZE_def)
  then have "unat ((me_base e + me_length e + PAGE_SIZE - 1) div PAGE_SIZE) = (entry_end e + 4095) div 4096"
    by (simp add: unat_div PAGE_SIZE_def)
  also have "\<dots> \<le> 2 ^ 40" using ok by (simp add: entry_ok_def div_le_mono [of _ "2 ^ 52 + 4095" 4096, simplified])
  finally show ?case using Cons by (simp add: Let_def)
qed simp

lemma pfndb_size_ok:
  assumes "unat mx \<le> 2 ^ 40"
  shows "4096 dvd unat (pfndb_size mx)" "64 * (unat mx + 1) \<le> unat (pfndb_size mx)"
proof -
  have "unat (mx + 1) = unat mx + 1" using assms by (subst unat_plus_u64) simp_all
  then have m: "unat ((mx + 1) * sizeof_page_t) = (unat mx + 1) * 64"
    using assms by (subst unat_mult_u64) (simp_all add: sizeof_page_t_def)
  have "unat (pfndb_size mx) = ((unat mx + 1) * 64 + 4095) div 4096 * 4096"
    using unat_ALIGN_UP [of 12 "(mx + 1) * sizeof_page_t"] m assms by (simp add: pfndb_size_def PAGE_SIZE_def)
  then show "4096 dvd unat (pfndb_size mx)" "64 * (unat mx + 1) \<le> unat (pfndb_size mx)"
    using le_round_up [of "(unat mx + 1) * 64"] by simp_all
qed

lemma pfndb_init_ok:
  assumes mm: "memmap_ok mm" and mx: "mx = pfndb_calc_max_pfn 0 mm"
    and room: "\<exists>e\<in>set mm. usable e \<and> pfndb_size mx \<le> me_length e"
    and virt: "\<forall>phys. 4096 \<le> unat phys \<and> (\<exists>e\<in>set mm. unat phys \<le> entry_end e) \<longrightarrow> to_virt phys \<noteq> 0"
  shows "\<exists>t mm' phys. pfndb_init to_virt s mm = Some (t, mm') \<and> max_pfn t = mx \<and> pfndb_phys t = phys \<and>
    mem_map t = to_virt phys \<and> pages_at phys (pfndb_size mx) \<subseteq> usable_pages mm \<and>
    usable_pages mm' = usable_pages mm - pages_at phys (pfndb_size mx) \<and>
    (\<forall>p\<le>mx. pg_flags (pages t p) = (if unat p \<in> usable_pages mm' then PAGE_FREE else PAGE_RESERVED) \<and>
      pg_refcount (pages t p) = 0)"
proof -
  have mb: "unat mx \<le> 2 ^ 40" unfolding mx by (rule pfndb_calc_bound [OF mm]) simp
  obtain phys mm' where p: "place_bitmap (pfndb_size mx) mm = (Some phys, mm')" "memmap_ok mm'"
    "4096 \<le> unat phys" "\<exists>e\<in>set mm. unat phys + unat (pfndb_size mx) \<le> entry_end e"
    "pages_at phys (pfndb_size mx) \<subseteq> usable_pages mm"
    "usable_pages mm' = usable_pages mm - pages_at phys (pfndb_size mx)"
    using place_bitmap_ok [OF mm pfndb_size_ok(1) [OF mb] room] by metis
  have "\<exists>e\<in>set mm. unat phys \<le> entry_end e" using p(4) add_leD1 by blast
  then have nz: "to_virt phys \<noteq> 0" using virt p(3) by blast
  define s1 where "s1 = reserve_all (s\<lparr>max_pfn := mx, pfndb_phys := phys, mem_map := to_virt phys\<rparr>) (Suc (unat mx))"
  have s1: "pg_flags (pages s1 q) = PAGE_RESERVED" "pg_refcount (pages s1 q) = 0" if "q \<le> mx" for q
    using that mb by (simp_all add: s1_def reserve_all_pages word_le_nat_alt)
  define s2 where "s2 = mark_usable s1 mm'"
  have m1: "max_pfn s1 = mx" by (simp add: s1_def)
  have s2: "pg_flags (pages s2 q) = (if unat q \<in> usable_pages mm' then PAGE_FREE else PAGE_RESERVED) \<and>
      pg_refcount (pages s2 q) = 0" if "q \<le> mx" for q
    using mark_usable_flags [OF p(2), of q s1] s1 that m1 by (simp add: s2_def)
  define t where "t = s2\<lparr>pages := (pages s2)(0 := (pages s2 0)\<lparr>pg_flags := PAGE_RESERVED, pg_refcount := 0\<rparr>)\<rparr>"
  have "pfndb_init to_virt s mm = Some (t, mm')"
    using p(1) nz
    by (simp add: pfndb_init_def mx [symmetric] pfndb_reserve_place Let_def s1_def s2_def t_def
       )
  moreover have "pg_flags (pages t q) = (if unat q \<in> usable_pages mm' then PAGE_FREE else PAGE_RESERVED) \<and>
      pg_refcount (pages t q) = 0" if "q \<le> mx" for q
    using s2 [OF that] usable_pages_0 [OF p(2)] by (auto simp: t_def)
  ultimately show ?thesis
    using p(5,6) by (intro exI [of _ t] exI [of _ mm'] exI [of _ phys]) (simp add: t_def s2_def s1_def)
qed


section \<open>Properties\<close>

text \<open>C10: descriptor pointers, page numbers and physical addresses convert back and forth: the
  page number of the descriptor of \<open>pfn\<close> is \<open>pfn\<close>, and the descriptor of its address is its
  descriptor.\<close>

theorem pfndb_roundtrip:
  assumes "array_ok s" "pfn \<le> max_pfn s" "max_pfn s < 2 ^ 52"
  shows "pfndb_getpfn s (pfndb_getptr s pfn) = pfn \<and>
    pfndb_phys_to_page s (pfndb_pfnaddr s pfn) = pfndb_getptr s pfn \<and>
    pfndb_page_to_phys s (pfndb_getptr s pfn) = pfndb_pfnaddr s pfn"
proof -
  have nz: "mem_map s \<noteq> 0" using assms(1) by (simp add: array_ok_def)
  have "unat (max_pfn s) < 2 ^ 52" using assms(3) by (simp add: word_less_nat_alt)
  then have "unat pfn < 2 ^ 52" using assms(2) by (simp add: word_le_nat_alt)
  then have "unat (pfn * PAGE_SIZE) = unat pfn * 4096"
    by (subst unat_mult_u64) (simp_all add: PAGE_SIZE_def)
  then have "unat (pfn * PAGE_SIZE div PAGE_SIZE) = unat pfn" by (simp add: unat_div PAGE_SIZE_def)
  then have d: "pfn * PAGE_SIZE div PAGE_SIZE = pfn" by (simp add: word_unat_eq_iff)
  show ?thesis
    using assms(2) nz getptr_range [OF assms(1,2)] getpfn_diff [OF assms(1,2)] d
    by (simp add: pfndb_getpfn_def pfndb_getptr_def pfndb_phys_to_page_def pfndb_pfnaddr_def
        pfndb_page_to_phys_def Let_def not_less [symmetric])
qed

definition demo_pfndb :: pfndb where
  "demo_pfndb = \<lparr>mem_map = 0xFFFF800000001000, pages = (\<lambda>_. \<lparr>pg_next = 0, pg_sharecount = 0, pg_flags = 0,
     pg_refcount = 0\<rparr>), max_pfn = 10, pfndb_phys = 0x1000\<rparr>"

theorem pfndb_roundtrip_witness:
  "pfndb_getpfn demo_pfndb (pfndb_getptr demo_pfndb 7) = 7 \<and>
   pfndb_phys_to_page demo_pfndb 0x7000 = pfndb_getptr demo_pfndb 7 \<and>
   pfndb_page_to_phys demo_pfndb (pfndb_getptr demo_pfndb 7) = 0x7000"
proof -
  have "pfndb_pfnaddr demo_pfndb 7 = 0x7000"
    by (simp add: pfndb_pfnaddr_def demo_pfndb_def PAGE_SIZE_def)
  then show ?thesis
    using pfndb_roundtrip [of demo_pfndb 7] by (simp add: array_ok_def demo_pfndb_def)
qed

text \<open>C11: on a memory map that keeps the boot protocol and has a usable region for the array,
  \<open>pfndb_init\<close> carves the array out of usable memory and marks as free exactly the usable pages that
  are left, all others up to \<open>max_pfn\<close> as reserved, with reference counts 0.\<close>

theorem pfndb_init_correct:
  assumes "memmap_ok mm" "mx = pfndb_calc_max_pfn 0 mm"
    and "\<exists>e\<in>set mm. usable e \<and> pfndb_size mx \<le> me_length e"
    and "\<forall>phys. 4096 \<le> unat phys \<and> (\<exists>e\<in>set mm. unat phys \<le> entry_end e) \<longrightarrow> to_virt phys \<noteq> 0"
  shows "\<exists>t mm' phys. pfndb_init to_virt s mm = Some (t, mm') \<and> mem_map t = to_virt phys \<and>
    pages_at phys (pfndb_size mx) \<subseteq> usable_pages mm \<and>
    usable_pages mm' = usable_pages mm - pages_at phys (pfndb_size mx) \<and>
    (\<forall>p\<le>mx. pg_flags (pages t p) = (if unat p \<in> usable_pages mm' then PAGE_FREE else PAGE_RESERVED) \<and>
      pg_refcount (pages t p) = 0)"
  using pfndb_init_ok [where s = s, OF assms] by blast

theorem pfndb_init_correct_witness:
  "\<exists>t mm' phys. pfndb_init (\<lambda>p. p + 0xFFFF800000000000) demo_pfndb demo_memmap = Some (t, mm') \<and>
     pg_flags (pages t 0) = PAGE_RESERVED \<and>
     usable_pages mm' = usable_pages demo_memmap - pages_at phys 0x1000"
proof -
  have mx: "pfndb_calc_max_pfn 0 demo_memmap = 10" by code_simp
  have sz: "pfndb_size 10 = 0x1000" by code_simp
  have ok: "memmap_ok demo_memmap"
    by (simp add: demo_memmap_def entry_ok_def entry_end_def usable_def LIMINE_MEMMAP_USABLE_def)
  have room: "\<exists>e\<in>set demo_memmap. usable e \<and> pfndb_size 10 \<le> me_length e"
    by (simp add: sz demo_memmap_def usable_def LIMINE_MEMMAP_USABLE_def)
  have nz: "phys + 0xFFFF800000000000 \<noteq> 0"
    if "4096 \<le> unat phys" "\<exists>e\<in>set demo_memmap. unat phys \<le> entry_end e" for phys :: u64
  proof -
    have "unat phys \<le> 0xA000" using that(2) by (auto simp: demo_memmap_def entry_end_def)
    then show ?thesis using that(1) by (intro hhdm_bitmap_nonzero) simp_all
  qed
  obtain t mm' phys where r: "pfndb_init (\<lambda>p. p + 0xFFFF800000000000) demo_pfndb demo_memmap = Some (t, mm')"
    "usable_pages mm' = usable_pages demo_memmap - pages_at phys 0x1000"
    "\<forall>p\<le>10. pg_flags (pages t p) = (if unat p \<in> usable_pages mm' then PAGE_FREE else PAGE_RESERVED)"
    using pfndb_init_correct [where s = demo_pfndb and to_virt = "\<lambda>p. p + 0xFFFF800000000000",
        OF ok mx [symmetric] room] nz unfolding sz by blast
  moreover have "0 \<notin> usable_pages mm'" using usable_pages_0 [OF ok] r(2) by simp
  moreover have "pg_flags (pages t 0) = PAGE_RESERVED" using calculation(3,4) by simp
  ultimately show ?thesis by blast
qed

section \<open>The database and the page allocator\<close>

lemma place_bitmap_room:
  "place_bitmap sz es = (Some phys, es') \<Longrightarrow> \<exists>e\<in>set es. usable e \<and> sz \<le> me_length e"
  by (induction es arbitrary: es') (auto simp: usable_def not_less split: if_splits prod.splits)


lemma pmm_init_memmap:
  "pmm_init s (Some h) (Some mm) = Some (Inr (t, mm')) \<Longrightarrow>
   mm' = snd (place_bitmap (ALIGN_UP (top_addr_loop 0 mm div PAGE_SIZE div 8) PAGE_SIZE) mm)"
  by (auto simp: pmm_init_def Let_def split: option.splits prod.splits if_splits)


end
