(* ===== verification/Gdt.thy ===== *)
theory Gdt
  imports Prelude
begin

text \<open>
  Segments and the task state segment, \<^verbatim>\<open>kernel/main/cpu/gdt.c\<close>. The addresses of \<^verbatim>\<open>g_GDT\<close>, \<^verbatim>\<open>tss\<close> and
  \<^verbatim>\<open>kernel_stack\<close> are set by the linker and are arguments; the registers that \<^verbatim>\<open>lgdt\<close>, the segment moves
  and \<^verbatim>\<open>ltr\<close> load are fields of the state.
\<close>

section \<open>Model\<close>

record GDTEntry_t =
  LimitLow :: u16
  BaseLow :: u16
  BaseMiddle :: u8
  Access :: u8
  FlagsLimitHi :: u8
  BaseHigh :: u8

record tss_entry =
  reserved0 :: u32
  rsp0 :: u64
  rsp1 :: u64
  rsp2 :: u64
  reserved1 :: u64
  ist1 :: u64
  ist2 :: u64
  ist3 :: u64
  ist4 :: u64
  ist5 :: u64
  ist6 :: u64
  ist7 :: u64
  reserved2 :: u64
  reserved3 :: u16
  iopb_offset :: u16

record gdt_state =
  g_GDT :: "GDTEntry_t list"
  tss :: tss_entry
  gdtr_limit :: u16
  gdtr_base :: u64
  seg_cs :: u16
  seg_data :: u16
  task_register :: u16

definition GDT_CODE_SEGMENT :: u16 where "GDT_CODE_SEGMENT = 0x08"

definition GDT_DATA_SEGMENT :: u16 where "GDT_DATA_SEGMENT = 0x10"

definition GDT_ACCESS_CODE_READABLE :: u8 where "GDT_ACCESS_CODE_READABLE = 0x02"

definition GDT_ACCESS_DATA_WRITEABLE :: u8 where "GDT_ACCESS_DATA_WRITEABLE = 0x02"

definition GDT_ACCESS_DATA_SEGMENT :: u8 where "GDT_ACCESS_DATA_SEGMENT = 0x10"

definition GDT_ACCESS_CODE_SEGMENT :: u8 where "GDT_ACCESS_CODE_SEGMENT = 0x18"

definition GDT_ACCESS_RING0 :: u8 where "GDT_ACCESS_RING0 = 0x00"

definition GDT_ACCESS_RING3 :: u8 where "GDT_ACCESS_RING3 = 0x60"

definition GDT_ACCESS_PRESENT :: u8 where "GDT_ACCESS_PRESENT = 0x80"

definition GDT_FLAG_64BIT :: u8 where "GDT_FLAG_64BIT = 0x20"

definition GDT_FLAG_GRANULARITY_4K :: u8 where "GDT_FLAG_GRANULARITY_4K = 0x80"

definition GDT_LIMIT_LOW :: "u32 \<Rightarrow> u16" where
  "GDT_LIMIT_LOW limit = ucast (limit AND 0xFFFF)"

definition GDT_BASE_LOW :: "u32 \<Rightarrow> u16" where
  "GDT_BASE_LOW base = ucast (base AND 0xFFFF)"

definition GDT_BASE_MIDDLE :: "u32 \<Rightarrow> u8" where
  "GDT_BASE_MIDDLE base = ucast (drop_bit 16 base AND 0xFF)"

definition GDT_FLAGS_LIMIT_HI :: "u32 \<Rightarrow> u8 \<Rightarrow> u8" where
  "GDT_FLAGS_LIMIT_HI limit flags = ucast (drop_bit 16 limit AND 0xF) OR (flags AND 0xF0)"

definition GDT_BASE_HIGH :: "u32 \<Rightarrow> u8" where
  "GDT_BASE_HIGH base = ucast (drop_bit 24 base AND 0xFF)"

definition GDT_ENTRY :: "u32 \<Rightarrow> u32 \<Rightarrow> u8 \<Rightarrow> u8 \<Rightarrow> GDTEntry_t" where
  "GDT_ENTRY base limit access flags =
     \<lparr>LimitLow = GDT_LIMIT_LOW limit, BaseLow = GDT_BASE_LOW base, BaseMiddle = GDT_BASE_MIDDLE base,
      Access = access, FlagsLimitHi = GDT_FLAGS_LIMIT_HI limit flags, BaseHigh = GDT_BASE_HIGH base\<rparr>"

text \<open>\<^verbatim>\<open>sizeof(tss)\<close>\<close>

definition sizeof_tss :: u32 where
  "sizeof_tss = 104"

definition initial_GDT :: "GDTEntry_t list" where
  "initial_GDT =
     [GDT_ENTRY 0 0 0 0,
      GDT_ENTRY 0 0xFFFFF
        (GDT_ACCESS_PRESENT OR GDT_ACCESS_RING0 OR GDT_ACCESS_CODE_SEGMENT OR GDT_ACCESS_CODE_READABLE)
        (GDT_FLAG_64BIT OR GDT_FLAG_GRANULARITY_4K),
      GDT_ENTRY 0 0xFFFFF
        (GDT_ACCESS_PRESENT OR GDT_ACCESS_RING0 OR GDT_ACCESS_DATA_SEGMENT OR GDT_ACCESS_DATA_WRITEABLE)
        GDT_FLAG_GRANULARITY_4K,
      GDT_ENTRY 0 0xFFFFF
        (GDT_ACCESS_PRESENT OR GDT_ACCESS_RING3 OR GDT_ACCESS_CODE_SEGMENT OR GDT_ACCESS_CODE_READABLE)
        (GDT_FLAG_64BIT OR GDT_FLAG_GRANULARITY_4K),
      GDT_ENTRY 0 0xFFFFF
        (GDT_ACCESS_PRESENT OR GDT_ACCESS_RING3 OR GDT_ACCESS_DATA_SEGMENT OR GDT_ACCESS_DATA_WRITEABLE)
        GDT_FLAG_GRANULARITY_4K,
      GDT_ENTRY 0 (sizeof_tss - 1) 0x89 0x00,
      GDT_ENTRY 0 0 0 0]"

definition zero_tss :: tss_entry where
  "zero_tss =
     \<lparr>reserved0 = 0, rsp0 = 0, rsp1 = 0, rsp2 = 0, reserved1 = 0, ist1 = 0, ist2 = 0, ist3 = 0, ist4 = 0,
      ist5 = 0, ist6 = 0, ist7 = 0, reserved2 = 0, reserved3 = 0, iopb_offset = 0\<rparr>"

text \<open>The 32-bit store to \<^verbatim>\<open>g_GDT[6]\<close> covers its first two fields, the low half first.\<close>

definition TSS_Initialize :: "u64 \<Rightarrow> u64 \<Rightarrow> gdt_state \<Rightarrow> gdt_state" where
  "TSS_Initialize tss_base kernel_stack s =
     (let upper = ucast (drop_bit 32 tss_base AND 0xFFFFFFFF) :: u32
      in s\<lparr>tss := zero_tss\<lparr>rsp0 := kernel_stack + 16384, iopb_offset := ucast sizeof_tss\<rparr>,
           g_GDT := (g_GDT s)
             [5 := (g_GDT s ! 5)\<lparr>BaseLow := ucast (tss_base AND 0xFFFF),
                BaseMiddle := ucast (drop_bit 16 tss_base AND 0xFF),
                BaseHigh := ucast (drop_bit 24 tss_base AND 0xFF)\<rparr>,
              6 := (g_GDT s ! 6)\<lparr>LimitLow := ucast upper, BaseLow := ucast (drop_bit 16 upper)\<rparr>]\<rparr>)"

definition GDT_Load :: "u64 \<Rightarrow> u16 \<Rightarrow> u16 \<Rightarrow> gdt_state \<Rightarrow> gdt_state" where
  "GDT_Load gdt_addr cs ds s =
     s\<lparr>gdtr_limit := of_nat (8 * length (g_GDT s) - 1), gdtr_base := gdt_addr, seg_cs := cs, seg_data := ds\<rparr>"

definition GDT_Initialize :: "u64 \<Rightarrow> u64 \<Rightarrow> u64 \<Rightarrow> gdt_state \<Rightarrow> gdt_state" where
  "GDT_Initialize gdt_addr tss_addr kernel_stack s =
     (let s = TSS_Initialize tss_addr kernel_stack s;
          s = GDT_Load gdt_addr GDT_CODE_SEGMENT GDT_DATA_SEGMENT s
      in s\<lparr>task_register := 0x28\<rparr>)"

section \<open>Descriptors as the processor reads them\<close>

definition seg_limit :: "GDTEntry_t \<Rightarrow> nat" where
  "seg_limit e = unat (LimitLow e) + 2 ^ 16 * unat (FlagsLimitHi e AND 0xF)"

definition seg_dpl :: "GDTEntry_t \<Rightarrow> u8" where
  "seg_dpl e = drop_bit 5 (Access e) AND 3"

definition seg_present :: "GDTEntry_t \<Rightarrow> bool" where
  "seg_present e \<longleftrightarrow> bit (Access e) 7"

definition seg_code :: "GDTEntry_t \<Rightarrow> bool" where
  "seg_code e \<longleftrightarrow> bit (Access e) 4 \<and> bit (Access e) 3"

definition seg_long :: "GDTEntry_t \<Rightarrow> bool" where
  "seg_long e \<longleftrightarrow> bit (FlagsLimitHi e) 5"

text \<open>The base of a system descriptor of 16 bytes.\<close>

definition system_base :: "GDTEntry_t \<Rightarrow> GDTEntry_t \<Rightarrow> u64" where
  "system_base lo hi =
     ucast (BaseLow lo) OR push_bit 16 (ucast (BaseMiddle lo)) OR push_bit 24 (ucast (BaseHigh lo))
     OR push_bit 32 (ucast (LimitLow hi)) OR push_bit 48 (ucast (BaseLow hi))"

lemma system_base_parts:
  fixes a :: u64
  shows "(ucast (ucast (a AND 0xFFFF) :: u16) OR push_bit 16 (ucast (ucast (drop_bit 16 a AND 0xFF) :: u8))
    OR push_bit 24 (ucast (ucast (drop_bit 24 a AND 0xFF) :: u8))
    OR push_bit 32 (ucast (ucast (ucast (drop_bit 32 a AND 0xFFFFFFFF) :: u32) :: u16))
    OR push_bit 48 (ucast (ucast (drop_bit 16 (ucast (drop_bit 32 a AND 0xFFFFFFFF) :: u32)) :: u16))) = a"
    (is "?l = a")
proof (rule bit_eqI)
  fix n assume "possible_bit TYPE(u64) n"
  then have "n < 64" by (simp add: possible_bit_word)
  then consider "n < 16" | "16 \<le> n" "n < 24" | "24 \<le> n" "n < 32" | "32 \<le> n" "n < 48" | "48 \<le> n" "n < 64"
    by linarith
  then show "bit ?l n = bit a n"
    by cases (auto simp: word_field_bits simp del: bit_numeral_word_iff)
qed



end
