(* ===== verification/Interrupts.thy ===== *)
theory Interrupts
  imports Gdt
begin

text \<open>
  Interrupt handling: the descriptor table of \<^verbatim>\<open>kernel/main/cpu/idt.c\<close>, the gates of \<^verbatim>\<open>isrs_gen.c\<close>,
  the entry stubs of \<^verbatim>\<open>isr_stubs.S\<close> and the dispatcher of \<^verbatim>\<open>kernel/main/cpu/isr.c\<close>. Memory is read
  and written in 8-byte words here, since the stubs only push and pop registers. Handlers are
  addresses, 0 being NULL. The addresses of the stubs and of \<^verbatim>\<open>g_IDT\<close> are set by the linker and are
  arguments.
\<close>

type_synonym words = "u64 \<Rightarrow> u64"

section \<open>Interrupt descriptor table\<close>

definition IDT_FLAG_GATE_32BIT_INT :: u8 where
  "IDT_FLAG_GATE_32BIT_INT = 0xE"

definition IDT_FLAG_RING0 :: u8 where
  "IDT_FLAG_RING0 = 0"

definition IDT_FLAG_PRESENT :: u8 where
  "IDT_FLAG_PRESENT = 0x80"

record IDTEntry_t =
  BaseLow :: u16
  SegmentSelector :: u16
  IST :: u8
  Flags :: u8
  BaseMiddle :: u16
  BaseHigh :: u32
  Reserved :: u32

record IDTDescriptor_t =
  Limit :: u16
  Ptr :: u64

text \<open>The static tables, and the descriptor-table register of the processor.\<close>

record interrupts =
  g_IDT :: "nat \<Rightarrow> IDTEntry_t"
  idtr :: IDTDescriptor_t
  g_ISRHandlers :: "nat \<Rightarrow> u64"

text \<open>The tables are zero when the kernel starts.\<close>

definition interrupts_bss :: interrupts where
  "interrupts_bss =
     \<lparr>g_IDT = (\<lambda>_. \<lparr>BaseLow = 0, SegmentSelector = 0, IST = 0, Flags = 0, BaseMiddle = 0, BaseHigh = 0, Reserved = 0\<rparr>),
      idtr = \<lparr>Limit = 0, Ptr = 0\<rparr>, g_ISRHandlers = (\<lambda>_. 0)\<rparr>"

definition g_IDTDescriptor :: "u64 \<Rightarrow> IDTDescriptor_t" where
  "g_IDTDescriptor idt_addr = \<lparr>Limit = 256 * 16 - 1, Ptr = idt_addr\<rparr>"

definition IDT_SetGate :: "interrupts \<Rightarrow> nat \<Rightarrow> u64 \<Rightarrow> u16 \<Rightarrow> u8 \<Rightarrow> interrupts" where
  "IDT_SetGate s interrupt base segmentDescriptor flags =
     s\<lparr>g_IDT := (g_IDT s)(interrupt :=
       \<lparr>BaseLow = ucast (base AND 0xFFFF), SegmentSelector = segmentDescriptor, IST = 0,
        Flags = flags, BaseMiddle = ucast (drop_bit 16 base AND 0xFFFF),
        BaseHigh = ucast (drop_bit 32 base AND 0xFFFFFFFF), Reserved = 0\<rparr>)\<rparr>"

definition IDT_EnableGate :: "interrupts \<Rightarrow> nat \<Rightarrow> interrupts" where
  "IDT_EnableGate s interrupt =
     s\<lparr>g_IDT := (g_IDT s)(interrupt :=
       (g_IDT s interrupt)\<lparr>Flags := Flags (g_IDT s interrupt) OR IDT_FLAG_PRESENT\<rparr>)\<rparr>"

definition IDT_DisableGate :: "interrupts \<Rightarrow> nat \<Rightarrow> interrupts" where
  "IDT_DisableGate s interrupt =
     s\<lparr>g_IDT := (g_IDT s)(interrupt :=
       (g_IDT s interrupt)\<lparr>Flags := Flags (g_IDT s interrupt) AND NOT IDT_FLAG_PRESENT\<rparr>)\<rparr>"

text \<open>\<^verbatim>\<open>lidt\<close>; the check by \<^verbatim>\<open>sidt\<close> only decides what is logged.\<close>

definition IDT_Initialize :: "u64 \<Rightarrow> interrupts \<Rightarrow> interrupts" where
  "IDT_Initialize idt_addr s = s\<lparr>idtr := g_IDTDescriptor idt_addr\<rparr>"

definition ISR_InitializeGates :: "(nat \<Rightarrow> u64) \<Rightarrow> interrupts \<Rightarrow> interrupts" where
  "ISR_InitializeGates ISR s =
     fold (\<lambda>i s. IDT_SetGate s i (ISR i) GDT_CODE_SEGMENT (IDT_FLAG_RING0 OR IDT_FLAG_GATE_32BIT_INT))
       [0..<256] s"

definition ISR_RegisterHandler :: "interrupts \<Rightarrow> nat \<Rightarrow> u64 \<Rightarrow> interrupts" where
  "ISR_RegisterHandler s interrupt handler =
     IDT_EnableGate (s\<lparr>g_ISRHandlers := (g_ISRHandlers s)(interrupt := handler)\<rparr>) interrupt"

definition ISR_Initialize :: "(nat \<Rightarrow> u64) \<Rightarrow> u64 \<Rightarrow> interrupts \<Rightarrow> interrupts" where
  "ISR_Initialize ISR page_fault_handler s =
     (let s = ISR_InitializeGates ISR s;
          s = ISR_RegisterHandler s 14 page_fault_handler
      in fold (\<lambda>i s. if i \<noteq> 14 then IDT_EnableGate s i else s) [0..<256] s)"

section \<open>Entry stubs\<close>

text \<open>
  The registers of the interrupted program, and the structure \<^verbatim>\<open>Registers_t\<close> that the stubs build on
  the stack, which adds the vector and the error code.
\<close>

record cpu_context =
  r_r15 :: u64
  r_r14 :: u64
  r_r13 :: u64
  r_r12 :: u64
  r_r11 :: u64
  r_r10 :: u64
  r_r9 :: u64
  r_r8 :: u64
  r_rbp :: u64
  r_rdi :: u64
  r_rsi :: u64
  r_rdx :: u64
  r_rcx :: u64
  r_rbx :: u64
  r_rax :: u64
  r_rip :: u64
  r_cs :: u64
  r_rflags :: u64
  r_rsp :: u64
  r_ss :: u64

record Registers_t = cpu_context +
  r_interrupt :: u64
  r_error :: u64

text \<open>The fields of the packed structure at an address, in the order of the declaration.\<close>

definition read_regs :: "words \<Rightarrow> u64 \<Rightarrow> Registers_t" where
  "read_regs m a =
     \<lparr>r_r15 = m a, r_r14 = m (a + 8), r_r13 = m (a + 16), r_r12 = m (a + 24), r_r11 = m (a + 32),
      r_r10 = m (a + 40), r_r9 = m (a + 48), r_r8 = m (a + 56), r_rbp = m (a + 64),
      r_rdi = m (a + 72), r_rsi = m (a + 80), r_rdx = m (a + 88), r_rcx = m (a + 96),
      r_rbx = m (a + 104), r_rax = m (a + 112),
      r_rip = m (a + 136), r_cs = m (a + 144), r_rflags = m (a + 152), r_rsp = m (a + 160),
      r_ss = m (a + 168), r_interrupt = m (a + 120), r_error = m (a + 128)\<rparr>"

fun pushes :: "words \<Rightarrow> u64 \<Rightarrow> u64 list \<Rightarrow> words \<times> u64" where
  "pushes m sp [] = (m, sp)"
| "pushes m sp (x # xs) = pushes (m(sp - 8 := x)) (sp - 8) xs"

text \<open>
  What the processor pushes when it delivers vector \<open>n\<close> in 64-bit mode, from the architecture: the
  return frame and, for the vectors that have one, the error code.
\<close>

definition has_error_code :: "nat \<Rightarrow> bool" where
  "has_error_code n \<longleftrightarrow> n \<in> {8, 10, 11, 12, 13, 14, 17, 21, 29, 30}"

definition cpu_pushes :: "cpu_context \<Rightarrow> nat \<Rightarrow> u64 \<Rightarrow> u64 list" where
  "cpu_pushes c n err =
     [r_ss c, r_rsp c, r_rflags c, r_cs c, r_rip c] @ (if has_error_code n then [err] else [])"

text \<open>The stubs that are instances of \<^verbatim>\<open>ISR_ERRORCODE\<close>, and what the two macros push.\<close>

definition isr_errorcode :: "nat \<Rightarrow> bool" where
  "isr_errorcode n \<longleftrightarrow> n \<in> {8, 10, 11, 12, 13, 14, 17, 21}"

definition isr_stub :: "nat \<Rightarrow> u64 list" where
  "isr_stub n = (if isr_errorcode n then [of_nat n] else [0, of_nat n])"

definition isr_common_pushes :: "cpu_context \<Rightarrow> u64 list" where
  "isr_common_pushes c =
     [r_rax c, r_rbx c, r_rcx c, r_rdx c, r_rsi c, r_rdi c, r_rbp c, r_r8 c, r_r9 c, r_r10 c,
      r_r11 c, r_r12 c, r_r13 c, r_r14 c, r_r15 c]"

text \<open>From the interrupt to \<^verbatim>\<open>call ISR_Handler\<close>: the new memory and the stack pointer, passed in
  \<^verbatim>\<open>rdi\<close>. The processor starts on the stack pointer \<open>sp\<close>.\<close>

definition isr_entry :: "words \<Rightarrow> u64 \<Rightarrow> cpu_context \<Rightarrow> nat \<Rightarrow> u64 \<Rightarrow> words \<times> u64" where
  "isr_entry m sp c n err = pushes m sp (cpu_pushes c n err @ isr_stub n @ isr_common_pushes c)"

text \<open>The pops after the call, \<^verbatim>\<open>add $16, %rsp\<close>, and \<^verbatim>\<open>iretq\<close>, which pops five words.\<close>

definition isr_exit :: "words \<Rightarrow> u64 \<Rightarrow> cpu_context" where
  "isr_exit m sp =
     (let iret = sp + 15 * 8 + 16
      in \<lparr>r_r15 = m sp, r_r14 = m (sp + 8), r_r13 = m (sp + 16), r_r12 = m (sp + 24),
          r_r11 = m (sp + 32), r_r10 = m (sp + 40), r_r9 = m (sp + 48), r_r8 = m (sp + 56),
          r_rbp = m (sp + 64), r_rdi = m (sp + 72), r_rsi = m (sp + 80), r_rdx = m (sp + 88),
          r_rcx = m (sp + 96), r_rbx = m (sp + 104), r_rax = m (sp + 112),
          r_rip = m iret, r_cs = m (iret + 8), r_rflags = m (iret + 16), r_rsp = m (iret + 24),
          r_ss = m (iret + 32)\<rparr>)"

section \<open>Dispatch\<close>

text \<open>The lines of the report; the return addresses of the stack trace are numbered.\<close>

datatype report =
  Line string
| Value string u64
| Mode string
| Return_Address nat u64

text \<open>\<^verbatim>\<open>while (frame && depth < 15)\<close>: \<open>k\<close> is \<open>15 - depth\<close>.\<close>

fun backtrace :: "words \<Rightarrow> u64 \<Rightarrow> nat \<Rightarrow> report list" where
  "backtrace m frame 0 = []"
| "backtrace m frame (Suc k) =
     (if frame = 0 then []
      else Return_Address (14 - k) (m (frame + 8)) #
        (if m frame = 0 \<or> m frame \<le> frame then [] else backtrace m (m frame) k))"

definition print_verbose_isr_info :: "words \<Rightarrow> u64 \<Rightarrow> Registers_t \<Rightarrow> report list" where
  "print_verbose_isr_info m cr2 regs =
     (let mode = (if r_cs regs AND 3 = 3 then ''User Mode (Ring 3)'' else ''Kernel Mode (Ring 0)'')
      in (if r_interrupt regs = 14 then
            [Line ''--- EXCEPTION REPORT ---'', Line ''[Context]'', Value ''Interrupt'' (r_interrupt regs),
             Line ''[Execution]'', Value ''RIP'' (r_rip regs), Mode mode, Value ''CS'' (r_cs regs),
             Line ''[Memory Fault]'', Value ''CR2'' cr2, Value ''Error'' (r_error regs)]
          else if r_interrupt regs = 13 then
            [Line ''[GP Fault]'', Value ''Error'' (r_error regs)]
          else []) @
         [Line ''[Stack]''] @ backtrace m (r_rbp regs) 15)"

text \<open>
  What \<^verbatim>\<open>ISR_Handler\<close> does: it calls a handler or reports and halts. \<open>Out_Of_Table\<close> is the read
  beyond the 256 handlers.
\<close>

datatype isr_result = Call u64 | Halt "report list" | Out_Of_Table

definition ISR_Handler :: "interrupts \<Rightarrow> words \<Rightarrow> u64 \<Rightarrow> Registers_t \<Rightarrow> isr_result" where
  "ISR_Handler s m cr2 regs =
     (let i = unat (r_interrupt regs)
      in if i \<ge> 256 then Out_Of_Table
         else if g_ISRHandlers s i \<noteq> 0 then Call (g_ISRHandlers s i)
         else Halt ([Line ''KERNEL PANIC!'', Value ''Unhandled interrupt'' (r_interrupt regs)] @
                    print_verbose_isr_info m cr2 regs))"

definition page_fault_handler :: "words \<Rightarrow> u64 \<Rightarrow> Registers_t \<Rightarrow> isr_result" where
  "page_fault_handler m cr2 regs =
     Halt ([Line ''KERNEL PANIC!'', Line ''PAGE FAULT!''] @ print_verbose_isr_info m cr2 regs)"

section \<open>Lemmas\<close>

declare bit_numeral_word_iff [simp del] bit_neg_numeral_word_iff [simp del]

text \<open>The address that the processor reads from a gate.\<close>

definition gate_target :: "IDTEntry_t \<Rightarrow> u64" where
  "gate_target e = ucast (BaseLow e) OR push_bit 16 (ucast (BaseMiddle e)) OR push_bit 32 (ucast (BaseHigh e))"

lemma gate_target_parts:
  "(ucast (ucast (a AND 0xFFFF) :: u16) OR push_bit 16 (ucast (ucast (drop_bit 16 a AND 0xFFFF) :: u16))
    OR push_bit 32 (ucast (ucast (drop_bit 32 a AND 0xFFFFFFFF) :: u32)) :: u64) = a" for a :: u64
proof (rule bit_eqI)
  fix n
  show "bit (ucast (ucast (a AND 0xFFFF) :: u16) OR push_bit 16 (ucast (ucast (drop_bit 16 a AND 0xFFFF) :: u16))
    OR push_bit 32 (ucast (ucast (drop_bit 32 a AND 0xFFFFFFFF) :: u32)) :: u64) n \<longleftrightarrow> bit a n" if "possible_bit TYPE(u64) n"
    using that by (cases "n < 32") (auto simp: word_field_bits)
qed

lemma gates_other: "n \<notin> set xs \<Longrightarrow> g_IDT (fold (\<lambda>i s. IDT_SetGate s i (f i) g fl) xs s) n = g_IDT s n"
  by (induction xs arbitrary: s) (auto simp: IDT_SetGate_def)

lemma gates_set:
  "n \<in> set xs \<Longrightarrow> distinct xs \<Longrightarrow>
   g_IDT (fold (\<lambda>i s. IDT_SetGate s i (f i) g fl) xs s) n = g_IDT (IDT_SetGate s n (f n) g fl) n"
proof (induction xs arbitrary: s)
  case (Cons x xs)
  have "g_IDT (IDT_SetGate (IDT_SetGate s x (f x) g fl) n (f n) g fl) n = g_IDT (IDT_SetGate s n (f n) g fl) n"
    by (simp add: IDT_SetGate_def)
  then show ?case using Cons by (cases "n = x") (auto simp: gates_other)
qed simp

lemma gates_frame:
  "g_ISRHandlers (fold (\<lambda>i s. IDT_SetGate s i (f i) g fl) xs s) = g_ISRHandlers s"
  "idtr (fold (\<lambda>i s. IDT_SetGate s i (f i) g fl) xs s) = idtr s"
  by (induction xs arbitrary: s) (auto simp: IDT_SetGate_def)

lemma enable_frame:
  "g_ISRHandlers (fold (\<lambda>i s. if i \<noteq> k then IDT_EnableGate s i else s) xs s) = g_ISRHandlers s"
  by (induction xs arbitrary: s) (auto simp: IDT_EnableGate_def)

lemma enable_gates:
  "distinct xs \<Longrightarrow>
   g_IDT (fold (\<lambda>i s. if i \<noteq> k then IDT_EnableGate s i else s) xs s) n =
   (if n \<in> set xs \<and> n \<noteq> k then g_IDT (IDT_EnableGate s n) n else g_IDT s n)"
  by (induction xs arbitrary: s) (auto simp: IDT_EnableGate_def)

end
