(* ===== verification/Interrupts_Correct.thy ===== *)
theory Interrupts_Correct
  imports Interrupts
begin

text \<open>Correctness of the interrupt tables and of the entry stubs.\<close>

lemma isr_frame:
  assumes "n < 256" "n \<notin> {29, 30}" "isr_entry m sp c n err = (m', sp')"
  shows "read_regs m' sp' = cpu_context.extend c \<lparr>r_interrupt = of_nat n, r_error = (if has_error_code n then err else 0)\<rparr>
         \<and> isr_exit m' sp' = c"
proof -
  have h: "has_error_code n \<longleftrightarrow> isr_errorcode n" using assms(2) by (auto simp: has_error_code_def isr_errorcode_def)
  have e: "(m', sp') = pushes m sp ([r_ss c, r_rsp c, r_rflags c, r_cs c, r_rip c, if has_error_code n then err else 0, of_nat n] @
      isr_common_pushes c)"
    using assms(3) h by (simp add: isr_entry_def cpu_pushes_def isr_stub_def split: if_splits)
  show ?thesis
    using e by (simp add: isr_common_pushes_def read_regs_def isr_exit_def cpu_context.defs Registers_t.defs)
qed

text \<open>C16: after \<^verbatim>\<open>ISR_Initialize\<close> every one of the 256 gates is present, is a ring-0 interrupt gate of
  the kernel code segment and leads to the stub of its own vector, and the page-fault handler is the
  only handler that was added.\<close>

theorem ISR_Initialize_correct:
  assumes "n < 256"
  shows "let t = ISR_Initialize ISR pf s; e = g_IDT t n
         in gate_target e = ISR n \<and> SegmentSelector e = 0x08 \<and> Flags e = 0x8E \<and> IST e = 0 \<and>
            g_ISRHandlers t n = (if n = 14 then pf else g_ISRHandlers s n)"
proof -
  let ?g = "ISR_InitializeGates ISR s"
  have g: "g_IDT ?g n = g_IDT (IDT_SetGate s n (ISR n) GDT_CODE_SEGMENT (IDT_FLAG_RING0 OR IDT_FLAG_GATE_32BIT_INT)) n"
    using assms by (simp add: ISR_InitializeGates_def gates_set)
  have h: "g_ISRHandlers ?g = g_ISRHandlers s" by (simp add: ISR_InitializeGates_def gates_frame)
  have "g_IDT (ISR_Initialize ISR pf s) n = (g_IDT ?g n)\<lparr>Flags := Flags (g_IDT ?g n) OR IDT_FLAG_PRESENT\<rparr>"
    using assms by (auto simp: ISR_Initialize_def Let_def enable_gates ISR_RegisterHandler_def IDT_EnableGate_def)
  moreover have "g_ISRHandlers (ISR_Initialize ISR pf s) = (g_ISRHandlers s)(14 := pf)"
    by (simp add: ISR_Initialize_def Let_def enable_frame ISR_RegisterHandler_def IDT_EnableGate_def h)
  ultimately show ?thesis
    by (auto simp: g IDT_SetGate_def gate_target_def gate_target_parts GDT_CODE_SEGMENT_def
        IDT_FLAG_RING0_def IDT_FLAG_GATE_32BIT_INT_def IDT_FLAG_PRESENT_def Let_def)
qed

theorem ISR_Initialize_correct_witness:
  "(33 :: nat) < 256 \<and>
   gate_target (g_IDT (ISR_Initialize (\<lambda>i. 0xFFFFFFFF80100000 + of_nat (16 * i)) 0xFFFFFFFF80200000 interrupts_bss) 33)
     = 0xFFFFFFFF80100210"
  using ISR_Initialize_correct [where n = 33 and ISR = "\<lambda>i. 0xFFFFFFFF80100000 + of_nat (16 * i)" and pf = "0xFFFFFFFF80200000" and s = interrupts_bss]
  by (simp add: Let_def)

text \<open>C17: for every vector but 29 and 30, the structure that \<^verbatim>\<open>ISR_Handler\<close> receives holds the registers
  of the interrupted program, the vector and its error code (0 where there is none), and the way
  back from the stub restores all registers of the interrupted program.\<close>

theorem isr_roundtrip:
  assumes "n < 256" "n \<notin> {29, 30}" "isr_entry m sp c n err = (m', sp')"
  shows "read_regs m' sp' = cpu_context.extend c \<lparr>r_interrupt = of_nat n, r_error = (if has_error_code n then err else 0)\<rparr>
         \<and> isr_exit m' sp' = c"
  using isr_frame [OF assms] .

theorem isr_roundtrip_witness:
  "(14 :: nat) < 256 \<and> (14 :: nat) \<notin> {29, 30} \<and>
   (case isr_entry (\<lambda>_. 0) 0x9000 (isr_exit (\<lambda>a. a) 0x100) 14 2 of
      (m, sp) \<Rightarrow> r_error (read_regs m sp) = 2 \<and> r_rip (isr_exit m sp) = 0x188)"
proof -
  obtain m sp where e: "isr_entry (\<lambda>_. 0) 0x9000 (isr_exit (\<lambda>a. a) 0x100) 14 2 = (m, sp)" by (metis surj_pair)
  show ?thesis using isr_roundtrip [of 14, OF _ _ e] e by (simp add: has_error_code_def cpu_context.defs isr_exit_def)
qed

end
