(* ===== verification/Sched.thy ===== *)
theory Sched
  imports Interrupts_Correct
begin

text \<open>
  The round-robin scheduler, \<^verbatim>\<open>kernel/main/cpu/sched.c\<close>. A pointer to a task is its index in \<^verbatim>\<open>tasks\<close>,
  \<open>None\<close> being NULL. The heap is a state of its own with the function \<^verbatim>\<open>tlsf_malloc\<close> as an argument;
  the stacks are words of memory. The writes to the local APIC are recorded in order.
\<close>

section \<open>Model\<close>

definition MAX_TASKS :: nat where
  "MAX_TASKS = 16"

definition STACK_SIZE :: u64 where
  "STACK_SIZE = 8192"

abbreviation (input) APIC_EOI :: u32 where "APIC_EOI \<equiv> 0x0B0"

abbreviation (input) APIC_LVT_TIMER :: u32 where "APIC_LVT_TIMER \<equiv> 0x320"

abbreviation (input) APIC_TIMER_INIT :: u32 where "APIC_TIMER_INIT \<equiv> 0x380"

abbreviation (input) APIC_TIMER_DIV :: u32 where "APIC_TIMER_DIV \<equiv> 0x3E0"

record task_t =
  t_rsp :: u64
  stack_base :: u64
  t_id :: u32
  t_next :: "nat option"

record 'h sched =
  tasks :: "nat \<Rightarrow> task_t"
  cur_task :: "nat option"
  task_count :: nat
  stacks :: words
  heap :: 'h
  vectors :: interrupts
  lapic :: "(u32 \<times> u32) list"

definition lapic_write :: "'h sched \<Rightarrow> u32 \<Rightarrow> u32 \<Rightarrow> 'h sched" where
  "lapic_write s reg val = s\<lparr>lapic := lapic s @ [(reg, val)]\<rparr>"

definition lapic_eoi :: "'h sched \<Rightarrow> 'h sched" where
  "lapic_eoi s = lapic_write s APIC_EOI 0"

definition set_task :: "'h sched \<Rightarrow> nat \<Rightarrow> (task_t \<Rightarrow> task_t) \<Rightarrow> 'h sched" where
  "set_task s i f = s\<lparr>tasks := (tasks s)(i := f (tasks s i))\<rparr>"

text \<open>\<^verbatim>\<open>memset(frame, 0, sizeof(Registers_t))\<close>: 22 words.\<close>

primrec zero_words :: "words \<Rightarrow> u64 \<Rightarrow> nat \<Rightarrow> words" where
  "zero_words m a 0 = m"
| "zero_words m a (Suc n) = (zero_words m a n)(a + of_nat (8 * n) := 0)"

definition setup_frame :: "'h sched \<Rightarrow> u64 \<Rightarrow> u64 \<Rightarrow> nat \<Rightarrow> 'h sched" where
  "setup_frame s base entry t =
     (let frame_addr = base + STACK_SIZE - 176 - 8;
          m = zero_words (stacks s) frame_addr 22;
          m = m(frame_addr + 136 := entry, frame_addr + 144 := 0x08, frame_addr + 152 := 0x202)
      in set_task (s\<lparr>stacks := m\<rparr>) t (\<lambda>x. x\<lparr>t_rsp := frame_addr\<rparr>))"

text \<open>The result is the value returned: the number of the task or -1.\<close>

definition sched_spawn :: "('h \<Rightarrow> u64 \<Rightarrow> u64 \<times> 'h) \<Rightarrow> 'h sched \<Rightarrow> u64 \<Rightarrow> int \<times> 'h sched" where
  "sched_spawn tlsf_malloc s entry =
     (if task_count s \<ge> MAX_TASKS then (-1, s)
      else (case cur_task s of
        None \<Rightarrow> (-1, s)
      | Some c \<Rightarrow>
          (let id = task_count s;
               (p, h) = tlsf_malloc (heap s) STACK_SIZE;
               s = set_task (s\<lparr>heap := h\<rparr>) id (\<lambda>t. t\<lparr>stack_base := p\<rparr>)
           in if p = 0 then (-1, s)
              else
                (let s = set_task s id (\<lambda>t. t\<lparr>t_id := of_nat id\<rparr>);
                     s = setup_frame s p entry id;
                     s = set_task s id (\<lambda>t. t\<lparr>t_next := t_next (tasks s c)\<rparr>);
                     s = set_task s c (\<lambda>t. t\<lparr>t_next := Some id\<rparr>)
                 in (int id, s\<lparr>task_count := task_count s + 1\<rparr>)))))"

text \<open>
  The end of \<^verbatim>\<open>sched_tick\<close> pops the registers in the order of the interrupt stub and returns from the
  interrupt, so the tick does not return to its caller: its result is the context that the processor
  resumes. \<open>None\<close> is the use of a NULL pointer.
\<close>

definition sched_tick :: "'h sched \<Rightarrow> u64 \<Rightarrow> ('h sched \<times> cpu_context) option" where
  "sched_tick s regs =
     (case cur_task s of
        None \<Rightarrow> None
      | Some old \<Rightarrow>
          (case t_next (tasks s old) of
             None \<Rightarrow> None
           | Some new \<Rightarrow>
               (let s = s\<lparr>cur_task := Some new\<rparr>;
                    s = set_task s old (\<lambda>t. t\<lparr>t_rsp := regs\<rparr>)
                in Some (s, isr_exit (stacks s) (t_rsp (tasks s new))))))"

definition timer_handler :: "'h sched \<Rightarrow> u64 \<Rightarrow> ('h sched \<times> cpu_context) option" where
  "timer_handler s regs = sched_tick (lapic_eoi s) regs"

definition apic_timer_init :: "'h sched \<Rightarrow> 'h sched" where
  "apic_timer_init s =
     (let lvt = 0x20 OR push_bit 17 1;
          s = lapic_write s APIC_LVT_TIMER lvt;
          s = lapic_write s APIC_TIMER_DIV 3
      in lapic_write s APIC_TIMER_INIT 0x100000)"

text \<open>The addresses of \<^verbatim>\<open>idle_task\<close> and \<^verbatim>\<open>timer_handler\<close> are arguments.\<close>

definition sched_init ::
  "('h \<Rightarrow> u64 \<Rightarrow> u64 \<times> 'h) \<Rightarrow> u64 \<Rightarrow> u64 \<Rightarrow> 'h sched \<Rightarrow> 'h sched" where
  "sched_init tlsf_malloc idle_task timer s =
     (let s = s\<lparr>tasks := \<lambda>_. \<lparr>t_rsp = 0, stack_base = 0, t_id = 0, t_next = None\<rparr>, task_count := 0\<rparr>;
          (p, h) = tlsf_malloc (heap s) STACK_SIZE;
          s = set_task (s\<lparr>heap := h\<rparr>) 0 (\<lambda>t. t\<lparr>stack_base := p, t_id := 0\<rparr>);
          s = setup_frame s p idle_task 0;
          s = set_task s 1 (\<lambda>t. t\<lparr>t_id := 1, stack_base := 0, t_rsp := 0\<rparr>);
          s = set_task s 0 (\<lambda>t. t\<lparr>t_next := Some 1\<rparr>);
          s = set_task s 1 (\<lambda>t. t\<lparr>t_next := Some 0\<rparr>);
          s = s\<lparr>cur_task := Some 1, task_count := 2\<rparr>
      in s\<lparr>vectors := ISR_RegisterHandler (vectors s) 0x20 timer\<rparr>)"

definition sched_start :: "'h sched \<Rightarrow> 'h sched" where
  "sched_start s = apic_timer_init s"

definition test_tasks_init ::
  "('h \<Rightarrow> u64 \<Rightarrow> u64 \<times> 'h) \<Rightarrow> u64 \<Rightarrow> u64 \<Rightarrow> u64 \<Rightarrow> 'h sched \<Rightarrow> 'h sched" where
  "test_tasks_init tlsf_malloc task_a task_b task_c s =
     (let s = snd (sched_spawn tlsf_malloc s task_a);
          s = snd (sched_spawn tlsf_malloc s task_b)
      in snd (sched_spawn tlsf_malloc s task_c))"

text \<open>
  A timer interrupt: the stub of vector 0x20 stores the context \<open>c\<close> of the running task below \<open>sp\<close>
  and the dispatcher calls the registered handler, which has the address \<open>timer\<close>.
\<close>

definition timer_irq :: "u64 \<Rightarrow> 'h sched \<Rightarrow> u64 \<Rightarrow> cpu_context \<Rightarrow> ('h sched \<times> cpu_context) option" where
  "timer_irq timer s sp c =
     (let (m, regs) = isr_entry (stacks s) sp c 0x20 0;
          s = s\<lparr>stacks := m\<rparr>
      in (case ISR_Handler (vectors s) m 0 (read_regs m regs) of
            Call handler \<Rightarrow> if handler = timer then timer_handler s regs else None
          | _ \<Rightarrow> None))"

section \<open>The ring of tasks\<close>

text \<open>The tasks in the order in which they get the processor, the running task first.\<close>

definition ring :: "'h sched \<Rightarrow> nat list \<Rightarrow> bool" where
  "ring s xs \<longleftrightarrow>
     distinct xs \<and> set xs = {..<task_count s} \<and> 2 \<le> task_count s \<and> task_count s \<le> MAX_TASKS \<and>
     cur_task s = Some (hd xs) \<and>
     (\<forall>i<length xs. t_next (tasks s (xs ! i)) = Some (xs ! ((i + 1) mod length xs)))"

text \<open>The context with which a suspended task resumes, and the words that hold it.\<close>

definition saved :: "'h sched \<Rightarrow> nat \<Rightarrow> cpu_context" where
  "saved s i = isr_exit (stacks s) (t_rsp (tasks s i))"

definition frame_addrs :: "u64 \<Rightarrow> u64 set" where
  "frame_addrs a = (\<lambda>k. a + of_nat (8 * k)) ` {..<22}"

lemma ring_length: "ring s xs \<Longrightarrow> length xs = task_count s"
  using distinct_card [of xs] by (simp add: ring_def)

lemma pushes_other: "(\<forall>k<length xs. a \<noteq> sp - of_nat (8 * (k + 1))) \<Longrightarrow> fst (pushes m sp xs) a = m a"
proof (induction xs arbitrary: m sp)
  case (Cons x xs)
  have "\<forall>k<length xs. a \<noteq> sp - 8 - of_nat (8 * (k + 1))"
  proof (intro allI impI)
    fix k assume "k < length xs"
    then show "a \<noteq> sp - 8 - of_nat (8 * (k + 1))" using Cons.prems [rule_format, of "Suc k"] by (simp add: algebra_simps)
  qed
  then show ?case using Cons.IH Cons.prems [rule_format, of 0] by simp
qed simp

lemma pushes_sp: "snd (pushes m sp xs) = sp - of_nat (8 * length xs)"
  by (induction xs arbitrary: m sp) simp_all

lemma isr_exit_cong: "\<forall>a\<in>frame_addrs p. m' a = m a \<Longrightarrow> isr_exit m' p = isr_exit m p"
proof -
  assume a: "\<forall>a\<in>frame_addrs p. m' a = m a"
  have k: "m' (p + of_nat (8 * k)) = m (p + of_nat (8 * k))" if "k < 22" for k
    using a that by (auto simp: frame_addrs_def)
  show ?thesis
    using k [of 0] k [of 1] k [of 2] k [of 3] k [of 4] k [of 5] k [of 6] k [of 7] k [of 8] k [of 9] k [of 10]
      k [of 11] k [of 12] k [of 13] k [of 14] k [of 17] k [of 18] k [of 19] k [of 20] k [of 21]
    by (simp add: isr_exit_def Let_def add.commute [of _ p])
qed

end
