(* ===== verification/Sched_Correct.thy ===== *)
theory Sched_Correct
  imports Sched
begin

text \<open>
  Correctness of the scheduler: the tasks form a ring that every operation keeps, a timer interrupt
  switches to the next task without losing a context, and every task gets the processor.
\<close>

section \<open>The ring\<close>

lemma rotate1_nth:
  assumes "i < length xs"
  shows "rotate1 xs ! i = xs ! ((i + 1) mod length xs)"
  using nth_rotate [OF assms, of 1] by (simp add: add.commute)

lemma hd_rotate1: "2 \<le> length xs \<Longrightarrow> hd (rotate1 xs) = xs ! 1"
  by (cases xs rule: remdups_adj.cases) auto

lemma ringD:
  assumes "ring s xs"
  shows "distinct xs" "length xs = task_count s" "2 \<le> length xs" "xs \<noteq> []" "cur_task s = Some (hd xs)"
    "hd xs < task_count s" "xs ! 1 < task_count s" "hd xs \<noteq> xs ! 1"
proof -
  show d: "distinct xs" "cur_task s = Some (hd xs)" using assms by (auto simp: ring_def)
  show l: "length xs = task_count s" by (rule ring_length [OF assms])
  show l2: "2 \<le> length xs" using assms l by (simp add: ring_def)
  then show n: "xs \<noteq> []" by auto
  have "hd xs \<in> set xs" "xs ! 1 \<in> set xs" using n l2 by auto
  then show "hd xs < task_count s" "xs ! 1 < task_count s" using assms by (auto simp: ring_def)
  show "hd xs \<noteq> xs ! 1" using d(1) l2 n by (simp add: hd_conv_nth nth_eq_iff_index_eq)
qed

lemma ring_next: "ring s xs \<Longrightarrow> i < length xs \<Longrightarrow> t_next (tasks s (xs ! i)) = Some (xs ! ((i + 1) mod length xs))"
  by (simp add: ring_def)

lemma ring_next_hd: "ring s xs \<Longrightarrow> t_next (tasks s (hd xs)) = Some (xs ! 1)"
  using ring_next [of s xs 0] ringD(3,4) [of s xs] by (simp add: hd_conv_nth)

lemma ring_cong:
  assumes "ring s xs" "task_count s' = task_count s" "cur_task s' = cur_task s"
    and "\<forall>i<task_count s. t_next (tasks s' i) = t_next (tasks s i)"
  shows "ring s' xs"
proof -
  have "xs ! i < task_count s" if "i < length xs" for i
    using assms(1) nth_mem [OF that] by (auto simp: ring_def)
  then show ?thesis using assms by (simp add: ring_def)
qed

lemma ring_rotate1:
  assumes "ring s xs" "task_count s' = task_count s" "cur_task s' = Some (xs ! 1)"
    and "\<forall>i<task_count s. t_next (tasks s' i) = t_next (tasks s i)"
  shows "ring s' (rotate1 xs)"
proof -
  note d = ringD [OF assms(1)]
  have "ring (s'\<lparr>cur_task := cur_task s\<rparr>) xs" using assms by (intro ring_cong [OF assms(1)]) auto
  then have n: "t_next (tasks s' (xs ! i)) = Some (xs ! ((i + 1) mod length xs))" if "i < length xs" for i
    using ring_next [of _ xs i] that by fastforce
  have "t_next (tasks s' (rotate1 xs ! i)) = Some (rotate1 xs ! ((i + 1) mod length xs))" if "i < length xs" for i
  proof -
    have "rotate1 xs ! i = xs ! ((i + 1) mod length xs)" using rotate1_nth [OF that] .
    moreover have "rotate1 xs ! ((i + 1) mod length xs) = xs ! (((i + 1) mod length xs + 1) mod length xs)"
      using d(4) by (intro rotate1_nth) simp
    ultimately show ?thesis using n [of "(i + 1) mod length xs"] d(4) by simp
  qed
  then show ?thesis using assms(1-3) d hd_rotate1 [OF d(3)] by (simp add: ring_def)
qed

lemma sched_tick_ring:
  assumes "ring s xs"
  shows "\<exists>t. sched_tick s regs = Some (t, isr_exit (stacks s) (t_rsp (tasks s (xs ! 1)))) \<and>
    ring t (rotate1 xs) \<and> task_count t = task_count s \<and> stacks t = stacks s \<and> lapic t = lapic s \<and>
    vectors t = vectors s \<and> tasks t = (tasks s)(hd xs := (tasks s (hd xs))\<lparr>t_rsp := regs\<rparr>)"
proof -
  let ?t = "set_task (s\<lparr>cur_task := Some (xs ! 1)\<rparr>) (hd xs) (\<lambda>t. t\<lparr>t_rsp := regs\<rparr>)"
  have "sched_tick s regs = Some (?t, isr_exit (stacks s) (t_rsp (tasks s (xs ! 1))))"
    using ringD [OF assms] ring_next_hd [OF assms] by (simp add: sched_tick_def set_task_def Let_def)
  moreover have "ring ?t (rotate1 xs)"
    by (rule ring_rotate1 [OF assms]) (auto simp: set_task_def)
  ultimately show ?thesis by (intro exI [of _ ?t]) (simp add: set_task_def)
qed

section \<open>Frames\<close>

definition irq_words :: "cpu_context \<Rightarrow> u64 list" where
  "irq_words c = cpu_pushes c 0x20 0 @ isr_stub 0x20 @ isr_common_pushes c"

lemma length_irq_words [simp]: "length (irq_words c) = 22"
  by (simp add: irq_words_def cpu_pushes_def has_error_code_def isr_stub_def isr_errorcode_def isr_common_pushes_def)

lemma isr_entry_irq: "isr_entry m sp c 0x20 0 = pushes m sp (irq_words c)"
  by (simp add: isr_entry_def irq_words_def)

lemma irq_entry_sp: "isr_entry m sp c 0x20 0 = (m', a) \<Longrightarrow> a = sp - 176"
  using pushes_sp [of m sp "irq_words c"] by (simp add: isr_entry_irq)

lemma or_and_absorb: "(f OR g) AND g = g" for f g :: "'a::len word"
  by (rule bit_eqI) (auto simp: bit_or_iff bit_and_iff)

lemma word_sub_split: "a + b = t \<Longrightarrow> sp - a = sp - t + b" for a :: u64
  by auto

lemma irq_entry_other:
  assumes "isr_entry m sp c 0x20 0 = (m', a)" "x \<notin> frame_addrs (sp - 176)"
  shows "m' x = m x"
proof -
  have "x \<noteq> sp - of_nat (8 * (k + 1))" if "k < 22" for k
  proof
    assume "x = sp - of_nat (8 * (k + 1))"
    moreover have "8 * (k + 1) + 8 * (21 - k) = 176" using that by simp
    then have "of_nat (8 * (k + 1) + 8 * (21 - k)) = (176 :: u64)" by simp
    then have "sp - of_nat (8 * (k + 1)) = sp - 176 + of_nat (8 * (21 - k))"
      unfolding of_nat_add by (rule word_sub_split)
    ultimately have "x = sp - 176 + of_nat (8 * (21 - k))" by simp
    then show False using assms(2) by (auto simp: frame_addrs_def)
  qed
  then have "fst (isr_entry m sp c 0x20 0) x = m x" unfolding isr_entry_irq
    by (intro pushes_other) simp
  then show ?thesis using assms(1) by simp
qed

section \<open>Creation of tasks\<close>

lemma zero_words_other: "a \<notin> (\<lambda>k. b + of_nat (8 * k)) ` {..<n} \<Longrightarrow> zero_words m b n a = m a"
  by (induction n) (auto simp: image_iff)

lemma zero_words_in: "a \<in> (\<lambda>k. b + of_nat (8 * k)) ` {..<n} \<Longrightarrow> zero_words m b n a = 0"
  by (induction n) (auto simp: less_Suc_eq)

text \<open>The context that a new frame holds.\<close>

definition fresh_context :: "u64 \<Rightarrow> cpu_context" where
  "fresh_context entry =
     \<lparr>r_r15 = 0, r_r14 = 0, r_r13 = 0, r_r12 = 0, r_r11 = 0, r_r10 = 0, r_r9 = 0, r_r8 = 0, r_rbp = 0,
      r_rdi = 0, r_rsi = 0, r_rdx = 0, r_rcx = 0, r_rbx = 0, r_rax = 0, r_rip = entry, r_cs = 0x08,
      r_rflags = 0x202, r_rsp = 0, r_ss = 0\<rparr>"

lemma new_frame:
  "isr_exit ((zero_words m a 22)(a + 136 := entry, a + 144 := 0x08, a + 152 := 0x202)) a = fresh_context entry"
proof -
  have z: "zero_words m a 22 (a + of_nat (8 * k)) = 0" if "k < 22" for k
    using that by (intro zero_words_in) auto
  show ?thesis
    using z [of 0] z [of 1] z [of 2] z [of 3] z [of 4] z [of 5] z [of 6] z [of 7] z [of 8] z [of 9] z [of 10]
      z [of 11] z [of 12] z [of 13] z [of 14] z [of 20] z [of 21]
    by (simp add: isr_exit_def Let_def fresh_context_def add.commute [of _ a])
qed

lemma new_frame_other:
  assumes "x \<notin> frame_addrs a"
  shows "((zero_words m a 22)(a + 136 := entry, a + 144 := 0x08, a + 152 := 0x202)) x = m x"
proof -
  have "x \<noteq> a + of_nat (8 * k)" if "k < 22" for k using assms that by (auto simp: frame_addrs_def)
  from this [of 17] this [of 18] this [of 19] show ?thesis
    using assms zero_words_other [of x a 22 m] by (simp add: frame_addrs_def)
qed

lemma stack_top_frame:
  "isr_exit ((zero_words m (p + STACK_SIZE - 184) 22)(p + STACK_SIZE - 48 := entry, p + STACK_SIZE - 40 := 0x08,
     p + STACK_SIZE - 32 := 0x202)) (p + STACK_SIZE - 184) = fresh_context entry"
  using new_frame [of m "p + STACK_SIZE - 184" entry] by simp

lemma stack_top_other:
  "x \<notin> frame_addrs (p + STACK_SIZE - 184) \<Longrightarrow>
   ((zero_words m (p + STACK_SIZE - 184) 22)(p + STACK_SIZE - 48 := entry, p + STACK_SIZE - 40 := 0x08,
     p + STACK_SIZE - 32 := 0x202)) x = m x"
  using new_frame_other [of x "p + STACK_SIZE - 184" m entry] by simp

lemma ring_insert:
  assumes "ring s xs" "task_count s < MAX_TASKS" "task_count t = task_count s + 1" "cur_task t = cur_task s"
    and "t_next (tasks t (task_count s)) = Some (xs ! 1)" "t_next (tasks t (hd xs)) = Some (task_count s)"
    and "\<forall>i<task_count s. i \<noteq> hd xs \<longrightarrow> t_next (tasks t i) = t_next (tasks s i)"
  shows "ring t (hd xs # task_count s # tl xs)"
proof -
  note d = ringD [OF assms(1)]
  let ?n = "task_count s" and ?ys = "hd xs # task_count s # tl xs"
  have set: "set xs = {..<?n}" using assms(1) by (simp add: ring_def)
  have xs: "xs = hd xs # tl xs" using d(4) by simp
  have lt: "xs ! i < ?n" if "i < length xs" for i using nth_mem [OF that] set by auto
  have "distinct ?ys" using d(1) set xs by (metis distinct.simps(2) lessThan_iff less_irrefl list.set_intros insertE list.simps(15))
  moreover have "set ?ys = {..<task_count t}"
    using set assms(3) by (subst (asm) xs) (auto simp: lessThan_Suc)
  moreover have "t_next (tasks t (?ys ! i)) = Some (?ys ! ((i + 1) mod length ?ys))" if i: "i < length ?ys" for i
  proof -
    have l: "length ?ys = length xs + 1" using d(3) by simp
    consider "i = 0" | "i = 1" | "i \<ge> 2" by linarith
    then show ?thesis
    proof cases
      case 1
      then show ?thesis using assms(6) d(3) by simp
    next
      case 2
      then show ?thesis using assms(5) d(3) by (simp add: nth_tl)
    next
      case ge: 3
      define j where "j = i - 1"
      have 3: "i = j + 1" "0 < j" "j < length xs" using ge i l by (simp_all add: j_def)
      have j: "?ys ! i = xs ! j" using 3 by (simp add: nth_tl)
      have "xs ! j \<noteq> hd xs" using 3 d by (simp add: hd_conv_nth nth_eq_iff_index_eq)
      then have n: "t_next (tasks t (?ys ! i)) = Some (xs ! ((j + 1) mod length xs))"
        using assms(7) ring_next [OF assms(1) 3(3)] lt [OF 3(3)] j by simp
      show ?thesis
      proof (cases "j + 1 = length xs")
        case True
        then show ?thesis using n 3 l d(4) by (simp add: hd_conv_nth)
      next
        case False
        then show ?thesis using n 3 l by (simp add: nth_tl)
      qed
    qed
  qed
  ultimately show ?thesis using assms(1-4) d by (simp add: ring_def)
qed

lemma sched_init_ring: "ring (sched_init tlsf_malloc idle timer s0) [1, 0]"
proof -
  have "{..<2} = {0, Suc 0}" by auto
  then show ?thesis
    by (simp add: sched_init_def Let_def split_beta ring_def set_task_def setup_frame_def MAX_TASKS_def
        less_Suc_eq numeral_2_eq_2 insert_commute)
qed

text \<open>A booted scheduler over a heap that hands out consecutive blocks.\<close>

definition bump :: "u64 \<Rightarrow> u64 \<Rightarrow> u64 \<times> u64" where
  "bump h n = (h, h + n)"

definition demo_sched :: "u64 sched" where
  "demo_sched = sched_init bump 0x1000 0x2000
     \<lparr>tasks = (\<lambda>_. \<lparr>t_rsp = 0, stack_base = 0, t_id = 0, t_next = None\<rparr>), cur_task = None, task_count = 0,
      stacks = (\<lambda>_. 0), heap = 0x10000, vectors = interrupts_bss, lapic = []\<rparr>"

lemma demo_sched_ring: "ring demo_sched [1, 0]"
  unfolding demo_sched_def by (rule sched_init_ring)

lemma demo_sched_fields:
  "task_count demo_sched = 2" "t_rsp (tasks demo_sched 0) = 0x11F48" "heap demo_sched = 0x12000"
  "g_ISRHandlers (vectors demo_sched) 0x20 = 0x2000"
  by (simp_all add: demo_sched_def sched_init_def Let_def bump_def set_task_def setup_frame_def STACK_SIZE_def
      ISR_RegisterHandler_def IDT_EnableGate_def)

lemma frame_addrs_disjoint:
  assumes "unat a + 176 \<le> unat b" "unat b + 176 \<le> 2 ^ 64"
  shows "frame_addrs a \<inter> frame_addrs b = {}"
proof -
  have "unat (a + of_nat (8 * k)) < unat (b + of_nat (8 * l))" if "k < 22" "l < 22" for k l
    using unat_offset [of a 176 "8 * k"] unat_offset [of b 176 "8 * l"] assms that by linarith
  then have "a + of_nat (8 * k) \<noteq> b + of_nat (8 * l)" if "k < 22" "l < 22" for k l
    using that by (metis less_irrefl)
  then show ?thesis by (auto simp: frame_addrs_def)
qed

primrec ticks :: "'h sched \<Rightarrow> (nat \<Rightarrow> u64) \<Rightarrow> nat \<Rightarrow> 'h sched option" where
  "ticks s regs 0 = Some s"
| "ticks s regs (Suc k) = Option.bind (ticks s regs k) (\<lambda>t. map_option fst (sched_tick t (regs k)))"

lemma ticks_ring: "ring s xs \<Longrightarrow> \<exists>t. ticks s regs k = Some t \<and> ring t (rotate k xs)"
proof (induction k)
  case (Suc k)
  then obtain t where t: "ticks s regs k = Some t" "ring t (rotate k xs)" by auto
  from sched_tick_ring [OF t(2), of "regs k"] t(1) show ?case by auto
qed simp

section \<open>Properties\<close>

text \<open>C18: a timer interrupt stores the context of the running task in its frame, acknowledges the
  interrupt, and resumes the next task of the ring with exactly the context that was saved for it;
  the saved contexts of all suspended tasks are kept, and the ring turns by one. The new frame must
  not overlap a frame of a suspended task.\<close>

theorem timer_irq_correct:
  assumes "ring s xs" "g_ISRHandlers (vectors s) 0x20 = timer" "timer \<noteq> 0"
    and "\<forall>j<task_count s. j \<noteq> hd xs \<longrightarrow> frame_addrs (t_rsp (tasks s j)) \<inter> frame_addrs (sp - 176) = {}"
  shows "\<exists>t. timer_irq timer s sp c = Some (t, saved s (xs ! 1)) \<and> ring t (rotate1 xs) \<and>
             saved t (hd xs) = c \<and> (\<forall>j<task_count s. j \<noteq> hd xs \<longrightarrow> saved t j = saved s j) \<and>
             lapic t = lapic s @ [(APIC_EOI, 0)]"
proof -
  obtain m a where e: "isr_entry (stacks s) sp c 0x20 0 = (m, a)" by (metis surj_pair)
  have a: "a = sp - 176" by (rule irq_entry_sp [OF e])
  have rt: "read_regs m a = cpu_context.extend c \<lparr>r_interrupt = 0x20, r_error = 0\<rparr>" "isr_exit m a = c"
    using isr_frame [OF _ _ e] by (simp_all add: has_error_code_def)
  have keep: "isr_exit m (t_rsp (tasks s j)) = saved s j" if "j < task_count s" "j \<noteq> hd xs" for j
    unfolding saved_def using irq_entry_other [OF e] assms(4) that by (intro isr_exit_cong) blast
  let ?s = "lapic_eoi (s\<lparr>stacks := m\<rparr>)"
  have r: "ring ?s xs" by (rule ring_cong [OF assms(1)]) (simp_all add: lapic_eoi_def lapic_write_def)
  note d = ringD [OF assms(1)]
  from sched_tick_ring [OF r, of a] obtain t where
    t: "sched_tick ?s a = Some (t, isr_exit m (t_rsp (tasks s (xs ! 1))))" "ring t (rotate1 xs)" "stacks t = m"
      "lapic t = lapic s @ [(APIC_EOI, 0)]" "tasks t = (tasks s)(hd xs := (tasks s (hd xs))\<lparr>t_rsp := a\<rparr>)"
    by (auto simp: lapic_eoi_def lapic_write_def)
  have "timer_irq timer s sp c = sched_tick ?s a"
    using e rt(1) assms(2,3) by (simp add: timer_irq_def ISR_Handler_def timer_handler_def cpu_context.defs)
  then show ?thesis
    using t keep d rt(2) by (intro exI [of _ t]) (simp add: saved_def)
qed

theorem timer_irq_correct_witness:
  "\<exists>t. timer_irq 0x2000 demo_sched 0x90000 (fresh_context 0x5000) = Some (t, saved demo_sched 0) \<and>
       ring t [0, 1] \<and> saved t 1 = fresh_context 0x5000"
proof -
  have "\<forall>j<task_count demo_sched. j \<noteq> hd [1, 0] \<longrightarrow>
      frame_addrs (t_rsp (tasks demo_sched j)) \<inter> frame_addrs (0x90000 - 176) = {}"
    by (auto simp: demo_sched_fields less_2_cases_iff intro!: frame_addrs_disjoint)
  from timer_irq_correct [OF demo_sched_ring demo_sched_fields(4) _ this] show ?thesis by auto
qed

text \<open>C19: every task gets the processor within one round: from any state of the ring and for any
  stack pointers of the interrupted tasks, fewer than \<^verbatim>\<open>task_count\<close> ticks lead to the task \<open>j\<close>.\<close>

theorem sched_fair:
  assumes "ring s xs" "j < task_count s"
  shows "\<exists>k<task_count s. \<exists>t. ticks s regs k = Some t \<and> cur_task t = Some j"
proof -
  have "j \<in> set xs" using assms by (simp add: ring_def)
  then obtain k where k: "k < length xs" "xs ! k = j" by (auto simp: in_set_conv_nth)
  obtain t where t: "ticks s regs k = Some t" "ring t (rotate k xs)" using ticks_ring [OF assms(1)] by blast
  have "hd (rotate k xs) = j" using k by (simp add: hd_rotate_conv_nth ringD(4) [OF assms(1)])
  then show ?thesis using t ringD(5) [OF t(2)] k(1) ringD(2) [OF assms(1)] by auto
qed

theorem sched_fair_witness: "\<exists>k<2. \<exists>t. ticks demo_sched (\<lambda>_. 0x8000) k = Some t \<and> cur_task t = Some 0"
  using sched_fair [OF demo_sched_ring, of 0 "\<lambda>_. 0x8000"] by (simp add: demo_sched_fields)

text \<open>C20: \<^verbatim>\<open>sched_init\<close> makes a ring of the idle task and the booting task, which runs, and registers the
  timer handler on a present gate.\<close>

theorem sched_init_correct:
  "let s = sched_init tlsf_malloc idle timer s0
   in ring s [1, 0] \<and> saved s 0 = fresh_context idle \<and> g_ISRHandlers (vectors s) 0x20 = timer \<and>
      Flags (g_IDT (vectors s) 0x20) AND IDT_FLAG_PRESENT = IDT_FLAG_PRESENT"
  using sched_init_ring [of tlsf_malloc idle timer s0]
  by (simp add: sched_init_def Let_def split_beta set_task_def setup_frame_def saved_def stack_top_frame
      ISR_RegisterHandler_def IDT_EnableGate_def or_and_absorb)

text \<open>C21: \<^verbatim>\<open>sched_spawn\<close> refuses with -1 and keeps the ring when the table is full or the heap has no
  stack; else it returns the number of the new task, which runs next and starts at its entry with
  interrupts enabled. Tasks whose frames lie outside the new frame keep their contexts. The new context
  has the stack pointer 0, since \<^verbatim>\<open>setup_frame\<close> leaves the fields \<^verbatim>\<open>rsp\<close> and \<^verbatim>\<open>ss\<close> of the frame zero.\<close>

theorem sched_spawn_correct:
  assumes "ring s xs" "tlsf_malloc (heap s) STACK_SIZE = (p, h)" "sched_spawn tlsf_malloc s entry = (r, t)"
  shows "if task_count s = MAX_TASKS \<or> p = 0 then r = -1 \<and> ring t xs
         else r = int (task_count s) \<and> ring t (hd xs # task_count s # tl xs) \<and>
              saved t (task_count s) = fresh_context entry \<and>
              (\<forall>j<task_count s. frame_addrs (t_rsp (tasks s j)) \<inter> frame_addrs (p + STACK_SIZE - 184) = {} \<longrightarrow>
                 saved t j = saved s j)"
proof -
  note d = ringD [OF assms(1)]
  have le: "task_count s \<le> MAX_TASKS" using assms(1) by (simp add: ring_def)
  show ?thesis
  proof (cases "task_count s = MAX_TASKS \<or> p = 0")
    case True
    have "ring t xs"
      using assms(2,3) True d(5) by (intro ring_cong [OF assms(1)]) (auto simp: sched_spawn_def set_task_def Let_def split: if_splits)
    moreover have "r = -1" using assms(2,3) True d(5) by (auto simp: sched_spawn_def Let_def split: if_splits)
    ultimately show ?thesis using True by simp
  next
    case False
    note spawned = sched_spawn_def set_task_def setup_frame_def Let_def
    have t: "r = int (task_count s)" "task_count t = task_count s + 1" "cur_task t = cur_task s"
      using assms(2,3) False le d(5) by (auto simp: spawned)
    have n: "t_next (tasks t (task_count s)) = Some (xs ! 1)" "t_next (tasks t (hd xs)) = Some (task_count s)"
      "\<forall>i<task_count s. i \<noteq> hd xs \<longrightarrow> t_next (tasks t i) = t_next (tasks s i)"
      using assms(2,3) False le d(5,6) ring_next_hd [OF assms(1)] by (auto simp: spawned)
    have "saved t (task_count s) = fresh_context entry"
      using assms(2,3) False le d(5,6) by (auto simp: spawned saved_def stack_top_frame)
    moreover have "saved t j = saved s j"
      if "j < task_count s" "frame_addrs (t_rsp (tasks s j)) \<inter> frame_addrs (p + STACK_SIZE - 184) = {}" for j
    proof -
      have "t_rsp (tasks t j) = t_rsp (tasks s j)" using assms(2,3) False le d(5,6) that(1) by (auto simp: spawned)
      moreover have "stacks t = (zero_words (stacks s) (p + STACK_SIZE - 184) 22)(p + STACK_SIZE - 48 := entry,
          p + STACK_SIZE - 40 := 0x08, p + STACK_SIZE - 32 := 0x202)"
        using assms(2,3) False le d(5) by (auto simp: spawned)
      moreover have "\<forall>x\<in>frame_addrs (t_rsp (tasks s j)). ((zero_words (stacks s) (p + STACK_SIZE - 184) 22)
          (p + STACK_SIZE - 48 := entry, p + STACK_SIZE - 40 := 0x08, p + STACK_SIZE - 32 := 0x202)) x = stacks s x"
        using that(2) by (intro ballI stack_top_other) blast
      ultimately show ?thesis unfolding saved_def using isr_exit_cong by metis
    qed
    moreover have "ring t (hd xs # task_count s # tl xs)"
      using ring_insert [OF assms(1) _ t(2,3) n] False le by simp
    ultimately show ?thesis using False t(1) by simp
  qed
qed

theorem sched_spawn_correct_witness:
  "\<exists>t. sched_spawn bump demo_sched 0x3000 = (2, t) \<and> ring t [1, 2, 0] \<and> r_rsp (saved t 2) = 0"
proof -
  obtain r t where e: "sched_spawn bump demo_sched 0x3000 = (r, t)" by (metis surj_pair)
  have "bump (heap demo_sched) STACK_SIZE = (0x12000, 0x14000)" by (simp add: bump_def demo_sched_fields STACK_SIZE_def)
  from sched_spawn_correct [OF demo_sched_ring this e] e show ?thesis
    by (simp add: demo_sched_fields MAX_TASKS_def fresh_context_def)
qed

end
