(* ===== verification/CString.thy ===== *)
theory CString
  imports Prelude
begin

text \<open>
  Model of \<^verbatim>\<open>kernel/main/util/string.c\<close> over byte memory: a map from addresses to bytes. A loop
  over a counter is a recursion on the counter; a loop that runs to the terminating NUL is a
  \<open>partial_function\<close>, so that an unterminated string is the value \<open>None\<close>. The functions that return
  their first argument return only the new memory here.
\<close>

type_synonym memory = "u64 \<Rightarrow> u8"

section \<open>Blocks of memory\<close>

primrec memcpy_loop :: "memory \<Rightarrow> u64 \<Rightarrow> u64 \<Rightarrow> nat \<Rightarrow> memory" where
  "memcpy_loop m dest src 0 = m"
| "memcpy_loop m dest src (Suc i) =
     (let m = memcpy_loop m dest src i in m(dest + of_nat i := m (src + of_nat i)))"

definition memcpy :: "memory \<Rightarrow> u64 \<Rightarrow> u64 \<Rightarrow> u64 \<Rightarrow> memory" where
  "memcpy m dest src n = memcpy_loop m dest src (unat n)"

primrec memset_loop :: "memory \<Rightarrow> u64 \<Rightarrow> u8 \<Rightarrow> nat \<Rightarrow> memory" where
  "memset_loop m s c 0 = m"
| "memset_loop m s c (Suc i) = (memset_loop m s c i)(s + of_nat i := c)"

definition memset :: "memory \<Rightarrow> u64 \<Rightarrow> u32 \<Rightarrow> u64 \<Rightarrow> memory" where
  "memset m s c n = memset_loop m s (ucast c) (unat n)"

text \<open>\<^verbatim>\<open>for (size_t i = n; i > 0; i--) pdest[i-1] = psrc[i-1];\<close>\<close>

primrec memmove_down :: "memory \<Rightarrow> u64 \<Rightarrow> u64 \<Rightarrow> nat \<Rightarrow> memory" where
  "memmove_down m dest src 0 = m"
| "memmove_down m dest src (Suc i) =
     memmove_down (m(dest + of_nat i := m (src + of_nat i))) dest src i"

definition memmove :: "memory \<Rightarrow> u64 \<Rightarrow> u64 \<Rightarrow> u64 \<Rightarrow> memory" where
  "memmove m dest src n =
     (if src > dest then memcpy_loop m dest src (unat n)
      else if src < dest then memmove_down m dest src (unat n)
      else m)"

fun memcmp_loop :: "memory \<Rightarrow> u64 \<Rightarrow> u64 \<Rightarrow> nat \<Rightarrow> int" where
  "memcmp_loop m s1 s2 0 = 0"
| "memcmp_loop m s1 s2 (Suc n) =
     (if m s1 \<noteq> m s2 then (if m s1 < m s2 then -1 else 1)
      else memcmp_loop m (s1 + 1) (s2 + 1) n)"

definition memcmp :: "memory \<Rightarrow> u64 \<Rightarrow> u64 \<Rightarrow> u64 \<Rightarrow> int" where
  "memcmp m s1 s2 n = memcmp_loop m s1 s2 (unat n)"

fun memcmp_const_loop :: "memory \<Rightarrow> u64 \<Rightarrow> u8 \<Rightarrow> nat \<Rightarrow> int" where
  "memcmp_const_loop m s1 val 0 = 0"
| "memcmp_const_loop m s1 val (Suc n) =
     (if m s1 \<noteq> val then sint (m s1 - val) else memcmp_const_loop m (s1 + 1) val n)"

definition memcmp_const :: "memory \<Rightarrow> u64 \<Rightarrow> u8 \<Rightarrow> u64 \<Rightarrow> int" where
  "memcmp_const m s1 val n = memcmp_const_loop m s1 val (unat n)"

section \<open>Strings\<close>

text \<open>\<^verbatim>\<open>while (n-- > 0)\<close>.\<close>

fun strncmp_loop :: "memory \<Rightarrow> u64 \<Rightarrow> u64 \<Rightarrow> nat \<Rightarrow> int" where
  "strncmp_loop m str1 str2 0 = 0"
| "strncmp_loop m str1 str2 (Suc n) =
     (if m str1 \<noteq> m str2 then uint (m str1) - uint (m str2)
      else if m str1 = 0 then 0
      else strncmp_loop m (str1 + 1) (str2 + 1) n)"

definition strncmp :: "memory \<Rightarrow> u64 \<Rightarrow> u64 \<Rightarrow> u64 \<Rightarrow> int" where
  "strncmp m str1 str2 n = strncmp_loop m str1 str2 (unat n)"

partial_function (option) strlen_loop :: "memory \<Rightarrow> u64 \<Rightarrow> u64 \<Rightarrow> u64 option" where
  "strlen_loop m str l = (if m str \<noteq> 0 then strlen_loop m (str + 1) (l + 1) else Some l)"

definition strlen :: "memory \<Rightarrow> u64 \<Rightarrow> u64 option" where
  "strlen m str = strlen_loop m str 0"

partial_function (option) strcmp :: "memory \<Rightarrow> u64 \<Rightarrow> u64 \<Rightarrow> int option" where
  "strcmp m str1 str2 =
     (if m str1 \<noteq> 0 \<and> m str1 = m str2 then strcmp m (str1 + 1) (str2 + 1)
      else Some (uint (m str1) - uint (m str2)))"

definition strlcat :: "memory \<Rightarrow> u64 \<Rightarrow> u64 \<Rightarrow> u64 \<Rightarrow> (u64 \<times> memory) option" where
  "strlcat m dst src sz =
     (case strlen m src of None \<Rightarrow> None | Some sl \<Rightarrow>
     (case strlen m dst of None \<Rightarrow> None | Some dl \<Rightarrow>
       Some
         (if dl = sz then (sz + sl, m)
          else if sl < sz - dl then (sl + dl, memcpy m (dst + dl) src (sl + 1))
          else (sl + dl, (memcpy m (dst + dl) src (sz - dl - 1))(dst + (sz - 1) := 0)))))"

text \<open>
  \<^verbatim>\<open>while (--n > 0) if ((*d++ = *s++) == 0) break;\<close> with the counter before the test: the pointers,
  the counter and the memory at the end.
\<close>

partial_function (option) strlcpy_loop ::
  "memory \<Rightarrow> u64 \<Rightarrow> u64 \<Rightarrow> u64 \<Rightarrow> (memory \<times> u64 \<times> u64 \<times> u64) option" where
  "strlcpy_loop m d s n =
     (let n = n - 1
      in if n > 0 then
           (let c = m s; m = m(d := c); d = d + 1; s = s + 1
            in if c = 0 then Some (m, d, s, n) else strlcpy_loop m d s n)
         else Some (m, d, s, n))"

text \<open>\<^verbatim>\<open>while (*s++);\<close>\<close>

partial_function (option) skip_string :: "memory \<Rightarrow> u64 \<Rightarrow> u64 option" where
  "skip_string m s = (if m s \<noteq> 0 then skip_string m (s + 1) else Some (s + 1))"

definition strlcpy :: "memory \<Rightarrow> u64 \<Rightarrow> u64 \<Rightarrow> u64 \<Rightarrow> (u64 \<times> memory) option" where
  "strlcpy m dst src n =
     (case strlcpy_loop m dst src n of
        None \<Rightarrow> None
      | Some (m, d, s, n') \<Rightarrow>
          (if n' = 0 then
             (let m = (if n \<noteq> 0 then m(d := 0) else m)
              in case skip_string m s of None \<Rightarrow> None | Some s \<Rightarrow> Some (s - src - 1, m))
           else Some (s - src - 1, m)))"

fun strncpy_loop :: "memory \<Rightarrow> u64 \<Rightarrow> u64 \<Rightarrow> nat \<Rightarrow> memory" where
  "strncpy_loop m dest src 0 = m"
| "strncpy_loop m dest src (Suc n) =
     (if m src \<noteq> 0 then strncpy_loop (m(dest := m src)) (dest + 1) (src + 1) n
      else memset_loop m dest 0 (Suc n))"

definition strncpy :: "memory \<Rightarrow> u64 \<Rightarrow> u64 \<Rightarrow> u64 \<Rightarrow> memory" where
  "strncpy m dest src n = strncpy_loop m dest src (unat n)"

partial_function (option) strchr_loop :: "memory \<Rightarrow> u64 \<Rightarrow> u8 \<Rightarrow> u64 option" where
  "strchr_loop m str chr =
     (if m str \<noteq> 0 then if m str = chr then Some str else strchr_loop m (str + 1) chr
      else Some 0)"

definition strchr :: "memory \<Rightarrow> u64 \<Rightarrow> u8 \<Rightarrow> u64 option" where
  "strchr m str chr = (if str = 0 then Some 0 else strchr_loop m str chr)"

partial_function (option) strswap_loop :: "memory \<Rightarrow> u64 \<Rightarrow> u8 \<Rightarrow> u8 \<Rightarrow> memory option" where
  "strswap_loop m str char1 char2 =
     (if m str \<noteq> 0
      then strswap_loop (if m str = char1 then m(str := char2) else m) (str + 1) char1 char2
      else Some m)"

definition strswap :: "memory \<Rightarrow> u64 \<Rightarrow> u8 \<Rightarrow> u8 \<Rightarrow> memory option" where
  "strswap m str char1 char2 = (if str = 0 then Some m else strswap_loop m str char1 char2)"

partial_function (option) strcount_loop :: "memory \<Rightarrow> u64 \<Rightarrow> u8 \<Rightarrow> u32 \<Rightarrow> u32 option" where
  "strcount_loop m str char1 count =
     (if m str \<noteq> 0
      then strcount_loop m (str + 1) char1 (if m str = char1 then count + 1 else count)
      else Some count)"

definition strcount :: "memory \<Rightarrow> u64 \<Rightarrow> u8 \<Rightarrow> u32 option" where
  "strcount m str char1 = (if str = 0 then Some 0 else strcount_loop m str char1 0)"

text \<open>\<^verbatim>\<open>while (*d != '\0') d++;\<close>\<close>

partial_function (option) end_of :: "memory \<Rightarrow> u64 \<Rightarrow> u64 option" where
  "end_of m d = (if m d \<noteq> 0 then end_of m (d + 1) else Some d)"

text \<open>\<^verbatim>\<open>while ((*d++ = *src++) != '\0');\<close>\<close>

partial_function (option) strcpy :: "memory \<Rightarrow> u64 \<Rightarrow> u64 \<Rightarrow> memory option" where
  "strcpy m d src =
     (let c = m src; m = m(d := c) in if c \<noteq> 0 then strcpy m (d + 1) (src + 1) else Some m)"

definition strcat :: "memory \<Rightarrow> u64 \<Rightarrow> u64 \<Rightarrow> memory option" where
  "strcat m dest src = (case end_of m dest of None \<Rightarrow> None | Some d \<Rightarrow> strcpy m d src)"

fun strncat_loop :: "memory \<Rightarrow> u64 \<Rightarrow> u64 \<Rightarrow> nat \<Rightarrow> memory" where
  "strncat_loop m d src 0 = m(d := 0)"
| "strncat_loop m d src (Suc n) =
     (if m src \<noteq> 0 then strncat_loop (m(d := m src)) (d + 1) (src + 1) n else m(d := 0))"

definition strncat :: "memory \<Rightarrow> u64 \<Rightarrow> u64 \<Rightarrow> u64 \<Rightarrow> memory option" where
  "strncat m dest src n =
     (case end_of m dest of None \<Rightarrow> None | Some d \<Rightarrow> Some (strncat_loop m d src (unat n)))"

section \<open>Searching\<close>

text \<open>\<^verbatim>\<open>while (*a && *b && *a == *b)\<close>: where \<open>b\<close> stops.\<close>

partial_function (option) match_loop :: "memory \<Rightarrow> u64 \<Rightarrow> u64 \<Rightarrow> u64 option" where
  "match_loop m a b =
     (if m a \<noteq> 0 \<and> m b \<noteq> 0 \<and> m a = m b then match_loop m (a + 1) (b + 1) else Some b)"

partial_function (option) strstr_loop :: "memory \<Rightarrow> u64 \<Rightarrow> u64 \<Rightarrow> u64 option" where
  "strstr_loop m hpos needle =
     (if m hpos = 0 then Some 0
      else Option.bind (strlen m hpos) (\<lambda>hl. Option.bind (strlen m needle) (\<lambda>nl.
        if hl \<ge> nl then
          Option.bind (match_loop m hpos needle) (\<lambda>b.
            if m b = 0 then Some hpos else strstr_loop m (hpos + 1) needle)
        else Some 0)))"

definition strstr :: "memory \<Rightarrow> u64 \<Rightarrow> u64 \<Rightarrow> u64 option" where
  "strstr m haystack needle =
     (if m needle = 0 then Some haystack else strstr_loop m haystack needle)"

partial_function (option) member_loop :: "memory \<Rightarrow> u8 \<Rightarrow> u64 \<Rightarrow> bool option" where
  "member_loop m c c2 =
     (if m c2 \<noteq> 0 then if c = m c2 then Some True else member_loop m c (c2 + 1) else Some False)"

partial_function (option) strpbrk :: "memory \<Rightarrow> u64 \<Rightarrow> u64 \<Rightarrow> u64 option" where
  "strpbrk m c1 needle =
     (if m c1 \<noteq> 0 then
        Option.bind (member_loop m (m c1) needle) (\<lambda>found.
          if found then Some c1 else strpbrk m (c1 + 1) needle)
      else Some 0)"

text \<open>\<open>tok\<close> is the static variable: the result is the token, the new \<open>tok\<close> and the memory.\<close>

definition strtok :: "memory \<Rightarrow> u64 \<Rightarrow> u64 \<Rightarrow> u64 \<Rightarrow> (u64 \<times> u64 \<times> memory) option" where
  "strtok m tok str delim =
     (let start = (if str \<noteq> 0 then str else tok)
      in if start = 0 then Some (0, tok, m)
         else (case strpbrk m start delim of
                 None \<Rightarrow> None
               | Some end \<Rightarrow>
                   Some (if end \<noteq> 0 then (start, end + 1, m(end := 0)) else (start, 0, m))))"

partial_function (option) strrchr_loop :: "memory \<Rightarrow> u64 \<Rightarrow> u8 \<Rightarrow> u64 \<Rightarrow> u64 option" where
  "strrchr_loop m s c lst =
     (if m s \<noteq> 0 then strrchr_loop m (s + 1) c (if m s = c then s else lst)
      else if c = 0 then Some s
      else Some lst)"

definition strrchr :: "memory \<Rightarrow> u64 \<Rightarrow> u32 \<Rightarrow> u64 option" where
  "strrchr m s c = strrchr_loop m s (ucast c) 0"

text \<open>\<^verbatim>\<open>ipow\<close> with 32-bit wrap-around.\<close>

primrec ipow_loop :: "u32 \<Rightarrow> nat \<Rightarrow> u32" where
  "ipow_loop e 0 = 1"
| "ipow_loop e (Suc i) = ipow_loop e i * e"

definition ipow :: "u32 \<Rightarrow> u32" where
  "ipow e = ipow_loop e (nat (sint e))"

declare strlen_loop.simps [code] strcmp.simps [code] strlcpy_loop.simps [code]
  skip_string.simps [code] strchr_loop.simps [code] strswap_loop.simps [code]
  strcount_loop.simps [code] end_of.simps [code] strcpy.simps [code] match_loop.simps [code]
  strstr_loop.simps [code] member_loop.simps [code] strpbrk.simps [code] strrchr_loop.simps [code]

section \<open>The string at an address\<close>

fun cstr :: "memory \<Rightarrow> u64 \<Rightarrow> u8 list \<Rightarrow> bool" where
  "cstr m p [] \<longleftrightarrow> m p = 0"
| "cstr m p (x # xs) \<longleftrightarrow> x \<noteq> 0 \<and> m p = x \<and> cstr m (p + 1) xs"

end
