(* ===== verification/Memory.thy ===== *)
theory Memory
  imports CString
begin

text \<open>
  Little-endian accesses of 8 bytes to byte memory, and the laws that the component proofs use: a load
  reads back what the last store to the same aligned address wrote, and a store to another aligned
  address does not matter.
\<close>

definition load64 :: "memory \<Rightarrow> u64 \<Rightarrow> u64" where
  "load64 m a =
     ucast (m a) OR push_bit 8 (ucast (m (a + 1))) OR push_bit 16 (ucast (m (a + 2))) OR
     push_bit 24 (ucast (m (a + 3))) OR push_bit 32 (ucast (m (a + 4))) OR
     push_bit 40 (ucast (m (a + 5))) OR push_bit 48 (ucast (m (a + 6))) OR
     push_bit 56 (ucast (m (a + 7)))"

definition store64 :: "memory \<Rightarrow> u64 \<Rightarrow> u64 \<Rightarrow> memory" where
  "store64 m a v =
     m(a := ucast v, a + 1 := ucast (drop_bit 8 v), a + 2 := ucast (drop_bit 16 v),
       a + 3 := ucast (drop_bit 24 v), a + 4 := ucast (drop_bit 32 v), a + 5 := ucast (drop_bit 40 v),
       a + 6 := ucast (drop_bit 48 v), a + 7 := ucast (drop_bit 56 v))"

definition aligned :: "u64 \<Rightarrow> bool" where
  "aligned a \<longleftrightarrow> unat a mod 8 = 0"

lemma bytes_of_word:
  fixes v :: u64
  shows "(ucast (ucast v :: u8) OR push_bit 8 (ucast (ucast (drop_bit 8 v) :: u8)) OR
     push_bit 16 (ucast (ucast (drop_bit 16 v) :: u8)) OR push_bit 24 (ucast (ucast (drop_bit 24 v) :: u8)) OR
     push_bit 32 (ucast (ucast (drop_bit 32 v) :: u8)) OR push_bit 40 (ucast (ucast (drop_bit 40 v) :: u8)) OR
     push_bit 48 (ucast (ucast (drop_bit 48 v) :: u8)) OR push_bit 56 (ucast (ucast (drop_bit 56 v) :: u8))) = v"
    (is "?l = v")
proof -
  have split: "ucast (ucast x :: u8) OR push_bit 8 (drop_bit 8 x) = x" for x :: u64
  proof (rule bit_eqI)
    fix n assume "possible_bit TYPE(u64) n"
    then show "bit (ucast (ucast x :: u8) OR push_bit 8 (drop_bit 8 x)) n = bit x n"
      by (cases "n < 8") (simp_all add: bit_or_iff bit_push_bit_iff bit_unsigned_iff bit_drop_bit_eq possible_bit_word)
  qed
  have top: "ucast (ucast (drop_bit 56 v) :: u8) = drop_bit 56 v"
    by (rule bit_eqI) (auto simp: bit_unsigned_iff bit_drop_bit_eq possible_bit_word dest: bit_imp_possible_bit)
  have "push_bit n (ucast (ucast (drop_bit n v) :: u8)) OR push_bit (n + 8) (drop_bit (n + 8) v) = push_bit n (drop_bit n v)" for n
    using arg_cong [OF split [of "drop_bit n v"], of "push_bit n"] by (simp add: push_bit_or add.commute)
  from this [of 0] this [of 8] this [of 16] this [of 24] this [of 32] this [of 40] this [of 48]
  show ?thesis by (simp add: top or.assoc)
qed

lemma load64_store64_same [simp]: "load64 (store64 m a v) a = v"
  using bytes_of_word [of v] by (simp add: load64_def store64_def)

lemma aligned_offset:
  assumes "aligned a" "i < 8"
  shows "unat (a + of_nat i) = unat a + i"
proof -
  obtain k where k: "unat a = 8 * k" using assms(1) by (auto simp: aligned_def)
  have "8 * k < 8 * 2 ^ 61" using unat_lt64 [of a] k by (simp del: unat_lt64)
  then have "unat a + 8 \<le> 2 ^ 64" using k by simp
  then show ?thesis using unat_offset [of a 8 i] assms(2) by simp
qed

lemma aligned_apart:
  assumes "aligned a" "aligned b" "a \<noteq> b" "i < 8" "j < 8"
  shows "a + of_nat i \<noteq> b + of_nat j"
proof
  assume "a + of_nat i = b + of_nat j"
  then have "unat a + i = unat b + j" using aligned_offset assms by metis
  then have "(unat a + i) div 8 = (unat b + j) div 8" by simp
  then have "unat a = unat b" using assms(1,2,4,5) by (auto simp: aligned_def elim!: dvdE)
  then show False using assms(3) by (simp add: word_unat_eq_iff)
qed

lemma store64_other:
  assumes "\<forall>i<8. b \<noteq> a + of_nat i"
  shows "store64 m a v b = m b"
  using assms [rule_format, of 0] assms [rule_format, of 1] assms [rule_format, of 2] assms [rule_format, of 3]
    assms [rule_format, of 4] assms [rule_format, of 5] assms [rule_format, of 6] assms [rule_format, of 7]
  by (simp add: store64_def)

lemma load64_cong: "\<forall>i<8. m (a + of_nat i) = m' (a + of_nat i) \<Longrightarrow> load64 m a = load64 m' a"
proof -
  assume e: "\<forall>i<8. m (a + of_nat i) = m' (a + of_nat i)"
  show ?thesis
    using e [rule_format, of 0] e [rule_format, of 1] e [rule_format, of 2] e [rule_format, of 3]
      e [rule_format, of 4] e [rule_format, of 5] e [rule_format, of 6] e [rule_format, of 7]
    by (simp add: load64_def)
qed

lemma load64_store64_other:
  assumes "aligned a" "aligned b" "a \<noteq> b"
  shows "load64 (store64 m a v) b = load64 m b"
  using aligned_apart [OF assms(2,1) assms(3) [symmetric]] by (intro load64_cong) (simp add: store64_other)

lemma load64_store64:
  "aligned a \<Longrightarrow> aligned b \<Longrightarrow> load64 (store64 m a v) b = (if a = b then v else load64 m b)"
  by (simp add: load64_store64_other)

end
