(* ===== verification/Tlsf.thy ===== *)
theory Tlsf
  imports Memory "HOL-Library.Monad_Syntax"
begin

text \<open>
  The two-level segregated-fit allocator, \<^verbatim>\<open>kernel/main/mm/heapalloc/tlsf.c\<close> in its 64-bit GCC
  configuration, and the wrappers of \<^verbatim>\<open>malloc.c\<close>.

  Block headers live in byte memory: the fields \<^verbatim>\<open>prev_phys_block\<close>, \<^verbatim>\<open>size\<close>, \<^verbatim>\<open>next_free\<close> and \<^verbatim>\<open>prev_free\<close>
  of the block at \<open>b\<close> are the words at \<open>b\<close>, \<open>b + 8\<close>, \<open>b + 16\<close> and \<open>b + 24\<close>, so that the header of a
  used block overlaps the payload of its neighbours as in the C code. The bitmaps and list heads
  of \<^verbatim>\<open>control_t\<close> are fields of the record; \<open>control\<close> is its address, which is also the address of its
  first member \<^verbatim>\<open>block_null\<close>. A failing \<^verbatim>\<open>tlsf_assert\<close> halts the kernel and is the value \<open>None\<close>.
\<close>

section \<open>Bit scans\<close>

text \<open>The built-ins of the compiler, from their documentation: \<^verbatim>\<open>__builtin_ffs\<close> is one plus the index of
  the least bit, or 0; \<^verbatim>\<open>__builtin_clz\<close> the number of leading zero bits of a non-zero word.\<close>

definition builtin_ffs :: "u32 \<Rightarrow> int" where
  "builtin_ffs word = (case List.find (bit word) [0..<32] of None \<Rightarrow> 0 | Some i \<Rightarrow> int i + 1)"

definition builtin_clz :: "u32 \<Rightarrow> int" where
  "builtin_clz word = (case List.find (bit word) (rev [0..<32]) of None \<Rightarrow> 32 | Some i \<Rightarrow> 31 - int i)"

definition tlsf_ffs :: "u32 \<Rightarrow> int" where
  "tlsf_ffs word = builtin_ffs word - 1"

definition tlsf_fls :: "u32 \<Rightarrow> int" where
  "tlsf_fls word = (let b = (if word \<noteq> 0 then 32 - builtin_clz word else 0) in b - 1)"

definition tlsf_fls_sizet :: "u64 \<Rightarrow> int" where
  "tlsf_fls_sizet sz =
     (let high = ucast (drop_bit 32 sz) :: u32
      in if high \<noteq> 0 then 32 + tlsf_fls high else tlsf_fls (ucast sz AND 0xffffffff))"

section \<open>Constants and state\<close>

definition SL_INDEX_COUNT_LOG2 :: nat where "SL_INDEX_COUNT_LOG2 = 5"

definition ALIGN_SIZE_LOG2 :: nat where "ALIGN_SIZE_LOG2 = 3"

definition ALIGN_SIZE :: u64 where "ALIGN_SIZE = push_bit ALIGN_SIZE_LOG2 1"

definition FL_INDEX_MAX :: nat where "FL_INDEX_MAX = 32"

definition SL_INDEX_COUNT :: nat where "SL_INDEX_COUNT = 2 ^ SL_INDEX_COUNT_LOG2"

definition FL_INDEX_SHIFT :: nat where "FL_INDEX_SHIFT = SL_INDEX_COUNT_LOG2 + ALIGN_SIZE_LOG2"

definition FL_INDEX_COUNT :: nat where "FL_INDEX_COUNT = FL_INDEX_MAX - FL_INDEX_SHIFT + 1"

definition SMALL_BLOCK_SIZE :: u64 where "SMALL_BLOCK_SIZE = push_bit FL_INDEX_SHIFT 1"

definition block_header_free_bit :: u64 where "block_header_free_bit = 1"

definition block_header_prev_free_bit :: u64 where "block_header_prev_free_bit = 2"

definition block_header_overhead :: u64 where "block_header_overhead = 8"

definition block_start_offset :: u64 where "block_start_offset = 8 + 8"

definition sizeof_block_header :: u64 where "sizeof_block_header = 32"

definition block_size_min :: u64 where "block_size_min = sizeof_block_header - 8"

definition block_size_max :: u64 where "block_size_max = push_bit FL_INDEX_MAX 1"

record tlsf =
  mem :: memory
  control :: u64
  fl_bitmap :: u32
  sl_bitmap :: "nat \<Rightarrow> u32"
  blocks :: "nat \<Rightarrow> nat \<Rightarrow> u64"

definition tlsf_assert :: "bool \<Rightarrow> unit option" where
  "tlsf_assert b = (if b then Some () else None)"

section \<open>Block headers\<close>

definition get_prev_phys :: "tlsf \<Rightarrow> u64 \<Rightarrow> u64" where "get_prev_phys s b = load64 (mem s) b"

definition get_size :: "tlsf \<Rightarrow> u64 \<Rightarrow> u64" where "get_size s b = load64 (mem s) (b + 8)"

definition get_next_free :: "tlsf \<Rightarrow> u64 \<Rightarrow> u64" where "get_next_free s b = load64 (mem s) (b + 16)"

definition get_prev_free :: "tlsf \<Rightarrow> u64 \<Rightarrow> u64" where "get_prev_free s b = load64 (mem s) (b + 24)"

definition put :: "tlsf \<Rightarrow> u64 \<Rightarrow> u64 \<Rightarrow> tlsf" where
  "put s a v = s\<lparr>mem := store64 (mem s) a v\<rparr>"

definition set_prev_phys :: "tlsf \<Rightarrow> u64 \<Rightarrow> u64 \<Rightarrow> tlsf" where "set_prev_phys s b v = put s b v"

definition set_size :: "tlsf \<Rightarrow> u64 \<Rightarrow> u64 \<Rightarrow> tlsf" where "set_size s b v = put s (b + 8) v"

definition set_next_free :: "tlsf \<Rightarrow> u64 \<Rightarrow> u64 \<Rightarrow> tlsf" where "set_next_free s b v = put s (b + 16) v"

definition set_prev_free :: "tlsf \<Rightarrow> u64 \<Rightarrow> u64 \<Rightarrow> tlsf" where "set_prev_free s b v = put s (b + 24) v"

definition block_size :: "tlsf \<Rightarrow> u64 \<Rightarrow> u64" where
  "block_size s b = get_size s b AND NOT (block_header_free_bit OR block_header_prev_free_bit)"

definition block_set_size :: "tlsf \<Rightarrow> u64 \<Rightarrow> u64 \<Rightarrow> tlsf" where
  "block_set_size s b sz =
     (let oldsize = get_size s b
      in set_size s b (sz OR (oldsize AND (block_header_free_bit OR block_header_prev_free_bit))))"

definition block_is_last :: "tlsf \<Rightarrow> u64 \<Rightarrow> bool" where
  "block_is_last s b \<longleftrightarrow> block_size s b = 0"

definition block_is_free :: "tlsf \<Rightarrow> u64 \<Rightarrow> bool" where
  "block_is_free s b \<longleftrightarrow> get_size s b AND block_header_free_bit \<noteq> 0"

definition block_set_free :: "tlsf \<Rightarrow> u64 \<Rightarrow> tlsf" where
  "block_set_free s b = set_size s b (get_size s b OR block_header_free_bit)"

definition block_set_used :: "tlsf \<Rightarrow> u64 \<Rightarrow> tlsf" where
  "block_set_used s b = set_size s b (get_size s b AND NOT block_header_free_bit)"

definition block_is_prev_free :: "tlsf \<Rightarrow> u64 \<Rightarrow> bool" where
  "block_is_prev_free s b \<longleftrightarrow> get_size s b AND block_header_prev_free_bit \<noteq> 0"

definition block_set_prev_free :: "tlsf \<Rightarrow> u64 \<Rightarrow> tlsf" where
  "block_set_prev_free s b = set_size s b (get_size s b OR block_header_prev_free_bit)"

definition block_set_prev_used :: "tlsf \<Rightarrow> u64 \<Rightarrow> tlsf" where
  "block_set_prev_used s b = set_size s b (get_size s b AND NOT block_header_prev_free_bit)"

definition block_from_ptr :: "u64 \<Rightarrow> u64" where
  "block_from_ptr p = p - block_start_offset"

definition block_to_ptr :: "u64 \<Rightarrow> u64" where
  "block_to_ptr b = b + block_start_offset"

definition offset_to_block :: "u64 \<Rightarrow> u64 \<Rightarrow> u64" where
  "offset_to_block p sz = p + sz"

definition block_prev :: "tlsf \<Rightarrow> u64 \<Rightarrow> u64 option" where
  "block_prev s b = do { tlsf_assert (block_is_prev_free s b); Some (get_prev_phys s b) }"

definition block_next :: "tlsf \<Rightarrow> u64 \<Rightarrow> u64 option" where
  "block_next s b = do {
     let next = offset_to_block (block_to_ptr b) (block_size s b - block_header_overhead);
     tlsf_assert (\<not> block_is_last s b);
     Some next }"

definition block_link_next :: "tlsf \<Rightarrow> u64 \<Rightarrow> (u64 \<times> tlsf) option" where
  "block_link_next s b = do {
     next \<leftarrow> block_next s b;
     Some (next, set_prev_phys s next b) }"

definition block_mark_as_free :: "tlsf \<Rightarrow> u64 \<Rightarrow> tlsf option" where
  "block_mark_as_free s b = do {
     (next, s) \<leftarrow> block_link_next s b;
     let s = block_set_prev_free s next;
     Some (block_set_free s b) }"

definition block_mark_as_used :: "tlsf \<Rightarrow> u64 \<Rightarrow> tlsf option" where
  "block_mark_as_used s b = do {
     next \<leftarrow> block_next s b;
     let s = block_set_prev_used s next;
     Some (block_set_used s b) }"

section \<open>Sizes\<close>

definition align_up :: "u64 \<Rightarrow> u64 \<Rightarrow> u64 option" where
  "align_up x align = do {
     tlsf_assert (0 = (align AND (align - 1)));
     Some ((x + (align - 1)) AND NOT (align - 1)) }"

definition align_down :: "u64 \<Rightarrow> u64 \<Rightarrow> u64 option" where
  "align_down x align = do {
     tlsf_assert (0 = (align AND (align - 1)));
     Some (x - (x AND (align - 1))) }"

definition align_ptr :: "u64 \<Rightarrow> u64 \<Rightarrow> u64 option" where
  "align_ptr p align = do {
     let aligned = (p + (align - 1)) AND NOT (align - 1);
     tlsf_assert (0 = (align AND (align - 1)));
     Some aligned }"

definition adjust_request_size :: "u64 \<Rightarrow> u64 \<Rightarrow> u64 option" where
  "adjust_request_size sz align =
     (if sz \<noteq> 0 then do {
        aligned \<leftarrow> align_up sz align;
        Some (if aligned < block_size_max
              then (if aligned > block_size_min then aligned else block_size_min) else 0) }
      else Some 0)"

definition mapping_insert :: "u64 \<Rightarrow> nat \<times> nat" where
  "mapping_insert sz =
     (if sz < SMALL_BLOCK_SIZE then
        (0, unat (sz div (SMALL_BLOCK_SIZE div of_nat SL_INDEX_COUNT)))
      else
        (let fl = nat (tlsf_fls_sizet sz);
             sl = (ucast (drop_bit (fl - SL_INDEX_COUNT_LOG2) sz) :: u32) XOR push_bit SL_INDEX_COUNT_LOG2 1
         in (fl - (FL_INDEX_SHIFT - 1), unat sl)))"

text \<open>\<^verbatim>\<open>1 << k\<close> is of type \<^verbatim>\<open>int\<close>; the conversion to \<^verbatim>\<open>size_t\<close> extends its sign.\<close>

definition mapping_search :: "u64 \<Rightarrow> nat \<times> nat" where
  "mapping_search sz =
     (if sz \<ge> SMALL_BLOCK_SIZE then
        (let rnd = scast (push_bit (nat (tlsf_fls_sizet sz) - SL_INDEX_COUNT_LOG2) 1 - 1 :: u32)
         in mapping_insert (sz + rnd))
      else mapping_insert sz)"

section \<open>Free lists\<close>

text \<open>The block, 0 when there is none, and the indices at the end.\<close>

definition search_suitable_block :: "tlsf \<Rightarrow> nat \<Rightarrow> nat \<Rightarrow> (u64 \<times> nat \<times> nat) option" where
  "search_suitable_block s fl sl =
     (let sl_map = sl_bitmap s fl AND push_bit sl (NOT 0)
      in if sl_map = 0 then
           (let fl_map = fl_bitmap s AND push_bit (fl + 1) (NOT 0)
            in if fl_map = 0 then Some (0, fl, sl)
               else do {
                 let fl = nat (tlsf_ffs fl_map);
                 let sl_map = sl_bitmap s fl;
                 tlsf_assert (sl_map \<noteq> 0);
                 let sl = nat (tlsf_ffs sl_map);
                 Some (blocks s fl sl, fl, sl) })
         else
           (let sl = nat (tlsf_ffs sl_map) in Some (blocks s fl sl, fl, sl)))"

definition set_head :: "tlsf \<Rightarrow> nat \<Rightarrow> nat \<Rightarrow> u64 \<Rightarrow> tlsf" where
  "set_head s fl sl b = s\<lparr>blocks := (blocks s)(fl := (blocks s fl)(sl := b))\<rparr>"

definition remove_free_block :: "tlsf \<Rightarrow> u64 \<Rightarrow> nat \<Rightarrow> nat \<Rightarrow> tlsf option" where
  "remove_free_block s b fl sl = do {
     let prev = get_prev_free s b;
     let next = get_next_free s b;
     tlsf_assert (prev \<noteq> 0);
     tlsf_assert (next \<noteq> 0);
     let s = set_prev_free s next prev;
     let s = set_next_free s prev next;
     Some (if blocks s fl sl = b then
             (let s = set_head s fl sl next
              in if next = control s then
                   (let s = s\<lparr>sl_bitmap := (sl_bitmap s)(fl := sl_bitmap s fl AND NOT (push_bit sl 1))\<rparr>
                    in if sl_bitmap s fl = 0
                       then s\<lparr>fl_bitmap := fl_bitmap s AND NOT (push_bit fl 1)\<rparr> else s)
                 else s)
           else s) }"

definition insert_free_block :: "tlsf \<Rightarrow> u64 \<Rightarrow> nat \<Rightarrow> nat \<Rightarrow> tlsf option" where
  "insert_free_block s b fl sl = do {
     let cur = blocks s fl sl;
     tlsf_assert (cur \<noteq> 0);
     tlsf_assert (b \<noteq> 0);
     let s = set_next_free s b cur;
     let s = set_prev_free s b (control s);
     let s = set_prev_free s cur b;
     p \<leftarrow> align_ptr (block_to_ptr b) ALIGN_SIZE;
     tlsf_assert (block_to_ptr b = p);
     let s = set_head s fl sl b;
     let s = s\<lparr>fl_bitmap := fl_bitmap s OR push_bit fl 1\<rparr>;
     Some (s\<lparr>sl_bitmap := (sl_bitmap s)(fl := sl_bitmap s fl OR push_bit sl 1)\<rparr>) }"

definition block_remove :: "tlsf \<Rightarrow> u64 \<Rightarrow> tlsf option" where
  "block_remove s b = (let (fl, sl) = mapping_insert (block_size s b) in remove_free_block s b fl sl)"

definition block_insert :: "tlsf \<Rightarrow> u64 \<Rightarrow> tlsf option" where
  "block_insert s b = (let (fl, sl) = mapping_insert (block_size s b) in insert_free_block s b fl sl)"

section \<open>Splitting and merging\<close>

definition block_can_split :: "tlsf \<Rightarrow> u64 \<Rightarrow> u64 \<Rightarrow> bool" where
  "block_can_split s b sz \<longleftrightarrow> block_size s b \<ge> sizeof_block_header + sz"

definition block_split :: "tlsf \<Rightarrow> u64 \<Rightarrow> u64 \<Rightarrow> (u64 \<times> tlsf) option" where
  "block_split s b sz = do {
     let remaining = offset_to_block (block_to_ptr b) (sz - block_header_overhead);
     let remain_size = block_size s b - (sz + block_header_overhead);
     p \<leftarrow> align_ptr (block_to_ptr remaining) ALIGN_SIZE;
     tlsf_assert (block_to_ptr remaining = p);
     tlsf_assert (block_size s b = remain_size + sz + block_header_overhead);
     let s = block_set_size s remaining remain_size;
     tlsf_assert (block_size s remaining \<ge> block_size_min);
     let s = block_set_size s b sz;
     s \<leftarrow> block_mark_as_free s remaining;
     Some (remaining, s) }"

definition block_absorb :: "tlsf \<Rightarrow> u64 \<Rightarrow> u64 \<Rightarrow> (u64 \<times> tlsf) option" where
  "block_absorb s prev b = do {
     tlsf_assert (\<not> block_is_last s prev);
     let s = set_size s prev (get_size s prev + (block_size s b + block_header_overhead));
     (next, s) \<leftarrow> block_link_next s prev;
     Some (prev, s) }"

definition block_merge_prev :: "tlsf \<Rightarrow> u64 \<Rightarrow> (u64 \<times> tlsf) option" where
  "block_merge_prev s b =
     (if block_is_prev_free s b then do {
        prev \<leftarrow> block_prev s b;
        tlsf_assert (prev \<noteq> 0);
        tlsf_assert (block_is_free s prev);
        s \<leftarrow> block_remove s prev;
        block_absorb s prev b }
      else Some (b, s))"

definition block_merge_next :: "tlsf \<Rightarrow> u64 \<Rightarrow> (u64 \<times> tlsf) option" where
  "block_merge_next s b = do {
     next \<leftarrow> block_next s b;
     tlsf_assert (next \<noteq> 0);
     if block_is_free s next then do {
       tlsf_assert (\<not> block_is_last s b);
       s \<leftarrow> block_remove s next;
       block_absorb s b next }
     else Some (b, s) }"

definition block_trim_free :: "tlsf \<Rightarrow> u64 \<Rightarrow> u64 \<Rightarrow> tlsf option" where
  "block_trim_free s b sz = do {
     tlsf_assert (block_is_free s b);
     if block_can_split s b sz then do {
       (remaining, s) \<leftarrow> block_split s b sz;
       (next, s) \<leftarrow> block_link_next s b;
       let s = block_set_prev_free s remaining;
       block_insert s remaining }
     else Some s }"

definition block_trim_used :: "tlsf \<Rightarrow> u64 \<Rightarrow> u64 \<Rightarrow> tlsf option" where
  "block_trim_used s b sz = do {
     tlsf_assert (\<not> block_is_free s b);
     if block_can_split s b sz then do {
       (remaining, s) \<leftarrow> block_split s b sz;
       let s = block_set_prev_used s remaining;
       (remaining, s) \<leftarrow> block_merge_next s remaining;
       block_insert s remaining }
     else Some s }"

definition block_trim_free_leading :: "tlsf \<Rightarrow> u64 \<Rightarrow> u64 \<Rightarrow> (u64 \<times> tlsf) option" where
  "block_trim_free_leading s b sz =
     (if block_can_split s b sz then do {
        (remaining, s) \<leftarrow> block_split s b (sz - block_header_overhead);
        let s = block_set_prev_free s remaining;
        (next, s) \<leftarrow> block_link_next s b;
        s \<leftarrow> block_insert s b;
        Some (remaining, s) }
      else Some (b, s))"

definition block_locate_free :: "tlsf \<Rightarrow> u64 \<Rightarrow> (u64 \<times> tlsf) option" where
  "block_locate_free s sz = do {
     (b, fl, sl) \<leftarrow>
       (if sz \<noteq> 0 then
          (let (fl, sl) = mapping_search sz
           in if fl < FL_INDEX_COUNT then search_suitable_block s fl sl else Some (0, fl, sl))
        else Some (0, 0, 0));
     if b \<noteq> 0 then do {
       tlsf_assert (block_size s b \<ge> sz);
       s \<leftarrow> remove_free_block s b fl sl;
       Some (b, s) }
     else Some (b, s) }"

definition block_prepare_used :: "tlsf \<Rightarrow> u64 \<Rightarrow> u64 \<Rightarrow> (u64 \<times> tlsf) option" where
  "block_prepare_used s b sz =
     (if b \<noteq> 0 then do {
        tlsf_assert (sz \<noteq> 0);
        s \<leftarrow> block_trim_free s b sz;
        s \<leftarrow> block_mark_as_used s b;
        Some (block_to_ptr b, s) }
      else Some (0, s))"

section \<open>Pools\<close>

definition control_construct :: "tlsf \<Rightarrow> tlsf" where
  "control_construct s =
     (let s = set_next_free s (control s) (control s);
          s = set_prev_free s (control s) (control s)
      in s\<lparr>fl_bitmap := 0, sl_bitmap := (\<lambda>i. if i < FL_INDEX_COUNT then 0 else sl_bitmap s i),
           blocks := (\<lambda>i j. if i < FL_INDEX_COUNT \<and> j < SL_INDEX_COUNT then control s else blocks s i j)\<rparr>)"

text \<open>\<^verbatim>\<open>sizeof(control_t)\<close>: the null block, 26 bitmaps of 4 bytes and 25 times 32 heads.\<close>

definition tlsf_size :: u64 where
  "tlsf_size = 32 + 4 + 4 * 25 + 8 * 25 * 32"

definition tlsf_pool_overhead :: u64 where
  "tlsf_pool_overhead = 2 * block_header_overhead"

definition tlsf_align_size :: u64 where
  "tlsf_align_size = ALIGN_SIZE"

definition tlsf_block_size_min :: u64 where
  "tlsf_block_size_min = block_size_min"

definition tlsf_block_size_max :: u64 where
  "tlsf_block_size_max = block_size_max"

definition tlsf_alloc_overhead :: u64 where
  "tlsf_alloc_overhead = block_header_overhead"

definition tlsf_add_pool :: "tlsf \<Rightarrow> u64 \<Rightarrow> u64 \<Rightarrow> (u64 \<times> tlsf) option" where
  "tlsf_add_pool s mm bytes = do {
     let pool_overhead = tlsf_pool_overhead;
     pool_bytes \<leftarrow> align_down (bytes - pool_overhead) ALIGN_SIZE;
     if mm mod ALIGN_SIZE \<noteq> 0 then Some (0, s)
     else if pool_bytes < block_size_min \<or> pool_bytes > block_size_max then Some (0, s)
     else do {
       let b = offset_to_block mm (- block_header_overhead);
       let s = block_set_size s b pool_bytes;
       let s = block_set_free s b;
       let s = block_set_prev_used s b;
       s \<leftarrow> block_insert s b;
       (next, s) \<leftarrow> block_link_next s b;
       let s = block_set_size s next 0;
       let s = block_set_used s next;
       Some (mm, block_set_prev_free s next) } }"

definition tlsf_remove_pool :: "tlsf \<Rightarrow> u64 \<Rightarrow> tlsf option" where
  "tlsf_remove_pool s pool = do {
     let b = offset_to_block pool (- block_header_overhead);
     tlsf_assert (block_is_free s b);
     next \<leftarrow> block_next s b;
     tlsf_assert (\<not> block_is_free s next);
     tlsf_assert (block_size s next = 0);
     let (fl, sl) = mapping_insert (block_size s b);
     remove_free_block s b fl sl }"

text \<open>\<^verbatim>\<open>tlsf_create\<close> works at the address \<open>control s\<close>; the result is the handle, 0 on failure.\<close>

definition tlsf_create :: "tlsf \<Rightarrow> u64 \<times> tlsf" where
  "tlsf_create s = (if control s mod ALIGN_SIZE \<noteq> 0 then (0, s) else (control s, control_construct s))"

definition tlsf_create_with_pool :: "tlsf \<Rightarrow> u64 \<Rightarrow> (u64 \<times> tlsf) option" where
  "tlsf_create_with_pool s bytes = do {
     let (tl, s) = tlsf_create s;
     (pool, s) \<leftarrow> tlsf_add_pool s (control s + tlsf_size) (bytes - tlsf_size);
     Some (tl, s) }"

definition tlsf_get_pool :: "tlsf \<Rightarrow> u64" where
  "tlsf_get_pool s = control s + tlsf_size"

section \<open>Allocation\<close>

definition tlsf_malloc :: "tlsf \<Rightarrow> u64 \<Rightarrow> (u64 \<times> tlsf) option" where
  "tlsf_malloc s sz = do {
     adjust \<leftarrow> adjust_request_size sz ALIGN_SIZE;
     (b, s) \<leftarrow> block_locate_free s adjust;
     block_prepare_used s b adjust }"

definition tlsf_memalign :: "tlsf \<Rightarrow> u64 \<Rightarrow> u64 \<Rightarrow> (u64 \<times> tlsf) option" where
  "tlsf_memalign s align sz = do {
     adjust \<leftarrow> adjust_request_size sz ALIGN_SIZE;
     let gap_minimum = sizeof_block_header;
     size_with_gap \<leftarrow> adjust_request_size (adjust + align + gap_minimum) align;
     let aligned_size = (if adjust \<noteq> 0 \<and> align > ALIGN_SIZE then size_with_gap else adjust);
     (b, s) \<leftarrow> block_locate_free s aligned_size;
     (b, s) \<leftarrow>
       (if b \<noteq> 0 then do {
          let p = block_to_ptr b;
          aligned \<leftarrow> align_ptr p align;
          let gap = aligned - p;
          gap \<leftarrow>
            (if gap \<noteq> 0 \<and> gap < gap_minimum then do {
               let gap_remain = gap_minimum - gap;
               let offset = (if gap_remain > align then gap_remain else align);
               aligned \<leftarrow> align_ptr (aligned + offset) align;
               Some (aligned - p) }
             else Some gap);
          if gap \<noteq> 0 then do {
            tlsf_assert (gap \<ge> gap_minimum);
            block_trim_free_leading s b gap }
          else Some (b, s) }
        else Some (b, s));
     block_prepare_used s b adjust }"

definition tlsf_free :: "tlsf \<Rightarrow> u64 \<Rightarrow> tlsf option" where
  "tlsf_free s p =
     (if p \<noteq> 0 then do {
        let b = block_from_ptr p;
        tlsf_assert (\<not> block_is_free s b);
        s \<leftarrow> block_mark_as_free s b;
        (b, s) \<leftarrow> block_merge_prev s b;
        (b, s) \<leftarrow> block_merge_next s b;
        block_insert s b }
      else Some s)"

definition tlsf_realloc :: "tlsf \<Rightarrow> u64 \<Rightarrow> u64 \<Rightarrow> (u64 \<times> tlsf) option" where
  "tlsf_realloc s p sz =
     (if p \<noteq> 0 \<and> sz = 0 then do { s \<leftarrow> tlsf_free s p; Some (0, s) }
      else if p = 0 then tlsf_malloc s sz
      else do {
        let b = block_from_ptr p;
        next \<leftarrow> block_next s b;
        let cursize = block_size s b;
        let combined = cursize + block_size s next + block_header_overhead;
        adjust \<leftarrow> adjust_request_size sz ALIGN_SIZE;
        tlsf_assert (\<not> block_is_free s b);
        if adjust > cursize \<and> (\<not> block_is_free s next \<or> adjust > combined) then do {
          (q, s) \<leftarrow> tlsf_malloc s sz;
          if q \<noteq> 0 then do {
            let minsize = (if cursize < sz then cursize else sz);
            let s = s\<lparr>mem := memcpy (mem s) q p minsize\<rparr>;
            s \<leftarrow> tlsf_free s p;
            Some (q, s) }
          else Some (q, s) }
        else do {
          s \<leftarrow> (if adjust > cursize then do {
                  (b', s) \<leftarrow> block_merge_next s b;
                  block_mark_as_used s b }
                else Some s);
          s \<leftarrow> block_trim_used s b adjust;
          Some (p, s) } })"

definition tlsf_block_size :: "tlsf \<Rightarrow> u64 \<Rightarrow> u64" where
  "tlsf_block_size s p = (if p \<noteq> 0 then block_size s (block_from_ptr p) else 0)"

section \<open>Walks and checks\<close>

text \<open>A walker gets the payload, its size, whether it is used, and the state it accumulates.\<close>

partial_function (option) walk_loop ::
  "tlsf \<Rightarrow> (u64 \<Rightarrow> u64 \<Rightarrow> bool \<Rightarrow> 'a \<Rightarrow> 'a option) \<Rightarrow> u64 \<Rightarrow> 'a \<Rightarrow> 'a option" where
  "walk_loop s walker b user =
     (if b \<noteq> 0 \<and> \<not> block_is_last s b then
        Option.bind (walker (block_to_ptr b) (block_size s b) (\<not> block_is_free s b) user) (\<lambda>user.
        Option.bind (block_next s b) (\<lambda>b. walk_loop s walker b user))
      else Some user)"

definition tlsf_walk_pool ::
  "tlsf \<Rightarrow> u64 \<Rightarrow> (u64 \<Rightarrow> u64 \<Rightarrow> bool \<Rightarrow> 'a \<Rightarrow> 'a option) \<Rightarrow> 'a \<Rightarrow> 'a option" where
  "tlsf_walk_pool s pool walker user = walk_loop s walker (offset_to_block pool (- block_header_overhead)) user"

record integrity_t =
  prev_status :: int
  status :: int

text \<open>\<^verbatim>\<open>tlsf_insist\<close> asserts first, so the status is only decremented where assertions are compiled out.\<close>

definition integrity_walker :: "tlsf \<Rightarrow> u64 \<Rightarrow> u64 \<Rightarrow> bool \<Rightarrow> integrity_t \<Rightarrow> integrity_t option" where
  "integrity_walker s p sz used integ = do {
     let b = block_from_ptr p;
     let this_prev_status = (if block_is_prev_free s b then 1 else 0);
     let this_status = (if block_is_free s b then 1 else 0);
     tlsf_assert (prev_status integ = this_prev_status);
     tlsf_assert (sz = block_size s b);
     Some (integ\<lparr>prev_status := this_status\<rparr>) }"

definition tlsf_check_pool :: "tlsf \<Rightarrow> u64 \<Rightarrow> int option" where
  "tlsf_check_pool s pool = do {
     integ \<leftarrow> tlsf_walk_pool s pool (integrity_walker s) \<lparr>prev_status = 0, status = 0\<rparr>;
     Some (status integ) }"

partial_function (option) check_list :: "tlsf \<Rightarrow> nat \<Rightarrow> nat \<Rightarrow> u64 \<Rightarrow> unit option" where
  "check_list s i j b =
     (if b \<noteq> control s then
        Option.bind (tlsf_assert (block_is_free s b)) (\<lambda>_.
        Option.bind (tlsf_assert (\<not> block_is_prev_free s b)) (\<lambda>_.
        Option.bind (block_next s b) (\<lambda>next.
        Option.bind (tlsf_assert (\<not> block_is_free s next)) (\<lambda>_.
        Option.bind (tlsf_assert (block_is_prev_free s next)) (\<lambda>_.
        Option.bind (tlsf_assert (block_size s b \<ge> block_size_min)) (\<lambda>_.
        Option.bind (tlsf_assert (mapping_insert (block_size s b) = (i, j))) (\<lambda>_.
        check_list s i j (get_next_free s b))))))))
      else Some ())"

definition check_cell :: "tlsf \<Rightarrow> nat \<Rightarrow> nat \<Rightarrow> unit option" where
  "check_cell s i j = do {
     let fl_map = fl_bitmap s AND push_bit i 1;
     let sl_list = sl_bitmap s i;
     let sl_map = sl_list AND push_bit j 1;
     let b = blocks s i j;
     (if fl_map = 0 then tlsf_assert (sl_map = 0) else Some ());
     if sl_map = 0 then tlsf_assert (b = control s)
     else do {
       tlsf_assert (sl_list \<noteq> 0);
       tlsf_assert (b \<noteq> control s);
       check_list s i j b } }"

primrec check_all :: "(nat \<times> nat) list \<Rightarrow> tlsf \<Rightarrow> unit option" where
  "check_all [] s = Some ()"
| "check_all (ij # ijs) s = do { check_cell s (fst ij) (snd ij); check_all ijs s }"

definition tlsf_check :: "tlsf \<Rightarrow> int option" where
  "tlsf_check s = do {
     check_all (List.product [0..<FL_INDEX_COUNT] [0..<SL_INDEX_COUNT]) s;
     Some 0 }"

section \<open>The kernel heap\<close>

definition malloc :: "tlsf \<Rightarrow> u64 \<Rightarrow> (u64 \<times> tlsf) option" where
  "malloc s sz = tlsf_malloc s sz"

definition calloc :: "tlsf \<Rightarrow> u64 \<Rightarrow> u64 \<Rightarrow> (u64 \<times> tlsf) option" where
  "calloc s n sz = do {
     (p, s) \<leftarrow> tlsf_malloc s (n * sz);
     Some (p, if p \<noteq> 0 then s\<lparr>mem := memset (mem s) p 0 (n * sz)\<rparr> else s) }"

definition realloc :: "tlsf \<Rightarrow> u64 \<Rightarrow> u64 \<Rightarrow> (u64 \<times> tlsf) option" where
  "realloc s p sz = tlsf_realloc s p sz"

definition free :: "tlsf \<Rightarrow> u64 \<Rightarrow> tlsf option" where
  "free s p = tlsf_free s p"

declare walk_loop.simps [code] check_list.simps [code]

end
