(* ===== verification/Tlsf_Mapping.thy ===== *)
theory Tlsf_Mapping
  imports Tlsf
begin

text \<open>
  The bit scans and the size classes of the allocator: every size below 4 GiB falls into one of the
  25 times 32 classes, the class of a size is monotone, and every block of a class at or above the one
  that a search starts from is large enough for the request.
\<close>

section \<open>Bit scans\<close>

lemma find_upt_bit: "List.find P [0..<n] = Some i \<longleftrightarrow> i < n \<and> P i \<and> (\<forall>j<i. \<not> P j)"
proof -
  have "List.find P [0..<n] = Some i \<longleftrightarrow> (\<exists>k<n. P k \<and> i = k \<and> (\<forall>j<k. \<not> P j))"
    by (auto simp: find_Some_iff)
  then show ?thesis by auto
qed

lemma find_rev_upt: "List.find P (rev [0..<n]) = Some i \<longleftrightarrow> i < n \<and> P i \<and> (\<forall>j<n. i < j \<longrightarrow> \<not> P j)"
proof (induction n)
  case (Suc n)
  show ?case
  proof (cases "P n")
    case True
    then show ?thesis by (auto simp: less_Suc_eq)
  next
    case False
    then show ?thesis using Suc by (auto simp: less_Suc_eq)
  qed
qed simp

lemma word_nonzero_bit: "w \<noteq> 0 \<longleftrightarrow> (\<exists>i<LENGTH('a). bit w i)" for w :: "'a::len word"
  by (metis bit_0_eq bit_eqI bit_imp_possible_bit bot_apply bot_bool_def possible_bit_word)

lemma tlsf_ffs_spec:
  assumes "w \<noteq> 0"
  shows "\<exists>i<32. tlsf_ffs w = int i \<and> bit w i \<and> (\<forall>j<i. \<not> bit w j)"
proof -
  obtain k where "k < 32" "bit w k" using assms by (auto simp: word_nonzero_bit)
  then have "List.find (bit w) [0..<32] \<noteq> None" by (auto simp: find_None_iff)
  then obtain i where i: "List.find (bit w) [0..<32] = Some i" by blast
  then have "i < 32 \<and> bit w i \<and> (\<forall>j<i. \<not> bit w j)" using find_upt_bit by metis
  then show ?thesis using i by (intro exI [of _ i]) (simp add: tlsf_ffs_def builtin_ffs_def)
qed

lemma tlsf_fls_spec:
  assumes "w \<noteq> 0"
  shows "\<exists>i<32. tlsf_fls w = int i \<and> bit w i \<and> (\<forall>j<32. i < j \<longrightarrow> \<not> bit w j)"
proof -
  obtain k where "k < 32" "bit w k" using assms by (auto simp: word_nonzero_bit)
  then have "List.find (bit w) (rev [0..<32]) \<noteq> None" by (auto simp: find_None_iff)
  then obtain i where i: "List.find (bit w) (rev [0..<32]) = Some i" by blast
  then have "i < 32 \<and> bit w i \<and> (\<forall>j<32. i < j \<longrightarrow> \<not> bit w j)" using find_rev_upt by metis
  then show ?thesis using i assms by (intro exI [of _ i]) (simp add: tlsf_fls_def builtin_clz_def)
qed

lemma unat_top_bit:
  fixes w :: "'a::len word"
  assumes "bit w i" "\<forall>j<LENGTH('a). i < j \<longrightarrow> \<not> bit w j"
  shows "2 ^ i \<le> unat w" "unat w < 2 ^ (i + 1)"
proof -
  have b: "bit (unat w) j \<longleftrightarrow> bit w j" for j by (simp add: bit_unsigned_iff)
  then have "bit (unat w) i" using assms(1) by simp
  then show "2 ^ i \<le> unat w" by (metis bit_iff_odd div_less even_zero not_less)
  have "n < i + 1" if "bit (unat w) n" for n
    using assms(2) b that bit_imp_possible_bit [of w n] by (auto simp: possible_bit_word not_less_eq)
  then have "unat w = take_bit (i + 1) (unat w)" by (intro bit_eqI) (auto simp: bit_take_bit_iff)
  then show "unat w < 2 ^ (i + 1)" by (metis take_bit_nat_less_exp)
qed

lemma power_range_unique:
  assumes "2 ^ i \<le> n" "n < 2 ^ (i + 1)" "2 ^ j \<le> n" "n < (2 :: nat) ^ (j + 1)"
  shows "i = j"
proof -
  have "(2 :: nat) ^ i < 2 ^ (j + 1)" "(2 :: nat) ^ j < 2 ^ (i + 1)" using assms by linarith+
  then have "i < j + 1" "j < i + 1" by (meson power_strict_increasing_iff one_less_numeral_iff semiring_norm(76))+
  then show ?thesis by simp
qed

lemma tlsf_fls_sizet_spec:
  assumes "sz \<noteq> 0"
  shows "\<exists>k<64. tlsf_fls_sizet sz = int k \<and> 2 ^ k \<le> unat sz \<and> unat sz < 2 ^ (k + 1)"
proof (cases "ucast (drop_bit 32 sz) = (0 :: u32)")
  case False
  obtain i where i: "i < 32" "tlsf_fls (ucast (drop_bit 32 sz)) = int i" "bit (ucast (drop_bit 32 sz) :: u32) i"
    "\<forall>j<32. i < j \<longrightarrow> \<not> bit (ucast (drop_bit 32 sz) :: u32) j"
    using tlsf_fls_spec [OF False] by blast
  have "bit sz (32 + i)" using i(3) by (simp add: bit_unsigned_iff bit_drop_bit_eq)
  moreover have "\<not> bit sz j" if "j < 64" "32 + i < j" for j
    using i(4) [rule_format, of "j - 32"] that by (auto simp: bit_unsigned_iff bit_drop_bit_eq)
  ultimately have "2 ^ (32 + i) \<le> unat sz" "unat sz < 2 ^ (32 + i + 1)" using unat_top_bit [of sz "32 + i"] by auto
  then show ?thesis using False i(1,2) by (intro exI [of _ "32 + i"]) (simp add: tlsf_fls_sizet_def)
next
  case True
  have hi: "\<not> bit sz j" if "32 \<le> j" "j < 64" for j
  proof -
    have "\<not> bit (ucast (drop_bit 32 sz) :: u32) (j - 32)" using True by simp
    then show ?thesis using that by (simp add: bit_unsigned_iff bit_drop_bit_eq)
  qed
  let ?w = "ucast sz AND 0xffffffff :: u32"
  have w: "bit ?w j \<longleftrightarrow> j < 32 \<and> bit sz j" for j
    by (auto simp: bit_and_iff bit_unsigned_iff bit_FFFFFFFF simp del: bit_numeral_word_iff)
  obtain k where "k < 64" "bit sz k" using assms by (auto simp: word_nonzero_bit)
  then have "bit ?w k" using w hi by (metis not_less)
  then have "?w \<noteq> 0" by (metis bit_0_eq bot_apply bot_bool_def)
  from tlsf_fls_spec [OF this] obtain i where i: "i < 32" "tlsf_fls ?w = int i" "bit ?w i" "\<forall>j<32. i < j \<longrightarrow> \<not> bit ?w j"
    by blast
  have "bit sz i" using i(3) w by blast
  moreover have "\<not> bit sz j" if "j < 64" "i < j" for j using i(4) w hi that by (metis not_less)
  ultimately have "2 ^ i \<le> unat sz" "unat sz < 2 ^ (i + 1)" using unat_top_bit [of sz i] by auto
  then show ?thesis using True i(1,2) by (intro exI [of _ i]) (simp add: tlsf_fls_sizet_def)
qed

section \<open>Size classes\<close>

text \<open>The class of a size, and the least size and the width of a class.\<close>

definition size_class :: "nat \<Rightarrow> nat \<times> nat" where
  "size_class sz = mapping_insert (of_nat sz)"

definition class_min :: "nat \<Rightarrow> nat \<Rightarrow> nat" where
  "class_min fl sl = (if fl = 0 then 8 * sl else (32 + sl) * 2 ^ (fl + 2))"

definition class_width :: "nat \<Rightarrow> nat" where
  "class_width fl = (if fl = 0 then 8 else 2 ^ (fl + 2))"

lemmas tlsf_consts = SL_INDEX_COUNT_LOG2_def ALIGN_SIZE_LOG2_def ALIGN_SIZE_def FL_INDEX_MAX_def SL_INDEX_COUNT_def
  FL_INDEX_SHIFT_def FL_INDEX_COUNT_def SMALL_BLOCK_SIZE_def block_size_min_def block_size_max_def sizeof_block_header_def
  block_header_free_bit_def block_header_prev_free_bit_def block_header_overhead_def block_start_offset_def

lemma xor_32:
  fixes x :: u32
  assumes "32 \<le> unat x" "unat x < 64"
  shows "unat (x XOR 32) = unat x - 32"
proof -
  have b: "bit x n \<longleftrightarrow> odd (unat x div 2 ^ n)" for n
    by (metis bit_iff_odd bit_unsigned_iff bit_imp_possible_bit possible_bit_nat)
  have "unat x div 32 = 1" using assms by linarith
  then have b5: "bit x 5" using b [of 5] by simp
  have bh: "\<not> bit x n" if "5 < n" for n
  proof -
    have "(2 :: nat) ^ 6 \<le> 2 ^ n" using that by (intro power_increasing) auto
    then have "unat x div 2 ^ n = 0" using assms(2) by simp
    then show ?thesis using b by simp
  qed
  have "x XOR 32 = take_bit 5 x"
  proof (rule bit_eqI)
    fix n assume "possible_bit TYPE(u32) n"
    have "(32 :: u32) = push_bit 5 1" by simp
    then have "bit (32 :: u32) n \<longleftrightarrow> n = 5" by (simp only: bit_push_bit_iff bit_1_iff) (auto simp: possible_bit_word)
    then show "bit (x XOR 32) n = bit (take_bit 5 x) n"
      using b5 bh [of n] by (cases n "5 :: nat" rule: linorder_cases) (auto simp: bit_xor_iff bit_take_bit_iff)
  qed
  then have "unat (x XOR 32) = unat x mod 32" by (simp only: unsigned_take_bit_eq) (simp add: take_bit_eq_mod)
  then show ?thesis using assms by (simp add: mod_if)
qed

lemma size_class_small: "sz < 256 \<Longrightarrow> size_class sz = (0, sz div 8)"
  by (simp add: size_class_def mapping_insert_def tlsf_consts word_less_nat_alt unat_of_nat_u64 unat_div)

lemma size_class_large:
  assumes "2 ^ k \<le> sz" "sz < 2 ^ (k + 1)" "8 \<le> k" "k < 63"
  shows "size_class sz = (k - 7, sz div 2 ^ (k - 5) - 32)" "32 \<le> sz div 2 ^ (k - 5)" "sz div 2 ^ (k - 5) < 64"
proof -
  have p: "(2 :: nat) ^ k = 32 * 2 ^ (k - 5)"
    using power_add [of "2 :: nat" 5 "k - 5"] assms(3) by simp
  have "(2 :: nat) ^ (k + 1) \<le> 2 ^ 63" using assms(4) by (intro power_increasing) auto
  then have sz: "unat (of_nat sz :: u64) = sz" using assms(2) by (intro unat_of_nat_u64) simp
  show lo: "32 \<le> sz div 2 ^ (k - 5)" using assms(1) p by (simp add: less_eq_div_iff_mult_less_eq)
  show hi: "sz div 2 ^ (k - 5) < 64" using assms(2) p by (simp add: less_mult_imp_div_less)
  have "(2 :: nat) ^ 8 \<le> 2 ^ k" using assms(3) by (intro power_increasing) auto
  then have big: "256 \<le> sz" using assms(1) by simp
  then have "(of_nat sz :: u64) \<noteq> 0" using sz by force
  from tlsf_fls_sizet_spec [OF this] obtain j where j: "tlsf_fls_sizet (of_nat sz) = int j" "2 ^ j \<le> sz" "sz < 2 ^ (j + 1)"
    using sz by auto
  have "j = k" by (rule power_range_unique [OF j(2,3) assms(1,2)])
  then have f: "nat (tlsf_fls_sizet (of_nat sz)) = k" using j(1) by simp
  let ?x = "ucast (drop_bit (k - 5) (of_nat sz :: u64)) :: u32"
  have "unat ?x = take_bit 32 (drop_bit (k - 5) (unat (of_nat sz :: u64)))"
    by (simp only: unsigned_ucast_eq unat_drop_bit_eq) simp
  then have "unat ?x = sz div 2 ^ (k - 5)" using sz hi by (simp add: drop_bit_eq_div take_bit_nat_eq_self)
  then have "unat (?x XOR 32) = sz div 2 ^ (k - 5) - 32" using xor_32 [of ?x] lo hi by simp
  then show "size_class sz = (k - 7, sz div 2 ^ (k - 5) - 32)"
    using big sz f by (simp add: size_class_def mapping_insert_def tlsf_consts word_less_nat_alt Let_def)
qed

lemma power_range_exists: "0 < n \<Longrightarrow> \<exists>k. 2 ^ k \<le> n \<and> n < (2 :: nat) ^ (k + 1)"
  using ex_power_ivl1 [of 2 n] by auto

lemma size_class_bounds:
  assumes "size_class sz = (fl, sl)" "sz < 2 ^ 63"
  shows "sl < 32" "class_min fl sl \<le> sz" "sz < class_min fl sl + class_width fl"
    "sz < 2 ^ 32 \<Longrightarrow> fl < 25"
proof -
  consider "sz < 256" | k where "2 ^ k \<le> sz" "sz < 2 ^ (k + 1)" "8 \<le> k" "k < 63"
  proof (cases "sz < 256")
    case False
    then obtain k where k: "2 ^ k \<le> sz" "sz < 2 ^ (k + 1)" using power_range_exists [of sz] by auto
    have "(2 :: nat) ^ 8 < 2 ^ (k + 1)" "(2 :: nat) ^ k < 2 ^ 63" using k assms(2) False by simp_all
    then have "8 < k + 1" "k < 63" by (meson power_strict_increasing_iff one_less_numeral_iff semiring_norm(76))+
    then show ?thesis using k that(2) by auto
  qed (use that in auto)
  then have "sl < 32 \<and> class_min fl sl \<le> sz \<and> sz < class_min fl sl + class_width fl \<and> (sz < 2 ^ 32 \<longrightarrow> fl < 25)"
  proof cases
    case 1
    then show ?thesis using assms(1) by (auto simp: size_class_small class_min_def class_width_def)
  next
    case 2
    note c = size_class_large [OF 2]
    have fl: "fl = k - 7" "sl = sz div 2 ^ (k - 5) - 32" using c(1) assms(1) by simp_all
    have e: "fl + 2 = k - 5" "fl \<noteq> 0" using fl 2(3) by auto
    have "class_min fl sl = (32 + sl) * 2 ^ (k - 5)" "class_width fl = 2 ^ (k - 5)"
      using e by (simp_all add: class_min_def class_width_def del: power_Suc add_2_eq_Suc')
    moreover have "32 + sl = sz div 2 ^ (k - 5)" using fl c(2) by simp
    moreover have "0 < (2 :: nat) ^ (k - 5)" by simp
    then have "sz div 2 ^ (k - 5) * 2 ^ (k - 5) \<le> sz" "sz < sz div 2 ^ (k - 5) * 2 ^ (k - 5) + 2 ^ (k - 5)"
      using div_mult_mod_eq [of sz "2 ^ (k - 5)"] mod_less_divisor [of "2 ^ (k - 5)" sz] by linarith+
    moreover have "sl < 32" using fl c(2,3) by linarith
    moreover have "sz < 2 ^ 32 \<longrightarrow> fl < 25"
    proof
      assume "sz < 2 ^ 32"
      then have "(2 :: nat) ^ k < 2 ^ 32" using 2(1) by linarith
      then have "k < 32" by (meson power_strict_increasing_iff one_less_numeral_iff semiring_norm(76))
      then show "fl < 25" using fl by simp
    qed
    ultimately show ?thesis by simp
  qed
  then show "sl < 32" "class_min fl sl \<le> sz" "sz < class_min fl sl + class_width fl" "sz < 2 ^ 32 \<Longrightarrow> fl < 25"
    by auto
qed

lemma class_min_less:
  assumes "fl < fl'" "sl < 32"
  shows "class_min fl sl + class_width fl \<le> class_min fl' sl'"
proof -
  have "(2 :: nat) ^ (fl + 3) \<le> 2 ^ (fl' + 2)" using assms(1) by (intro power_increasing) auto
  then have "32 * (2 :: nat) ^ (fl + 3) \<le> (32 + sl') * 2 ^ (fl' + 2)" by (intro mult_le_mono) auto
  then have a: "32 * 2 ^ (fl + 3) \<le> class_min fl' sl'" using assms(1) by (simp only: class_min_def) auto
  show ?thesis
  proof (cases "fl = 0")
    case True
    then show ?thesis using a assms(2) by (simp add: class_min_def class_width_def)
  next
    case False
    have "(33 + sl) * 2 ^ (fl + 2) \<le> 64 * 2 ^ (fl + 2)" using assms(2) by (intro mult_le_mono1) simp
    moreover have "class_min fl sl + class_width fl = (33 + sl) * 2 ^ (fl + 2)"
      using False by (simp add: class_min_def class_width_def algebra_simps)
    moreover have "64 * 2 ^ (fl + 2) = 32 * (2 :: nat) ^ (fl + 3)" by (simp add: power_add)
    ultimately show ?thesis using a by linarith
  qed
qed

lemma class_min_mono_sl: "sl \<le> sl' \<Longrightarrow> class_min fl sl \<le> class_min fl sl'"
  by (simp add: class_min_def)

text \<open>The order in which the search goes through the classes.\<close>

definition class_le :: "nat \<times> nat \<Rightarrow> nat \<times> nat \<Rightarrow> bool" where
  "class_le c d \<longleftrightarrow> fst c < fst d \<or> fst c = fst d \<and> snd c \<le> snd d"

lemma class_le_min:
  assumes "class_le (fl, sl) (fl', sl')" "sl < 32"
  shows "class_min fl sl \<le> class_min fl' sl'"
  using assms class_min_less [of fl fl' sl sl'] class_min_mono_sl [of sl sl' fl] by (auto simp: class_le_def)

lemma class_not_le_min:
  assumes "\<not> class_le (fl, sl) (fl', sl')" "sl' < 32"
  shows "class_min fl' sl' + class_width fl' \<le> class_min fl sl"
proof (cases "fl' < fl")
  case True
  then show ?thesis using class_min_less [OF True assms(2)] by simp
next
  case False
  then have "fl' = fl" "sl' < sl" using assms(1) by (auto simp: class_le_def)
  moreover from \<open>sl' < sl\<close> have "(32 + sl') * 2 ^ (fl + 2) + 2 ^ (fl + 2) \<le> (32 + sl) * (2 :: nat) ^ (fl + 2)"
    using mult_le_mono1 [of "Suc (32 + sl')" "32 + sl" "2 ^ (fl + 2)"] by (simp only: mult_Suc add.commute)
  ultimately show ?thesis by (simp add: class_min_def class_width_def)
qed

lemma size_class_mono:
  assumes "sz \<le> sz'" "sz' < 2 ^ 63"
  shows "class_le (size_class sz) (size_class sz')"
proof (rule ccontr)
  assume "\<not> class_le (size_class sz) (size_class sz')"
  moreover obtain fl sl fl' sl' where c: "size_class sz = (fl, sl)" "size_class sz' = (fl', sl')" by (metis surj_pair)
  ultimately have "class_min fl' sl' + class_width fl' \<le> class_min fl sl"
    using size_class_bounds(1) [OF c(2) assms(2)] by (intro class_not_le_min) auto
  then show False using size_class_bounds [OF c(1)] size_class_bounds [OF c(2)] assms by simp
qed

definition search_class :: "nat \<Rightarrow> nat \<times> nat" where
  "search_class n = mapping_search (of_nat n)"

lemma search_class_small: "n < 256 \<Longrightarrow> search_class n = size_class n"
  by (simp add: search_class_def mapping_search_def size_class_def tlsf_consts word_le_nat_alt unat_of_nat_u64)

lemma scast_mask: "j \<le> 31 \<Longrightarrow> (scast (push_bit j 1 - 1 :: u32) :: u64) = of_nat (2 ^ j - 1)"
proof -
  assume j: "j \<le> 31"
  have "scast (mask j :: u32) = (mask j :: u64)"
    using j by (intro bit_eqI) (auto simp: bit_signed_iff bit_mask_iff possible_bit_word)
  then show ?thesis by (simp add: mask_eq_exp_minus_1 push_bit_eq_mult of_nat_diff)
qed

lemma search_class_large:
  assumes "2 ^ k \<le> n" "n < 2 ^ (k + 1)" "8 \<le> k" "k < 32"
  shows "search_class n = size_class (n + (2 ^ (k - 5) - 1))"
proof -
  have "(2 :: nat) ^ (k + 1) \<le> 2 ^ 32" using assms(4) by (intro power_increasing) auto
  then have sz: "unat (of_nat n :: u64) = n" using assms(2) by (intro unat_of_nat_u64) simp
  have "(2 :: nat) ^ 8 \<le> 2 ^ k" using assms(3) by (intro power_increasing) auto
  then have big: "256 \<le> n" using assms(1) by simp
  then have "(of_nat n :: u64) \<noteq> 0" using sz by force
  from tlsf_fls_sizet_spec [OF this] obtain j where j: "tlsf_fls_sizet (of_nat n) = int j" "2 ^ j \<le> n" "n < 2 ^ (j + 1)"
    using sz by auto
  have "j = k" by (rule power_range_unique [OF j(2,3) assms(1,2)])
  then have f: "nat (tlsf_fls_sizet (of_nat n)) = k" using j(1) by simp
  have m: "scast (push_bit (k - 5) 1 - 1 :: u32) = (of_nat (2 ^ (k - 5) - 1) :: u64)"
    using assms(4) by (intro scast_mask) simp
  have "SMALL_BLOCK_SIZE \<le> (of_nat n :: u64)" using big sz by (simp add: tlsf_consts word_le_nat_alt)
  then show ?thesis
    by (simp only: search_class_def mapping_search_def size_class_def f SL_INDEX_COUNT_LOG2_def m Let_def if_True of_nat_add)
qed

lemma request_cases:
  fixes n :: nat
  assumes "n < 2 ^ 32"
  obtains "n < 256" | k where "2 ^ k \<le> n" "n < 2 ^ (k + 1)" "8 \<le> k" "k < 32"
proof (cases "n < 256")
  case False
  then obtain k where k: "2 ^ k \<le> n" "n < 2 ^ (k + 1)" using power_range_exists [of n] by auto
  have "(2 :: nat) ^ 8 < 2 ^ (k + 1)" "(2 :: nat) ^ k < 2 ^ 32" using k assms False by simp_all
  then have "8 < k + 1" "k < 32" by (meson power_strict_increasing_iff one_less_numeral_iff semiring_norm(76))+
  then show ?thesis using k that(2) by auto
qed (use that in auto)

lemma search_class_fits:
  assumes "n < 2 ^ 32" "8 dvd n" "search_class n = (fl, sl)"
  shows "sl < 32" "n \<le> class_min fl sl"
proof -
  have "sl < 32 \<and> n \<le> class_min fl sl"
  proof (cases "n < 256")
    case True
    then show ?thesis using assms(2,3) by (auto simp: search_class_small size_class_small class_min_def)
  next
    case False
    obtain k where k: "2 ^ k \<le> n" "n < 2 ^ (k + 1)" "8 \<le> k" "k < 32" using request_cases [OF assms(1)] False by metis
    let ?r = "n + (2 ^ (k - 5) - 1)"
    have c: "size_class ?r = (fl, sl)" using search_class_large [OF k] assms(3) by simp
    have p: "(2 :: nat) ^ (k - 5) \<le> 2 ^ 26" using k(4) by (intro power_increasing) auto
    have r: "?r < 2 ^ 63" using assms(1) p by simp
    have "sl < 32" by (rule size_class_bounds(1) [OF c r])
    moreover have "n \<le> class_min fl sl"
    proof (cases "?r < 2 ^ (k + 1)")
      case True
      have rk: "2 ^ k \<le> ?r" using k(1) by (rule trans_le_add1)
      note l = size_class_large [OF rk True k(3)]
      have e: "fl = k - 7" "sl = ?r div 2 ^ (k - 5) - 32" "32 \<le> ?r div 2 ^ (k - 5)" using l c k(4) by simp_all
      have "fl + 2 = k - 5" "fl \<noteq> 0" using e(1) k(3) by auto
      then have "class_min fl sl = ?r div 2 ^ (k - 5) * 2 ^ (k - 5)"
        using e by (simp add: class_min_def del: power_Suc add_2_eq_Suc')
      moreover have "?r < ?r div 2 ^ (k - 5) * 2 ^ (k - 5) + 2 ^ (k - 5)"
        using dividend_less_div_times [of "2 ^ (k - 5)" ?r] by (simp only: add.commute) simp
      ultimately show ?thesis by linarith
    next
      case False
      have "class_le (size_class (2 ^ (k + 1))) (fl, sl)" using size_class_mono [OF _ r, of "2 ^ (k + 1)"] False c by simp
      moreover have "size_class (2 ^ (k + 1)) = (k - 6, 0)"
      proof -
        have "(2 :: nat) ^ (k + 1) div 2 ^ (k + 1 - 5) = 32"
          using k(3) power_diff [of "2 :: nat" "k + 1 - 5" "k + 1"] by simp
        then show ?thesis using size_class_large [of "k + 1" "2 ^ (k + 1)"] k(3,4) by simp
      qed
      ultimately have "class_min (k - 6) 0 \<le> class_min fl sl" using class_le_min [of "k - 6" 0 fl sl] by simp
      moreover have "class_min (k - 6) 0 = 2 ^ (k + 1)"
        using k(3) power_add [of "2 :: nat" 5 "k - 6 + 2"] by (simp add: class_min_def)
      ultimately show ?thesis using k(2) by simp
    qed
    ultimately show ?thesis by simp
  qed
  then show "sl < 32" "n \<le> class_min fl sl" by auto
qed

lemma search_class_suffices:
  assumes "n < 2 ^ 32" "8 dvd n" "class_le (search_class n) (size_class sz)" "sz < 2 ^ 32"
  shows "n \<le> sz"
proof -
  obtain fl sl fl' sl' where c: "search_class n = (fl, sl)" "size_class sz = (fl', sl')" by (metis surj_pair)
  have "class_min fl sl \<le> class_min fl' sl'"
    using assms(3) c search_class_fits(1) [OF assms(1,2) c(1)] by (intro class_le_min) auto
  then show ?thesis using search_class_fits(2) [OF assms(1,2) c(1)] size_class_bounds(2) [OF c(2)] assms(4) by simp
qed

lemma search_class_complete:
  assumes "n < 2 ^ 32" "n + n div 32 \<le> sz" "sz < 2 ^ 63"
  shows "class_le (search_class n) (size_class sz)"
  using assms(1)
proof (cases rule: request_cases)
  case 1
  then show ?thesis using size_class_mono [of n sz] assms by (simp add: search_class_small)
next
  case (2 k)
  have "(2 :: nat) ^ k = 2 ^ (k - 5) * 32" using 2(3) power_add [of "2 :: nat" "k - 5" 5] by simp
  then have "2 ^ (k - 5) \<le> n div 32" using 2(1) by simp
  then have "n + (2 ^ (k - 5) - 1) \<le> sz" using assms(2) by linarith
  then show ?thesis using size_class_mono [OF _ assms(3)] search_class_large [OF 2] by simp
qed

end
