(* ===== verification/Tlsf_Blocks.thy ===== *)
theory Tlsf_Blocks
  imports Tlsf_Mapping Util
begin

text \<open>
  The header operations of the allocator as updates of aligned words. Addresses are natural numbers
  here; \<open>rd s\<close> is the memory as a function from aligned addresses to words.
\<close>

section \<open>Aligned words\<close>

definition ok :: "nat \<Rightarrow> bool" where
  "ok a \<longleftrightarrow> 8 dvd a \<and> a < 2 ^ 64"

definition ptr :: "nat \<Rightarrow> u64" where
  "ptr a = of_nat a"

definition rd :: "tlsf \<Rightarrow> nat \<Rightarrow> u64" where
  "rd s a = (if ok a then load64 (mem s) (ptr a) else 0)"

definition poke :: "tlsf \<Rightarrow> nat \<Rightarrow> u64 \<Rightarrow> tlsf" where
  "poke s a v = put s (ptr a) v"

definition same_ctl :: "tlsf \<Rightarrow> tlsf \<Rightarrow> bool" where
  "same_ctl s t \<longleftrightarrow> control t = control s \<and> fl_bitmap t = fl_bitmap s \<and> sl_bitmap t = sl_bitmap s \<and> blocks t = blocks s"

lemma ok_aligned: "ok a \<Longrightarrow> aligned (ptr a)"
  by (simp add: ok_def aligned_def ptr_def unat_of_nat_u64)

lemma ptr_inj: "a < 2 ^ 64 \<Longrightarrow> b < 2 ^ 64 \<Longrightarrow> ptr a = ptr b \<longleftrightarrow> a = b"
  using unat_of_nat_u64 [of a] unat_of_nat_u64 [of b] by (metis ptr_def)

lemma ok_ptr_inj: "ok a \<Longrightarrow> ok b \<Longrightarrow> ptr a = ptr b \<longleftrightarrow> a = b"
  by (simp add: ok_def ptr_inj)

lemma rd_poke [simp]: "ok n \<Longrightarrow> rd (poke s n v) = (rd s)(n := v)"
  by (rule ext) (simp add: rd_def poke_def put_def load64_store64 ok_aligned ok_ptr_inj)

lemma poke_fields [simp]:
  "control (poke s a v) = control s" "fl_bitmap (poke s a v) = fl_bitmap s" "sl_bitmap (poke s a v) = sl_bitmap s"
  "blocks (poke s a v) = blocks s"
  by (simp_all add: poke_def put_def)

lemma same_ctl_refl [simp]: "same_ctl s s"
  by (simp add: same_ctl_def)

lemma same_ctl_poke [simp]: "same_ctl s (poke t a v) = same_ctl s t"
  by (simp add: same_ctl_def)

lemma same_ctl_trans: "same_ctl s t \<Longrightarrow> same_ctl t u \<Longrightarrow> same_ctl s u"
  by (simp add: same_ctl_def)

lemma get_rd:
  "ok b \<Longrightarrow> get_prev_phys s (ptr b) = rd s b"
  "ok (b + 8) \<Longrightarrow> get_size s (ptr b) = rd s (b + 8)"
  "ok (b + 16) \<Longrightarrow> get_next_free s (ptr b) = rd s (b + 16)"
  "ok (b + 24) \<Longrightarrow> get_prev_free s (ptr b) = rd s (b + 24)"
  by (simp_all add: get_prev_phys_def get_size_def get_next_free_def get_prev_free_def rd_def ptr_def)

lemma set_poke:
  "set_prev_phys s (ptr b) v = poke s b v"
  "set_size s (ptr b) v = poke s (b + 8) v"
  "set_next_free s (ptr b) v = poke s (b + 16) v"
  "set_prev_free s (ptr b) v = poke s (b + 24) v"
  by (simp_all add: set_prev_phys_def set_size_def set_next_free_def set_prev_free_def poke_def ptr_def)

section \<open>Header words\<close>

text \<open>The \<^verbatim>\<open>size\<close> field of a block of \<open>sz\<close> bytes that is free or not and whose predecessor is free or not.\<close>

definition hw :: "nat \<Rightarrow> bool \<Rightarrow> bool \<Rightarrow> u64" where
  "hw sz f pf = of_nat (sz + (if f then 1 else 0) + (if pf then 2 else 0))"

lemma bit_of_nat_8:
  assumes "8 dvd sz" "n < 3"
  shows "\<not> bit (of_nat sz :: u64) n"
proof -
  obtain k where "sz = 8 * k" using assms(1) by auto
  then have "sz = push_bit 3 k" by (simp add: push_bit_eq_mult)
  then show ?thesis using assms(2) by (simp add: bit_of_nat_iff bit_push_bit_iff)
qed

lemma bit_2: "bit (2 :: u64) n \<longleftrightarrow> n = 1"
proof -
  have "(2 :: u64) = push_bit 1 1" by simp
  then show ?thesis by (simp only: bit_push_bit_iff bit_1_iff) (auto simp: possible_bit_word)
qed

lemma bit_3: "bit (3 :: u64) n \<longleftrightarrow> n = 0 \<or> n = 1"
proof -
  have "(3 :: u64) = mask 2" by (simp add: mask_eq_exp_minus_1)
  then show ?thesis by (simp only: bit_mask_iff possible_bit_word) auto
qed

lemma word_eq_low2:
  fixes v w :: u64
  assumes "bit v 0 = bit w 0" "bit v 1 = bit w 1" "\<And>n. 2 \<le> n \<Longrightarrow> n < 64 \<Longrightarrow> bit v n = bit w n"
  shows "v = w"
proof (rule bit_eqI)
  fix n assume "possible_bit TYPE(u64) n"
  then show "bit v n = bit w n" using assms by (cases "n = 0 \<or> n = 1") (auto simp: possible_bit_word)
qed

lemma hw_or: "8 dvd sz \<Longrightarrow> hw sz f pf = of_nat sz OR (if f then 1 else 0) OR (if pf then 2 else 0)"
proof -
  assume d: "8 dvd sz"
  have z: "\<not> bit (of_nat sz :: u64) 0" "\<not> bit (of_nat sz :: u64) 1"
    using bit_of_nat_8 [OF d, of 0] bit_of_nat_8 [OF d, of 1] by simp_all
  have "hw sz f pf = of_nat sz + (if f then 1 else 0) + (if pf then 2 else 0)" by (simp add: hw_def)
  also have "(of_nat sz :: u64) + (if f then 1 else 0) = of_nat sz OR (if f then 1 else 0)"
  proof (rule disjunctive_add)
    fix n show "\<not> bit (of_nat sz :: u64) n \<or> \<not> bit (if f then 1 else 0 :: u64) n"
      using z(1) by (cases n) (auto simp: bit_1_iff)
  qed
  also have "\<dots> + (if pf then 2 else 0) = (of_nat sz OR (if f then 1 else 0)) OR (if pf then 2 else 0)"
  proof (rule disjunctive_add)
    fix n show "\<not> bit (of_nat sz OR (if f then 1 else 0) :: u64) n \<or> \<not> bit (if pf then 2 else 0 :: u64) n"
      using z(2) by (cases "n = 1") (auto simp: bit_1_iff bit_2 bit_or_iff simp del: bit_numeral_word_iff)
  qed
  finally show ?thesis by (simp add: or.assoc)
qed

lemma bit_hw:
  assumes "8 dvd sz"
  shows "bit (hw sz f pf) 0 = f" "bit (hw sz f pf) 1 = pf" "bit (hw sz f pf) (Suc 0) = pf"
    "2 \<le> n \<Longrightarrow> bit (hw sz f pf) n = bit (of_nat sz :: u64) n"
    "\<not> bit (of_nat sz :: u64) 0" "\<not> bit (of_nat sz :: u64) 1" "\<not> bit (of_nat sz :: u64) (Suc 0)"
  using bit_of_nat_8 [OF assms, of 0] bit_of_nat_8 [OF assms, of 1]
  by (auto simp: hw_or assms bit_or_iff bit_1_iff bit_2 simp del: bit_numeral_word_iff)

lemmas hw_bits = bit_or_iff bit_and_iff bit_not_iff bit_1_iff bit_2 bit_3 possible_bit_word

lemma hw_size: "8 dvd sz \<Longrightarrow> hw sz f pf AND - 4 = of_nat sz"
proof -
  assume d: "8 dvd sz"
  have "(- 4 :: u64) = NOT 3" by simp
  moreover have "hw sz f pf AND NOT 3 = of_nat sz"
    by (rule word_eq_low2) (simp_all only: hw_bits bit_hw [OF d], auto)
  ultimately show ?thesis by simp
qed

lemma hw_free: "8 dvd sz \<Longrightarrow> hw sz f pf AND 1 = 0 \<longleftrightarrow> \<not> f"
proof -
  assume d: "8 dvd sz"
  have "hw sz f pf AND 1 = (if f then 1 else 0)"
    by (rule word_eq_low2) (auto simp: hw_bits bit_hw [OF d])
  then show ?thesis by simp
qed

lemma hw_prev_free: "8 dvd sz \<Longrightarrow> hw sz f pf AND 2 = 0 \<longleftrightarrow> \<not> pf"
proof -
  assume d: "8 dvd sz"
  have "hw sz f pf AND 2 = (if pf then 2 else 0)"
    by (rule word_eq_low2) (auto simp: hw_bits bit_hw [OF d] simp del: bit_numeral_word_iff)
  then show ?thesis by simp
qed

lemma hw_updates:
  assumes d: "8 dvd sz"
  shows "hw sz f pf OR 1 = hw sz True pf" "hw sz f pf AND - 2 = hw sz False pf"
    "hw sz f pf OR 2 = hw sz f True" "hw sz f pf AND - 3 = hw sz f False"
    "of_nat sz OR (w AND 3) = hw sz (bit w 0) (bit w 1)"
proof -
  have n: "(- 2 :: u64) = NOT 1" "(- 3 :: u64) = NOT 2" by simp_all
  show "hw sz f pf OR 1 = hw sz True pf" "hw sz f pf OR 2 = hw sz f True"
    by (rule word_eq_low2; auto simp: hw_bits bit_hw [OF d] simp del: bit_numeral_word_iff)+
  show "hw sz f pf AND - 2 = hw sz False pf" "hw sz f pf AND - 3 = hw sz f False"
    unfolding n by (rule word_eq_low2; simp only: hw_bits bit_hw [OF d]; auto)+
  show "of_nat sz OR (w AND 3) = hw sz (bit w 0) (bit w 1)"
    by (rule word_eq_low2; auto simp: hw_bits bit_hw [OF d] simp del: bit_numeral_word_iff)
qed

section \<open>Header operations\<close>

definition hdr :: "tlsf \<Rightarrow> nat \<Rightarrow> nat \<Rightarrow> bool \<Rightarrow> bool \<Rightarrow> bool" where
  "hdr s b sz f pf \<longleftrightarrow> ok (b + 8) \<and> rd s (b + 8) = hw sz f pf \<and> 8 dvd sz \<and> sz < 2 ^ 63"

lemma of_nat_sz_0: "sz < 2 ^ 63 \<Longrightarrow> (of_nat sz :: u64) = 0 \<longleftrightarrow> sz = 0"
  using ptr_inj [of sz 0] by (simp add: ptr_def)

lemma hdr_get:
  assumes "hdr s b sz f pf"
  shows "block_size s (ptr b) = ptr sz" "block_is_free s (ptr b) = f"
    "block_is_prev_free s (ptr b) = pf" "block_is_last s (ptr b) \<longleftrightarrow> sz = 0"
    "get_size s (ptr b) = hw sz f pf"
  using assms
  by (simp_all add: hdr_def block_size_def block_is_free_def block_is_prev_free_def block_is_last_def get_rd tlsf_consts
      hw_size hw_free hw_prev_free of_nat_sz_0 ptr_def [of sz])

lemma hdr_next:
  assumes "hdr s b sz f pf" "sz \<noteq> 0"
  shows "block_next s (ptr b) = Some (ptr (b + 8 + sz))"
  using hdr_get [OF assms(1)] assms(2)
  by (simp add: block_next_def offset_to_block_def block_to_ptr_def tlsf_consts tlsf_assert_def ptr_def)

lemma hdr_set:
  assumes "hdr s b sz f pf"
  shows "block_set_free s (ptr b) = poke s (b + 8) (hw sz True pf)"
    "block_set_used s (ptr b) = poke s (b + 8) (hw sz False pf)"
    "block_set_prev_free s (ptr b) = poke s (b + 8) (hw sz f True)"
    "block_set_prev_used s (ptr b) = poke s (b + 8) (hw sz f False)"
  using assms hdr_get [OF assms]
  by (simp_all add: block_set_free_def block_set_used_def block_set_prev_free_def block_set_prev_used_def
      tlsf_consts hw_updates hdr_def set_poke)

lemma set_size_raw:
  assumes "ok (b + 8)" "8 dvd sz"
  shows "block_set_size s (ptr b) (ptr sz) = poke s (b + 8) (hw sz (bit (rd s (b + 8)) 0) (bit (rd s (b + 8)) 1))"
  using assms by (simp add: block_set_size_def get_rd tlsf_consts Let_def hw_updates set_poke ptr_def [of sz])

lemma hdr_poke [simp]:
  "ok n \<Longrightarrow> hdr (poke s n v) b sz f pf \<longleftrightarrow>
    (if n = b + 8 then v = hw sz f pf \<and> 8 dvd sz \<and> sz < 2 ^ 63 else hdr s b sz f pf)"
  by (auto simp: hdr_def)

lemma hdr_ok: "hdr s b sz f pf \<Longrightarrow> ok (b + 8)" "hdr s b sz f pf \<Longrightarrow> 8 dvd sz" "hdr s b sz f pf \<Longrightarrow> sz < 2 ^ 63"
  by (simp_all add: hdr_def)

lemma mark_as_used_ok:
  assumes h: "hdr s b sz f pf" "hdr s (b + 8 + sz) sz' f' pf'" and "0 < sz"
  shows "\<exists>t. block_mark_as_used s (ptr b) = Some t \<and> same_ctl s t \<and>
    rd t = (rd s)(b + 8 + sz + 8 := hw sz' f' False, b + 8 := hw sz False pf)"
proof -
  have k: "ok (b + 8)" "ok (b + 8 + sz + 8)" using hdr_ok(1) [OF h(1)] hdr_ok(1) [OF h(2)] by simp_all
  let ?s = "poke s (b + 8 + sz + 8) (hw sz' f' False)"
  have h': "hdr ?s b sz f pf" using h k \<open>0 < sz\<close> by simp
  have "block_mark_as_used s (ptr b) = Some (poke ?s (b + 8) (hw sz False pf))"
    using hdr_next [OF h(1)] \<open>0 < sz\<close> hdr_set(4) [OF h(2)] hdr_set(2) [OF h'] by (simp add: block_mark_as_used_def Let_def)
  then show ?thesis using k by simp
qed

lemma mark_as_free_ok:
  assumes h: "hdr s b sz f pf" "hdr s (b + 8 + sz) sz' f' pf'" and "0 < sz" "ok (b + 8 + sz)"
  shows "\<exists>t. block_mark_as_free s (ptr b) = Some t \<and> same_ctl s t \<and>
    rd t = (rd s)(b + 8 + sz := ptr b, b + 8 + sz + 8 := hw sz' f' True, b + 8 := hw sz True pf)"
proof -
  have k: "ok (b + 8)" "ok (b + 8 + sz + 8)" using hdr_ok(1) [OF h(1)] hdr_ok(1) [OF h(2)] by simp_all
  let ?s1 = "poke s (b + 8 + sz) (ptr b)"
  let ?s2 = "poke ?s1 (b + 8 + sz + 8) (hw sz' f' True)"
  have h1: "hdr ?s1 (b + 8 + sz) sz' f' pf'" using h assms(4) by simp
  have h2: "hdr ?s2 b sz f pf" using h k assms(3,4) by simp
  have "block_mark_as_free s (ptr b) = Some (poke ?s2 (b + 8) (hw sz True pf))"
    using hdr_next [OF h(1)] \<open>0 < sz\<close> hdr_set(3) [OF h1] hdr_set(1) [OF h2]
    by (simp add: block_mark_as_free_def block_link_next_def set_poke Let_def)
  then show ?thesis using k assms(4) by simp
qed

lemma absorb_ok:
  assumes h: "hdr s p s1 f1 pf1" "hdr s b s2 f2 pf2"
    and "0 < s1" "ok (p + 8 + (s1 + s2 + 8))" "s1 + s2 + 8 < 2 ^ 63"
  shows "\<exists>t. block_absorb s (ptr p) (ptr b) = Some (ptr p, t) \<and> same_ctl s t \<and>
    rd t = (rd s)(p + 8 := hw (s1 + s2 + 8) f1 pf1, p + 8 + (s1 + s2 + 8) := ptr p)"
proof -
  have k: "ok (p + 8)" "8 dvd s1" "8 dvd s2" using hdr_ok [OF h(1)] hdr_ok [OF h(2)] by simp_all
  have w: "hw s1 f1 pf1 + (ptr s2 + 8) = hw (s1 + s2 + 8) f1 pf1" by (simp add: hw_def ptr_def)
  let ?s = "poke s (p + 8) (hw (s1 + s2 + 8) f1 pf1)"
  have h': "hdr ?s p (s1 + s2 + 8) f1 pf1" using assms k by simp
  have "block_absorb s (ptr p) (ptr b) = Some (ptr p, poke ?s (p + 8 + (s1 + s2 + 8)) (ptr p))"
    using hdr_next [OF h'] hdr_get [OF h(1)] hdr_get [OF h(2)] w \<open>0 < s1\<close>
    by (simp add: block_absorb_def block_link_next_def tlsf_assert_def tlsf_consts set_poke Let_def)
  then show ?thesis using k assms(4) by simp
qed

lemma unat_ptr: "a < 2 ^ 64 \<Longrightarrow> unat (ptr a) = a"
  by (simp add: ptr_def unat_of_nat_u64)

lemma ptr_diff: "b \<le> a \<Longrightarrow> ptr a - ptr b = ptr (a - b)"
  by (simp add: ptr_def of_nat_diff)

lemma ptr_plus: "ptr a + ptr b = ptr (a + b)"
  by (simp add: ptr_def)

lemma ptr_numeral: "numeral k = ptr (numeral k)"
  by (simp add: ptr_def)

lemma align_ptr_ok:
  assumes "ok a"
  shows "align_ptr (ptr a) ALIGN_SIZE = Some (ptr a)"
proof -
  have "a + 8 \<le> 2 ^ 64"
  proof -
    obtain k where k: "a = 8 * k" using assms by (auto simp: ok_def)
    then have "8 * k < 8 * 2 ^ 61" using assms by (simp add: ok_def)
    then show ?thesis using k by simp
  qed
  then have "unat (ALIGN_UP (ptr a) (2 ^ 3)) = (a + 7) div 8 * 8"
    using unat_ALIGN_UP [of 3 "ptr a"] assms by (simp add: unat_ptr ok_def)
  also have "\<dots> = a" using assms by (auto simp: ok_def)
  finally have "ALIGN_UP (ptr a) (2 ^ 3) = ptr a" using assms by (simp add: word_unat_eq_iff unat_ptr ok_def)
  then show ?thesis by (simp add: align_ptr_def tlsf_consts ALIGN_UP_def tlsf_assert_def Let_def)
qed

lemma block_to_ptr_ptr: "block_to_ptr (ptr b) = ptr (b + 16)"
  by (simp add: block_to_ptr_def tlsf_consts ptr_def)

lemma block_from_ptr_ptr: "block_from_ptr (ptr (b + 16)) = ptr b"
  by (simp add: block_from_ptr_def tlsf_consts ptr_def)

lemma ok_add: "ok a \<Longrightarrow> 8 dvd n \<Longrightarrow> a + n < 2 ^ 64 \<Longrightarrow> ok (a + n)"
  by (simp add: ok_def)

lemma ok_less: "ok b \<Longrightarrow> 8 dvd a \<Longrightarrow> a \<le> b \<Longrightarrow> ok a"
  by (simp add: ok_def)

lemma block_split_ok:
  assumes h: "hdr s b sz f pf" "hdr s (b + 8 + sz) sz' f' pf'"
    and n: "n + 32 \<le> sz" "8 dvd n" "8 \<le> n" and ok: "ok (b + 8 + sz)"
  shows "\<exists>t. block_split s (ptr b) (ptr n) = Some (ptr (b + 8 + n), t) \<and> same_ctl s t \<and>
    rd t = (rd s)(b + 8 := hw n f pf, b + 8 + n + 8 := hw (sz - n - 8) True (bit (rd s (b + 8 + n + 8)) 1),
      b + 8 + sz := ptr (b + 8 + n), b + 8 + sz + 8 := hw sz' f' True)"
proof -
  let ?r = "b + 8 + n" and ?m = "sz - n - 8"
  have d: "8 dvd sz" "sz < 2 ^ 63" "ok (b + 8)" "ok (b + 8 + sz + 8)"
    using hdr_ok [OF h(1)] hdr_ok(1) [OF h(2)] by simp_all
  have m: "8 dvd ?m" "24 \<le> ?m" "?m < 2 ^ 63" using n d by auto
  have b8: "8 dvd b" using d(3) by (simp add: ok_def)
  have k: "ok (?r + 8)" "ok (?r + 16)" using n b8 d(1) by (auto intro!: ok_less [OF ok])
  let ?w = "rd s (?r + 8)"
  let ?s1 = "poke s (?r + 8) (hw ?m (bit ?w 0) (bit ?w 1))"
  let ?s2 = "poke ?s1 (b + 8) (hw n f pf)"
  have h1: "hdr ?s1 ?r ?m (bit ?w 0) (bit ?w 1)" using k(1) m by (simp add: hdr_def)
  have hb: "hdr ?s1 b sz f pf" using h k(1) n by simp
  have s1: "block_set_size s (ptr ?r) (ptr ?m) = ?s1" using set_size_raw [OF k(1) m(1)] .
  have s2: "block_set_size ?s1 (ptr b) (ptr n) = ?s2"
    using set_size_raw [OF d(3) n(2), of ?s1] hb bit_hw [OF d(1)] by (simp add: hdr_def)
  have h2: "hdr ?s2 ?r ?m (bit ?w 0) (bit ?w 1)" using h1 d(3) n(3) by simp
  have e: "?r + 8 + ?m = b + 8 + sz" using n by simp
  have h3: "hdr ?s2 (?r + 8 + ?m) sz' f' pf'" unfolding e using h(2) d k n by simp
  have pos: "0 < ?m" using m(2) by simp
  have ok': "ok (?r + 8 + ?m)" unfolding e by (rule ok)
  obtain t where t: "block_mark_as_free ?s2 (ptr ?r) = Some t" "same_ctl ?s2 t"
    "rd t = (rd ?s2)(b + 8 + sz := ptr ?r, b + 8 + sz + 8 := hw sz' f' True, ?r + 8 := hw ?m True (bit ?w 1))"
    using mark_as_free_ok [OF h2 h3 pos ok', unfolded e] by blast
  have rem: "offset_to_block (ptr (b + 16)) (ptr n - 8) = ptr ?r"
    by (simp add: offset_to_block_def ptr_def)
  have msz: "block_size s (ptr b) - (ptr n + 8) = ptr ?m"
    using hdr_get(1) [OF h(1)] n(1) by (simp add: ptr_def of_nat_diff)
  have total: "block_size s (ptr b) = ptr ?m + ptr n + 8"
    using hdr_get(1) [OF h(1)] n(1) by (simp add: ptr_def of_nat_diff)
  have "ptr ?m \<ge> 24" using m by (simp add: word_le_nat_alt unat_ptr)
  then have "block_split s (ptr b) (ptr n) = Some (ptr ?r, t)"
    using t(1) align_ptr_ok [OF k(2)] s1 s2 hdr_get(1) [OF h1] total
    by (simp add: block_split_def block_to_ptr_ptr Let_def tlsf_assert_def block_header_overhead_def rem msz
        block_size_min_def sizeof_block_header_def add.assoc)
  moreover have "rd t = (rd s)(b + 8 := hw n f pf, ?r + 8 := hw ?m True (bit ?w 1),
      b + 8 + sz := ptr ?r, b + 8 + sz + 8 := hw sz' f' True)"
    unfolding t(3) using d k n by (simp add: fun_eq_iff)
  moreover have "same_ctl s t" using t(2) by (simp add: same_ctl_def)
  ultimately show ?thesis by blast
qed

lemma link_next_ok:
  assumes h: "hdr s b sz f pf" and "0 < sz"
  shows "block_link_next s (ptr b) = Some (ptr (b + 8 + sz), poke s (b + 8 + sz) (ptr b))"
  using hdr_next [OF h] assms(2) by (simp add: block_link_next_def set_poke)

end
