(* ===== verification/Tlsf_Heap.thy ===== *)
theory Tlsf_Heap
  imports Tlsf_Blocks
begin

text \<open>
  The physical sequence of blocks of a pool. A pool that starts with the block at \<open>a\<close> is described by
  the list of the sizes of its blocks and whether they are free; \<open>phys\<close> says that the headers in memory
  say so, up to the sentinel at the end. The lemmas give the effect of marking, splitting and merging.
\<close>

section \<open>Sequences of blocks\<close>

type_synonym layout = "(nat \<times> bool) list"

fun span :: "layout \<Rightarrow> nat" where
  "span [] = 0"
| "span ((sz, f) # bs) = 8 + sz + span bs"

definition lastf :: "bool \<Rightarrow> layout \<Rightarrow> bool" where
  "lastf pf bs = (if bs = [] then pf else snd (last bs))"

fun seg :: "(nat \<Rightarrow> u64) \<Rightarrow> nat \<Rightarrow> bool \<Rightarrow> layout \<Rightarrow> bool" where
  "seg m a pf [] \<longleftrightarrow> True"
| "seg m a pf ((sz, f) # bs) \<longleftrightarrow>
     24 \<le> sz \<and> 8 dvd sz \<and> m (a + 8) = hw sz f pf \<and> (f \<longrightarrow> m (a + 8 + sz) = ptr a) \<and> seg m (a + 8 + sz) f bs"

definition phys :: "(nat \<Rightarrow> u64) \<Rightarrow> nat \<Rightarrow> bool \<Rightarrow> layout \<Rightarrow> bool" where
  "phys m a pf bs \<longleftrightarrow> seg m a pf bs \<and> m (a + span bs + 8) = hw 0 False (lastf pf bs)"

text \<open>The free blocks with their addresses, and the payloads of the used blocks.\<close>

fun frees :: "nat \<Rightarrow> layout \<Rightarrow> (nat \<times> nat) set" where
  "frees a [] = {}"
| "frees a ((sz, f) # bs) = (if f then {(a, sz)} else {}) \<union> frees (a + 8 + sz) bs"

fun useds :: "nat \<Rightarrow> layout \<Rightarrow> (nat \<times> nat) set" where
  "useds a [] = {}"
| "useds a ((sz, f) # bs) = (if f then {} else {(a + 16, sz)}) \<union> useds (a + 8 + sz) bs"

definition payload :: "nat \<Rightarrow> layout \<Rightarrow> nat set" where
  "payload a bs = (\<Union>(p, sz)\<in>useds a bs. {p..<p + sz})"

fun coalesced :: "layout \<Rightarrow> bool" where
  "coalesced [] \<longleftrightarrow> True"
| "coalesced [b] \<longleftrightarrow> True"
| "coalesced (b # c # bs) \<longleftrightarrow> \<not> (snd b \<and> snd c) \<and> coalesced (c # bs)"

text \<open>Size and state of the first block, those of the sentinel for the empty list.\<close>

definition nsz :: "layout \<Rightarrow> nat" where
  "nsz bs = (if bs = [] then 0 else fst (hd bs))"

definition nf :: "layout \<Rightarrow> bool" where
  "nf bs = (bs \<noteq> [] \<and> snd (hd bs))"

lemma nsz_simps [simp]: "nsz [] = 0" "nsz ((sz, f) # bs) = sz" "nf [] = False" "nf ((sz, f) # bs) = f"
  by (simp_all add: nsz_def nf_def)

lemma lastf_simps [simp]: "lastf pf [] = pf" "lastf pf ((sz, f) # bs) = lastf f bs" "lastf pf (bs @ [(sz, f)]) = f"
  "lastf pf (xs @ ys) = lastf (lastf pf xs) ys"
  by (auto simp: lastf_def)

lemma span_append [simp]: "span (xs @ ys) = span xs + span ys"
  by (induction xs rule: span.induct) auto

lemma frees_append [simp]: "frees a (xs @ ys) = frees a xs \<union> frees (a + span xs) ys"
  by (induction xs arbitrary: a rule: span.induct) (auto simp: add.assoc)

lemma useds_append [simp]: "useds a (xs @ ys) = useds a xs \<union> useds (a + span xs) ys"
  by (induction xs arbitrary: a rule: span.induct) (auto simp: add.assoc)

lemma payload_append [simp]: "payload a (xs @ ys) = payload a xs \<union> payload (a + span xs) ys"
  by (simp add: payload_def)

lemma payload_Cons [simp]:
  "payload a ((sz, f) # bs) = (if f then {} else {a + 16..<a + 16 + sz}) \<union> payload (a + 8 + sz) bs"
  by (simp add: payload_def)

lemma payload_Nil [simp]: "payload a [] = {}"
  by (simp add: payload_def)

lemma seg_append [simp]: "seg m a pf (xs @ ys) \<longleftrightarrow> seg m a pf xs \<and> seg m (a + span xs) (lastf pf xs) ys"
  by (induction xs arbitrary: a pf rule: span.induct) (auto simp: add.assoc)

lemma phys_append: "phys m a pf (xs @ ys) \<longleftrightarrow> seg m a pf xs \<and> phys m (a + span xs) (lastf pf xs) ys"
  by (auto simp: phys_def add.assoc)

lemma phys_Cons: "phys m a pf ((sz, f) # bs) \<longleftrightarrow>
    24 \<le> sz \<and> 8 dvd sz \<and> m (a + 8) = hw sz f pf \<and> (f \<longrightarrow> m (a + 8 + sz) = ptr a) \<and> phys m (a + 8 + sz) f bs"
  by (auto simp: phys_def add.assoc)

lemma phys_hd: "phys m a pf bs \<Longrightarrow> m (a + 8) = hw (nsz bs) (nf bs) pf"
  by (cases bs) (auto simp: phys_def nsz_def nf_def)

lemma phys_sizes: "phys m a pf bs \<Longrightarrow> \<forall>(sz, f)\<in>set bs. 24 \<le> sz \<and> 8 dvd sz"
  by (induction bs arbitrary: a pf rule: span.induct) (fastforce simp: phys_Cons)+

lemma phys_span: "phys m a pf bs \<Longrightarrow> 8 dvd span bs"
  by (induction bs arbitrary: a pf rule: span.induct) (auto simp: phys_Cons)

lemma seg_cong: "seg m a pf bs \<Longrightarrow> \<forall>w\<le>a + span bs. m' w = m w \<Longrightarrow> seg m' a pf bs"
  by (induction bs arbitrary: a pf rule: span.induct) (auto simp: add.assoc)

lemma seg_tail_cong: "seg m a pf bs \<Longrightarrow> \<forall>w\<ge>a + 8. m' w = m w \<Longrightarrow> seg m' a pf bs"
  by (induction bs arbitrary: a pf rule: span.induct) auto

lemma phys_tail_cong: "phys m a pf bs \<Longrightarrow> \<forall>w\<ge>a + 8. m' w = m w \<Longrightarrow> phys m' a pf bs"
  using seg_tail_cong by (auto simp: phys_def)

lemma phys_set_pf:
  assumes "phys m a pf bs" "m' (a + 8) = hw (nsz bs) (nf bs) pf'" "\<forall>w>a + 8. m' w = m w"
  shows "phys m' a pf' bs"
proof (cases bs)
  case Nil
  then show ?thesis using assms by (simp add: phys_def)
next
  case (Cons b bs')
  obtain sz f where b: "b = (sz, f)" by (metis surj_pair)
  have p: "phys m (a + 8 + sz) f bs'" "24 \<le> sz" "8 dvd sz" "f \<longrightarrow> m (a + 8 + sz) = ptr a"
    using assms(1) Cons b by (auto simp: phys_Cons)
  have "phys m' (a + 8 + sz) f bs'" using p(1) by (rule phys_tail_cong) (use assms(3) in auto)
  then show ?thesis using Cons b p assms by (auto simp: phys_Cons)
qed

text \<open>The words that the headers occupy.\<close>

fun hwords :: "nat \<Rightarrow> layout \<Rightarrow> nat set" where
  "hwords a [] = {a + 8}"
| "hwords a ((sz, f) # bs) = {a + 8} \<union> (if f then {a + 8 + sz} else {}) \<union> hwords (a + 8 + sz) bs"

lemma phys_hwords: "phys m a pf bs \<Longrightarrow> \<forall>w\<in>hwords a bs. m' w = m w \<Longrightarrow> phys m' a pf bs"
proof (induction bs arbitrary: a pf rule: span.induct)
  case 1
  then show ?case by (simp add: phys_def)
next
  case (2 sz f bs)
  then show ?case by (auto simp: phys_Cons)
qed

lemma hwords_ge: "w \<in> hwords a bs \<Longrightarrow> a + 8 \<le> w"
  by (induction bs arbitrary: a rule: span.induct) (fastforce split: if_splits)+

lemma hwords_le: "w \<in> hwords a bs \<Longrightarrow> w \<le> a + span bs + 8"
  by (induction bs arbitrary: a rule: span.induct) (fastforce split: if_splits)+

lemma hwords_append: "w \<in> hwords a (xs @ ys) \<Longrightarrow> w \<le> a + span xs \<or> w \<in> hwords (a + span xs) ys"
  by (induction xs arbitrary: a rule: span.induct) (fastforce simp: add.assoc split: if_splits)+

lemma payload_ge: "w \<in> payload a bs \<Longrightarrow> a + 16 \<le> w"
  by (induction bs arbitrary: a rule: span.induct) (fastforce split: if_splits)+

lemma payload_less: "w \<in> payload a bs \<Longrightarrow> w < a + span bs + 8"
  by (induction bs arbitrary: a rule: span.induct) (fastforce split: if_splits)+

lemma frees_range: "(b, sz) \<in> frees a bs \<Longrightarrow> a \<le> b \<and> b + 8 + sz \<le> a + span bs"
  by (induction bs arbitrary: a rule: span.induct) (fastforce split: if_splits)+

lemma useds_range: "(p, sz) \<in> useds a bs \<Longrightarrow> a + 16 \<le> p \<and> p + sz \<le> a + span bs + 8"
  by (induction bs arbitrary: a rule: span.induct) (fastforce split: if_splits)+

lemma frees_split: "(b, sz) \<in> frees a bs \<Longrightarrow> \<exists>xs ys. bs = xs @ (sz, True) # ys \<and> b = a + span xs"
proof (induction bs arbitrary: a rule: span.induct)
  case (2 sz' f bs)
  show ?case
  proof (cases "f \<and> b = a \<and> sz = sz'")
    case True
    then show ?thesis by (intro exI [of _ "[]"] exI [of _ bs]) auto
  next
    case False
    then have "(b, sz) \<in> frees (a + 8 + sz') bs" using "2.prems" by (auto split: if_splits)
    from "2.IH" [OF this] obtain xs ys where "bs = xs @ (sz, True) # ys" "b = a + 8 + sz' + span xs" by blast
    then show ?thesis by (intro exI [of _ "(sz', f) # xs"] exI [of _ ys]) auto
  qed
qed simp

lemma useds_split: "(p, sz) \<in> useds a bs \<Longrightarrow> \<exists>xs ys. bs = xs @ (sz, False) # ys \<and> p = a + span xs + 16"
proof (induction bs arbitrary: a rule: span.induct)
  case (2 sz' f bs)
  show ?case
  proof (cases "\<not> f \<and> p = a + 16 \<and> sz = sz'")
    case True
    then show ?thesis by (intro exI [of _ "[]"] exI [of _ bs]) auto
  next
    case False
    then have "(p, sz) \<in> useds (a + 8 + sz') bs" using "2.prems" by (auto split: if_splits)
    from "2.IH" [OF this] obtain xs ys where "bs = xs @ (sz, False) # ys" "p = a + 8 + sz' + span xs + 16" by blast
    then show ?thesis by (intro exI [of _ "(sz', f) # xs"] exI [of _ ys]) auto
  qed
qed simp

section \<open>Replacing blocks\<close>

lemma phys_replace:
  assumes "phys m a pf (xs @ old @ ys)" "b = a + span xs" "span new = span old"
    and "seg m' b (lastf pf xs) new" "m' (b + span old + 8) = hw (nsz ys) (nf ys) (lastf (lastf pf xs) new)"
    and "\<forall>w. w \<le> b \<or> b + span old + 8 < w \<longrightarrow> m' w = m w"
  shows "phys m' a pf (xs @ new @ ys)"
proof -
  have "seg m a pf xs" "phys m (b + span old) (lastf (lastf pf xs) old) ys"
    using assms(1,2) by (auto simp: phys_append)
  then have "seg m' a pf xs" "phys m' (b + span old) (lastf (lastf pf xs) new) ys"
    using assms(2,5,6) by (auto intro: seg_cong phys_set_pf)
  then show ?thesis using assms(2,3,4) by (simp add: phys_append)
qed

definition pool :: "nat \<Rightarrow> layout \<Rightarrow> bool" where
  "pool a bs \<longleftrightarrow> 8 dvd a \<and> a + span bs + 16 \<le> 2 ^ 64 \<and> span bs < 2 ^ 32 + 8"

lemma phys_hdr:
  assumes "phys (rd s) a pf (xs @ (sz, f) # ys)" "pool a (xs @ (sz, f) # ys)" "b = a + span xs"
  shows "hdr s b sz f (lastf pf xs)" "hdr s (b + 8 + sz) (nsz ys) (nf ys) f" "ok b" "ok (b + 8 + sz)"
    "24 \<le> sz" "8 dvd sz" "sz < 2 ^ 32" "b + 8 + sz + 16 \<le> 2 ^ 64" "8 dvd b" "f \<longrightarrow> rd s (b + 8 + sz) = ptr b"
proof -
  have s: "24 \<le> sz" "8 dvd sz" "rd s (b + 8) = hw sz f (lastf pf xs)" "phys (rd s) (b + 8 + sz) f ys"
    and l: "f \<longrightarrow> rd s (b + 8 + sz) = ptr b"
    using assms(1,3) by (auto simp: phys_append phys_Cons)
  have "8 dvd span xs" using phys_sizes [OF assms(1)] by (induction xs rule: span.induct) auto
  moreover have "8 dvd a" using assms(2) by (simp add: pool_def)
  ultimately show d: "8 dvd b" using assms(3) by simp
  show e: "b + 8 + sz + 16 \<le> 2 ^ 64" "sz < 2 ^ 32" using assms(2,3) by (auto simp: pool_def)
  have n: "8 dvd nsz ys" "nsz ys < 2 ^ 63"
    using phys_sizes [OF assms(1)] assms(2) by (cases ys; auto simp: pool_def nsz_def)+
  show "24 \<le> sz" "8 dvd sz" "f \<longrightarrow> rd s (b + 8 + sz) = ptr b" using s l by auto
  show "ok b" "ok (b + 8 + sz)" using d s(2) e by (auto simp: ok_def)
  show "hdr s b sz f (lastf pf xs)" using s d e by (auto simp: hdr_def ok_def)
  have "rd s (b + 8 + sz + 8) = hw (nsz ys) (nf ys) f" using phys_hd [OF s(4)] .
  then show "hdr s (b + 8 + sz) (nsz ys) (nf ys) f" using s(2) d e n by (auto simp: hdr_def ok_def)
qed

lemma coalesced_append:
  "coalesced (xs @ ys) \<longleftrightarrow> coalesced xs \<and> coalesced ys \<and> \<not> (lastf False xs \<and> nf ys)"
proof (induction xs rule: coalesced.induct)
  case (2 b)
  then show ?case by (cases ys) (auto simp: lastf_def nf_def)
next
  case (3 b c bs)
  then show ?case by (auto simp: lastf_def)
qed (auto simp: lastf_def)

lemma coalesced_Cons: "coalesced ((sz, f) # ys) \<longleftrightarrow> coalesced ys \<and> \<not> (f \<and> nf ys)"
  by (cases ys) (auto simp: nf_def)

end
