(* ===== verification/Tlsf_Lists.thy ===== *)
theory Tlsf_Lists
  imports Tlsf_Heap
begin

text \<open>
  The segregated free lists: for every size class a doubly linked list through the link words of the
  free blocks that ends at the null block of the control structure, with bitmaps that tell which lists
  are not empty. Insertion and removal change one list, and in memory only link words.
\<close>

section \<open>Doubly linked lists\<close>

definition hdc :: "nat \<Rightarrow> nat list \<Rightarrow> nat" where
  "hdc c bs = (if bs = [] then c else hd bs)"

definition lastc :: "nat \<Rightarrow> nat list \<Rightarrow> nat" where
  "lastc c bs = (if bs = [] then c else last bs)"

fun dll :: "(nat \<Rightarrow> u64) \<Rightarrow> nat \<Rightarrow> nat \<Rightarrow> nat list \<Rightarrow> bool" where
  "dll m c p [] \<longleftrightarrow> True"
| "dll m c p (b # bs) \<longleftrightarrow> m (b + 24) = ptr p \<and> m (b + 16) = ptr (hdc c bs) \<and> dll m c b bs"

definition apart32 :: "nat set \<Rightarrow> bool" where
  "apart32 S \<longleftrightarrow> (\<forall>b\<in>S. \<forall>d\<in>S. b \<noteq> d \<longrightarrow> b + 32 \<le> d \<or> d + 32 \<le> b)"

lemma apart32_mono: "apart32 S \<Longrightarrow> T \<subseteq> S \<Longrightarrow> apart32 T"
  unfolding apart32_def by (meson subsetD)

lemma apart32_links:
  assumes "apart32 S" "b \<in> S" "d \<in> S"
  shows "b + 16 \<noteq> d + 24"
proof (cases "b = d")
  case False
  then have "b + 32 \<le> d \<or> d + 32 \<le> b" using assms unfolding apart32_def by blast
  then show ?thesis by linarith
qed simp

lemma links_upd:
  assumes "apart32 S" "x \<in> S" "y \<in> S" "d \<in> S"
  shows "(m(x + 24 := u, y + 16 := v)) (d + 16) = (if d = y then v else m (d + 16))"
    "(m(x + 24 := u, y + 16 := v)) (d + 24) = (if d = x then u else m (d + 24))"
  using apart32_links [OF assms(1,4,2)] apart32_links [OF assms(1,3,4)] by simp_all

lemma hdc_simps [simp]: "hdc c [] = c" "hdc c (b # bs) = b" "lastc c [] = c" "lastc c (bs @ [b]) = b"
  "lastc c (b # bs) = lastc b bs"
  by (simp_all add: hdc_def lastc_def)

lemma hdc_in: "hdc c bs \<in> insert c (set bs)" "lastc c bs \<in> insert c (set bs)"
  by (simp_all add: hdc_def lastc_def)

lemma hdc_append: "hdc c (xs @ ys) = hdc (hdc c ys) xs"
  by (simp add: hdc_def)

lemma dll_cong:
  "dll m c p bs \<Longrightarrow> \<forall>b\<in>set bs. m' (b + 16) = m (b + 16) \<and> m' (b + 24) = m (b + 24) \<Longrightarrow> dll m' c p bs"
  by (induction bs arbitrary: p) auto

lemma dll_mid:
  assumes "dll m c p (xs @ b # ys)"
  shows "m (b + 16) = ptr (hdc c ys)" "m (b + 24) = ptr (lastc p xs)"
  using assms by (induction xs arbitrary: p) auto

lemma dll_remove:
  assumes "dll m c p (xs @ b # ys)" "distinct (xs @ b # ys)" "p \<notin> set (xs @ b # ys)" "c \<notin> set (xs @ b # ys)"
    and "apart32 (insert p (insert c (set (xs @ b # ys))))"
  shows "dll (m(hdc c ys + 24 := ptr (lastc p xs), lastc p xs + 16 := ptr (hdc c ys))) c p (xs @ ys)"
  using assms
proof (induction xs arbitrary: p)
  case Nil
  let ?S = "insert p (insert c (set (b # ys)))"
  have S: "apart32 ?S" using Nil by simp
  show ?case
  proof (cases ys)
    case (Cons y ys')
    have y: "y \<in> ?S" and p: "p \<in> ?S" and in_S: "\<And>d. d \<in> set ys' \<Longrightarrow> d \<in> ?S" using Cons by auto
    note u = links_upd [OF S y p]
    have ne: "p \<notin> set (y # ys')" "y \<notin> set ys'" using Nil.prems Cons by auto
    have "dll m c y ys'" "m (y + 16) = ptr (hdc c ys')" using Nil.prems(1) Cons by simp_all
    moreover have "\<forall>d\<in>set ys'. (m(y + 24 := ptr p, p + 16 := ptr y)) (d + 16) = m (d + 16) \<and>
        (m(y + 24 := ptr p, p + 16 := ptr y)) (d + 24) = m (d + 24)"
    proof
      fix d assume d: "d \<in> set ys'"
      then have "d \<noteq> p" "d \<noteq> y" using ne by auto
      then show "(m(y + 24 := ptr p, p + 16 := ptr y)) (d + 16) = m (d + 16) \<and>
        (m(y + 24 := ptr p, p + 16 := ptr y)) (d + 24) = m (d + 24)"
        unfolding u [OF in_S [OF d]] by simp
    qed
    ultimately have "dll (m(y + 24 := ptr p, p + 16 := ptr y)) c y ys'" using dll_cong by blast
    then show ?thesis unfolding Cons append_Nil hdc_simps dll.simps u [OF y]
      using ne \<open>m (y + 16) = ptr (hdc c ys')\<close> by simp
  qed simp
next
  case (Cons x xs)
  let ?S = "insert p (insert c (set ((x # xs) @ b # ys)))"
  have S: "apart32 ?S" using Cons.prems(5) .
  let ?nx = "hdc c ys" and ?pv = "lastc x xs"
  have mem: "?nx \<in> ?S" "?pv \<in> ?S" "x \<in> ?S" by (auto simp: hdc_def lastc_def)
  note u = links_upd [OF S mem]
  have "apart32 (insert x (insert c (set (xs @ b # ys))))" by (rule apart32_mono [OF S]) auto
  moreover have "dll m c x (xs @ b # ys)" "distinct (xs @ b # ys)" "x \<notin> set (xs @ b # ys)" "c \<notin> set (xs @ b # ys)"
    using Cons.prems by auto
  ultimately have IH: "dll (m(?nx + 24 := ptr ?pv, ?pv + 16 := ptr ?nx)) c x (xs @ ys)" by (intro Cons.IH)
  have ne: "x \<noteq> ?nx" using Cons.prems(2,4) by (cases ys) auto
  have pv: "xs \<noteq> [] \<Longrightarrow> x \<noteq> ?pv" using Cons.prems(2) by (auto simp: lastc_def)
  show ?case
    unfolding append_Cons dll.simps hdc_simps u using IH ne pv Cons.prems(1) by (cases xs) simp_all
qed

section \<open>Cells\<close>

type_synonym cells = "nat \<Rightarrow> nat \<Rightarrow> nat list"

definition members :: "cells \<Rightarrow> nat set" where
  "members C = {b. \<exists>i j. b \<in> set (C i j)}"

lemma in_members: "b \<in> set (C i j) \<Longrightarrow> b \<in> members C"
  by (auto simp: members_def)

definition cells_ok :: "nat \<Rightarrow> cells \<Rightarrow> bool" where
  "cells_ok c C \<longleftrightarrow>
     (\<forall>i j. distinct (C i j)) \<and>
     (\<forall>i j k l b. b \<in> set (C i j) \<and> b \<in> set (C k l) \<longrightarrow> i = k \<and> j = l) \<and>
     c \<notin> members C \<and> apart32 (insert c (members C)) \<and>
     (\<forall>b\<in>insert c (members C). 8 dvd b \<and> 0 < b \<and> b + 32 \<le> 2 ^ 64)"

definition links :: "nat set \<Rightarrow> nat set" where
  "links S = (\<lambda>b. b + 16) ` S \<union> (\<lambda>b. b + 24) ` S"

definition flists :: "tlsf \<Rightarrow> nat \<Rightarrow> cells \<Rightarrow> bool" where
  "flists s c C \<longleftrightarrow>
     control s = ptr c \<and>
     (\<forall>i<25. \<forall>j<32. blocks s i j = ptr (hdc c (C i j)) \<and> dll (rd s) c c (C i j) \<and>
        (bit (sl_bitmap s i) j \<longleftrightarrow> C i j \<noteq> [])) \<and>
     (\<forall>i<32. bit (fl_bitmap s) i \<longleftrightarrow> i < 25 \<and> (\<exists>j<32. C i j \<noteq> []))"

definition set_cell :: "cells \<Rightarrow> nat \<Rightarrow> nat \<Rightarrow> nat list \<Rightarrow> cells" where
  "set_cell C i j v = C(i := (C i)(j := v))"

lemma set_cell_apply: "set_cell C i j v k l = (if k = i \<and> l = j then v else C k l)"
  by (simp add: set_cell_def)

lemma cells_okD:
  assumes "cells_ok c C"
  shows "distinct (C i j)" "b \<in> set (C i j) \<Longrightarrow> b \<in> set (C k l) \<Longrightarrow> i = k \<and> j = l" "c \<notin> set (C i j)"
    "apart32 (insert c (members C))" "x \<in> insert c (members C) \<Longrightarrow> 8 dvd x"
    "x \<in> insert c (members C) \<Longrightarrow> 0 < x" "x \<in> insert c (members C) \<Longrightarrow> x + 32 \<le> 2 ^ 64"
proof -
  note a = assms [unfolded cells_ok_def]
  show "distinct (C i j)" using a by simp
  show "i = k \<and> j = l" if "b \<in> set (C i j)" "b \<in> set (C k l)"
    using a [THEN conjunct2, THEN conjunct1] that by blast
  show "c \<notin> set (C i j)" using a in_members [of c C i j] by auto
  show "apart32 (insert c (members C))" using a by simp
  show "8 dvd x" "0 < x" "x + 32 \<le> 2 ^ 64" if "x \<in> insert c (members C)"
    using a [THEN conjunct2, THEN conjunct2, THEN conjunct2, THEN conjunct2] that by auto
qed

lemma cells_ok_links:
  assumes "cells_ok c C" "x \<in> insert c (members C)"
  shows "ok (x + 16)" "ok (x + 24)" "x < 2 ^ 64"
  using cells_okD(5,7) [OF assms] by (auto simp: ok_def)

lemma flistsD:
  assumes "flists s c C"
  shows "control s = ptr c" "i < 25 \<Longrightarrow> j < 32 \<Longrightarrow> blocks s i j = ptr (hdc c (C i j))"
    "i < 25 \<Longrightarrow> j < 32 \<Longrightarrow> dll (rd s) c c (C i j)" "i < 25 \<Longrightarrow> j < 32 \<Longrightarrow> bit (sl_bitmap s i) j \<longleftrightarrow> C i j \<noteq> []"
    "i < 32 \<Longrightarrow> bit (fl_bitmap s) i \<longleftrightarrow> i < 25 \<and> (\<exists>j<32. C i j \<noteq> [])"
  using assms by (auto simp: flists_def)

lemma flists_cong:
  assumes "flists s c C" "same_ctl s t" "\<forall>w\<in>links (members C). rd t w = rd s w"
  shows "flists t c C"
proof -
  have "dll (rd t) c c (C i j)" if "i < 25" "j < 32" for i j
    using flistsD(3) [OF assms(1) that] by (rule dll_cong) (use assms(3) in_members [of _ C i j] in \<open>auto simp: links_def\<close>)
  then show ?thesis using assms(1,2) by (auto simp: flists_def same_ctl_def)
qed

lemma rd_fields [simp]:
  "rd (s\<lparr>blocks := x\<rparr>) = rd s" "rd (s\<lparr>sl_bitmap := y\<rparr>) = rd s" "rd (s\<lparr>fl_bitmap := z\<rparr>) = rd s"
  by (simp_all add: rd_def fun_eq_iff)

lemma bit_clear: "bit (w AND NOT (2 ^ j)) k \<longleftrightarrow> bit w k \<and> k \<noteq> j" for w :: u32
  using bit_imp_possible_bit [of w k] by (auto simp: bit_and_iff bit_not_iff bit_push_bit_iff bit_1_iff bit_exp_iff possible_bit_word)

lemma bit_mark: "k < 32 \<Longrightarrow> bit (w OR 2 ^ j) k \<longleftrightarrow> bit w k \<or> k = j" for w :: u32
  by (auto simp: bit_or_iff bit_push_bit_iff bit_1_iff bit_exp_iff possible_bit_word)

lemma u32_zero: "w = 0 \<longleftrightarrow> (\<forall>j<32. \<not> bit w j)" for w :: u32
  using word_nonzero_bit [of w] by auto

lemma flists_set_cell:
  assumes L: "flists s c C" and ij: "i < 25" "j < 32" and ctl: "control t = control s"
    and heads: "blocks t = (blocks s)(i := (blocks s i)(j := ptr (hdc c v)))" and v: "dll (rd t) c c v"
    and others: "\<forall>k l. \<not> (k = i \<and> l = j) \<longrightarrow> (\<forall>d\<in>set (C k l). rd t (d + 16) = rd s (d + 16) \<and> rd t (d + 24) = rd s (d + 24))"
    and sl: "\<forall>k<25. \<forall>l<32. bit (sl_bitmap t k) l \<longleftrightarrow> (if k = i \<and> l = j then v \<noteq> [] else bit (sl_bitmap s k) l)"
    and fl: "\<forall>k<32. bit (fl_bitmap t) k \<longleftrightarrow> (if k = i then sl_bitmap t i \<noteq> 0 else bit (fl_bitmap s) k)"
  shows "flists t c (set_cell C i j v)"
  unfolding flists_def
proof (intro conjI allI impI)
  let ?C = "set_cell C i j v"
  show "control t = ptr c" using flistsD(1) [OF L] ctl by simp
  show "blocks t k l = ptr (hdc c (?C k l))" if "k < 25" "l < 32" for k l
    using flistsD(2) [OF L that] by (auto simp: heads set_cell_apply)
  show "dll (rd t) c c (?C k l)" if "k < 25" "l < 32" for k l
  proof (cases "k = i \<and> l = j")
    case False
    have "dll (rd t) c c (C k l)" using others False by (intro dll_cong [OF flistsD(3) [OF L that]]) blast
    then show ?thesis using False by (simp only: set_cell_apply if_False)
  qed (use v in \<open>simp add: set_cell_apply\<close>)
  show slC: "bit (sl_bitmap t k) l \<longleftrightarrow> ?C k l \<noteq> []" if "k < 25" "l < 32" for k l
    using sl [rule_format, OF that] flistsD(4) [OF L that] by (auto simp: set_cell_apply)
  show "bit (fl_bitmap t) k \<longleftrightarrow> k < 25 \<and> (\<exists>l<32. ?C k l \<noteq> [])" if "k < 32" for k
  proof (cases "k = i")
    case True
    then show ?thesis using fl [rule_format, OF that] slC [OF ij(1)] ij(1) by (auto simp: u32_zero)
  next
    case False
    then show ?thesis using fl [rule_format, OF that] flistsD(5) [OF L that] by (simp add: set_cell_apply)
  qed
qed

text \<open>The head of a list after an update of its bitmap bits.\<close>

lemma fl_after_clear:
  fixes sl fl :: u32
  assumes "bit fl i" "i < 32" "fl' = (if sl = 0 then fl AND NOT (2 ^ i) else fl)"
  shows "\<forall>k<32. bit fl' k \<longleftrightarrow> (if k = i then sl \<noteq> 0 else bit fl k)"
  using assms(1) by (simp add: assms(3) bit_clear)

lemma cell_neighbours:
  assumes K: "cells_ok c C" and xy: "C i j = xs @ b # ys"
  shows "hdc c ys \<in> insert c (members C)" "lastc c xs \<in> insert c (members C)" "b \<in> members C"
    "distinct (xs @ b # ys)" "c \<notin> set (xs @ b # ys)" "apart32 (insert c (insert c (set (xs @ b # ys))))"
    "\<not> (k = i \<and> l = j) \<Longrightarrow> d \<in> set (C k l) \<Longrightarrow> d \<noteq> hdc c ys \<and> d \<noteq> lastc c xs"
proof -
  have sub: "set (xs @ b # ys) \<subseteq> members C" using in_members [of _ C i j] xy by auto
  show "hdc c ys \<in> insert c (members C)" "lastc c xs \<in> insert c (members C)" "b \<in> members C"
    using sub hdc_in(1) [of c ys] hdc_in(2) [of c xs] by auto
  show "distinct (xs @ b # ys)" "c \<notin> set (xs @ b # ys)" using cells_okD(1,3) [OF K, of i j] xy by simp_all
  show "apart32 (insert c (insert c (set (xs @ b # ys))))"
    by (rule apart32_mono [OF cells_okD(4) [OF K]]) (use sub in auto)
  show "d \<noteq> hdc c ys \<and> d \<noteq> lastc c xs" if "\<not> (k = i \<and> l = j)" "d \<in> set (C k l)"
  proof -
    have "d \<notin> set (C i j)" using cells_okD(2) [OF K that(2), of i j] that(1) by blast
    moreover have "d \<noteq> c" using cells_okD(3) [OF K, of k l] that(2) by blast
    ultimately show ?thesis using xy hdc_in(1) [of c ys] hdc_in(2) [of c xs] by auto
  qed
qed

lemma ptr_nonzero: "0 < x \<Longrightarrow> x < 2 ^ 64 \<Longrightarrow> ptr x \<noteq> 0"
  using ptr_inj [of x 0] by (simp add: ptr_def)

lemma remove_free_block_ok:
  assumes L: "flists s c C" and K: "cells_ok c C" and b: "b \<in> set (C i j)" and ij: "i < 25" "j < 32"
  shows "\<exists>t. remove_free_block s (ptr b) i j = Some t \<and> flists t c (set_cell C i j (remove1 b (C i j))) \<and>
    (\<forall>w. w \<notin> links (insert c (members C)) \<longrightarrow> rd t w = rd s w)"
proof -
  let ?S = "insert c (members C)"
  obtain xs ys where xy: "C i j = xs @ b # ys" using b by (meson split_list)
  note n = cell_neighbours [OF K xy]
  define nx where "nx = hdc c ys"
  define pv where "pv = lastc c xs"
  have mem: "nx \<in> ?S" "pv \<in> ?S" "b \<in> ?S" using n(1-3) by (auto simp: nx_def pv_def)
  note lt = cells_ok_links [OF K]
  have d: "dll (rd s) c c (xs @ b # ys)" using flistsD(3) [OF L ij] xy by simp
  have r: "rd s (b + 16) = ptr nx" "rd s (b + 24) = ptr pv" using dll_mid [OF d] by (simp_all add: nx_def pv_def)
  have nz: "ptr nx \<noteq> 0" "ptr pv \<noteq> 0" using ptr_nonzero cells_okD(6) [OF K] lt(3) mem by auto
  have hd: "blocks s i j = ptr b \<longleftrightarrow> xs = []"
  proof -
    have "hdc c (xs @ b # ys) \<in> ?S" using n(3) in_members [of _ C i j] xy by (cases xs) auto
    then have "blocks s i j = ptr b \<longleftrightarrow> hdc c (xs @ b # ys) = b"
      using flistsD(2) [OF L ij] xy ptr_inj lt(3) mem(3) by simp
    also have "\<dots> \<longleftrightarrow> xs = []" using n(4) by (cases xs) auto
    finally show ?thesis .
  qed
  have nc: "ptr nx = control s \<longleftrightarrow> ys = []"
    using flistsD(1) [OF L] ptr_inj [of nx c] lt(3) [OF mem(1)] lt(3) [of c] n(5) by (cases ys) (auto simp: nx_def)
  let ?s1 = "poke (poke s (nx + 24) (ptr pv)) (pv + 16) (ptr nx)"
  define sl where "sl = (if xs = [] \<and> ys = [] then sl_bitmap s i AND NOT (2 ^ j) else sl_bitmap s i)"
  define t where "t = ?s1\<lparr>blocks := (blocks s)(i := (blocks s i)(j := ptr (hdc c (xs @ ys)))),
      sl_bitmap := (sl_bitmap s)(i := sl), fl_bitmap := (if sl = 0 then fl_bitmap s AND NOT (2 ^ i) else fl_bitmap s)\<rparr>"
  have ne: "\<exists>l<32. C i l \<noteq> []" using xy ij(2) by (intro exI [of _ j]) simp
  have slnz: "sl \<noteq> 0" if "\<not> (xs = [] \<and> ys = [])"
    using that flistsD(4) [OF L ij] xy ij(2) by (auto simp: sl_def u32_zero)
  have bl: "xs \<noteq> [] \<Longrightarrow> blocks s i j = ptr (hdc c (xs @ ys))" using flistsD(2) [OF L ij] xy by (cases xs) auto
  have rdt: "rd t = (rd s)(nx + 24 := ptr pv, pv + 16 := ptr nx)" using lt mem by (simp add: t_def)
  have same: "t = ?s1" if "xs \<noteq> []"
    using that slnz bl by (intro tlsf.equality) (auto simp: t_def sl_def fun_eq_iff)
  note unf = remove_free_block_def get_rd set_poke tlsf_assert_def Let_def
  have "remove_free_block s (ptr b) i j = Some t"
  proof (cases "xs = []")
    case True
    then show ?thesis
      using r nz hd nc lt [OF mem(3)] slnz by (auto simp: unf t_def set_head_def sl_def nx_def)
  next
    case False
    then show ?thesis using r nz hd lt [OF mem(3)] same by (simp add: unf)
  qed
  moreover have "flists t c (set_cell C i j (xs @ ys))"
  proof (rule flists_set_cell [OF L ij])
    show "dll (rd t) c c (xs @ ys)" unfolding rdt nx_def pv_def by (rule dll_remove [OF d n(4,5,5,6)])
    show "\<forall>k l. \<not> (k = i \<and> l = j) \<longrightarrow> (\<forall>d\<in>set (C k l). rd t (d + 16) = rd s (d + 16) \<and> rd t (d + 24) = rd s (d + 24))"
    proof (intro allI impI ballI)
      fix k l d assume a: "\<not> (k = i \<and> l = j)" "d \<in> set (C k l)"
      have "d \<in> ?S" using a(2) by (auto intro: in_members)
      then show "rd t (d + 16) = rd s (d + 16) \<and> rd t (d + 24) = rd s (d + 24)"
        unfolding rdt links_upd [OF cells_okD(4) [OF K] mem(1,2) \<open>d \<in> ?S\<close>] using n(7) [OF a] by (simp add: nx_def pv_def)
    qed
    show "\<forall>k<25. \<forall>l<32. bit (sl_bitmap t k) l \<longleftrightarrow> (if k = i \<and> l = j then xs @ ys \<noteq> [] else bit (sl_bitmap s k) l)"
      using flistsD(4) [OF L ij] xy by (simp add: t_def sl_def bit_clear)
    show "\<forall>k<32. bit (fl_bitmap t) k \<longleftrightarrow> (if k = i then sl_bitmap t i \<noteq> 0 else bit (fl_bitmap s) k)"
      using flistsD(5) [OF L, of i] ij(1) ne by (intro fl_after_clear) (simp_all add: t_def)
  qed (simp_all add: t_def)
  moreover have "remove1 b (C i j) = xs @ ys" using xy n(4) by (simp add: remove1_append)
  moreover have "rd t w = rd s w" if "w \<notin> links ?S" for w
    using that mem unfolding rdt by (auto simp: links_def)
  ultimately show ?thesis by auto
qed

lemma dll_push:
  assumes "dll m c p bs" "distinct bs" "b \<notin> set bs" "apart32 (insert b (insert c (set bs)))" "c \<notin> set bs" "b \<noteq> c"
    and m: "m' = m(b + 16 := ptr (hdc c bs), b + 24 := ptr c, hdc c bs + 24 := ptr b)"
  shows "dll m' c c (b # bs)"
proof -
  let ?S = "insert b (insert c (set bs))"
  have h: "hdc c bs \<in> ?S" using hdc_in(1) [of c bs] by auto
  have e16: "m' (d + 16) = (if d = b then ptr (hdc c bs) else m (d + 16))" if "d \<in> ?S" for d
    using apart32_links [OF assms(4) that, of b] apart32_links [OF assms(4) that h] unfolding m by auto
  have e24: "m' (d + 24) = (if d = hdc c bs then ptr b else if d = b then ptr c else m (d + 24))" if "d \<in> ?S" for d
    using apart32_links [OF assms(4), of b d] that unfolding m by auto
  have "hdc c bs \<noteq> b" using hdc_in(1) [of c bs] assms(3,6) by auto
  then have b: "m' (b + 16) = ptr (hdc c bs)" "m' (b + 24) = ptr c" using e16 [of b] e24 [of b] by simp_all
  have "dll m' c b bs"
  proof (cases bs)
    case (Cons x xs)
    have "dll m' c x xs"
      by (rule dll_cong [of m]) (use assms(1,2,3) Cons e16 e24 in auto)
    moreover have "m' (x + 16) = m (x + 16)" "m' (x + 24) = ptr b"
      using e16 [of x] e24 [of x] Cons assms(3) by auto
    ultimately show ?thesis using assms(1) Cons by simp
  qed simp
  then show ?thesis using b by simp
qed

lemma insert_free_block_ok:
  assumes L: "flists s c C" and K: "cells_ok c C" and ij: "i < 25" "j < 32"
    and b: "b \<notin> insert c (members C)" "apart32 (insert b (insert c (members C)))" "8 dvd b" "0 < b" "b + 32 \<le> 2 ^ 64"
  shows "\<exists>t. insert_free_block s (ptr b) i j = Some t \<and> flists t c (set_cell C i j (b # C i j)) \<and>
    (\<forall>w. w \<notin> links (insert b (insert c (members C))) \<longrightarrow> rd t w = rd s w)"
proof -
  let ?S = "insert b (insert c (members C))"
  define cur where "cur = hdc c (C i j)"
  have sub: "set (C i j) \<subseteq> members C" using in_members [of _ C i j] by auto
  have cur: "cur \<in> insert c (members C)" using hdc_in(1) [of c "C i j"] sub by (auto simp: cur_def)
  note lt = cells_ok_links [OF K]
  have nz: "ptr cur \<noteq> 0" "ptr b \<noteq> 0" using ptr_nonzero cells_okD(6) [OF K] lt(3) cur b by auto
  have ok: "ok (b + 16)" "ok (b + 24)" using b by (auto simp: ok_def)
  let ?s1 = "poke (poke (poke s (b + 16) (ptr cur)) (b + 24) (ptr c)) (cur + 24) (ptr b)"
  define t where "t = ?s1\<lparr>blocks := (blocks s)(i := (blocks s i)(j := ptr b)), fl_bitmap := fl_bitmap s OR 2 ^ i,
      sl_bitmap := (sl_bitmap s)(i := sl_bitmap s i OR 2 ^ j)\<rparr>"
  have rdt: "rd t = (rd s)(b + 16 := ptr cur, b + 24 := ptr c, cur + 24 := ptr b)"
    using ok lt [OF cur] by (simp add: t_def)
  have "insert_free_block s (ptr b) i j = Some t"
    using flistsD(2) [OF L ij] flistsD(1) [OF L] nz align_ptr_ok [OF ok(1)]
    by (simp add: insert_free_block_def tlsf_assert_def set_poke block_to_ptr_ptr Let_def set_head_def t_def cur_def)
  moreover have "flists t c (set_cell C i j (b # C i j))"
  proof (rule flists_set_cell [OF L ij])
    have "apart32 (insert b (insert c (set (C i j))))" by (rule apart32_mono [OF b(2)]) (use sub in auto)
    then show "dll (rd t) c c (b # C i j)"
      using flistsD(3) [OF L ij] cells_okD(1,3) [OF K, of i j] b(1) sub rdt
      by (intro dll_push) (auto simp: cur_def)
    show "\<forall>k l. \<not> (k = i \<and> l = j) \<longrightarrow> (\<forall>d\<in>set (C k l). rd t (d + 16) = rd s (d + 16) \<and> rd t (d + 24) = rd s (d + 24))"
    proof (intro allI impI ballI)
      fix k l d assume a: "\<not> (k = i \<and> l = j)" "d \<in> set (C k l)"
      have d: "d \<in> members C" using a(2) by (rule in_members)
      have "d \<notin> set (C i j)" using cells_okD(2) [OF K a(2), of i j] a(1) by blast
      moreover have "d \<noteq> c" using cells_okD(3) [OF K, of k l] a(2) by blast
      ultimately have "d \<noteq> cur" using hdc_in(1) [of c "C i j"] by (auto simp: cur_def)
      moreover have "d \<noteq> b" using b(1) d by auto
      moreover have "d + 16 \<noteq> b + 24" "b + 16 \<noteq> d + 24" "d + 16 \<noteq> cur + 24"
        using apart32_links [OF b(2)] d cur by auto
      ultimately show "rd t (d + 16) = rd s (d + 16) \<and> rd t (d + 24) = rd s (d + 24)" unfolding rdt by auto
    qed
    show "\<forall>k<25. \<forall>l<32. bit (sl_bitmap t k) l \<longleftrightarrow> (if k = i \<and> l = j then b # C i j \<noteq> [] else bit (sl_bitmap s k) l)"
      by (auto simp: t_def bit_mark)
    have "bit (sl_bitmap t i) j" using ij(2) by (simp add: t_def bit_mark)
    then have "sl_bitmap t i \<noteq> 0" using ij(2) by (auto simp: u32_zero)
    then show "\<forall>k<32. bit (fl_bitmap t) k \<longleftrightarrow> (if k = i then sl_bitmap t i \<noteq> 0 else bit (fl_bitmap s) k)"
      by (auto simp: t_def bit_mark)
  qed (simp_all add: t_def)
  moreover have "rd t w = rd s w" if "w \<notin> links ?S" for w
    using that cur unfolding rdt by (auto simp: links_def)
  ultimately show ?thesis by blast
qed

end
