(* ===== verification/Tlsf_Inv.thy ===== *)
theory Tlsf_Inv
  imports Tlsf_Lists
begin

text \<open>
  The invariant of the heap: the headers describe a sequence of blocks, and the free lists hold exactly
  the free blocks, each in the list of its size class. While an operation runs, some free blocks may be
  outside the lists; they are named by the argument \<open>X\<close>.
\<close>

section \<open>Filing\<close>

definition filed :: "cells \<Rightarrow> (nat \<times> nat) set \<Rightarrow> bool" where
  "filed C F \<longleftrightarrow> (\<forall>i j. distinct (C i j) \<and> (\<forall>b. b \<in> set (C i j) \<longleftrightarrow> (\<exists>sz. (b, sz) \<in> F \<and> size_class sz = (i, j))))"

lemma filed_mem: "filed C F \<Longrightarrow> b \<in> set (C i j) \<longleftrightarrow> (\<exists>sz. (b, sz) \<in> F \<and> size_class sz = (i, j))"
  by (simp add: filed_def)

lemma filed_distinct: "filed C F \<Longrightarrow> distinct (C i j)"
  by (simp add: filed_def)

lemma filed_members: "filed C F \<Longrightarrow> b \<in> members C \<longleftrightarrow> (\<exists>sz. (b, sz) \<in> F)"
proof -
  assume f: "filed C F"
  have "(\<exists>i j. b \<in> set (C i j)) \<longleftrightarrow> (\<exists>i j sz. (b, sz) \<in> F \<and> size_class sz = (i, j))" using filed_mem [OF f] by simp
  also have "\<dots> \<longleftrightarrow> (\<exists>sz. (b, sz) \<in> F)" by (metis surj_pair)
  finally show ?thesis by (simp add: members_def)
qed

lemma filed_remove:
  assumes "filed C F" "(b, sz) \<in> F" "size_class sz = (i, j)" "\<forall>sz'. (b, sz') \<in> F \<longrightarrow> sz' = sz"
  shows "filed (set_cell C i j (remove1 b (C i j))) (F - {(b, sz)})"
  unfolding filed_def
proof (intro allI conjI)
  fix k l d
  show "distinct (set_cell C i j (remove1 b (C i j)) k l)"
    using filed_distinct [OF assms(1)] by (auto simp: set_cell_apply)
  have r: "set (remove1 b (C i j)) = set (C i j) - {b}" using filed_distinct [OF assms(1)] by (simp add: set_remove1_eq)
  show "d \<in> set (set_cell C i j (remove1 b (C i j)) k l) \<longleftrightarrow> (\<exists>sz'. (d, sz') \<in> F - {(b, sz)} \<and> size_class sz' = (k, l))"
  proof (cases "k = i \<and> l = j")
    case True
    have "d \<in> set (C i j) - {b} \<longleftrightarrow> (\<exists>sz'. (d, sz') \<in> F - {(b, sz)} \<and> size_class sz' = (i, j))"
      using filed_mem [OF assms(1), of d i j] assms(4) by blast
    then show ?thesis using True by (simp only: set_cell_apply r if_True simp_thms)
  next
    case False
    have "(\<exists>sz'. (d, sz') \<in> F - {(b, sz)} \<and> size_class sz' = (k, l)) \<longleftrightarrow> (\<exists>sz'. (d, sz') \<in> F \<and> size_class sz' = (k, l))"
      using False assms(3) by fastforce
    then show ?thesis using filed_mem [OF assms(1), of d k l] False by (simp only: set_cell_apply if_False)
  qed
qed

lemma filed_insert:
  assumes "filed C F" "size_class sz = (i, j)" "\<forall>sz'. (b, sz') \<notin> F"
  shows "filed (set_cell C i j (b # C i j)) (insert (b, sz) F)"
  unfolding filed_def
proof (intro allI conjI)
  fix k l d
  have n: "b \<notin> set (C k l)" for k l using filed_mem [OF assms(1)] assms(3) by simp
  then show "distinct (set_cell C i j (b # C i j) k l)"
    using filed_distinct [OF assms(1)] by (auto simp: set_cell_apply)
  show "d \<in> set (set_cell C i j (b # C i j) k l) \<longleftrightarrow> (\<exists>sz'. (d, sz') \<in> insert (b, sz) F \<and> size_class sz' = (k, l))"
    using filed_mem [OF assms(1), of d k l] assms(2,3) by (auto simp: set_cell_apply)
qed

section \<open>Geometry of free blocks\<close>

definition sized :: "layout \<Rightarrow> bool" where
  "sized bs \<longleftrightarrow> (\<forall>(sz, f)\<in>set bs. 24 \<le> sz \<and> 8 dvd sz)"

lemma sized_simps [simp]: "sized []" "sized ((sz, f) # bs) \<longleftrightarrow> 24 \<le> sz \<and> 8 dvd sz \<and> sized bs"
  "sized (xs @ ys) \<longleftrightarrow> sized xs \<and> sized ys"
  by (auto simp: sized_def)

lemma phys_sized: "phys m a pf bs \<Longrightarrow> sized bs"
  using phys_sizes by (simp add: sized_def)

lemma sized_span: "sized bs \<Longrightarrow> 8 dvd span bs"
  by (induction bs rule: span.induct) auto

lemma frees_sized: "(b, sz) \<in> frees a bs \<Longrightarrow> sized bs \<Longrightarrow> 24 \<le> sz \<and> 8 dvd sz"
  by (induction bs arbitrary: a rule: span.induct) (auto split: if_splits)

lemma frees_aligned: "(b, sz) \<in> frees a bs \<Longrightarrow> sized bs \<Longrightarrow> 8 dvd a \<Longrightarrow> 8 dvd b"
  using frees_split [of b sz a bs] sized_span by auto

text \<open>A free block lies before or after every other block.\<close>

lemma frees_beside:
  assumes "(d, szd) \<in> frees a (xs @ (sz, f) # ys)" "d \<noteq> a + span xs"
  shows "d + 8 + szd \<le> a + span xs \<or> a + span xs + 8 + sz \<le> d"
proof -
  have "(d, szd) \<in> frees a xs \<or> (d, szd) \<in> frees (a + span xs + 8 + sz) ys"
    using assms by (auto simp: add.assoc split: if_splits)
  then show ?thesis using frees_range [of d szd a xs] frees_range [of d szd "a + span xs + 8 + sz" ys] by auto
qed

lemma frees_apart:
  assumes "(b, sz) \<in> frees a bs" "(d, szd) \<in> frees a bs" "b \<noteq> d"
  shows "d + 8 + szd \<le> b \<or> b + 8 + sz \<le> d"
  using frees_split [OF assms(1)] frees_beside [of d szd a] assms(2,3) by blast

lemma frees_fun:
  assumes "(b, sz) \<in> frees a bs" "(b, sz') \<in> frees a bs" "sized bs"
  shows "sz = sz'"
proof -
  obtain xs ys where xy: "bs = xs @ (sz, True) # ys" "b = a + span xs" using frees_split [OF assms(1)] by blast
  have "(b, sz') \<in> frees a xs \<or> sz' = sz \<or> (b, sz') \<in> frees (b + 8 + sz) ys"
    using assms(2) xy by (auto simp: add.assoc)
  then show ?thesis
    using frees_range [of b sz' a xs] frees_range [of b sz' "b + 8 + sz" ys] xy(2) by auto
qed

lemma frees_words:
  assumes "(d, szd) \<in> frees a bs" "sized bs" "w = d + 16 \<or> w = d + 24"
  shows "w \<notin> hwords a bs" "w \<notin> payload a bs"
proof -
  obtain xs ys where xy: "bs = xs @ (szd, True) # ys" "d = a + span xs" using frees_split [OF assms(1)] by blast
  have sz: "24 \<le> szd" "8 dvd szd" using frees_sized [OF assms(1,2)] by auto
  have "w \<notin> hwords d ((szd, True) # ys)" using assms(3) sz hwords_ge [of w "d + 8 + szd" ys] by auto
  then show "w \<notin> hwords a bs" using hwords_append [of w a xs "(szd, True) # ys"] xy assms(3) by auto
  have "w \<notin> payload a xs" "w \<notin> payload (d + 8 + szd) ys"
    using payload_less [of w a xs] payload_ge [of w "d + 8 + szd" ys] xy(2) assms(3) sz(1) by auto
  then show "w \<notin> payload a bs" using xy by (simp add: add.assoc)
qed

section \<open>The invariant\<close>

text \<open>The memory outside of the pool and of the null block, which the allocator never writes.\<close>

definition outer :: "nat \<Rightarrow> nat \<Rightarrow> nat \<Rightarrow> nat set" where
  "outer c a n = {w. w < 2 ^ 64 \<and> (w < a \<or> a + n + 16 \<le> w) \<and> \<not> (c \<le> w \<and> w < c + 32)}"

text \<open>\<open>C\<close> are the free lists, \<open>X\<close> the free blocks that are in no list at the moment, and \<open>M\<close> what the memory
  outside held before the operation.\<close>

definition heap_ok :: "(nat \<Rightarrow> u64) \<Rightarrow> tlsf \<Rightarrow> nat \<Rightarrow> nat \<Rightarrow> layout \<Rightarrow> cells \<Rightarrow> (nat \<times> nat) set \<Rightarrow> bool" where
  "heap_ok M s c a bs C X \<longleftrightarrow>
     pool a bs \<and> phys (rd s) a False bs \<and> flists s c C \<and> filed C (frees a bs - X) \<and> 8 dvd c \<and> 0 < c \<and> c + 32 \<le> a \<and>
     (\<forall>w\<in>outer c a (span bs). rd s w = M w)"

lemma heap_okD:
  assumes "heap_ok M s c a bs C X"
  shows "pool a bs" "phys (rd s) a False bs" "flists s c C" "filed C (frees a bs - X)" "8 dvd c" "0 < c" "c + 32 \<le> a"
    "sized bs" "8 dvd a" "a + span bs + 16 \<le> 2 ^ 64" "span bs < 2 ^ 32 + 8"
    "\<forall>w\<in>outer c a (span bs). rd s w = M w"
  using assms phys_sized by (auto simp: heap_ok_def pool_def)

lemma free_size:
  assumes "pool a bs" "(b, sz) \<in> frees a bs"
  shows "sz < 2 ^ 32"
  using assms frees_range [OF assms(2)] by (simp add: pool_def)

lemma filed_cells_ok:
  assumes F: "filed C F" "F \<subseteq> frees a bs" and "sized bs" "8 dvd a" "a + span bs + 16 \<le> 2 ^ 64"
    and c: "8 dvd c" "0 < c" "c + 32 \<le> a"
  shows "cells_ok c C"
proof -
  have mem: "\<exists>sz. (b, sz) \<in> frees a bs" if "b \<in> members C" for b using filed_members [OF F(1)] F(2) that by blast
  have range: "a \<le> b \<and> b + 32 \<le> a + span bs \<and> 8 dvd b" if bm: "b \<in> members C" for b
  proof -
    obtain sz where "(b, sz) \<in> frees a bs" using mem [OF bm] by blast
    then show ?thesis using frees_range [of b sz a bs] frees_sized [of b sz a bs] frees_aligned [of b sz a bs] assms(3,4) by auto
  qed
  show ?thesis
    unfolding cells_ok_def
  proof (intro conjI allI impI ballI)
    show "distinct (C i j)" for i j using filed_distinct [OF F(1)] .
    show "i = k" "j = l" if both: "b \<in> set (C i j) \<and> b \<in> set (C k l)" for i j k l b
    proof -
      obtain sz sz' where "(b, sz) \<in> frees a bs" "size_class sz = (i, j)" "(b, sz') \<in> frees a bs" "size_class sz' = (k, l)"
        using filed_mem [OF F(1), of b i j] filed_mem [OF F(1), of b k l] F(2) both by blast
      then show "i = k" "j = l" using frees_fun [of b sz a bs sz'] assms(3) by auto
    qed
    show "c \<notin> members C" using range [of c] c(3) by auto
    show "apart32 (insert c (members C))"
      unfolding apart32_def
    proof (intro ballI impI)
      fix b d assume bd: "b \<in> insert c (members C)" "d \<in> insert c (members C)" "b \<noteq> d"
      show "b + 32 \<le> d \<or> d + 32 \<le> b"
      proof (cases "b = c \<or> d = c")
        case True
        then show ?thesis using bd range [of b] range [of d] c(3) by auto
      next
        case False
        then obtain sz szd where f: "(b, sz) \<in> frees a bs" "(d, szd) \<in> frees a bs" using bd mem by blast
        then show ?thesis using frees_apart [OF f bd(3)] frees_sized [OF f(1) assms(3)] frees_sized [OF f(2) assms(3)] by linarith
      qed
    qed
    show "8 dvd b" "0 < b" "b + 32 \<le> 2 ^ 64" if "b \<in> insert c (members C)" for b
      using that range [of b] c assms(5) by auto
  qed
qed

lemma heap_cells_ok: "heap_ok M s c a bs C X \<Longrightarrow> cells_ok c C"
  using heap_okD [of M s c a bs C X] by (intro filed_cells_ok [of C "frees a bs - X" a bs]) auto

lemma free_block_hdr:
  assumes "heap_ok M s c a bs C X" "(b, sz) \<in> frees a bs"
  shows "\<exists>pf. hdr s b sz True pf"
proof -
  obtain xs ys where xy: "bs = xs @ (sz, True) # ys" "b = a + span xs" using frees_split [OF assms(2)] by blast
  then show ?thesis using phys_hdr(1) heap_okD(1,2) [OF assms(1)] by blast
qed

lemma links_free:
  assumes "heap_ok M s c a bs C X" "(b, sz) \<in> frees a bs" "w \<in> links (insert b (insert c (members C)))"
  shows "w \<notin> hwords a bs" "w \<notin> payload a bs" "w \<notin> outer c a (span bs)"
proof -
  note h = heap_okD [OF assms(1)]
  have d: "(w = c + 16 \<or> w = c + 24) \<or> (\<exists>d szd. (d, szd) \<in> frees a bs \<and> (w = d + 16 \<or> w = d + 24))"
    using assms(2,3) filed_members [OF h(4)] by (auto simp: links_def)
  then show "w \<notin> hwords a bs" "w \<notin> payload a bs"
    using frees_words [OF _ h(8)] hwords_ge [of w a bs] payload_ge [of w a bs] h(7) by force+
  show "w \<notin> outer c a (span bs)" using d frees_range [of _ _ a bs] frees_sized [OF _ h(8)] by (fastforce simp: outer_def)
qed

text \<open>Taking a block out of its list, and putting it back.\<close>

lemma heap_remove:
  assumes H: "heap_ok M s c a bs C X" and b: "(b, sz) \<in> frees a bs - X" and cl: "size_class sz = (i, j)"
  shows "\<exists>t D. remove_free_block s (ptr b) i j = Some t \<and> heap_ok M t c a bs D (insert (b, sz) X) \<and>
    (\<forall>w\<in>payload a bs. rd t w = rd s w)"
proof -
  note h = heap_okD [OF H]
  have sz: "sz < 2 ^ 32" using free_size [OF h(1)] b by auto
  then have ij: "i < 25" "j < 32" using size_class_bounds [OF cl] by auto
  have mem: "b \<in> set (C i j)" using filed_mem [OF h(4)] b cl by blast
  obtain t where t: "remove_free_block s (ptr b) i j = Some t" "flists t c (set_cell C i j (remove1 b (C i j)))"
    "\<forall>w. w \<notin> links (insert c (members C)) \<longrightarrow> rd t w = rd s w"
    using remove_free_block_ok [OF h(3) heap_cells_ok [OF H] mem ij] by blast
  have "links (insert c (members C)) \<subseteq> links (insert b (insert c (members C)))" by (auto simp: links_def)
  then have keep: "rd t w = rd s w" if "w \<in> hwords a bs \<or> w \<in> payload a bs \<or> w \<in> outer c a (span bs)" for w
    using t(3) links_free [OF H, of b sz w] b that by blast
  have "phys (rd t) a False bs" using h(2) by (rule phys_hwords) (use keep in auto)
  moreover have "filed (set_cell C i j (remove1 b (C i j))) (frees a bs - X - {(b, sz)})"
    by (rule filed_remove [OF h(4) b cl]) (use frees_fun [of b sz a bs] h(8) b in blast)
  moreover have "frees a bs - X - {(b, sz)} = frees a bs - insert (b, sz) X" by auto
  ultimately have "heap_ok M t c a bs (set_cell C i j (remove1 b (C i j))) (insert (b, sz) X)"
    using h t(2) keep by (simp add: heap_ok_def)
  then show ?thesis using t(1) keep by blast
qed

lemma heap_block_remove:
  assumes H: "heap_ok M s c a bs C X" and b: "(b, sz) \<in> frees a bs - X"
  shows "\<exists>t D. block_remove s (ptr b) = Some t \<and> heap_ok M t c a bs D (insert (b, sz) X) \<and>
    (\<forall>w\<in>payload a bs. rd t w = rd s w)"
proof -
  obtain i j where cl: "size_class sz = (i, j)" by (metis surj_pair)
  have "block_size s (ptr b) = ptr sz" using free_block_hdr [OF H, of b sz] b hdr_get(1) by blast
  then have "block_remove s (ptr b) = remove_free_block s (ptr b) i j"
    using cl by (simp add: block_remove_def size_class_def ptr_def)
  then show ?thesis using heap_remove [OF H b cl] by simp
qed

lemma heap_block_insert:
  assumes H: "heap_ok M s c a bs C X" and b: "(b, sz) \<in> frees a bs" "(b, sz) \<in> X"
  shows "\<exists>t D. block_insert s (ptr b) = Some t \<and> heap_ok M t c a bs D (X - {(b, sz)}) \<and>
    (\<forall>w\<in>payload a bs. rd t w = rd s w)"
proof -
  note h = heap_okD [OF H]
  obtain i j where cl: "size_class sz = (i, j)" by (metis surj_pair)
  have sz: "sz < 2 ^ 32" using free_size [OF h(1) b(1)] .
  then have ij: "i < 25" "j < 32" using size_class_bounds [OF cl] by auto
  have nb: "\<forall>sz'. (b, sz') \<notin> frees a bs - X" using frees_fun [OF b(1) _ h(8)] b(2) by auto
  let ?D = "set_cell C i j (b # C i j)"
  have F: "insert (b, sz) (frees a bs - X) = frees a bs - (X - {(b, sz)})" using b by auto
  have fd: "filed ?D (frees a bs - (X - {(b, sz)}))" using filed_insert [OF h(4) cl nb] F by simp
  have D: "cells_ok c ?D" by (rule filed_cells_ok [OF fd]) (use h in auto)
  have mD: "members ?D = insert b (members C)"
    using filed_members [OF fd] filed_members [OF h(4)] unfolding F [symmetric] by auto
  have bm: "b \<in> members ?D" using mD by simp
  have "b \<notin> members C" using filed_members [OF h(4)] nb by simp
  moreover have "b \<noteq> c" using frees_range [OF b(1)] h(6,7) by auto
  moreover have "apart32 (insert b (insert c (members C)))" using cells_okD(4) [OF D] mD by (simp add: insert_commute)
  moreover have "8 dvd b" "0 < b" "b + 32 \<le> 2 ^ 64" using cells_okD(5-7) [OF D] bm by auto
  ultimately obtain t where t: "insert_free_block s (ptr b) i j = Some t" "flists t c ?D"
    "\<forall>w. w \<notin> links (insert b (insert c (members C))) \<longrightarrow> rd t w = rd s w"
    using insert_free_block_ok [OF h(3) heap_cells_ok [OF H] ij, of b] by blast
  have keep: "rd t w = rd s w" if "w \<in> hwords a bs \<or> w \<in> payload a bs \<or> w \<in> outer c a (span bs)" for w
    using t(3) links_free [OF H b(1)] that by blast
  have "phys (rd t) a False bs" using h(2) by (rule phys_hwords) (use keep in auto)
  then have "heap_ok M t c a bs ?D (X - {(b, sz)})" using h t(2) fd keep by (simp add: heap_ok_def)
  moreover have "block_size s (ptr b) = ptr sz" using free_block_hdr [OF H b(1)] hdr_get(1) by blast
  then have "block_insert s (ptr b) = Some t" using cl t(1) by (simp add: block_insert_def size_class_def ptr_def)
  ultimately show ?thesis using keep by blast
qed

text \<open>A change of consecutive blocks that are outside the lists.\<close>

lemma heap_phys:
  assumes H: "heap_ok M s c a (xs @ old @ ys) C (frees b old)" and b: "b = a + span xs" and sp: "span new = span old"
    and seg: "seg (rd t) b (lastf False xs) new"
    and nx: "rd t (b + span old + 8) = hw (nsz ys) (nf ys) (lastf (lastf False xs) new)"
    and keep: "\<forall>w. w \<le> b \<or> b + span old + 8 < w \<longrightarrow> rd t w = rd s w" and ctl: "same_ctl s t"
  shows "heap_ok M t c a (xs @ new @ ys) C (frees b new)"
    "\<forall>w\<in>payload a xs \<union> payload (b + span old) ys. rd t w = rd s w"
proof -
  note h = heap_okD [OF H]
  have out: "frees a (xs @ zs @ ys) - frees b zs = frees a xs \<union> frees (b + span old) ys" if "span zs = span old" for zs
    using frees_range [of _ _ b zs] frees_range [of _ _ a xs] frees_range [of _ _ "b + span old" ys] that b
    by (fastforce simp: add.assoc)
  have F: "frees a (xs @ new @ ys) - frees b new = frees a (xs @ old @ ys) - frees b old" using out sp by simp
  have "phys (rd t) a False (xs @ new @ ys)" by (rule phys_replace [OF h(2) b sp seg nx keep])
  moreover have "flists t c C"
  proof (rule flists_cong [OF h(3) ctl], rule ballI)
    fix w assume "w \<in> links (members C)"
    then obtain d where "d \<in> members C" and w: "w = d + 16 \<or> w = d + 24" by (auto simp: links_def)
    then obtain szd where d: "(d, szd) \<in> frees a xs \<union> frees (b + span old) ys"
      using filed_members [OF h(4), unfolded out [OF refl]] by blast
    then have "w \<le> b \<or> b + span old + 8 < w"
      using frees_range [of d szd a xs] frees_sized [of d szd a xs] frees_range [of d szd "b + span old" ys] h(8) b w by auto
    then show "rd t w = rd s w" using keep by blast
  qed
  moreover have "pool a (xs @ new @ ys)" using h(1) sp by (simp add: pool_def)
  moreover have "w \<le> b \<or> b + span old + 8 < w" if "w \<in> outer c a (span (xs @ old @ ys))" for w
    using that b by (auto simp: outer_def)
  then have "\<forall>w\<in>outer c a (span (xs @ new @ ys)). rd t w = M w" using keep h(12) unfolding span_append sp by metis
  ultimately show "heap_ok M t c a (xs @ new @ ys) C (frees b new)" using h F by (simp add: heap_ok_def)
  show "\<forall>w\<in>payload a xs \<union> payload (b + span old) ys. rd t w = rd s w"
  proof
    fix w assume "w \<in> payload a xs \<union> payload (b + span old) ys"
    moreover have "8 dvd b" using h(8,9) sized_span b by simp
    ultimately show "rd t w = rd s w"
    proof (cases "w \<le> b \<or> b + span old + 8 < w")
      case False
      then have "b < w" "w < b + 8" using \<open>w \<in> payload a xs \<union> payload (b + span old) ys\<close> payload_less [of w a xs]
        payload_ge [of w "b + span old" ys] b by auto
      then have "\<not> ok w" using \<open>8 dvd b\<close> by (auto simp: ok_def elim!: dvdE)
      then show ?thesis by (simp add: rd_def)
    qed (use keep in blast)
  qed
qed

end
