(* ===== verification/Tlsf_Alloc.thy ===== *)
theory Tlsf_Alloc
  imports Tlsf_Inv
begin

text \<open>
  The allocation path of \<^verbatim>\<open>kernel/main/mm/heapalloc/tlsf.c\<close>: the bitmap search finds a list whose blocks are
  all large enough, and taking, trimming and marking a block keeps the heap well formed.
\<close>

lemma bit_above: "bit (w AND push_bit n (NOT 0)) k \<longleftrightarrow> bit w k \<and> n \<le> k" for w :: u32
  using bit_imp_possible_bit [of w k] by (auto simp: bit_and_iff bit_push_bit_iff bit_not_iff bit_mask_iff possible_bit_word)

lemma u32_all_zero: "w = 0 \<longleftrightarrow> (\<forall>k<32. \<not> bit w k)" for w :: u32
  using word_nonzero_bit [of w] by auto

lemma search_suitable_ok:
  assumes L: "flists s c C" and ij: "i < 25" "j < 32"
  shows "(\<exists>k l. search_suitable_block s i j = Some (ptr (hd (C k l)), k, l) \<and> k < 25 \<and> l < 32 \<and> C k l \<noteq> [] \<and>
      class_le (i, j) (k, l)) \<or>
    search_suitable_block s i j = Some (0, i, j) \<and> (\<forall>k<25. \<forall>l<32. class_le (i, j) (k, l) \<longrightarrow> C k l = [])"
proof (cases "sl_bitmap s i AND push_bit j (NOT 0) = 0")
  case False
  obtain l where l: "l < 32" "tlsf_ffs (sl_bitmap s i AND push_bit j (NOT 0)) = int l"
    "bit (sl_bitmap s i AND push_bit j (NOT 0)) l" using tlsf_ffs_spec [OF False] by blast
  then have c: "C i l \<noteq> []" "j \<le> l" using flistsD(4) [OF L ij(1) l(1)] by (auto simp only: bit_above)
  then have "blocks s i l = ptr (hd (C i l))" using flistsD(2) [OF L ij(1) l(1)] by (cases "C i l") auto
  then have "search_suitable_block s i j = Some (ptr (hd (C i l)), i, l)"
    using False l(2) by (simp add: search_suitable_block_def Let_def)
  then show ?thesis using ij(1) l(1) c by (auto simp: class_le_def)
next
  case True
  then have row: "C i l = []" if "j \<le> l" "l < 32" for l
    using u32_all_zero [of "sl_bitmap s i AND push_bit j (NOT 0)"] flistsD(4) [OF L ij(1) that(2)] that bit_above by blast
  show ?thesis
  proof (cases "fl_bitmap s AND push_bit (i + 1) (NOT 0) = 0")
    case none: True
    have "C k l = []" if "i < k" "k < 25" "l < 32" for k l
    proof -
      have "\<not> bit (fl_bitmap s AND push_bit (i + 1) (NOT 0)) k" unfolding none by simp
      then show ?thesis using bit_above [of "fl_bitmap s" "i + 1" k] flistsD(5) [OF L, of k] that by auto
    qed
    then have "\<forall>k<25. \<forall>l<32. class_le (i, j) (k, l) \<longrightarrow> C k l = []" using row by (auto simp: class_le_def)
    then show ?thesis using True none by (simp add: search_suitable_block_def Let_def)
  next
    case some: False
    obtain k where k: "k < 32" "tlsf_ffs (fl_bitmap s AND push_bit (i + 1) (NOT 0)) = int k"
      "bit (fl_bitmap s AND push_bit (i + 1) (NOT 0)) k" using tlsf_ffs_spec [OF some] by blast
    then have ik: "i < k" "k < 25" "\<exists>l<32. C k l \<noteq> []" using flistsD(5) [OF L k(1)] by (auto simp only: bit_above)
    then have nz: "sl_bitmap s k \<noteq> 0" using flistsD(4) [OF L ik(2)] by (auto simp: u32_all_zero)
    obtain l where l: "l < 32" "tlsf_ffs (sl_bitmap s k) = int l" "bit (sl_bitmap s k) l" using tlsf_ffs_spec [OF nz] by blast
    then have c: "C k l \<noteq> []" using flistsD(4) [OF L ik(2) l(1)] by simp
    then have "blocks s k l = ptr (hd (C k l))" using flistsD(2) [OF L ik(2) l(1)] by (cases "C k l") auto
    then have "search_suitable_block s i j = Some (ptr (hd (C k l)), k, l)"
      using True some nz k(2) l(2) by (simp add: search_suitable_block_def Let_def tlsf_assert_def)
    then show ?thesis using ik l(1) c by (auto simp: class_le_def)
  qed
qed


section \<open>Physical steps on blocks outside the lists\<close>

lemma heap_mark_used:
  assumes H: "heap_ok M s c a (xs @ (sz, True) # ys) C {(b, sz)}" and b: "b = a + span xs"
  shows "\<exists>t. block_mark_as_used s (ptr b) = Some t \<and> heap_ok M t c a (xs @ (sz, False) # ys) C {} \<and>
    (\<forall>w\<in>payload a (xs @ (sz, True) # ys). rd t w = rd s w)"
proof -
  note h = heap_okD [OF H] and p = phys_hdr [OF heap_okD(2,1) [OF H] b]
  obtain t where t: "block_mark_as_used s (ptr b) = Some t" "same_ctl s t"
    "rd t = (rd s)(b + 8 + sz + 8 := hw (nsz ys) (nf ys) False, b + 8 := hw sz False (lastf False xs))"
    using mark_as_used_ok [OF p(1,2)] p(5) by auto
  have "heap_ok M t c a (xs @ [(sz, False)] @ ys) C (frees b [(sz, False)])"
    "\<forall>w\<in>payload a xs \<union> payload (b + span [(sz, True)]) ys. rd t w = rd s w"
    using heap_phys [of M s c a xs "[(sz, True)]" ys C b "[(sz, False)]" t] H b t(2) p(5,6) unfolding t(3) by auto
  then show ?thesis using t(1) b by (auto simp: add.assoc)
qed

lemma heap_mark_free:
  assumes H: "heap_ok M s c a (xs @ (sz, False) # ys) C {}" and b: "b = a + span xs"
  shows "\<exists>t. block_mark_as_free s (ptr b) = Some t \<and> heap_ok M t c a (xs @ (sz, True) # ys) C {(b, sz)} \<and>
    (\<forall>w\<in>payload a xs \<union> payload (b + 8 + sz) ys. rd t w = rd s w)"
proof -
  note h = heap_okD [OF H] and p = phys_hdr [OF heap_okD(2,1) [OF H] b]
  obtain t where t: "block_mark_as_free s (ptr b) = Some t" "same_ctl s t"
    "rd t = (rd s)(b + 8 + sz := ptr b, b + 8 + sz + 8 := hw (nsz ys) (nf ys) True, b + 8 := hw sz True (lastf False xs))"
    using mark_as_free_ok [OF p(1,2) _ p(4)] p(5) by auto
  have "heap_ok M t c a (xs @ [(sz, True)] @ ys) C (frees b [(sz, True)])"
    "\<forall>w\<in>payload a xs \<union> payload (b + span [(sz, False)]) ys. rd t w = rd s w"
    using heap_phys [of M s c a xs "[(sz, False)]" ys C b "[(sz, True)]" t] H b t(2) p(5,6) unfolding t(3) by auto
  then show ?thesis using t(1) b by (auto simp: add.assoc)
qed

lemma heap_absorb:
  assumes H: "heap_ok M s c a (xs @ (s1, True) # (s2, True) # ys) C {(b, s2), (p, s1)}"
    and p: "p = a + span xs" "b = p + 8 + s1"
  shows "\<exists>t. block_absorb s (ptr p) (ptr b) = Some (ptr p, t) \<and>
    heap_ok M t c a (xs @ (s1 + s2 + 8, True) # ys) C {(p, s1 + s2 + 8)} \<and>
    (\<forall>w\<in>payload a (xs @ (s1, True) # (s2, True) # ys). rd t w = rd s w)"
proof -
  note h = heap_okD [OF H] and p1 = phys_hdr [OF heap_okD(2,1) [OF H] p(1)]
  have H2: "heap_ok M s c a ((xs @ [(s1, True)]) @ (s2, True) # ys) C {(b, s2), (p, s1)}" using H by simp
  have b: "b = a + span (xs @ [(s1, True)])" using p by simp
  note p2 = phys_hdr [OF heap_okD(2,1) [OF H2] b]
  have e: "p + 8 + (s1 + s2 + 8) = b + 8 + s2" using p by simp
  have "s1 + s2 + 8 < 2 ^ 63" using p1(7) p2(7) by simp
  then obtain t where t: "block_absorb s (ptr p) (ptr b) = Some (ptr p, t)" "same_ctl s t"
    "rd t = (rd s)(p + 8 := hw (s1 + s2 + 8) True (lastf False xs), b + 8 + s2 := ptr p)"
    using absorb_ok [OF p1(1) p2(1)] p1(5) p2(4) unfolding e by auto
  have nx: "rd s (b + 8 + s2 + 8) = hw (nsz ys) (nf ys) True" using p2(2) by (simp add: hdr_def)
  have "heap_ok M t c a (xs @ [(s1 + s2 + 8, True)] @ ys) C (frees p [(s1 + s2 + 8, True)])"
    "\<forall>w\<in>payload a xs \<union> payload (p + span [(s1, True), (s2, True)]) ys. rd t w = rd s w"
    using heap_phys [of M s c a xs "[(s1, True), (s2, True)]" ys C p "[(s1 + s2 + 8, True)]" t]
      H p t(2) p1(5,6) p2(5,6) nx unfolding t(3) by (auto simp: ac_simps)
  then show ?thesis using t(1) p by (auto simp: add.assoc)
qed


lemma heap_split_free:
  assumes H: "heap_ok M s c a (xs @ (sz, True) # ys) C {(b, sz)}" and b: "b = a + span xs"
    and n: "24 \<le> n" "8 dvd n" "n + 32 \<le> sz"
  shows "\<exists>t1 t2. block_split s (ptr b) (ptr n) = Some (ptr (b + 8 + n), t1) \<and>
    block_link_next t1 (ptr b) = Some (ptr (b + 8 + n), t2) \<and>
    heap_ok M (block_set_prev_free t2 (ptr (b + 8 + n))) c a (xs @ (n, True) # (sz - n - 8, True) # ys) C
      {(b + 8 + n, sz - n - 8), (b, n)} \<and>
    (\<forall>w\<in>payload a (xs @ (sz, True) # ys). rd (block_set_prev_free t2 (ptr (b + 8 + n))) w = rd s w)"
proof -
  let ?r = "b + 8 + n" and ?m = "sz - n - 8"
  note h = heap_okD [OF H] and p = phys_hdr [OF heap_okD(2,1) [OF H] b]
  obtain t where t: "block_split s (ptr b) (ptr n) = Some (ptr ?r, t)" "same_ctl s t"
    "rd t = (rd s)(b + 8 := hw n True (lastf False xs), ?r + 8 := hw ?m True (bit (rd s (?r + 8)) 1),
      b + 8 + sz := ptr ?r, b + 8 + sz + 8 := hw (nsz ys) (nf ys) True)"
    using block_split_ok [OF p(1,2) n(3,2) _ p(4)] n(1) by auto
  have k: "ok (b + 8)" "ok (?r + 8)" "ok ?r" using p(6,9) n by (auto intro!: ok_less [OF p(4)])
  have m: "24 \<le> ?m" "8 dvd ?m" "?m < 2 ^ 63" "n < 2 ^ 63" using n p(6,7) by auto
  have "hdr t b n True (lastf False xs)" using k m n unfolding hdr_def t(3) by auto
  then have l: "block_link_next t (ptr b) = Some (ptr ?r, poke t ?r (ptr b))" using link_next_ok n(1) by auto
  have "hdr (poke t ?r (ptr b)) ?r ?m True (bit (rd s (?r + 8)) 1)" using k m n unfolding hdr_def by (simp add: t(3))
  then have pf: "block_set_prev_free (poke t ?r (ptr b)) (ptr ?r) = poke (poke t ?r (ptr b)) (?r + 8) (hw ?m True True)"
    by (rule hdr_set(3))
  let ?u = "poke (poke t ?r (ptr b)) (?r + 8) (hw ?m True True)"
  have u: "rd ?u = (rd s)(b + 8 := hw n True (lastf False xs), ?r + 8 := hw ?m True True, ?r := ptr b,
      b + 8 + sz := ptr ?r, b + 8 + sz + 8 := hw (nsz ys) (nf ys) True)"
    using k n by (auto simp: t(3) fun_eq_iff)
  have e: "?r + 8 + ?m = b + 8 + sz" using n by simp
  have R: "heap_ok M ?u c a (xs @ [(n, True), (?m, True)] @ ys) C (frees b [(n, True), (?m, True)])"
    "\<forall>w\<in>payload a xs \<union> payload (b + span [(sz, True)]) ys. rd ?u w = rd s w"
    using heap_phys [of M s c a xs "[(sz, True)]" ys C b "[(n, True), (?m, True)]" ?u] H b t(2) m n e unfolding u
    by (auto simp: same_ctl_def)
  have "heap_ok M ?u c a (xs @ (n, True) # (?m, True) # ys) C {(?r, ?m), (b, n)}" using R(1) by (simp add: insert_commute)
  moreover have "\<forall>w\<in>payload a (xs @ (sz, True) # ys). rd ?u w = rd s w" using R(2) b by (simp add: add.assoc)
  ultimately show ?thesis using t(1) l unfolding pf [symmetric] by blast
qed


section \<open>Allocation\<close>

lemma can_split_ok:
  assumes "hdr s b sz f pf" "n < 2 ^ 33" "sz < 2 ^ 32"
  shows "block_can_split s (ptr b) (ptr n) \<longleftrightarrow> n + 32 \<le> sz"
  using hdr_get(1) [OF assms(1)] assms(2,3)
  by (simp add: block_can_split_def tlsf_consts ptr_numeral [of "num.Bit0 n" for n] ptr_plus word_le_nat_alt unat_ptr add.commute)

lemma heap_trim_free:
  assumes H: "heap_ok M s c a (xs @ (sz, True) # ys) C {(b, sz)}" and b: "b = a + span xs"
    and n: "24 \<le> n" "8 dvd n" "n \<le> sz"
  shows "\<exists>t D k rest. block_trim_free s (ptr b) (ptr n) = Some t \<and>
    heap_ok M t c a (xs @ (k, True) # rest @ ys) D {(b, k)} \<and> span ((k, True) # rest) = 8 + sz \<and>
    (k = n \<and> rest = [(sz - n - 8, True)] \<or> k = sz \<and> rest = [] \<and> sz < n + 32) \<and>
    (\<forall>w\<in>payload a (xs @ (sz, True) # ys). rd t w = rd s w)"
proof -
  note p = phys_hdr [OF heap_okD(2,1) [OF H] b]
  have cs: "block_can_split s (ptr b) (ptr n) \<longleftrightarrow> n + 32 \<le> sz" using can_split_ok [OF p(1)] p(7) n by simp
  note g = hdr_get [OF p(1)]
  show ?thesis
  proof (cases "n + 32 \<le> sz")
    case False
    then show ?thesis using H g cs by (intro exI [of _ s] exI [of _ C] exI [of _ sz] exI [of _ "[]"])
      (auto simp: block_trim_free_def tlsf_assert_def)
  next
    case True
    let ?r = "b + 8 + n" and ?m = "sz - n - 8"
    obtain t1 t2 where t: "block_split s (ptr b) (ptr n) = Some (ptr ?r, t1)" "block_link_next t1 (ptr b) = Some (ptr ?r, t2)"
      "heap_ok M (block_set_prev_free t2 (ptr ?r)) c a (xs @ (n, True) # (?m, True) # ys) C {(?r, ?m), (b, n)}"
      "\<forall>w\<in>payload a (xs @ (sz, True) # ys). rd (block_set_prev_free t2 (ptr ?r)) w = rd s w"
      using heap_split_free [OF H b n(1,2) True] by blast
    have "(?r, ?m) \<in> frees a (xs @ (n, True) # (?m, True) # ys)" using b by (simp add: add.assoc)
    then obtain t D where i: "block_insert (block_set_prev_free t2 (ptr ?r)) (ptr ?r) = Some t"
      "heap_ok M t c a (xs @ (n, True) # (?m, True) # ys) D ({(?r, ?m), (b, n)} - {(?r, ?m)})"
      "\<forall>w\<in>payload a (xs @ (n, True) # (?m, True) # ys). rd t w = rd (block_set_prev_free t2 (ptr ?r)) w"
      using heap_block_insert [OF t(3)] by blast
    have "payload a (xs @ (sz, True) # ys) = payload a (xs @ (n, True) # (?m, True) # ys)" using True by (simp add: ac_simps)
    moreover have "{(?r, ?m), (b, n)} - {(?r, ?m)} = {(b, n)}" by auto
    moreover have "block_trim_free s (ptr b) (ptr n) = Some t"
      using g cs True t(1,2) i(1) by (simp add: block_trim_free_def tlsf_assert_def Let_def)
    ultimately show ?thesis using i(2,3) t(4) True
      by (intro exI [of _ t] exI [of _ D] exI [of _ n] exI [of _ "[(?m, True)]"]) auto
  qed
qed

lemma heap_locate:
  assumes H: "heap_ok M s c a bs C {}" and n: "24 \<le> n" "8 dvd n" "n < 2 ^ 32"
  shows "(\<exists>xs sz ys t D. bs = xs @ (sz, True) # ys \<and> n \<le> sz \<and> block_locate_free s (ptr n) = Some (ptr (a + span xs), t) \<and>
      heap_ok M t c a bs D {(a + span xs, sz)} \<and> (\<forall>w\<in>payload a bs. rd t w = rd s w)) \<or>
    block_locate_free s (ptr n) = Some (0, s) \<and> (\<forall>(b, sz)\<in>frees a bs. sz < n + n div 32)"
proof -
  note h = heap_okD [OF H]
  obtain i j where ij: "search_class n = (i, j)" by (metis surj_pair)
  have nz: "ptr n \<noteq> 0" using n ptr_nonzero [of n] by simp
  have ms: "mapping_search (ptr n) = (i, j)" using ij by (simp add: search_class_def ptr_def)
  have sl: "j < 32" using search_class_fits(1) [OF n(3,2) ij] .
  have none: "\<forall>(b, sz)\<in>frees a bs. sz < n + n div 32" if "\<forall>k<25. \<forall>l<32. class_le (i, j) (k, l) \<longrightarrow> C k l = []"
  proof (intro ballI, clarify, rule ccontr)
    fix b sz assume bs: "(b, sz) \<in> frees a bs" "\<not> sz < n + n div 32"
    obtain k l where kl: "size_class sz = (k, l)" by (metis surj_pair)
    have sz: "sz < 2 ^ 32" using free_size [OF h(1) bs(1)] .
    have "class_le (i, j) (k, l)" using search_class_complete [of n sz] n(3) bs(2) sz ij kl by simp
    moreover have "k < 25" "l < 32" using size_class_bounds [OF kl] sz by auto
    moreover have "b \<in> set (C k l)" using filed_mem [OF h(4)] bs(1) kl by blast
    ultimately show False using that by auto
  qed
  show ?thesis
  proof (cases "i < 25")
    case False
    then have "block_locate_free s (ptr n) = Some (0, s)"
      using nz ms by (simp add: block_locate_free_def FL_INDEX_COUNT_def FL_INDEX_MAX_def FL_INDEX_SHIFT_def tlsf_consts)
    moreover have "\<forall>k<25. \<forall>l<32. class_le (i, j) (k, l) \<longrightarrow> C k l = []" using False by (auto simp: class_le_def)
    ultimately show ?thesis using none by blast
  next
    case True
    have loc: "block_locate_free s (ptr n) = Option.bind (search_suitable_block s i j) (\<lambda>(b, fl, sl).
        if b \<noteq> 0 then Option.bind (tlsf_assert (block_size s b \<ge> ptr n)) (\<lambda>_.
          Option.bind (remove_free_block s b fl sl) (\<lambda>s. Some (b, s))) else Some (b, s))"
      using nz ms True by (simp add: block_locate_free_def tlsf_consts)
    consider (found) k l where "search_suitable_block s i j = Some (ptr (hd (C k l)), k, l)" "k < 25" "l < 32" "C k l \<noteq> []"
        "class_le (i, j) (k, l)"
      | (none) "search_suitable_block s i j = Some (0, i, j)" "\<forall>k<25. \<forall>l<32. class_le (i, j) (k, l) \<longrightarrow> C k l = []"
      using search_suitable_ok [OF h(3) True sl] by blast
    then show ?thesis
    proof cases
      case none
      then show ?thesis using loc \<open>\<forall>k<25. \<forall>l<32. class_le (i, j) (k, l) \<longrightarrow> C k l = [] \<Longrightarrow> _\<close> by simp
    next
      case (found k l)
      let ?b = "hd (C k l)"
      have "?b \<in> set (C k l)" using found(4) by simp
      then obtain sz where b: "(?b, sz) \<in> frees a bs" "size_class sz = (k, l)" using filed_mem [OF h(4)] by auto
      obtain xs ys where xy: "bs = xs @ (sz, True) # ys" "?b = a + span xs" using frees_split [OF b(1)] by blast
      have sz: "sz < 2 ^ 32" using free_size [OF h(1) b(1)] .
      have fit: "n \<le> sz" using search_class_suffices [OF n(3,2) _ sz] found(5) ij b(2) by simp
      obtain t D where t: "remove_free_block s (ptr ?b) k l = Some t" "heap_ok M t c a bs D {(?b, sz)}"
        "\<forall>w\<in>payload a bs. rd t w = rd s w" using heap_remove [OF H _ b(2), of ?b] b(1) by auto
      have bz: "ptr ?b \<noteq> 0" using frees_range [OF b(1)] h by (intro ptr_nonzero) auto
      obtain pf where hd: "hdr s ?b sz True pf" using free_block_hdr [OF H b(1)] by blast
      have "block_size s (ptr ?b) \<ge> ptr n" using hdr_get(1) [OF hd] fit sz by (simp add: word_le_nat_alt unat_ptr add.commute)
      then have "block_locate_free s (ptr n) = Some (ptr ?b, t)" using loc found(1) bz t(1) by (simp add: tlsf_assert_def)
      then show ?thesis using xy fit t(2,3) by metis
    qed
  qed
qed


text \<open>The block size for a request: a multiple of 8 of at least 24 bytes, or 0 if there is none below 4 GiB.\<close>

definition request :: "nat \<Rightarrow> nat" where
  "request n = (if n = 0 \<or> 2 ^ 32 \<le> (n + 7) div 8 * 8 then 0 else max 24 ((n + 7) div 8 * 8))"

lemma adjust_request_ok:
  assumes "unat r \<le> 2 ^ 64 - 8"
  shows "adjust_request_size r ALIGN_SIZE = Some (ptr (request (unat r)))"
proof -
  have "unat (ALIGN_UP r (2 ^ 3)) = (unat r + 7) div 8 * 8" using unat_ALIGN_UP [of 3 r] assms by simp
  then have a: "ALIGN_UP r (2 ^ 3) = ptr ((unat r + 7) div 8 * 8)" unfolding ptr_def by (metis of_nat_of_unat)
  have e: "align_up r ALIGN_SIZE = Some (ptr ((unat r + 7) div 8 * 8))"
    using a by (simp add: align_up_def tlsf_consts ALIGN_UP_def tlsf_assert_def)
  have "(unat r + 7) div 8 * 8 < 2 ^ 64" using assms unat_lt64 [of r] by (auto simp del: unat_lt64)
  then have u: "unat (ptr ((unat r + 7) div 8 * 8)) = (unat r + 7) div 8 * 8" by (rule unat_ptr)
  have z: "r = 0 \<longleftrightarrow> unat r = 0" by (simp add: unat_eq_zero)
  have c: "ptr 24 = 24" "ptr 0 = 0" by (simp_all add: ptr_def)
  define k where "k = (unat r + 7) div 8 * 8"
  show ?thesis using u unfolding adjust_request_size_def e bind.bind_lunit k_def [symmetric]
    by (auto simp: request_def k_def [symmetric] z tlsf_consts word_less_nat_alt max_def c)
qed

lemma request_props: "request n \<noteq> 0 \<Longrightarrow> 24 \<le> request n \<and> 8 dvd request n \<and> request n < 2 ^ 32 \<and> n \<le> request n"
  by (auto simp: request_def max_def split: if_splits)

definition heapg :: "(nat \<Rightarrow> u64) \<Rightarrow> nat \<Rightarrow> tlsf \<Rightarrow> nat \<Rightarrow> layout \<Rightarrow> bool" where
  "heapg M c s a bs \<longleftrightarrow> coalesced bs \<and> (\<exists>C. heap_ok M s c a bs C {})"

lemma heap_prepare_used:
  assumes H: "heap_ok M s c a (xs @ (sz, True) # ys) C {(b, sz)}" and b: "b = a + span xs"
    and n: "24 \<le> n" "8 dvd n" "n \<le> sz"
  shows "\<exists>t D k rest. block_prepare_used s (ptr b) (ptr n) = Some (ptr (b + 16), t) \<and>
    heap_ok M t c a (xs @ (k, False) # rest @ ys) D {} \<and> span ((k, True) # rest) = 8 + sz \<and>
    (k = n \<and> rest = [(sz - n - 8, True)] \<or> k = sz \<and> rest = [] \<and> sz < n + 32) \<and>
    (\<forall>w\<in>payload a (xs @ (sz, True) # ys). rd t w = rd s w)"
proof -
  note h = heap_okD [OF H]
  have z: "ptr b \<noteq> 0" "ptr n \<noteq> 0" using ptr_nonzero [of b] ptr_nonzero [of n] h b n phys_hdr(7,8) [OF h(2,1) b] by auto
  obtain t D k rest where t: "block_trim_free s (ptr b) (ptr n) = Some t"
    "heap_ok M t c a (xs @ (k, True) # rest @ ys) D {(b, k)}" "span ((k, True) # rest) = 8 + sz"
    "k = n \<and> rest = [(sz - n - 8, True)] \<or> k = sz \<and> rest = [] \<and> sz < n + 32"
    "\<forall>w\<in>payload a (xs @ (sz, True) # ys). rd t w = rd s w" using heap_trim_free [OF H b n] by blast
  obtain u where u: "block_mark_as_used t (ptr b) = Some u" "heap_ok M u c a (xs @ (k, False) # rest @ ys) D {}"
    "\<forall>w\<in>payload a (xs @ (k, True) # rest @ ys). rd u w = rd t w" using heap_mark_used [OF t(2) b] by blast
  have "payload a (xs @ (k, True) # rest @ ys) = payload a (xs @ (sz, True) # ys)"
    using t(4)
  proof
    assume "k = n \<and> rest = [(sz - n - 8, True)]"
    then show ?thesis using t(3) by (simp add: add.assoc)
  qed simp
  then have "\<forall>w\<in>payload a (xs @ (sz, True) # ys). rd u w = rd s w" using u(3) t(5) by simp
  moreover have "block_prepare_used s (ptr b) (ptr n) = Some (ptr (b + 16), u)"
    using z t(1) u(1) by (simp add: block_prepare_used_def block_to_ptr_ptr tlsf_assert_def)
  ultimately show ?thesis using u(2) t(3,4) by blast
qed

lemma malloc_ok:
  assumes H: "heapg M c s a bs" and r: "unat r \<le> 2 ^ 64 - 8"
  shows "(\<exists>xs sz ys k rest t. bs = xs @ (sz, True) # ys \<and> request (unat r) \<noteq> 0 \<and>
      tlsf_malloc s r = Some (ptr (a + span xs + 16), t) \<and> heapg M c t a (xs @ (k, False) # rest @ ys) \<and>
      request (unat r) \<le> k \<and> k < request (unat r) + 32 \<and> span ((k, True) # rest) = 8 + sz \<and> useds 0 rest = {} \<and>
      length rest \<le> 1 \<and> (\<forall>w\<in>payload a bs. rd t w = rd s w)) \<or>
    tlsf_malloc s r = Some (0, s) \<and>
      (request (unat r) = 0 \<or> (\<forall>(b, sz)\<in>frees a bs. sz < request (unat r) + request (unat r) div 32))"
proof (cases "request (unat r) = 0")
  case True
  then have "adjust_request_size r ALIGN_SIZE = Some 0" using adjust_request_ok [OF r] by (simp add: ptr_def)
  then show ?thesis using True by (simp add: tlsf_malloc_def block_locate_free_def block_prepare_used_def)
next
  case False
  obtain C where C: "heap_ok M s c a bs C {}" and co: "coalesced bs" using H by (auto simp: heapg_def)
  have n: "24 \<le> request (unat r)" "8 dvd request (unat r)" "request (unat r) < 2 ^ 32" using request_props [OF False] by auto
  have m: "tlsf_malloc s r = Option.bind (block_locate_free s (ptr (request (unat r))))
      (\<lambda>(b, s). block_prepare_used s b (ptr (request (unat r))))"
    using adjust_request_ok [OF r] by (simp add: tlsf_malloc_def)
  consider (found) xs sz ys t D where "bs = xs @ (sz, True) # ys" "request (unat r) \<le> sz"
      "block_locate_free s (ptr (request (unat r))) = Some (ptr (a + span xs), t)"
      "heap_ok M t c a bs D {(a + span xs, sz)}" "\<forall>w\<in>payload a bs. rd t w = rd s w"
    | (none) "block_locate_free s (ptr (request (unat r))) = Some (0, s)"
      "\<forall>(b, sz)\<in>frees a bs. sz < request (unat r) + request (unat r) div 32"
    using heap_locate [OF C n] by blast
  then show ?thesis
  proof cases
    case none
    then have "tlsf_malloc s r = Some (0, s)" by (simp add: m block_prepare_used_def)
    then show ?thesis using none(2) by simp
  next
    case (found xs sz ys t D)
    obtain u E k rest where u: "block_prepare_used t (ptr (a + span xs)) (ptr (request (unat r))) = Some (ptr (a + span xs + 16), u)"
      "heap_ok M u c a (xs @ (k, False) # rest @ ys) E {}" "span ((k, True) # rest) = 8 + sz"
      "k = request (unat r) \<and> rest = [(sz - request (unat r) - 8, True)] \<or> k = sz \<and> rest = [] \<and> sz < request (unat r) + 32"
      "\<forall>w\<in>payload a bs. rd u w = rd t w"
      using heap_prepare_used [OF found(4) [unfolded found(1)] refl n(1,2) found(2)] unfolding found(1) by blast
    have "coalesced (xs @ (k, False) # rest @ ys)" using co u(4) unfolding found(1)
      by (auto simp: coalesced_append coalesced_Cons)
    then have "heapg M c u a (xs @ (k, False) # rest @ ys)" using u(2) by (auto simp: heapg_def)
    moreover have "tlsf_malloc s r = Some (ptr (a + span xs + 16), u)" using found(3) u(1) by (simp add: m)
    moreover have "request (unat r) \<le> k \<and> k < request (unat r) + 32 \<and> useds 0 rest = {} \<and> length rest \<le> 1"
      using u(4) found(2) by auto
    ultimately show ?thesis using found(1,5) u(3,5) False by metis
  qed
qed

end
