(* ===== verification/Tlsf_Free.thy ===== *)
theory Tlsf_Free
  imports Tlsf_Alloc
begin

text \<open>
  The release path of \<^verbatim>\<open>kernel/main/mm/heapalloc/tlsf.c\<close>: a freed block is merged with its free neighbours and
  filed, so that no two free blocks stay adjacent; and the resizing of \<^verbatim>\<open>tlsf_realloc\<close>.
\<close>

lemma last_free: "lastf False xs \<Longrightarrow> \<exists>ys sz. xs = ys @ [(sz, True)]"
  by (cases xs rule: rev_cases) (auto simp: lastf_def)

lemma heap_merge_prev:
  assumes H: "heap_ok M s c a (xs @ (sz, True) # ys) C {(b, sz)}" and b: "b = a + span xs"
  shows "\<exists>t D xs' k. block_merge_prev s (ptr b) = Some (ptr (a + span xs'), t) \<and>
    heap_ok M t c a (xs' @ (k, True) # ys) D {(a + span xs', k)} \<and>
    (if lastf False xs then \<exists>szp. xs = xs' @ [(szp, True)] \<and> k = szp + sz + 8 else xs' = xs \<and> k = sz) \<and>
    (\<forall>w\<in>payload a (xs @ (sz, True) # ys). rd t w = rd s w)"
proof -
  note g = hdr_get [OF phys_hdr(1) [OF heap_okD(2,1) [OF H] b]]
  show ?thesis
  proof (cases "lastf False xs")
    case False
    then show ?thesis using H b g(3) by (intro exI [of _ s] exI [of _ C] exI [of _ xs] exI [of _ sz])
      (simp add: block_merge_prev_def)
  next
    case True
    then obtain xs' szp where xs: "xs = xs' @ [(szp, True)]" using last_free by blast
    let ?p = "a + span xs'"
    have H1: "heap_ok M s c a (xs' @ (szp, True) # (sz, True) # ys) C {(b, sz)}" using H xs by simp
    note p = phys_hdr [OF heap_okD(2,1) [OF H1] refl]
    have bp: "b = ?p + 8 + szp" using b xs by simp
    have prev: "block_prev s (ptr b) = Some (ptr ?p)"
      using p(10) p(4) g(3) True by (simp add: block_prev_def tlsf_assert_def get_rd bp)
    have "(?p, szp) \<in> frees a (xs' @ (szp, True) # (sz, True) # ys) - {(b, sz)}" using bp by auto
    then obtain t D where t: "block_remove s (ptr ?p) = Some t"
      "heap_ok M t c a (xs' @ (szp, True) # (sz, True) # ys) D {(?p, szp), (b, sz)}"
      "\<forall>w\<in>payload a (xs' @ (szp, True) # (sz, True) # ys). rd t w = rd s w"
      using heap_block_remove [OF H1] by blast
    obtain u where u: "block_absorb t (ptr ?p) (ptr b) = Some (ptr ?p, u)"
      "heap_ok M u c a (xs' @ (szp + sz + 8, True) # ys) D {(?p, szp + sz + 8)}"
      "\<forall>w\<in>payload a (xs' @ (szp, True) # (sz, True) # ys). rd u w = rd t w"
      using heap_absorb [OF t(2) [unfolded insert_commute [of "(?p, szp)"]] refl bp] by blast
    have "ptr ?p \<noteq> 0" using p(3,8) heap_okD(6,7) [OF H] by (intro ptr_nonzero) (auto simp: ok_def)
    then have "block_merge_prev s (ptr b) = Some (ptr ?p, u)"
      using g(3) True prev hdr_get(2) [OF p(1)] t(1) u(1) by (simp add: block_merge_prev_def tlsf_assert_def)
    moreover have "\<forall>w\<in>payload a (xs @ (sz, True) # ys). rd u w = rd s w" using u(3) t(3) xs by simp
    ultimately show ?thesis using u(2) xs True by (intro exI [of _ u] exI [of _ D] exI [of _ xs'] exI [of _ "szp + sz + 8"]) simp
  qed
qed

lemma heap_merge_next:
  assumes H: "heap_ok M s c a (xs @ (sz, True) # ys) C {(b, sz)}" and b: "b = a + span xs"
  shows "\<exists>t D ys' k. block_merge_next s (ptr b) = Some (ptr b, t) \<and>
    heap_ok M t c a (xs @ (k, True) # ys') D {(b, k)} \<and>
    (if nf ys then \<exists>szn. ys = (szn, True) # ys' \<and> k = sz + szn + 8 else ys' = ys \<and> k = sz) \<and>
    (\<forall>w\<in>payload a (xs @ (sz, True) # ys). rd t w = rd s w)"
proof -
  note p = phys_hdr [OF heap_okD(2,1) [OF H] b]
  have nx: "block_next s (ptr b) = Some (ptr (b + 8 + sz))" using hdr_next [OF p(1)] p(5) by simp
  have nz: "ptr (b + 8 + sz) \<noteq> 0" using p(4) by (intro ptr_nonzero) (auto simp: ok_def)
  show ?thesis
  proof (cases "nf ys")
    case False
    then show ?thesis using H b nx nz hdr_get(2) [OF p(2)] by (intro exI [of _ s] exI [of _ C] exI [of _ ys] exI [of _ sz])
      (simp add: block_merge_next_def tlsf_assert_def)
  next
    case True
    then obtain szn ys' where ys: "ys = (szn, True) # ys'" by (cases ys) (auto simp: nf_def)
    let ?n = "b + 8 + sz"
    have H1: "heap_ok M s c a (xs @ (sz, True) # (szn, True) # ys') C {(b, sz)}" using H ys by simp
    have "(?n, szn) \<in> frees a (xs @ (sz, True) # (szn, True) # ys') - {(b, sz)}" using b by (auto simp: add.assoc)
    then obtain t D where t: "block_remove s (ptr ?n) = Some t"
      "heap_ok M t c a (xs @ (sz, True) # (szn, True) # ys') D {(?n, szn), (b, sz)}"
      "\<forall>w\<in>payload a (xs @ (sz, True) # (szn, True) # ys'). rd t w = rd s w"
      using heap_block_remove [OF H1] by blast
    obtain u where u: "block_absorb t (ptr b) (ptr ?n) = Some (ptr b, u)"
      "heap_ok M u c a (xs @ (sz + szn + 8, True) # ys') D {(b, sz + szn + 8)}"
      "\<forall>w\<in>payload a (xs @ (sz, True) # (szn, True) # ys'). rd u w = rd t w"
      using heap_absorb [OF t(2) b refl] by blast
    have "block_merge_next s (ptr b) = Some (ptr b, u)"
      using nx nz True hdr_get(2) [OF p(2)] hdr_get(4) [OF p(1)] p(5) t(1) u(1)
      by (simp add: block_merge_next_def tlsf_assert_def)
    moreover have "\<forall>w\<in>payload a (xs @ (sz, True) # ys). rd u w = rd s w" using u(3) t(3) ys by simp
    ultimately show ?thesis using u(2) ys True by (intro exI [of _ u] exI [of _ D] exI [of _ ys'] exI [of _ "sz + szn + 8"]) simp
  qed
qed

lemma free_ok:
  assumes H: "heapg M c s a (xs @ (sz, False) # ys)"
  shows "\<exists>t bs. tlsf_free s (ptr (a + span xs + 16)) = Some t \<and> heapg M c t a bs \<and>
    useds a bs = useds a xs \<union> useds (a + span xs + 8 + sz) ys \<and> span bs = span xs + 8 + sz + span ys \<and>
    (\<forall>w\<in>payload a xs \<union> payload (a + span xs + 8 + sz) ys. rd t w = rd s w)"
proof -
  let ?b = "a + span xs" and ?P = "payload a xs \<union> payload (a + span xs + 8 + sz) ys"
  obtain C where C: "heap_ok M s c a (xs @ (sz, False) # ys) C {}" and co: "coalesced (xs @ (sz, False) # ys)"
    using H by (auto simp: heapg_def)
  note p = phys_hdr [OF heap_okD(2,1) [OF C] refl]
  obtain s1 where s1: "block_mark_as_free s (ptr ?b) = Some s1" "heap_ok M s1 c a (xs @ (sz, True) # ys) C {(?b, sz)}"
    "\<forall>w\<in>?P. rd s1 w = rd s w" using heap_mark_free [OF C refl] by blast
  obtain s2 D xs' k where s2: "block_merge_prev s1 (ptr ?b) = Some (ptr (a + span xs'), s2)"
    "heap_ok M s2 c a (xs' @ (k, True) # ys) D {(a + span xs', k)}"
    "if lastf False xs then \<exists>szp. xs = xs' @ [(szp, True)] \<and> k = szp + sz + 8 else xs' = xs \<and> k = sz"
    "\<forall>w\<in>payload a (xs @ (sz, True) # ys). rd s2 w = rd s1 w" using heap_merge_prev [OF s1(2) refl] by blast
  obtain s3 E ys' l where s3: "block_merge_next s2 (ptr (a + span xs')) = Some (ptr (a + span xs'), s3)"
    "heap_ok M s3 c a (xs' @ (l, True) # ys') E {(a + span xs', l)}"
    "if nf ys then \<exists>szn. ys = (szn, True) # ys' \<and> l = k + szn + 8 else ys' = ys \<and> l = k"
    "\<forall>w\<in>payload a (xs' @ (k, True) # ys). rd s3 w = rd s2 w" using heap_merge_next [OF s2(2) refl] by blast
  have "(a + span xs', l) \<in> frees a (xs' @ (l, True) # ys')" by simp
  then obtain t F where t: "block_insert s3 (ptr (a + span xs')) = Some t"
    "heap_ok M t c a (xs' @ (l, True) # ys') F {}" "\<forall>w\<in>payload a (xs' @ (l, True) # ys'). rd t w = rd s3 w"
    using heap_block_insert [OF s3(2)] by force
  have xk: "payload a xs' = payload a xs" "useds a xs' = useds a xs" "span xs' + k = span xs + sz"
    using s2(3) by (auto split: if_splits)
  have yl: "payload (a + span xs' + 8 + l) ys' = payload (a + span xs + 8 + sz) ys"
    "useds (a + span xs' + 8 + l) ys' = useds (a + span xs + 8 + sz) ys" "span xs' + l + span ys' = span xs + sz + span ys"
  proof (atomize (full), cases "nf ys")
    case True
    then obtain szn where n: "ys = (szn, True) # ys'" "l = k + szn + 8" using s3(3) by auto
    have e: "a + span xs' + 8 + l = a + span xs + 8 + sz + 8 + szn" using n xk(3) by simp
    show "payload (a + span xs' + 8 + l) ys' = payload (a + span xs + 8 + sz) ys \<and>
      useds (a + span xs' + 8 + l) ys' = useds (a + span xs + 8 + sz) ys \<and> span xs' + l + span ys' = span xs + sz + span ys"
      unfolding e using n xk(3) by simp
  next
    case False
    then have n: "ys' = ys" "l = k" using s3(3) by auto
    have e: "a + span xs' + 8 + l = a + span xs + 8 + sz" using n xk(3) by simp
    show "payload (a + span xs' + 8 + l) ys' = payload (a + span xs + 8 + sz) ys \<and>
      useds (a + span xs' + 8 + l) ys' = useds (a + span xs + 8 + sz) ys \<and> span xs' + l + span ys' = span xs + sz + span ys"
      unfolding e using n xk(3) by simp
  qed
  have "tlsf_free s (ptr (?b + 16)) = Some t"
    using s1(1) s2(1) s3(1) t(1) hdr_get(2) [OF p(1)] ptr_nonzero [of "?b + 16"] p(8)
    by (simp add: tlsf_free_def block_from_ptr_ptr tlsf_assert_def)
  moreover have "coalesced (xs' @ (l, True) # ys')" using co s2(3) s3(3)
    by (auto simp: coalesced_append coalesced_Cons split: if_splits)
  then have "heapg M c t a (xs' @ (l, True) # ys')" using t(2) by (auto simp: heapg_def)
  moreover have "\<forall>w\<in>?P. rd t w = rd s w"
  proof -
    have "payload a (xs @ (sz, True) # ys) = ?P" by simp
    moreover have e: "a + span xs' + 8 + k = a + span xs + 8 + sz" using xk(3) by simp
    have "payload a (xs' @ (k, True) # ys) = ?P" using xk(1) unfolding payload_append payload_Cons e by simp
    moreover have "payload a (xs' @ (l, True) # ys') = ?P" using xk(1) yl(1) by simp
    ultimately show ?thesis using s1(3) s2(4) s3(4) t(3) by simp
  qed
  ultimately show ?thesis using xk(2) yl(2,3) by (intro exI [of _ t] exI [of _ "xs' @ (l, True) # ys'"]) auto
qed

end
