(* ===== verification/Tlsf_Resize.thy ===== *)
theory Tlsf_Resize
  imports Tlsf_Free
begin

text \<open>
  Resizing in place for \<^verbatim>\<open>tlsf_realloc\<close> of \<^verbatim>\<open>kernel/main/mm/heapalloc/tlsf.c\<close>: a used block gives its tail
  back to the free lists, or takes over the free block behind it.
\<close>

abbreviation body :: "nat \<Rightarrow> nat \<Rightarrow> nat set" where
  "body b sz \<equiv> {b + 16..<b + 16 + sz}"

lemma heap_split_used:
  assumes H: "heap_ok M s c a (xs @ (sz, False) # ys) C {}" and b: "b = a + span xs"
    and n: "24 \<le> n" "8 dvd n" "n + 32 \<le> sz"
  shows "\<exists>t. block_split s (ptr b) (ptr n) = Some (ptr (b + 8 + n), t) \<and>
    heap_ok M (block_set_prev_used t (ptr (b + 8 + n))) c a ((xs @ [(n, False)]) @ (sz - n - 8, True) # ys) C
      {(b + 8 + n, sz - n - 8)} \<and>
    (\<forall>w\<in>payload a xs \<union> body b n \<union> payload (b + 8 + sz) ys. rd (block_set_prev_used t (ptr (b + 8 + n))) w = rd s w)"
proof -
  let ?r = "b + 8 + n" and ?m = "sz - n - 8"
  note p = phys_hdr [OF heap_okD(2,1) [OF H] b]
  obtain t where t: "block_split s (ptr b) (ptr n) = Some (ptr ?r, t)" "same_ctl s t"
    "rd t = (rd s)(b + 8 := hw n False (lastf False xs), ?r + 8 := hw ?m True (bit (rd s (?r + 8)) 1),
      b + 8 + sz := ptr ?r, b + 8 + sz + 8 := hw (nsz ys) (nf ys) True)"
    using block_split_ok [OF p(1,2) n(3,2) _ p(4)] n(1) by auto
  have k: "ok (b + 8)" "ok (?r + 8)" "ok ?r" using p(6,9) n by (auto intro!: ok_less [OF p(4)])
  have m: "24 \<le> ?m" "8 dvd ?m" "?m < 2 ^ 63" "n < 2 ^ 63" using n p(6,7) by auto
  have "hdr t ?r ?m True (bit (rd s (?r + 8)) 1)" using k m n unfolding hdr_def by (simp add: t(3))
  then have pf: "block_set_prev_used t (ptr ?r) = poke t (?r + 8) (hw ?m True False)" by (rule hdr_set(4))
  let ?u = "poke t (?r + 8) (hw ?m True False)"
  have u: "rd ?u = (rd s)(b + 8 := hw n False (lastf False xs), ?r + 8 := hw ?m True False,
      b + 8 + sz := ptr ?r, b + 8 + sz + 8 := hw (nsz ys) (nf ys) True)"
    using k n by (auto simp: t(3) fun_eq_iff)
  have e: "?r + 8 + ?m = b + 8 + sz" using n by simp
  have R: "heap_ok M ?u c a (xs @ [(n, False), (?m, True)] @ ys) C (frees b [(n, False), (?m, True)])"
    "\<forall>w\<in>payload a xs \<union> payload (b + span [(sz, False)]) ys. rd ?u w = rd s w"
    using heap_phys [of M s c a xs "[(sz, False)]" ys C b "[(n, False), (?m, True)]" ?u] H b t(2) m n e unfolding u
    by (auto simp: same_ctl_def)
  have "heap_ok M ?u c a ((xs @ [(n, False)]) @ (?m, True) # ys) C {(?r, ?m)}" using R(1) by simp
  moreover have "rd ?u w = rd s w" if "w \<in> body b n" for w using that n unfolding u by auto
  moreover have "\<forall>w\<in>payload a xs \<union> payload (b + 8 + sz) ys. rd ?u w = rd s w" using R(2) by (simp add: add.assoc)
  ultimately show ?thesis using t(1) unfolding pf [symmetric] by blast
qed

lemma heap_trim_used:
  assumes H: "heap_ok M s c a (xs @ (sz, False) # ys) C {}" and co: "coalesced (xs @ (sz, False) # ys)"
    and b: "b = a + span xs" and n: "24 \<le> n" "8 dvd n" "n \<le> sz"
  shows "\<exists>t k zs. block_trim_used s (ptr b) (ptr n) = Some t \<and> heapg M c t a (xs @ (k, False) # zs) \<and> n \<le> k \<and> k \<le> sz \<and>
    useds (b + 8 + k) zs = useds (b + 8 + sz) ys \<and> span ((k, False) # zs) = span ((sz, False) # ys) \<and>
    (\<forall>w\<in>payload a xs \<union> body b n \<union> payload (b + 8 + sz) ys. rd t w = rd s w)"
proof -
  note p = phys_hdr [OF heap_okD(2,1) [OF H] b] and g = hdr_get [OF phys_hdr(1) [OF heap_okD(2,1) [OF H] b]]
  have cs: "block_can_split s (ptr b) (ptr n) \<longleftrightarrow> n + 32 \<le> sz" using can_split_ok [OF p(1)] p(7) n by simp
  show ?thesis
  proof (cases "n + 32 \<le> sz")
    case False
    then show ?thesis using H g cs n co by (intro exI [of _ s] exI [of _ sz] exI [of _ ys])
      (auto simp: block_trim_used_def tlsf_assert_def heapg_def)
  next
    case True
    let ?r = "b + 8 + n" and ?m = "sz - n - 8" and ?P = "payload a xs \<union> body b n \<union> payload (b + 8 + sz) ys"
    let ?xs = "xs @ [(n, False)]"
    obtain t1 where t1: "block_split s (ptr b) (ptr n) = Some (ptr ?r, t1)"
      "heap_ok M (block_set_prev_used t1 (ptr ?r)) c a (?xs @ (?m, True) # ys) C {(?r, ?m)}"
      "\<forall>w\<in>?P. rd (block_set_prev_used t1 (ptr ?r)) w = rd s w"
      using heap_split_used [OF H b n(1,2) True] by blast
    have r: "?r = a + span ?xs" using b by simp
    obtain t2 D zs k where t2: "block_merge_next (block_set_prev_used t1 (ptr ?r)) (ptr ?r) = Some (ptr ?r, t2)"
      "heap_ok M t2 c a (?xs @ (k, True) # zs) D {(?r, k)}"
      "if nf ys then \<exists>szn. ys = (szn, True) # zs \<and> k = ?m + szn + 8 else zs = ys \<and> k = ?m"
      "\<forall>w\<in>payload a (?xs @ (?m, True) # ys). rd t2 w = rd (block_set_prev_used t1 (ptr ?r)) w"
      using heap_merge_next [OF t1(2) r] by blast
    have "(?r, k) \<in> frees a (?xs @ (k, True) # zs)" using r by simp
    then obtain t E where t: "block_insert t2 (ptr ?r) = Some t" "heap_ok M t c a (?xs @ (k, True) # zs) E {}"
      "\<forall>w\<in>payload a (?xs @ (k, True) # zs). rd t w = rd t2 w"
      using heap_block_insert [OF t2(2)] by force
    have "block_trim_used s (ptr b) (ptr n) = Some t"
      using g cs True t1(1) t2(1) t(1) by (simp add: block_trim_used_def tlsf_assert_def Let_def)
    moreover have "coalesced (?xs @ (k, True) # zs)" using co t2(3)
      by (auto simp: coalesced_append coalesced_Cons split: if_splits)
    then have "heapg M c t a (xs @ (n, False) # (k, True) # zs)" using t(2) by (auto simp: heapg_def)
    moreover have e: "?r + 8 + ?m = b + 8 + sz" using True by simp
    have z: "useds (?r + 8 + k) zs = useds (b + 8 + sz) ys" "payload (?r + 8 + k) zs = payload (b + 8 + sz) ys"
      "k + span zs = ?m + span ys"
      unfolding e [symmetric] using t2(3) by (auto split: if_splits simp: ac_simps)
    have pl0: "payload a (?xs @ (q, True) # qs) = payload a xs \<union> body b n \<union> payload (?r + 8 + q) qs" for q qs
      using b by (simp add: add.assoc Un_assoc)
    have pl: "payload a (?xs @ (?m, True) # ys) = ?P" "payload a (?xs @ (k, True) # zs) = ?P"
      unfolding pl0 e z(2) by (rule refl)+
    have "\<forall>w\<in>?P. rd t w = rd s w" using t1(3) t2(4) t(3) unfolding pl by simp
    moreover have "span ((n, False) # (k, True) # zs) = span ((sz, False) # ys)" using z(3) True by simp
    moreover have "useds ?r ((k, True) # zs) = useds (b + 8 + sz) ys" using z(1) by simp
    ultimately show ?thesis using n by (intro exI [of _ t] exI [of _ n] exI [of _ "(k, True) # zs"]) simp
  qed
qed

lemma heap_grow:
  assumes H: "heap_ok M s c a (xs @ (sz, False) # (szn, True) # ys) C {}" and b: "b = a + span xs"
  shows "\<exists>t1 t D. block_merge_next s (ptr b) = Some (ptr b, t1) \<and> block_mark_as_used t1 (ptr b) = Some t \<and>
    heap_ok M t c a (xs @ (sz + szn + 8, False) # ys) D {} \<and>
    (\<forall>w\<in>payload a (xs @ (sz, False) # (szn, True) # ys). rd t w = rd s w)"
proof -
  let ?n = "b + 8 + sz" and ?k = "sz + szn + 8" and ?bs = "xs @ (sz, False) # (szn, True) # ys"
  note p = phys_hdr [OF heap_okD(2,1) [OF H] b]
  have nx: "block_next s (ptr b) = Some (ptr ?n)" using hdr_next [OF p(1)] p(5) by simp
  have nz: "ptr ?n \<noteq> 0" using p(4) by (intro ptr_nonzero) (auto simp: ok_def)
  have "(?n, szn) \<in> frees a ?bs - {}" using b by (auto simp: add.assoc)
  then obtain t0 D where t0: "block_remove s (ptr ?n) = Some t0" "heap_ok M t0 c a ?bs D {(?n, szn)}"
    "\<forall>w\<in>payload a ?bs. rd t0 w = rd s w" using heap_block_remove [OF H] by blast
  note q = phys_hdr [OF heap_okD(2,1) [OF t0(2)] b]
  have H2: "heap_ok M t0 c a ((xs @ [(sz, False)]) @ (szn, True) # ys) D {(?n, szn)}" using t0(2) by simp
  have n: "?n = a + span (xs @ [(sz, False)])" using b by simp
  note r = phys_hdr [OF heap_okD(2,1) [OF H2] n]
  have e: "b + 8 + ?k = ?n + 8 + szn" by simp
  have lt: "?k < 2 ^ 63" using q(7) r(7) by simp
  obtain t1 where t1: "block_absorb t0 (ptr b) (ptr ?n) = Some (ptr b, t1)" "same_ctl t0 t1"
    "rd t1 = (rd t0)(b + 8 := hw ?k False (lastf False xs), ?n + 8 + szn := ptr b)"
    using absorb_ok [OF q(1) r(1)] q(5) r(4) lt unfolding e by auto
  have h1: "hdr t1 b ?k False (lastf False xs)" "hdr t1 (b + 8 + ?k) (nsz ys) (nf ys) True"
    using q(1,6) r(2,6) lt unfolding hdr_def t1(3) by (auto simp: ac_simps)
  obtain t where t: "block_mark_as_used t1 (ptr b) = Some t" "same_ctl t1 t"
    "rd t = (rd t1)(b + 8 + ?k + 8 := hw (nsz ys) (nf ys) False, b + 8 := hw ?k False (lastf False xs))"
    using mark_as_used_ok [OF h1] by auto
  have u: "rd t = (rd t0)(?n + 8 + szn := ptr b, ?n + 8 + szn + 8 := hw (nsz ys) (nf ys) False,
      b + 8 := hw ?k False (lastf False xs))" unfolding t(3) t1(3) e by (simp add: fun_eq_iff)
  have R: "heap_ok M t c a (xs @ [(?k, False)] @ ys) D (frees b [(?k, False)])"
    "\<forall>w\<in>payload a xs \<union> payload (b + span [(sz, False), (szn, True)]) ys. rd t w = rd t0 w"
    using heap_phys [of M t0 c a xs "[(sz, False), (szn, True)]" ys D b "[(?k, False)]" t] t0(2) b t(2) t1(2) q(5,6) r(5,6)
    unfolding u by (auto simp: same_ctl_def add.assoc)
  have "rd t w = rd t0 w" if "w \<in> body b sz" for w using that r(5) unfolding u by auto
  then have "\<forall>w\<in>payload a ?bs. rd t w = rd s w" using R(2) t0(3) b by (auto simp: add.assoc)
  moreover have "block_merge_next s (ptr b) = Some (ptr b, t1)"
    using nx nz hdr_get(2) [OF p(2)] hdr_get(4) [OF p(1)] p(5) t0(1) t1(1)
    by (simp add: block_merge_next_def tlsf_assert_def)
  ultimately show ?thesis using t(1) R(1) by auto
qed

end
