(* ===== verification/Tlsf_Bytes.thy ===== *)
theory Tlsf_Bytes
  imports Tlsf_Resize
begin

text \<open>
  The heap at the level of bytes: the contents of the allocations that an operation leaves alone, and
  that writing into an allocation leaves the bookkeeping alone.
\<close>

lemma bit_u8: "8 \<le> n \<Longrightarrow> \<not> bit w n" for w :: u8
  using bit_imp_possible_bit [of w n] by (auto simp: possible_bit_word)

lemma load64_byte:
  assumes "i < 8"
  shows "m (a + of_nat i) = ucast (drop_bit (8 * i) (load64 m a))"
proof -
  have "i = 0 \<or> i = 1 \<or> i = 2 \<or> i = 3 \<or> i = 4 \<or> i = 5 \<or> i = 6 \<or> i = 7" using assms by auto
  then show ?thesis
    by (elim disjE; simp; intro bit_eqI)
      (simp_all add: load64_def bit_unsigned_iff bit_drop_bit_eq bit_or_iff bit_push_bit_iff possible_bit_word bit_u8)
qed

lemma byte_in_word: "ok w \<Longrightarrow> i < 8 \<Longrightarrow> ptr (w + i) = ptr w + of_nat i"
  by (simp add: ptr_def)

lemma rd_byte: "ok w \<Longrightarrow> i < 8 \<Longrightarrow> mem s (ptr (w + i)) = ucast (drop_bit (8 * i) (rd s w))"
  using load64_byte [of i "mem s" "ptr w"] byte_in_word [of w i] by (simp add: rd_def)

lemma rd_bytes_eq: "(\<forall>i<8. mem t (ptr (w + i)) = mem s (ptr (w + i))) \<Longrightarrow> rd t w = rd s w"
  using load64_cong [of "mem t" "ptr w" "mem s"] by (auto simp: rd_def byte_in_word)

lemma payload_aligned:
  assumes "sized bs" "8 dvd a" "x \<in> payload a bs" "y div 8 = x div 8"
  shows "y \<in> payload a bs"
proof -
  obtain p sz where p: "(p, sz) \<in> useds a bs" "x \<in> {p..<p + sz}" using assms(3) by (auto simp: payload_def)
  obtain xs ys where xy: "bs = xs @ (sz, False) # ys" "p = a + span xs + 16" using useds_split [OF p(1)] by blast
  have "8 dvd span xs" "8 dvd sz" using sized_span [of xs] assms(1) xy(1) by (auto simp: sized_def)
  then obtain k l where kl: "p = 8 * k" "sz = 8 * l" using xy(2) assms(2) by (metis dvd_add dvd_def dvd_triv_left mult_2_right numeral_Bit0)
  have "k \<le> x div 8" "x div 8 < k + l" using p(2) kl by auto
  then have "y \<in> {p..<p + sz}" using assms(4) kl by auto
  then show ?thesis using p(1) unfolding payload_def by blast
qed

definition kept :: "tlsf \<Rightarrow> tlsf \<Rightarrow> nat set \<Rightarrow> bool" where
  "kept s t S \<longleftrightarrow> (\<forall>x\<in>S. mem t (ptr x) = mem s (ptr x))"

lemma keptI:
  assumes "heapg M c s a bs" "\<forall>w\<in>S. rd t w = rd s w" "S \<subseteq> payload a bs" "\<forall>x\<in>S. x div 8 * 8 \<in> S"
  shows "kept s t S"
  unfolding kept_def
proof
  fix x assume x: "x \<in> S"
  obtain C where C: "heap_ok M s c a bs C {}" using assms(1) by (auto simp: heapg_def)
  let ?w = "x div 8 * 8"
  have "x < a + span bs + 8" using payload_less [of x a bs] assms(3) x by auto
  then have k: "ok ?w" using heap_okD(10) [OF C] by (auto simp: ok_def)
  have "rd t ?w = rd s ?w" using assms(2,4) x by blast
  then have "mem t (ptr (?w + x mod 8)) = mem s (ptr (?w + x mod 8))" using rd_byte [OF k, of "x mod 8"] by simp
  then show "mem t (ptr x) = mem s (ptr x)" by simp
qed

lemma kept_all:
  assumes "heapg M c s a bs" "\<forall>w\<in>payload a bs. rd t w = rd s w"
  shows "kept s t (payload a bs)"
proof (rule keptI [OF assms(1,2) subset_refl])
  obtain C where C: "heap_ok M s c a bs C {}" using assms(1) by (auto simp: heapg_def)
  show "\<forall>x\<in>payload a bs. x div 8 * 8 \<in> payload a bs"
    using payload_aligned [OF heap_okD(8,9) [OF C]] by (metis nonzero_mult_div_cancel_right zero_neq_numeral)
qed

lemma kept_mono: "kept s t S \<Longrightarrow> T \<subseteq> S \<Longrightarrow> kept s t T"
  by (auto simp: kept_def)

lemma kept_trans: "kept s t S \<Longrightarrow> kept t u S \<Longrightarrow> kept s u S"
  by (auto simp: kept_def)

lemma hwords_payload: "w \<in> hwords a bs \<Longrightarrow> w \<notin> payload a bs"
proof (induction bs arbitrary: a rule: span.induct)
  case (2 sz f bs)
  then show ?case using hwords_ge [of w "a + 8 + sz" bs] payload_ge [of w "a + 8 + sz" bs] by (fastforce split: if_splits)
qed simp

text \<open>Writing into the allocations, or outside of the heap, does not touch the bookkeeping.\<close>

lemma outer_aligned:
  assumes "8 dvd a" "8 dvd c" "8 dvd n" "x div 8 = y div 8" "x \<in> outer c a n"
  shows "y \<in> outer c a n"
proof -
  obtain i j k where al: "a = 8 * i" "c = 8 * j" "n = 8 * k" using assms(1-3) by (metis dvd_def)
  have le: "8 * m \<le> y \<longleftrightarrow> 8 * m \<le> x" for m using assms(4) div_le_mono [of "8 * m" x 8] div_le_mono [of "8 * m" y 8] by force
  show ?thesis
    using assms(5) le [of i] le [of j] le [of "i + k + 2"] le [of "j + 4"] le [of "2 ^ 61"] unfolding al outer_def by auto
qed

lemma heap_ok_cong:
  assumes H: "heap_ok M s c a bs C {}" and t: "same_ctl s t"
    and keep: "\<And>w. w \<notin> payload a bs \<Longrightarrow> w \<notin> outer c a (span bs) \<Longrightarrow> rd t w = rd s w"
  shows "heap_ok (rd t) t c a bs C {}"
proof -
  note h = heap_okD [OF H]
  have "phys (rd t) a False bs" using h(2)
  proof (rule phys_hwords, intro ballI keep)
    fix w assume w: "w \<in> hwords a bs"
    show "w \<notin> payload a bs" using hwords_payload [OF w] .
    show "w \<notin> outer c a (span bs)" using hwords_ge [OF w] hwords_le [OF w] by (simp add: outer_def)
  qed
  moreover have "flists t c C"
  proof (rule flists_cong [OF h(3) t], intro ballI keep)
    fix w assume w: "w \<in> links (members C)"
    then obtain d where "d \<in> members C" by (auto simp: links_def)
    then obtain szd where d: "(d, szd) \<in> frees a bs" using filed_members [OF h(4)] by blast
    have "w \<in> links (insert d (insert c (members C)))" using w by (auto simp: links_def)
    then show "w \<notin> payload a bs" "w \<notin> outer c a (span bs)" using links_free(2,3) [OF H d] by blast+
  qed
  ultimately show ?thesis using h by (simp add: heap_ok_def)
qed

lemma heap_write_any:
  assumes H: "heapg M c s a bs" and t: "same_ctl s t"
    and m: "\<forall>x<2 ^ 64. x \<notin> payload a bs \<union> outer c a (span bs) \<longrightarrow> mem t (ptr x) = mem s (ptr x)"
  shows "heapg (rd t) c t a bs"
proof -
  obtain C where C: "heap_ok M s c a bs C {}" and co: "coalesced bs" using H by (auto simp: heapg_def)
  note h = heap_okD [OF C]
  have "heap_ok (rd t) t c a bs C {}"
  proof (rule heap_ok_cong [OF C t])
    fix w assume w: "w \<notin> payload a bs" "w \<notin> outer c a (span bs)"
    show "rd t w = rd s w"
    proof (cases "ok w")
      case True
      have "mem t (ptr (w + i)) = mem s (ptr (w + i))" if "i < 8" for i
      proof -
        have "w + i < 2 ^ 64" using True that by (auto simp: ok_def elim!: dvdE)
        moreover have e: "(w + i) div 8 = w div 8" using True that by (auto simp: ok_def)
        have "w + i \<notin> payload a bs" using payload_aligned [OF h(8,9), of "w + i" w] w(1) e by metis
        moreover have "w + i \<notin> outer c a (span bs)"
          using outer_aligned [OF h(9,5) sized_span [OF h(8)] e] w(2) by blast
        ultimately show ?thesis using m by blast
      qed
      then show ?thesis by (intro rd_bytes_eq) blast
    qed (simp add: rd_def)
  qed
  then show ?thesis using co by (auto simp: heapg_def)
qed

lemma outer_words:
  assumes "heapg M c s a bs" "\<forall>x\<in>outer c a (span bs). mem t (ptr x) = mem s (ptr x)" "w \<in> outer c a (span bs)"
  shows "rd t w = rd s w"
proof (cases "ok w")
  case True
  obtain C where C: "heap_ok M s c a bs C {}" using assms(1) by (auto simp: heapg_def)
  note h = heap_okD [OF C]
  have "w + i \<in> outer c a (span bs)" if "i < 8" for i
  proof (rule outer_aligned [OF h(9,5) sized_span [OF h(8)] _ assms(3)])
    show "w div 8 = (w + i) div 8" using True that by (auto simp: ok_def)
  qed
  then show ?thesis using assms(2) by (intro rd_bytes_eq) blast
qed (simp add: rd_def)

lemma heap_write:
  assumes H: "heapg M c s a bs" and t: "same_ctl s t" and m: "\<forall>x<2 ^ 64. x \<notin> payload a bs \<longrightarrow> mem t (ptr x) = mem s (ptr x)"
  shows "heapg M c t a bs"
proof -
  have "heapg (rd t) c t a bs" using heap_write_any [OF H t] m by blast
  moreover have "x \<notin> payload a bs" "x < 2 ^ 64" if "x \<in> outer c a (span bs)" for x
    using that payload_ge [of x a bs] payload_less [of x a bs] by (auto simp: outer_def)
  then have "rd t w = rd s w" if "w \<in> outer c a (span bs)" for w using outer_words [OF H _ that, of t] m by blast
  ultimately show ?thesis using H by (auto simp: heapg_def heap_ok_def)
qed

lemma useds_disjoint:
  assumes "(p, n) \<in> useds a bs" "(q, k) \<in> useds a bs" "sized bs"
  shows "(p, n) = (q, k) \<or> {p..<p + n} \<inter> {q..<q + k} = {}"
  using assms
proof (induction bs arbitrary: a rule: span.induct)
  case (2 sz f bs)
  have r: "{x..<x + y} \<inter> {a + 16..<a + 16 + sz} = {}" if "(x, y) \<in> useds (a + 8 + sz) bs" for x y
    using useds_range [OF that] by auto
  show ?case using 2 r by (auto split: if_splits)
qed simp

end
