(* ===== verification/Tlsf_Create.thy ===== *)
theory Tlsf_Create
  imports Tlsf_Bytes
begin

text \<open>
  \<^verbatim>\<open>tlsf_create_with_pool\<close> of \<^verbatim>\<open>kernel/main/mm/heapalloc/tlsf.c\<close> establishes the invariant of the heap, and the
  integrity checks of the code accept every heap that satisfies it.
\<close>

section \<open>Construction\<close>

lemma control_construct_ok:
  assumes "control s = ptr c" "8 dvd c" "c + 32 \<le> 2 ^ 64"
  shows "flists (control_construct s) c (\<lambda>_ _. [])"
  using assms by (simp add: flists_def control_construct_def Let_def tlsf_consts set_next_free_def set_prev_free_def put_def)

lemma control_construct_frame:
  assumes "control s = ptr c" "8 dvd c" "c + 32 \<le> 2 ^ 64" "w \<noteq> c + 16" "w \<noteq> c + 24"
  shows "rd (control_construct s) w = rd s w"
proof -
  have ok: "ok (c + 16)" "ok (c + 24)" using assms(2,3) by (auto simp: ok_def)
  have ctl: "control (poke s (c + 16) (ptr c)) = ptr c" using assms(1) by (simp add: poke_def put_def)
  have "control_construct s = (poke (poke s (c + 16) (ptr c)) (c + 24) (ptr c))
      \<lparr>fl_bitmap := 0, sl_bitmap := sl_bitmap (control_construct s), blocks := blocks (control_construct s)\<rparr>"
    using assms(1) ctl by (simp add: control_construct_def Let_def set_poke)
  then have "rd (control_construct s) = rd (poke (poke s (c + 16) (ptr c)) (c + 24) (ptr c))" by (metis rd_fields)
  then show ?thesis using ok assms(4,5) by simp
qed

lemma members_empty [simp]: "members (\<lambda>_ _. []) = {}" "links {} = {}"
  by (auto simp: members_def links_def)

lemma flists_empty: "flists s c (\<lambda>_ _. []) \<Longrightarrow> same_ctl s t \<Longrightarrow> flists t c (\<lambda>_ _. [])"
  using flists_cong [of s c "\<lambda>_ _. []" t] by simp

lemma poke_ctl: "same_ctl s (poke s a v)"
  by (simp add: same_ctl_def poke_def put_def)

text \<open>A first block and the sentinel behind it, from any contents of the memory.\<close>

lemma first_block_ok:
  assumes "ok (b + 8)" "8 dvd m" "m < 2 ^ 63"
  shows "\<exists>t. block_set_prev_used (block_set_free (block_set_size s (ptr b) (ptr m)) (ptr b)) (ptr b) = t \<and>
    same_ctl s t \<and> hdr t b m True False \<and> (\<forall>w. w \<noteq> b + 8 \<longrightarrow> rd t w = rd s w)"
proof -
  let ?w = "rd s (b + 8)"
  let ?s1 = "poke s (b + 8) (hw m (bit ?w 0) (bit ?w 1))"
  let ?s2 = "poke ?s1 (b + 8) (hw m True (bit ?w 1))"
  have "block_set_size s (ptr b) (ptr m) = ?s1" by (rule set_size_raw [OF assms(1,2)])
  moreover have "hdr ?s1 b m (bit ?w 0) (bit ?w 1)" using assms by (simp add: hdr_def)
  then have "block_set_free ?s1 (ptr b) = ?s2" by (rule hdr_set(1))
  moreover have "hdr ?s2 b m True (bit ?w 1)" using assms by (simp add: hdr_def)
  then have "block_set_prev_used ?s2 (ptr b) = poke ?s2 (b + 8) (hw m True False)" by (rule hdr_set(4))
  ultimately show ?thesis using assms poke_ctl same_ctl_trans by (auto simp: hdr_def)
qed

lemma sentinel_ok:
  assumes "ok (e + 8)"
  shows "\<exists>t. block_set_prev_free (block_set_used (block_set_size s (ptr e) 0) (ptr e)) (ptr e) = t \<and>
    same_ctl s t \<and> rd t = (rd s)(e + 8 := hw 0 False True)"
proof -
  let ?w = "rd s (e + 8)"
  let ?s1 = "poke s (e + 8) (hw 0 (bit ?w 0) (bit ?w 1))"
  let ?s2 = "poke ?s1 (e + 8) (hw 0 False (bit ?w 1))"
  have "block_set_size s (ptr e) 0 = ?s1" using set_size_raw [OF assms, of 0 s] by (simp add: ptr_def)
  moreover have "hdr ?s1 e 0 (bit ?w 0) (bit ?w 1)" using assms by (simp add: hdr_def)
  then have "block_set_used ?s1 (ptr e) = ?s2" by (rule hdr_set(2))
  moreover have "hdr ?s2 e 0 False (bit ?w 1)" using assms by (simp add: hdr_def)
  then have "block_set_prev_free ?s2 (ptr e) = poke ?s2 (e + 8) (hw 0 False True)" by (rule hdr_set(3))
  ultimately show ?thesis using assms poke_ctl same_ctl_trans by auto
qed

lemma first_insert_ok:
  assumes L: "flists s c (\<lambda>_ _. [])" and c: "8 dvd c" "0 < c" "c + 32 \<le> b" and b: "8 dvd b" "b + 32 \<le> 2 ^ 64"
    and h: "hdr s b m True False" "m < 2 ^ 32"
  shows "\<exists>t C. block_insert s (ptr b) = Some t \<and> flists t c C \<and> filed C {(b, m)} \<and> members C = {b} \<and>
    (\<forall>w. w \<notin> {b + 16, b + 24, c + 16, c + 24} \<longrightarrow> rd t w = rd s w)"
proof -
  obtain i j where cl: "size_class m = (i, j)" by (metis surj_pair)
  have ij: "i < 25" "j < 32" using size_class_bounds [OF cl] h(2) by auto
  have K: "cells_ok c (\<lambda>_ _. [])" using c b by (auto simp: cells_ok_def apart32_def)
  obtain t where t: "insert_free_block s (ptr b) i j = Some t" "flists t c (set_cell (\<lambda>_ _. []) i j [b])"
    "\<forall>w. w \<notin> links (insert b (insert c {})) \<longrightarrow> rd t w = rd s w"
    using insert_free_block_ok [OF L K ij, of b] c b by (auto simp: apart32_def)
  have "filed (\<lambda>_ _. []) {}" by (simp add: filed_def)
  then have F: "filed (set_cell (\<lambda>_ _. []) i j [b]) {(b, m)}" using filed_insert [OF _ cl, of "\<lambda>_ _. []" "{}" b] by simp
  then have "members (set_cell (\<lambda>_ _. []) i j [b]) = {b}" using filed_members [OF F] by auto
  moreover have "block_insert s (ptr b) = Some t"
    using cl t(1) hdr_get(1) [OF h(1)] by (simp add: block_insert_def size_class_def ptr_def)
  ultimately show ?thesis using t(2,3) F by (auto simp: links_def)
qed

lemma ptr_mod_8: "8 dvd c \<Longrightarrow> c < 2 ^ 64 \<Longrightarrow> ptr c mod 8 = 0"
  by (simp add: word_unat_eq_iff unat_mod unat_ptr mod_eq_0_iff_dvd)

lemma align_down_ptr: "x < 2 ^ 64 \<Longrightarrow> align_down (ptr x) ALIGN_SIZE = Some (ptr (x div 8 * 8))"
proof -
  assume x: "x < 2 ^ 64"
  have "ptr x AND 7 = ptr x mod 8" using take_bit_eq_mask [of 3 "ptr x"] take_bit_eq_mod [of 3 "ptr x"] by (simp add: mask_eq_exp_minus_1)
  also have "\<dots> = ptr (x mod 8)" using x by (simp add: word_unat_eq_iff unat_mod unat_ptr)
  finally have "ptr x - (ptr x AND 7) = ptr (x - x mod 8)" by (simp add: ptr_diff)
  also have "x - x mod 8 = x div 8 * 8" by (simp add: minus_mod_eq_div_mult)
  finally show ?thesis by (simp add: align_down_def tlsf_consts tlsf_assert_def)
qed

lemma create_with_pool_ok:
  assumes ctl: "control s = ptr c" "8 dvd c" "0 < c" and n: "6576 \<le> n" "n < 2 ^ 32 + 6552" "c + n \<le> 2 ^ 64"
  shows "\<exists>t. tlsf_create_with_pool s (ptr n) = Some (ptr c, t) \<and> heapg (rd s) c t (c + 6528) [((n - 6552) div 8 * 8, True)]"
proof -
  let ?b = "c + 6528" and ?m = "(n - 6552) div 8 * 8"
  let ?e = "?b + 8 + ?m"
  have m: "24 \<le> ?m" "?m < 2 ^ 32" "8 dvd ?m" "?m + 6552 \<le> n" using n by auto
  have k: "ok (?b + 8)" "ok ?e" "ok (?e + 8)" "8 dvd ?b" "?b + 32 \<le> 2 ^ 64" using ctl n m by (auto simp: ok_def)
  obtain s1 where s1: "control_construct s = s1" "flists s1 c (\<lambda>_ _. [])" using control_construct_ok [OF ctl(1,2)] n by auto
  obtain s2 where s2: "block_set_prev_used (block_set_free (block_set_size s1 (ptr ?b) (ptr ?m)) (ptr ?b)) (ptr ?b) = s2"
    "same_ctl s1 s2" "hdr s2 ?b ?m True False" "\<forall>w. w \<noteq> ?b + 8 \<longrightarrow> rd s2 w = rd s1 w" using first_block_ok [OF k(1) m(3)] m(2) by auto
  obtain s3 C where s3: "block_insert s2 (ptr ?b) = Some s3" "flists s3 c C" "filed C {(?b, ?m)}" "members C = {?b}"
    "\<forall>w. w \<notin> {?b + 16, ?b + 24, c + 16, c + 24} \<longrightarrow> rd s3 w = rd s2 w"
    using first_insert_ok [OF flists_empty [OF s1(2) s2(2)] ctl(2,3) _ k(4,5) s2(3) m(2)] by auto
  have h3: "hdr s3 ?b ?m True False" using s2(3) s3(5) by (simp add: hdr_def)
  let ?s4 = "poke s3 ?e (ptr ?b)"
  have s4: "block_link_next s3 (ptr ?b) = Some (ptr ?e, ?s4)" using link_next_ok [OF h3] m(1) by simp
  obtain t where t: "block_set_prev_free (block_set_used (block_set_size ?s4 (ptr ?e) 0) (ptr ?e)) (ptr ?e) = t"
    "same_ctl ?s4 t" "rd t = (rd ?s4)(?e + 8 := hw 0 False True)" using sentinel_ok [OF k(3)] by blast
  have rd: "rd t = (rd s3)(?e := ptr ?b, ?e + 8 := hw 0 False True)" using t(3) k(2) by simp
  have "phys (rd t) ?b False [(?m, True)]"
    using h3 m unfolding rd by (simp add: phys_def hdr_def)
  moreover have "flists t c C"
  proof (rule flists_cong [OF s3(2)])
    show "same_ctl s3 t" using t(2) poke_ctl same_ctl_trans by blast
    show "\<forall>w\<in>links (members C). rd t w = rd s3 w" using m(1) unfolding rd s3(4) by (auto simp: links_def)
  qed
  moreover have "pool ?b [(?m, True)]" using m k(4) n by (simp add: pool_def)
  moreover have "\<forall>w\<in>outer c ?b (span [(?m, True)]). rd t w = rd s w"
  proof
    fix w assume w: "w \<in> outer c ?b (span [(?m, True)])"
    then have "w \<noteq> c + 16" "w \<noteq> c + 24" "w \<noteq> ?b + 8" "w \<notin> {?b + 16, ?b + 24, c + 16, c + 24}" "w \<noteq> ?e" "w \<noteq> ?e + 8"
      using m(1) by (auto simp: outer_def)
    then show "rd t w = rd s w"
      using control_construct_frame [OF ctl(1,2), of w] s1(1) s2(4) s3(5) n unfolding rd by simp
  qed
  ultimately have "heap_ok (rd s) t c ?b [(?m, True)] C {}" using s3(3) ctl n by (simp add: heap_ok_def)
  then have "heapg (rd s) c t ?b [(?m, True)]" by (auto simp: heapg_def)
  moreover have "tlsf_create_with_pool s (ptr n) = Some (ptr c, t)"
  proof -
    have c64: "c < 2 ^ 64" using n by simp
    have cr: "tlsf_create s = (ptr c, s1)" "control s1 = ptr c"
      using ctl ptr_mod_8 [OF ctl(2) c64] s1 flistsD(1) [OF s1(2)] by (simp_all add: tlsf_create_def tlsf_consts)
    have mm: "ptr c + tlsf_size = ptr (c + 6536)" by (simp add: tlsf_size_def ptr_def)
    have "8 dvd c + 6536" using ctl(2) by simp
    then have al: "ptr (c + 6536) mod ALIGN_SIZE = 0" using ptr_mod_8 [of "c + 6536"] n by (simp add: tlsf_consts)
    have "ptr n - tlsf_size - tlsf_pool_overhead = ptr (n - 6552)"
      using n(1) by (simp add: tlsf_size_def tlsf_pool_overhead_def tlsf_consts ptr_def of_nat_diff)
    then have pb: "align_down (ptr n - tlsf_size - tlsf_pool_overhead) ALIGN_SIZE = Some (ptr ?m)"
      using align_down_ptr [of "n - 6552"] n by simp
    have off: "offset_to_block (ptr (c + 6536)) (- block_header_overhead) = ptr ?b"
      by (simp add: offset_to_block_def tlsf_consts ptr_def)
    have lim: "\<not> (ptr ?m < block_size_min \<or> ptr ?m > block_size_max)"
      using m(1,2) unat_ptr [of ?m] by (simp add: tlsf_consts word_less_nat_alt)
    show ?thesis unfolding tlsf_create_with_pool_def cr(1) tlsf_add_pool_def Let_def prod.case cr(2) mm pb bind.bind_lunit off
      using al lim s2(1) s3(1) s4 t(1) by simp
  qed
  ultimately show ?thesis by blast
qed

section \<open>Integrity checks\<close>

lemma bit_test: "(w AND push_bit j 1 = 0) \<longleftrightarrow> \<not> bit w j" if "j < 32" for w :: u32
proof -
  have "bit (w AND push_bit j 1) k \<longleftrightarrow> bit w k \<and> k = j" if "k < 32" for k
    using that by (auto simp: bit_and_iff bit_exp_iff possible_bit_word)
  then show ?thesis using that u32_all_zero [of "w AND push_bit j 1"] by blast
qed

lemma free_block_context:
  assumes H: "heap_ok M s c a bs C {}" and co: "coalesced bs" and b: "(b, sz) \<in> frees a bs"
  shows "hdr s b sz True False" "\<exists>k. hdr s (b + 8 + sz) k False True" "24 \<le> sz" "sz < 2 ^ 32"
proof -
  obtain xs ys where xy: "bs = xs @ (sz, True) # ys" "b = a + span xs" using frees_split [OF b] by blast
  have "\<not> lastf False xs" "\<not> nf ys" using co xy(1) by (auto simp: coalesced_append coalesced_Cons)
  then show "hdr s b sz True False" "\<exists>k. hdr s (b + 8 + sz) k False True" "24 \<le> sz" "sz < 2 ^ 32"
    using phys_hdr [OF heap_okD(2,1) [OF H, unfolded xy(1)] xy(2)] by auto
qed

lemma check_list_ok:
  assumes H: "heap_ok M s c a bs C {}" and co: "coalesced bs"
  shows "dll (rd s) c p L \<Longrightarrow> set L \<subseteq> set (C i j) \<Longrightarrow> check_list s i j (ptr (hdc c L)) = Some ()"
proof (induction L arbitrary: p)
  case Nil
  then show ?case using flistsD(1) [OF heap_okD(3) [OF H]] by (simp add: check_list.simps)
next
  case (Cons b L)
  note h = heap_okD [OF H] and K = cells_okD [OF heap_cells_ok [OF H]]
  obtain sz where b: "(b, sz) \<in> frees a bs" "size_class sz = (i, j)" using Cons.prems(2) filed_mem [OF h(4)] by auto
  note f = free_block_context [OF H co b(1)]
  obtain k where n: "hdr s (b + 8 + sz) k False True" using f(2) by blast
  have bm: "b \<in> members C" using Cons.prems(2) in_members [of b C i j] by auto
  have k: "ok (b + 16)" using K(5,7) [of b] bm by (auto simp: ok_def)
  have "b \<noteq> c" using K(3) Cons.prems(2) by auto
  then have "ptr b \<noteq> control s" using ptr_inj [of b c] K(7) [of b] K(7) [of c] bm flistsD(1) [OF h(3)] by auto
  moreover have "block_next s (ptr b) = Some (ptr (b + 8 + sz))" using hdr_next [OF f(1)] f(3) by simp
  moreover have "mapping_insert (ptr sz) = (i, j)" using b(2) by (simp add: size_class_def ptr_def)
  moreover have "ptr sz \<ge> block_size_min" using f(3,4) unat_ptr [of sz] by (simp add: word_le_nat_alt tlsf_consts)
  moreover have "get_next_free s (ptr b) = ptr (hdc c L)" using Cons.prems(1) get_rd(3) [OF k] by simp
  moreover have "check_list s i j (ptr (hdc c L)) = Some ()" using Cons by auto
  ultimately show ?case using hdr_get [OF f(1)] hdr_get [OF n]
    by (subst check_list.simps) (simp add: tlsf_assert_def)
qed

lemma check_cell_ok:
  assumes H: "heap_ok M s c a bs C {}" and co: "coalesced bs" and ij: "i < 25" "j < 32"
  shows "check_cell s i j = Some ()"
proof -
  note L = flistsD [OF heap_okD(3) [OF H]] and K = cells_okD [OF heap_cells_ok [OF H]]
  have fl: "fl_bitmap s AND push_bit i 1 = 0 \<longleftrightarrow> (\<forall>j<32. C i j = [])" using bit_test [of i] L(5) [of i] ij by simp
  have sl: "sl_bitmap s i AND push_bit j 1 = 0 \<longleftrightarrow> C i j = []" using bit_test [of j] L(4) [OF ij] ij by simp
  show ?thesis
  proof (cases "C i j")
    case Nil
    then show ?thesis using fl sl L(1) L(2) [OF ij] by (simp add: check_cell_def tlsf_assert_def Let_def)
  next
    case (Cons b bs')
    have bm: "b \<in> members C" using Cons in_members [of b C i j] by simp
    have "b \<noteq> c" using K(3) [of i j] Cons by auto
    then have "ptr b \<noteq> control s" using ptr_inj [of b c] K(7) [of b] K(7) [of c] bm L(1) by auto
    moreover have "sl_bitmap s i \<noteq> 0" using sl Cons by auto
    moreover have "check_list s i j (ptr (hdc c (C i j))) = Some ()" by (rule check_list_ok [OF H co L(3) [OF ij]]) simp
    moreover have "\<not> (\<forall>j<32. C i j = [])" using Cons ij(2) by force
    ultimately show ?thesis using fl sl L(2) [OF ij] Cons by (simp add: check_cell_def tlsf_assert_def Let_def)
  qed
qed

lemma check_all_ok: "\<forall>ij\<in>set ijs. check_cell s (fst ij) (snd ij) = Some () \<Longrightarrow> check_all ijs s = Some ()"
  by (induction ijs) auto

lemma walk_ok:
  assumes "heap_ok M s c a (xs @ ys) C {}"
  shows "walk_loop s (integrity_walker s) (ptr (a + span xs)) \<lparr>prev_status = (if lastf False xs then 1 else 0), status = 0\<rparr> =
    Some \<lparr>prev_status = (if lastf False (xs @ ys) then 1 else 0), status = 0\<rparr>"
  using assms
proof (induction ys arbitrary: xs rule: span.induct)
  case 1
  note h = heap_okD [OF 1(1)]
  have "8 dvd a + span xs + 8" using h(8,9) sized_span [of xs] by simp
  then have "hdr s (a + span xs) 0 False (lastf False xs)" using h(2,10) by (simp add: phys_def hdr_def ok_def)
  then show ?case using hdr_get(4) by (subst walk_loop.simps) simp
next
  case (2 sz f ys)
  let ?b = "a + span xs"
  note p = phys_hdr [OF heap_okD(2,1) [OF 2(2)] refl] and h = heap_okD [OF 2(2)]
  have z: "ptr ?b \<noteq> 0" using h p(8) by (intro ptr_nonzero) auto
  have nx: "block_next s (ptr ?b) = Some (ptr (?b + 8 + sz))" using hdr_next [OF p(1)] p(5) by simp
  have fp: "block_from_ptr (block_to_ptr (ptr ?b)) = ptr ?b" by (simp add: block_to_ptr_ptr block_from_ptr_ptr)
  have "heap_ok M s c a ((xs @ [(sz, f)]) @ ys) C {}" using 2(2) by simp
  from 2(1) [OF this] have IH: "walk_loop s (integrity_walker s) (ptr (?b + 8 + sz)) \<lparr>prev_status = (if f then 1 else 0), status = 0\<rparr> =
    Some \<lparr>prev_status = (if lastf False (xs @ (sz, f) # ys) then 1 else 0), status = 0\<rparr>" by (simp add: add.assoc)
  show ?case using z nx hdr_get [OF p(1)] p(5) IH fp
    by (subst walk_loop.simps) (simp add: integrity_walker_def tlsf_assert_def)
qed

lemma check_ok:
  assumes "heapg M c s a bs"
  shows "tlsf_check s = Some 0" "tlsf_check_pool s (ptr (a + 8)) = Some 0"
proof -
  obtain C where C: "heap_ok M s c a bs C {}" and co: "coalesced bs" using assms by (auto simp: heapg_def)
  have "check_all (List.product [0..<FL_INDEX_COUNT] [0..<SL_INDEX_COUNT]) s = Some ()"
    by (rule check_all_ok) (auto intro: check_cell_ok [OF C co] simp: tlsf_consts)
  then show "tlsf_check s = Some 0" by (simp add: tlsf_check_def)
  have "offset_to_block (ptr (a + 8)) (- block_header_overhead) = ptr a"
    by (simp add: offset_to_block_def tlsf_consts ptr_def)
  then show "tlsf_check_pool s (ptr (a + 8)) = Some 0"
    using walk_ok [of M s c a "[]" bs C] C by (simp add: tlsf_check_pool_def tlsf_walk_pool_def)
qed

end
