(* ===== verification/CString_Correct.thy ===== *)
theory CString_Correct
  imports CString
begin

text \<open>
  Correctness of the memory and string functions: block copies under overlap, comparison against the
  lexicographic order, and the bounded copy.
\<close>

section \<open>Blocks\<close>

definition in_range :: "u64 \<Rightarrow> nat \<Rightarrow> u64 \<Rightarrow> bool" where
  "in_range p n a \<longleftrightarrow> unat p \<le> unat a \<and> unat a < unat p + n"

lemma in_range_Suc:
  assumes "unat p + Suc n \<le> 2 ^ 64"
  shows "in_range p (Suc n) a \<longleftrightarrow> in_range p n a \<or> a = p + of_nat n"
  using unat_offset [OF assms, of n] by (auto simp: in_range_def word_unat_eq_iff)

lemma in_range_0 [simp]: "\<not> in_range p 0 a"
  by (simp add: in_range_def)

lemma memcpy_loop_ok:
  assumes "unat dest + n \<le> 2 ^ 64" "unat src + n \<le> 2 ^ 64"
    and "unat dest \<le> unat src \<or> unat src + n \<le> unat dest"
  shows "memcpy_loop m dest src n a = (if in_range dest n a then m (src + (a - dest)) else m a)"
  using assms
proof (induction n arbitrary: a)
  case (Suc n)
  have IH: "memcpy_loop m dest src n b = (if in_range dest n b then m (src + (b - dest)) else m b)" for b
    using Suc by auto
  have "\<not> in_range dest n (src + of_nat n)"
    using unat_offset [OF Suc.prems(2), of n] Suc.prems(3) by (auto simp: in_range_def)
  then show ?case
    using IH in_range_Suc [OF Suc.prems(1)] by (auto simp: Let_def)
qed simp

lemma memmove_down_ok:
  assumes "unat dest + n \<le> 2 ^ 64" "unat src + n \<le> 2 ^ 64" "unat src < unat dest"
  shows "memmove_down m dest src n a = (if in_range dest n a then m (src + (a - dest)) else m a)"
  using assms
proof (induction n arbitrary: m)
  case (Suc n)
  let ?m = "m(dest + of_nat n := m (src + of_nat n))"
  have d: "unat (dest + of_nat n) = unat dest + n" using unat_offset [OF Suc.prems(1), of n] by simp
  have IH: "memmove_down ?m dest src n a = (if in_range dest n a then ?m (src + (a - dest)) else ?m a)"
    using Suc by auto
  show ?case
  proof (cases "in_range dest n a")
    case True
    define k where "k = unat a - unat dest"
    have k: "k < n" "a = dest + of_nat k"
      using True unat_offset [OF Suc.prems(1), of k] by (auto simp: in_range_def k_def word_unat_eq_iff)
    have "unat (src + of_nat k) = unat src + k" using unat_offset [OF Suc.prems(2), of k] k by simp
    moreover have "src + (a - dest) = src + of_nat k" using k(2) by simp
    ultimately have "unat (src + (a - dest)) \<noteq> unat (dest + of_nat n)" using d k(1) Suc.prems(3) by simp
    then have "src + (a - dest) \<noteq> dest + of_nat n" by metis
    then show ?thesis using True IH in_range_Suc [OF Suc.prems(1)] by simp
  next
    case False
    then show ?thesis using IH in_range_Suc [OF Suc.prems(1)] by auto
  qed
qed simp

section \<open>Strings\<close>

lemma cstr_unique: "cstr m p xs \<Longrightarrow> cstr m p ys \<Longrightarrow> xs = ys"
proof (induction xs arbitrary: p ys)
  case Nil
  then show ?case by (cases ys) auto
next
  case (Cons x xs)
  then show ?case by (cases ys) auto
qed

lemma strlen_loop_ok: "cstr m p xs \<Longrightarrow> strlen_loop m p l = Some (l + of_nat (length xs))"
proof (induction xs arbitrary: p l)
  case Nil
  then show ?case by (subst strlen_loop.simps) simp
next
  case (Cons x xs)
  then show ?case by (subst strlen_loop.simps) (simp add: add.assoc)
qed

lemma strlen_ok: "cstr m p xs \<Longrightarrow> strlen m p = Some (of_nat (length xs))"
  by (simp add: strlen_def strlen_loop_ok)

text \<open>The comparison of byte strings: the difference of the first bytes that differ, where the end of
  a string counts as a byte 0.\<close>

fun byte_compare :: "u8 list \<Rightarrow> u8 list \<Rightarrow> int" where
  "byte_compare [] [] = 0"
| "byte_compare [] (y # ys) = - uint y"
| "byte_compare (x # xs) [] = uint x"
| "byte_compare (x # xs) (y # ys) = (if x = y then byte_compare xs ys else uint x - uint y)"

lemma strcmp_ok: "cstr m p xs \<Longrightarrow> cstr m q ys \<Longrightarrow> strcmp m p q = Some (byte_compare xs ys)"
proof (induction xs ys arbitrary: p q rule: byte_compare.induct)
  case 1
  then show ?case by (subst strcmp.simps) simp
next
  case 2
  then show ?case by (subst strcmp.simps) auto
next
  case 3
  then show ?case by (subst strcmp.simps) auto
next
  case 4
  then show ?case by (subst strcmp.simps) auto
qed

lemma byte_compare_0:
  "\<forall>x\<in>set xs. x \<noteq> 0 \<Longrightarrow> \<forall>y\<in>set ys. y \<noteq> 0 \<Longrightarrow> byte_compare xs ys = 0 \<longleftrightarrow> xs = ys"
proof (induction xs ys rule: byte_compare.induct)
  case (4 x xs y ys)
  have "uint x = uint y \<longleftrightarrow> x = y" by (metis word_uint_eq_iff)
  then show ?case using 4 by auto
qed (simp_all add: uint_0_iff)

lemma byte_compare_less:
  "\<forall>x\<in>set xs. x \<noteq> 0 \<Longrightarrow> \<forall>y\<in>set ys. y \<noteq> 0 \<Longrightarrow>
   byte_compare xs ys < 0 \<longleftrightarrow> (xs, ys) \<in> lexord {(a, b). a < b}"
proof (induction xs ys rule: byte_compare.induct)
  case (2 y ys)
  have "0 < uint y \<longleftrightarrow> y \<noteq> 0" using uint_less_iff [of 0 y] by (simp add: word_neq_0_conv)
  then show ?case using 2 by simp
next
  case (3 x xs)
  then show ?case by (simp add: not_less)
next
  case (4 x xs y ys)
  then show ?case by (auto simp: word_less_alt)
qed simp

lemma cstr_nonzero: "cstr m p xs \<Longrightarrow> \<forall>x\<in>set xs. x \<noteq> 0"
  by (induction xs arbitrary: p) auto

lemma cstr_nth: "cstr m p xs \<Longrightarrow> i < length xs \<Longrightarrow> m (p + of_nat i) = xs ! i"
proof (induction xs arbitrary: p i)
  case (Cons x xs)
  show ?case
  proof (cases i)
    case (Suc j)
    then show ?thesis using Cons.IH [of "p + 1" j] Cons.prems by (simp add: add.assoc)
  qed (use Cons.prems in simp)
qed simp

lemma cstr_end: "cstr m p xs \<Longrightarrow> m (p + of_nat (length xs)) = 0"
proof (induction xs arbitrary: p)
  case (Cons x xs)
  then show ?case using Cons.IH [of "p + 1"] by (simp add: add.assoc)
qed simp

lemma cstrI:
  "\<forall>x\<in>set xs. x \<noteq> 0 \<Longrightarrow> \<forall>i<length xs. m (p + of_nat i) = xs ! i \<Longrightarrow> m (p + of_nat (length xs)) = 0 \<Longrightarrow> cstr m p xs"
proof (induction xs arbitrary: p)
  case (Cons x xs)
  have "\<forall>i<length xs. m (p + 1 + of_nat i) = xs ! i"
  proof (intro allI impI)
    fix i assume "i < length xs"
    then have "m (p + of_nat (Suc i)) = (x # xs) ! Suc i" by (intro Cons.prems(2) [rule_format]) simp
    then show "m (p + 1 + of_nat i) = xs ! i" by (simp add: add.assoc)
  qed
  moreover have "m p = x" using Cons.prems(2) [rule_format, of 0] by simp
  moreover have "m (p + 1 + of_nat (length xs)) = 0" using Cons.prems(3) by (simp add: add.assoc)
  ultimately show ?case using Cons.IH [of "p + 1"] Cons.prems(1) by simp
qed simp

section \<open>Bounded copy\<close>

primrec write_bytes :: "memory \<Rightarrow> u64 \<Rightarrow> u8 list \<Rightarrow> memory" where
  "write_bytes m d [] = m"
| "write_bytes m d (y # ys) = write_bytes (m(d := y)) (d + 1) ys"

lemma write_bytes_append:
  "write_bytes m d (xs @ ys) = write_bytes (write_bytes m d xs) (d + of_nat (length xs)) ys"
  by (induction xs arbitrary: m d) (simp_all add: add.assoc)

lemma write_bytes_other:
  "\<forall>j<length ys. a \<noteq> d + of_nat j \<Longrightarrow> write_bytes m d ys a = m a"
proof (induction ys arbitrary: m d)
  case (Cons y ys)
  have "\<forall>j<length ys. a \<noteq> d + 1 + of_nat j"
  proof (intro allI impI)
    fix j assume "j < length ys"
    then show "a \<noteq> d + 1 + of_nat j" using Cons.prems [rule_format, of "Suc j"] by (simp add: add.assoc)
  qed
  then show ?case using Cons.IH Cons.prems [rule_format, of 0] by simp
qed simp

lemma offset_inj: "i < 2 ^ 64 \<Longrightarrow> j < 2 ^ 64 \<Longrightarrow> p + of_nat i = p + of_nat j \<longleftrightarrow> i = j" for p :: u64
  using unat_of_nat_u64 [of i] unat_of_nat_u64 [of j] by (metis add_left_cancel)

lemma write_bytes_nth:
  "length ys \<le> 2 ^ 64 \<Longrightarrow> i < length ys \<Longrightarrow> write_bytes m d ys (d + of_nat i) = ys ! i"
proof (induction ys arbitrary: m d i)
  case (Cons y ys)
  show ?case
  proof (cases i)
    case 0
    have "d \<noteq> d + 1 + of_nat j" if "j < length ys" for j
      using offset_inj [of 0 "Suc j" d] that Cons.prems(1) by (simp add: add.assoc)
    then have "write_bytes (m(d := y)) (d + 1) ys d = y" by (subst write_bytes_other) auto
    then show ?thesis using 0 by simp
  next
    case (Suc j)
    then show ?thesis using Cons.IH [of j _ "d + 1"] Cons.prems by (simp add: add.assoc)
  qed
qed simp

lemma write_bytes_cstr:
  "\<forall>x\<in>set xs. x \<noteq> 0 \<Longrightarrow> length xs < 2 ^ 64 \<Longrightarrow> cstr (write_bytes m d (xs @ [0])) d xs"
proof (rule cstrI)
  assume l: "length xs < 2 ^ 64"
  show "\<forall>i<length xs. write_bytes m d (xs @ [0]) (d + of_nat i) = xs ! i"
    using l by (simp add: write_bytes_nth nth_append)
  show "write_bytes m d (xs @ [0]) (d + of_nat (length xs)) = 0"
    using l write_bytes_nth [of "xs @ [0]" "length xs"] by simp
qed

lemma cstr_cong: "cstr m s xs \<Longrightarrow> \<forall>i\<le>length xs. m' (s + of_nat i) = m (s + of_nat i) \<Longrightarrow> cstr m' s xs"
  using cstr_nonzero cstr_nth cstr_end by (intro cstrI) auto

lemma cstr_drop: "cstr m s xs \<Longrightarrow> k \<le> length xs \<Longrightarrow> cstr m (s + of_nat k) (drop k xs)"
proof (induction xs arbitrary: s k)
  case (Cons x xs)
  show ?case
  proof (cases k)
    case 0
    then show ?thesis using Cons.prems by simp
  next
    case (Suc j)
    then show ?thesis using Cons.IH [of "s + 1" j] Cons.prems by (simp add: add.assoc)
  qed
qed simp

lemma skip_string_ok: "cstr m s xs \<Longrightarrow> skip_string m s = Some (s + of_nat (length xs) + 1)"
proof (induction xs arbitrary: s)
  case Nil
  then show ?case by (subst skip_string.simps) simp
next
  case (Cons x xs)
  then show ?case by (subst skip_string.simps) (simp add: add.assoc)
qed

definition apart :: "u64 \<Rightarrow> nat \<Rightarrow> u64 \<Rightarrow> nat \<Rightarrow> bool" where
  "apart s l d n \<longleftrightarrow> (\<forall>i<l. \<forall>j<n. s + of_nat i \<noteq> d + of_nat j)"

lemma apart_less:
  assumes "unat s + l \<le> unat d" "unat d + n \<le> 2 ^ 64"
  shows "apart s l d n"
  unfolding apart_def
proof (intro allI impI)
  fix i j assume "i < l" "j < n"
  then have "unat (s + of_nat i) < unat (d + of_nat j)"
    using unat_offset [of s l i] unat_offset [of d n j] assms by simp
  then show "s + of_nat i \<noteq> d + of_nat j" by auto
qed

lemma apart_Suc: "apart s (Suc l) d (Suc n) \<Longrightarrow> apart (s + 1) l (d + 1) n"
  unfolding apart_def
proof (intro allI impI)
  fix i j assume a: "\<forall>i<Suc l. \<forall>j<Suc n. s + of_nat i \<noteq> d + of_nat j" "i < l" "j < n"
  show "s + 1 + of_nat i \<noteq> d + 1 + of_nat j"
    using a(1) [rule_format, of "Suc i" "Suc j"] a(2,3) by (simp add: add.assoc)
qed

lemma apart_cstr:
  assumes "cstr m s xs" "apart s (Suc (length xs)) d n" "length ys \<le> n"
  shows "cstr (write_bytes m d ys) s xs"
proof (rule cstr_cong [OF assms(1)], intro allI impI)
  fix i assume "i \<le> length xs"
  then show "write_bytes m d ys (s + of_nat i) = m (s + of_nat i)"
    using assms(2,3) by (intro write_bytes_other) (auto simp: apart_def)
qed

lemma strlcpy_loop_ok:
  assumes "cstr m s xs" "unat n = Suc k" "apart s (Suc (length xs)) d (Suc k)"
  shows "strlcpy_loop m d s n =
    Some (if length xs < k
          then (write_bytes m d (xs @ [0]), d + of_nat (length xs) + 1, s + of_nat (length xs) + 1, of_nat (k - length xs))
          else (write_bytes m d (take k xs), d + of_nat k, s + of_nat k, 0))"
  using assms
proof (induction k arbitrary: m s xs n d)
  case 0
  then have "n = 1" by (metis One_nat_def unat_1 word_unat_eq_iff)
  then show ?case by (subst strlcpy_loop.simps) simp
next
  case (Suc k)
  have k: "unat (n - 1) = Suc k" using Suc.prems(2) by (metis One_nat_def diff_Suc_1 unat_eq_zero unat_minus_one nat.distinct(1))
  have n: "n - 1 > 0" by (rule unat_gt_0 [THEN iffD1, rotated] | use k in \<open>simp add: word_less_nat_alt\<close>)+
  show ?case
  proof (cases xs)
    case Nil
    have "n - 1 = of_nat (Suc k)" using k by (rule of_nat_of_unat)
    then show ?thesis using Nil Suc.prems n by (subst strlcpy_loop.simps) (simp add: Let_def)
  next
    case (Cons x ys)
    have c: "m s = x" "x \<noteq> 0" "cstr m (s + 1) ys" using Suc.prems(1) Cons by auto
    have "cstr (write_bytes m d [x]) (s + 1) ys"
    proof (rule cstr_cong [OF c(3)], intro allI impI)
      fix i assume "i \<le> length ys"
      then have "s + of_nat (Suc i) \<noteq> d" 
        using Suc.prems(3) [unfolded apart_def, rule_format, of "Suc i" 0] Cons by simp
      then show "write_bytes m d [x] (s + 1 + of_nat i) = m (s + 1 + of_nat i)" by (simp add: add.assoc)
    qed
    then have "cstr (m(d := x)) (s + 1) ys" by simp
    moreover have "apart (s + 1) (Suc (length ys)) (d + 1) (Suc k)"
      using Suc.prems(3) Cons by (intro apart_Suc) simp
    ultimately have "strlcpy_loop (m(d := x)) (d + 1) (s + 1) (n - 1) =
        Some (if length ys < k
              then (write_bytes (m(d := x)) (d + 1) (ys @ [0]), d + 1 + of_nat (length ys) + 1,
                    s + 1 + of_nat (length ys) + 1, of_nat (k - length ys))
              else (write_bytes (m(d := x)) (d + 1) (take k ys), d + 1 + of_nat k, s + 1 + of_nat k, 0))"
      using Suc.IH [OF _ k] by blast
    then show ?thesis using c Cons n by (subst strlcpy_loop.simps) (simp add: Let_def algebra_simps)
  qed
qed

lemma strlcpy_ok:
  assumes "cstr m src xs" "0 < n" "apart src (Suc (length xs)) dst (unat n)"
  shows "strlcpy m dst src n =
    Some (of_nat (length xs), write_bytes m dst (take (unat n - 1) xs @ [0]))"
proof -
  obtain k where k: "unat n = Suc k" using assms(2) by (metis gr0_implies_Suc unat_gt_0 word_gt_0)
  have ap: "apart src (Suc (length xs)) dst (Suc k)" using assms(3) k by simp
  note loop = strlcpy_loop_ok [OF assms(1) k ap]
  have kl: "k < 2 ^ 64" using unat_lt64 [of n] k by (simp del: unat_lt64)
  show ?thesis
  proof (cases "length xs < k")
    case True
    have "of_nat (k - length xs) \<noteq> (0 :: u64)"
      using unat_of_nat_u64 [of "k - length xs"] kl True by fastforce
    then show ?thesis using loop True k by (simp add: strlcpy_def)
  next
    case False
    let ?m = "write_bytes m dst (take k xs @ [0])"
    have "cstr ?m (src + of_nat k) (drop k xs)"
      using apart_cstr [OF assms(1) ap, of "take k xs @ [0]"] False by (intro cstr_drop) auto
    then have "skip_string ?m (src + of_nat k) = Some (src + of_nat k + of_nat (length xs - k) + 1)"
      by (simp add: skip_string_ok)
    moreover have "of_nat k + of_nat (length xs - k) = (of_nat (length xs) :: u64)"
      using False by (metis le_add_diff_inverse not_less of_nat_add)
    ultimately have "skip_string ?m (src + of_nat k) = Some (src + of_nat (length xs) + 1)"
      by (simp add: add.assoc)
    moreover have "?m = (write_bytes m dst (take k xs))(dst + of_nat k := 0)"
      using False by (simp add: write_bytes_append min_def)
    ultimately show ?thesis using loop False k assms(2) by (simp add: strlcpy_def Let_def word_gt_0)
  qed
qed

section \<open>Properties\<close>

text \<open>C13: \<^verbatim>\<open>memmove\<close> copies the bytes that \<open>src\<close> held before the call, also when the two blocks overlap,
  and changes nothing outside the destination.
\<close>

theorem memmove_correct:
  assumes "unat dest + unat n \<le> 2 ^ 64" "unat src + unat n \<le> 2 ^ 64"
  shows "memmove m dest src n a = (if in_range dest (unat n) a then m (src + (a - dest)) else m a)"
proof (cases src dest rule: linorder_cases)
  case less
  then show ?thesis using memmove_down_ok [OF assms] by (simp add: memmove_def word_less_nat_alt)
next
  case greater
  then show ?thesis using memcpy_loop_ok [OF assms] by (simp add: memmove_def word_less_nat_alt)
qed (simp add: memmove_def)

theorem memmove_correct_witness:
  "unat (3 :: u64) + unat (4 :: u64) \<le> 2 ^ 64 \<and> unat (1 :: u64) + unat (4 :: u64) \<le> 2 ^ 64 \<and>
   memmove (\<lambda>a. ucast a) 3 1 4 5 = 3 \<and> memmove (\<lambda>a. ucast a) 3 1 4 6 = 4 \<and>
   memmove (\<lambda>a. ucast a) 3 1 4 7 = 7"
  using memmove_correct [of 3 4 1 "\<lambda>a. ucast a"] by (simp add: in_range_def)

text \<open>C14: \<^verbatim>\<open>strcmp\<close> on two terminated strings returns; its result is 0 exactly when the strings are equal
  and negative exactly when the first precedes the second in the lexicographic order of the bytes.
\<close>

theorem strcmp_correct:
  assumes "cstr m p xs" "cstr m q ys"
  shows "\<exists>c. strcmp m p q = Some c \<and> (c = 0 \<longleftrightarrow> xs = ys) \<and>
             (c < 0 \<longleftrightarrow> (xs, ys) \<in> lexord {(a, b). a < b})"
  using strcmp_ok [OF assms] byte_compare_0 byte_compare_less cstr_nonzero [OF assms(1)]
    cstr_nonzero [OF assms(2)] by simp

theorem strcmp_correct_witness:
  "\<exists>c. strcmp ((\<lambda>a. 0)(1 := 97, 2 := 98, 9 := 97)) 9 1 = Some c \<and> c < 0"
proof -
  have "cstr ((\<lambda>a. 0)(1 := 97, 2 := 98, 9 := 97)) 9 [97]" "cstr ((\<lambda>a. 0)(1 := 97, 2 := 98, 9 := 97)) 1 [97, 98]"
    by simp_all
  from strcmp_correct [OF this] show ?thesis by auto
qed

text \<open>C15: for a non-zero size and a destination apart from the source string, \<^verbatim>\<open>strlcpy\<close> returns the length
  of the source, leaves the longest prefix that fits as a terminated string at the destination, and
  writes only to the \<open>n\<close> bytes of the destination.
\<close>

theorem strlcpy_correct:
  assumes "cstr m src xs" "0 < n" "apart src (Suc (length xs)) dst (unat n)"
  shows "\<exists>m'. strlcpy m dst src n = Some (of_nat (length xs), m') \<and>
              cstr m' dst (take (unat n - 1) xs) \<and> cstr m' src xs \<and>
              (\<forall>a. (\<forall>j<unat n. a \<noteq> dst + of_nat j) \<longrightarrow> m' a = m a)"
proof -
  let ?ys = "take (unat n - 1) xs @ [0]"
  have u: "0 < unat n" using assms(2) by (simp add: unat_gt_0 word_gt_0)
  have l: "length ?ys \<le> unat n" using u by simp
  have "length (take (unat n - 1) xs) < 2 ^ 64"
    using unat_lt64 [of n] u by (auto simp: min_def simp del: unat_lt64)
  moreover have "\<forall>x\<in>set (take (unat n - 1) xs). x \<noteq> 0"
    using cstr_nonzero [OF assms(1)] by (auto dest: in_set_takeD)
  ultimately have "cstr (write_bytes m dst ?ys) dst (take (unat n - 1) xs)"
    by (intro write_bytes_cstr)
  moreover have "cstr (write_bytes m dst ?ys) src xs" by (rule apart_cstr [OF assms(1,3) l])
  moreover have "write_bytes m dst ?ys a = m a" if "\<forall>j<unat n. a \<noteq> dst + of_nat j" for a
    using that l by (intro write_bytes_other) auto
  ultimately show ?thesis using strlcpy_ok [OF assms] by blast
qed

theorem strlcpy_correct_witness:
  "cstr ((\<lambda>a. 0)(1 := 97, 2 := 98, 3 := 99)) 1 [97, 98, 99] \<and>
   (\<exists>m'. strlcpy ((\<lambda>a. 0)(1 := 97, 2 := 98, 3 := 99)) 16 1 3 = Some (3, m') \<and> cstr m' 16 [97, 98])"
proof -
  let ?m = "(\<lambda>a. 0)(1 := 97, 2 := 98, 3 := 99) :: memory"
  have c: "cstr ?m 1 [97, 98, 99]" by simp
  have "apart 1 (Suc (length [97 :: u8, 98, 99])) 16 (unat (3 :: u64))"
    by (rule apart_less) simp_all
  from strlcpy_correct [OF c _ this] c show ?thesis by auto
qed

end
