(* ===== verification/Tlsf_Correct.thy ===== *)
theory Tlsf_Correct
  imports Tlsf_Create CString_Correct
begin

text \<open>
  Correctness of the allocator of \<^verbatim>\<open>kernel/main/mm/heapalloc/tlsf.c\<close>, for every well-formed heap: no assertion of
  the code fails, the heap stays well formed and coalesced, allocations are disjoint, and contents are
  kept.
\<close>

lemma heap_facts:
  assumes "heapg M c s a bs"
  shows "sized bs" "8 dvd a" "a + span bs + 16 \<le> 2 ^ 64" "0 < a"
proof -
  obtain C where "heap_ok M s c a bs C {}" using assms by (auto simp: heapg_def)
  note h = heap_okD [OF this]
  show "sized bs" "8 dvd a" "a + span bs + 16 \<le> 2 ^ 64" "0 < a" using h by auto
qed

lemma used_ptr:
  assumes "heapg M c s a bs" "(p, n) \<in> useds a bs"
  shows "unat (ptr p) = p" "8 dvd p" "0 < p" "p + n \<le> 2 ^ 64" "8 dvd n" "24 \<le> n" "ptr p \<noteq> 0"
proof -
  note h = heap_facts [OF assms(1)]
  obtain xs ys where xy: "bs = xs @ (n, False) # ys" "p = a + span xs + 16" using useds_split [OF assms(2)] by blast
  have r: "p + n \<le> a + span bs + 8" using useds_range [OF assms(2)] by simp
  then show "unat (ptr p) = p" using h(3) by (intro unat_ptr) simp
  show "8 dvd p" "8 dvd n" "24 \<le> n" using h xy sized_span [of xs] by auto
  show "0 < p" "p + n \<le> 2 ^ 64" "ptr p \<noteq> 0" using r h ptr_nonzero [of p] xy by auto
qed

lemma useds_empty: "useds a xs = {} \<longleftrightarrow> (\<forall>(sz, f)\<in>set xs. f)"
  by (induction xs arbitrary: a rule: span.induct) auto

lemma useds_free: "useds 0 xs = {} \<Longrightarrow> useds a xs = {}"
  by (simp only: useds_empty)

lemma useds_ends:
  assumes "sized (xs @ (k, False) # zs)"
  shows "(a + span xs + 16, n) \<notin> useds a xs \<union> useds (a + span xs + 8 + k) zs"
  using useds_range [of "a + span xs + 16" n a xs] useds_range [of "a + span xs + 16" n "a + span xs + 8 + k" zs] assms
    useds_split [of "a + span xs + 16" n a xs] by fastforce

lemma sub_payload:
  assumes "sized xs" "8 dvd a" "sized ys" "8 dvd c"
  shows "\<forall>x\<in>payload a xs \<union> payload c ys. x div 8 * 8 \<in> payload a xs \<union> payload c ys"
proof
  fix x assume "x \<in> payload a xs \<union> payload c ys"
  moreover have "x div 8 * 8 div 8 = x div 8" by simp
  ultimately show "x div 8 * 8 \<in> payload a xs \<union> payload c ys"
    using payload_aligned [OF assms(1,2)] payload_aligned [OF assms(3,4)] by blast
qed

lemma free_used:
  assumes H: "heapg M c s a bs" and u: "(p, n) \<in> useds a bs"
  shows "\<exists>t bs'. tlsf_free s (ptr p) = Some t \<and> heapg M c t a bs' \<and> span bs' = span bs \<and>
    useds a bs' = useds a bs - {(p, n)} \<and> kept s t (payload a bs')"
proof -
  obtain xs ys where xy: "bs = xs @ (n, False) # ys" "p = a + span xs + 16" using useds_split [OF u] by blast
  obtain t bs' where t: "tlsf_free s (ptr p) = Some t" "heapg M c t a bs'"
    "useds a bs' = useds a xs \<union> useds (a + span xs + 8 + n) ys" "span bs' = span xs + 8 + n + span ys"
    "\<forall>w\<in>payload a xs \<union> payload (a + span xs + 8 + n) ys. rd t w = rd s w"
    using free_ok [OF H [unfolded xy(1)]] unfolding xy(2) by blast
  note f = heap_facts [OF H, unfolded xy(1), simplified]
  have d: "(p, n) \<notin> useds a xs \<union> useds (a + span xs + 8 + n) ys"
    using useds_ends [of xs n ys a n] f(1) xy(2) by simp
  have pl: "payload a bs' = payload a xs \<union> payload (a + span xs + 8 + n) ys" using t(3) by (simp add: payload_def)
  have "kept s t (payload a bs')" unfolding pl
    by (rule keptI [OF H t(5)]) (use xy(1) f sub_payload [of xs a ys "a + span xs + 8 + n"] sized_span [of xs] in auto)
  moreover have "useds a bs' = useds a bs - {(p, n)}" using t(3) d xy by auto
  ultimately show ?thesis using t(1,2,4) xy(1) by auto
qed

lemma malloc_used:
  assumes "heapg M c s a bs" and "unat r \<le> 2 ^ 64 - 8"
  shows "\<exists>q t. tlsf_malloc s r = Some (q, t) \<and>
    (if q = 0 then t = s \<and>
       (request (unat r) = 0 \<or> (\<forall>(b, sz)\<in>frees a bs. sz < request (unat r) + request (unat r) div 32))
     else \<exists>k bs'. heapg M c t a bs' \<and> span bs' = span bs \<and> useds a bs' = insert (unat q, k) (useds a bs) \<and>
       unat r \<le> k \<and> 8 dvd unat q \<and> {unat q..<unat q + k} \<inter> payload a bs = {} \<and> kept s t (payload a bs))"
  using malloc_ok [OF assms]
proof
  assume "\<exists>xs sz ys k rest t. bs = xs @ (sz, True) # ys \<and> request (unat r) \<noteq> 0 \<and>
      tlsf_malloc s r = Some (ptr (a + span xs + 16), t) \<and> heapg M c t a (xs @ (k, False) # rest @ ys) \<and>
      request (unat r) \<le> k \<and> k < request (unat r) + 32 \<and> span ((k, True) # rest) = 8 + sz \<and> useds 0 rest = {} \<and>
      length rest \<le> 1 \<and> (\<forall>w\<in>payload a bs. rd t w = rd s w)"
  then obtain xs sz ys k rest t where f: "bs = xs @ (sz, True) # ys" "request (unat r) \<noteq> 0"
      "tlsf_malloc s r = Some (ptr (a + span xs + 16), t)" "heapg M c t a (xs @ (k, False) # rest @ ys)"
      "request (unat r) \<le> k" "span ((k, True) # rest) = 8 + sz" "useds 0 rest = {}"
      "\<forall>w\<in>payload a bs. rd t w = rd s w" by blast
  let ?q = "a + span xs + 16" and ?bs = "xs @ (k, False) # rest @ ys"
  have e: "k + span rest = sz" using f(6) by simp
  have u: "useds a ?bs = insert (?q, k) (useds a bs)"
    using useds_free [OF f(7)] unfolding f(1) e [symmetric] by (simp add: add.assoc)
  note q = used_ptr [OF f(4), of ?q k, unfolded u, simplified]
  have out: "{?q..<?q + k} \<inter> {x..<x + n} = {}" if "(x, n) \<in> useds a bs" for x n
  proof -
    have "(x, n) \<noteq> (?q, k)" using that useds_range [of x n a xs] useds_range [of x n "a + span xs + 8 + sz" ys] q(6) e
      unfolding f(1) by (auto simp: add.assoc)
    then show ?thesis using useds_disjoint [of ?q k a ?bs x n] heap_facts(1) [OF f(4)] that u by auto
  qed
  have d: "{?q..<?q + k} \<inter> payload a bs = {}" using out unfolding payload_def by blast
  have "unat r \<le> k" using request_props [OF f(2)] f(5) by simp
  moreover have "span ?bs = span bs" using e f(1) by simp
  ultimately have "\<exists>k bs'. heapg M c t a bs' \<and> span bs' = span bs \<and> useds a bs' = insert (?q, k) (useds a bs) \<and>
       unat r \<le> k \<and> 8 dvd ?q \<and> {?q..<?q + k} \<inter> payload a bs = {} \<and> kept s t (payload a bs)"
    using f(4) u q(2) d kept_all [OF assms(1) f(8)] by blast
  then show ?thesis unfolding f(3) using q(1,7) by (intro exI [of _ "ptr ?q"] exI [of _ t]) simp
qed auto


section \<open>Reallocation\<close>

lemma memcpy_nat:
  assumes "q + unat z \<le> 2 ^ 64" "p + unat z \<le> 2 ^ 64" "q < 2 ^ 64" "p < 2 ^ 64"
    and "{q..<q + unat z} \<inter> {p..<p + unat z} = {}" "x < 2 ^ 64"
  shows "memcpy m (ptr q) (ptr p) z (ptr x) = (if x \<in> {q..<q + unat z} then m (ptr (p + (x - q))) else m (ptr x))"
proof -
  have u: "unat (ptr q) = q" "unat (ptr p) = p" "unat (ptr x) = x" using assms unat_ptr by auto
  have "q \<le> p \<or> p + unat z \<le> q"
  proof (rule ccontr)
    assume "\<not> ?thesis"
    then have "q \<in> {q..<q + unat z} \<inter> {p..<p + unat z}" by auto
    then show False using assms(5) by simp
  qed
  then have "memcpy_loop m (ptr q) (ptr p) (unat z) (ptr x) =
      (if in_range (ptr q) (unat z) (ptr x) then m (ptr p + (ptr x - ptr q)) else m (ptr x))"
    using assms(1,2) u by (intro memcpy_loop_ok) auto
  then show ?thesis by (auto simp: memcpy_def in_range_def u ptr_diff ptr_plus)
qed

lemma payload_used:
  assumes "(p, n) \<in> useds a bs" "x < n"
  shows "p + x \<in> payload a bs"
proof -
  have "p + x \<in> {p..<p + n}" using assms(2) by simp
  then show ?thesis using assms(1) unfolding payload_def by blast
qed

text \<open>Moving an allocation: copy into the new block, then free the old one.\<close>

lemma move_used:
  assumes H: "heapg M c s a bs" and p: "(p, n) \<in> useds a bs" and q: "(q, k) \<in> useds a bs" "(q, k) \<noteq> (p, n)"
    and z: "unat z \<le> n" "unat z \<le> k"
  shows "\<exists>t bs'. tlsf_free (s\<lparr>mem := memcpy (mem s) (ptr q) (ptr p) z\<rparr>) (ptr p) = Some t \<and> heapg M c t a bs' \<and>
    span bs' = span bs \<and> useds a bs' = useds a bs - {(p, n)} \<and>
    (\<forall>x<unat z. mem t (ptr (q + x)) = mem s (ptr (p + x))) \<and>
    kept s t (\<Union>(x, m)\<in>useds a bs - {(p, n), (q, k)}. {x..<x + m})"
proof -
  let ?u = "s\<lparr>mem := memcpy (mem s) (ptr q) (ptr p) z\<rparr>"
  note P = used_ptr [OF H p] and Q = used_ptr [OF H q(1)] and f = heap_facts [OF H]
  have d: "{q..<q + k} \<inter> {p..<p + n} = {}" using useds_disjoint [OF q(1) p f(1)] q(2) by auto
  have "{q..<q + unat z} \<subseteq> {q..<q + k}" "{p..<p + unat z} \<subseteq> {p..<p + n}" using z by auto
  then have "{q..<q + unat z} \<inter> {p..<p + unat z} = {}" using d by blast
  then have cp: "mem ?u (ptr x) = (if x \<in> {q..<q + unat z} then mem s (ptr (p + (x - q))) else mem s (ptr x))"
    if "x < 2 ^ 64" for x using memcpy_nat [of q z p x "mem s"] P(4,6) Q(4,6) z that by simp
  have out: "mem ?u (ptr x) = mem s (ptr x)" if "x < 2 ^ 64" "x \<notin> {q..<q + k}" for x
    using cp [OF that(1)] that(2) z by auto
  have H': "heapg M c ?u a bs"
  proof (rule heap_write [OF H])
    show "\<forall>x<2 ^ 64. x \<notin> payload a bs \<longrightarrow> mem ?u (ptr x) = mem s (ptr x)"
      using out q(1) unfolding payload_def by blast
  qed (simp add: same_ctl_def)
  obtain t bs' where t: "tlsf_free ?u (ptr p) = Some t" "heapg M c t a bs'" "span bs' = span bs"
    "useds a bs' = useds a bs - {(p, n)}" "kept ?u t (payload a bs')" using free_used [OF H' p] by blast
  have "mem t (ptr (q + x)) = mem s (ptr (p + x))" if x: "x < unat z" for x
  proof -
    have "q + x \<in> payload a bs'" using t(4) q x z by (intro payload_used [of q k]) auto
    then have "mem t (ptr (q + x)) = mem ?u (ptr (q + x))" using t(5) unfolding kept_def by blast
    moreover have "q + x < 2 ^ 64" "q + x \<in> {q..<q + unat z}" using Q(4) x z by auto
    ultimately show ?thesis using cp [of "q + x"] by simp
  qed
  moreover have "mem t (ptr x) = mem s (ptr x)" if y: "(y, m) \<in> useds a bs - {(p, n), (q, k)}" "x \<in> {y..<y + m}" for x y m
  proof -
    have "(y, m) \<in> useds a bs'" using t(4) y(1) by blast
    then have "x \<in> payload a bs'" using y(2) unfolding payload_def by blast
    then have "mem t (ptr x) = mem ?u (ptr x)" using t(5) unfolding kept_def by blast
    moreover have "{q..<q + k} \<inter> {y..<y + m} = {}" using useds_disjoint [OF q(1) _ f(1), of y m] y(1) by blast
    then have "x \<notin> {q..<q + k}" using y(2) by blast
    moreover have "(y, m) \<in> useds a bs" using y(1) by blast
    then have "x < 2 ^ 64" using used_ptr(4) [OF H, of y m] y(2) by simp
    ultimately show ?thesis using out [of x] by simp
  qed
  then have "kept s t (\<Union>(x, m)\<in>useds a bs - {(p, n), (q, k)}. {x..<x + m})" unfolding kept_def by blast
  ultimately show ?thesis using t(1-4) by blast
qed

lemma trim_used:
  assumes H: "heapg M c s a (xs @ (sz, False) # ys)" and b: "b = a + span xs" and n: "24 \<le> n" "8 dvd n" "n \<le> sz"
  shows "\<exists>t k zs. block_trim_used s (ptr b) (ptr n) = Some t \<and> heapg M c t a (xs @ (k, False) # zs) \<and> n \<le> k \<and>
    span (xs @ (k, False) # zs) = span (xs @ (sz, False) # ys) \<and> useds (b + 8 + k) zs = useds (b + 8 + sz) ys \<and>
    kept s t (payload a xs \<union> body b n \<union> payload (b + 8 + sz) ys)"
proof -
  obtain C where C: "heap_ok M s c a (xs @ (sz, False) # ys) C {}" and co: "coalesced (xs @ (sz, False) # ys)"
    using H by (auto simp: heapg_def)
  obtain t k zs where t: "block_trim_used s (ptr b) (ptr n) = Some t" "heapg M c t a (xs @ (k, False) # zs)" "n \<le> k"
    "useds (b + 8 + k) zs = useds (b + 8 + sz) ys" "span ((k, False) # zs) = span ((sz, False) # ys)"
    "\<forall>w\<in>payload a xs \<union> body b n \<union> payload (b + 8 + sz) ys. rd t w = rd s w"
    using heap_trim_used [OF C co b n] by blast
  note f = heap_facts [OF H, simplified]
  let ?S = "payload a (xs @ [(n, False)]) \<union> payload (b + 8 + sz) ys"
  have S: "?S = payload a xs \<union> body b n \<union> payload (b + 8 + sz) ys" using b by simp
  have "\<forall>x\<in>?S. x div 8 * 8 \<in> ?S" by (rule sub_payload) (use f n b sized_span [of xs] in auto)
  moreover have "?S \<subseteq> payload a (xs @ (sz, False) # ys)" using n b by auto
  ultimately have "kept s t ?S" using t(6) unfolding S by (intro keptI [OF H])
  then show ?thesis using t(1-5) unfolding S by auto
qed

lemma realloc_next:
  assumes H: "heapg M c s a (xs @ (n, False) # ys)" and p: "p = a + span xs + 16"
  shows "block_from_ptr (ptr p) = ptr (a + span xs)" "block_next s (ptr (a + span xs)) = Some (ptr (a + span xs + 8 + n))"
    "block_size s (ptr (a + span xs)) = ptr n" "block_size s (ptr (a + span xs + 8 + n)) = ptr (nsz ys)"
    "block_is_free s (ptr (a + span xs + 8 + n)) = nf ys" "\<not> block_is_free s (ptr (a + span xs))"
    "n < 2 ^ 32" "nsz ys < 2 ^ 32"
proof -
  obtain C where C: "heap_ok M s c a (xs @ (n, False) # ys) C {}" using H by (auto simp: heapg_def)
  note h = phys_hdr [OF heap_okD(2,1) [OF C] refl]
  show "block_from_ptr (ptr p) = ptr (a + span xs)" unfolding p by (rule block_from_ptr_ptr)
  show "block_next s (ptr (a + span xs)) = Some (ptr (a + span xs + 8 + n))" using hdr_next [OF h(1)] h(5) by simp
  show "block_size s (ptr (a + span xs)) = ptr n" "\<not> block_is_free s (ptr (a + span xs))" using hdr_get [OF h(1)] by auto
  show "block_size s (ptr (a + span xs + 8 + n)) = ptr (nsz ys)" "block_is_free s (ptr (a + span xs + 8 + n)) = nf ys"
    using hdr_get [OF h(2)] by auto
  show "n < 2 ^ 32" using h(7) .
  show "nsz ys < 2 ^ 32" using heap_okD(11) [OF C] by (cases ys) (auto simp: nsz_def)
qed

lemma realloc_stay:
  assumes H: "heapg M c s a bs" and p: "(p, n) \<in> useds a bs" and r: "unat r \<le> 2 ^ 64 - 8" "request (unat r) \<noteq> 0"
    and fit: "request (unat r) \<le> n"
  shows "\<exists>t k bs'. block_trim_used s (block_from_ptr (ptr p)) (ptr (request (unat r))) = Some t \<and> heapg M c t a bs' \<and>
    span bs' = span bs \<and> useds a bs' = insert (p, k) (useds a bs - {(p, n)}) \<and> unat r \<le> k \<and>
    kept s t ({p..<p + request (unat r)} \<union> (\<Union>(x, m)\<in>useds a bs - {(p, n)}. {x..<x + m}))"
proof -
  let ?N = "request (unat r)"
  note N = request_props [OF r(2)] and f = heap_facts [OF H]
  obtain xs ys where xy: "bs = xs @ (n, False) # ys" "p = a + span xs + 16" using useds_split [OF p] by blast
  let ?b = "a + span xs"
  obtain t k zs where t: "block_trim_used s (ptr ?b) (ptr ?N) = Some t" "heapg M c t a (xs @ (k, False) # zs)" "?N \<le> k"
    "span (xs @ (k, False) # zs) = span bs" "useds (?b + 8 + k) zs = useds (?b + 8 + n) ys"
    "kept s t (payload a xs \<union> body ?b ?N \<union> payload (?b + 8 + n) ys)"
    using trim_used [OF H [unfolded xy(1)] refl] N fit unfolding xy(1) by blast
  have d: "(p, n) \<notin> useds a xs \<union> useds (?b + 8 + n) ys" using useds_ends [of xs n ys a n] f(1) xy by simp
  have u: "useds a bs - {(p, n)} = useds a xs \<union> useds (?b + 8 + n) ys" using d xy by auto
  have "useds a (xs @ (k, False) # zs) = insert (p, k) (useds a bs - {(p, n)})" unfolding u using t(5) xy(2) by simp
  moreover have "payload a xs \<union> body ?b ?N \<union> payload (?b + 8 + n) ys =
      {p..<p + ?N} \<union> (\<Union>(x, m)\<in>useds a bs - {(p, n)}. {x..<x + m})"
    unfolding u using xy(2) by (auto simp: payload_def)
  then have "kept s t ({p..<p + ?N} \<union> (\<Union>(x, m)\<in>useds a bs - {(p, n)}. {x..<x + m}))" using t(6) by simp
  moreover have "block_trim_used s (block_from_ptr (ptr p)) (ptr ?N) = Some t"
    using t(1) block_from_ptr_ptr [of ?b] unfolding xy(2) by simp
  moreover have "unat r \<le> k" using t(3) N by simp
  ultimately show ?thesis using t(2,4) by blast
qed

text \<open>The allocation \<open>(p, n)\<close> is replaced by one at \<open>q\<close> for \<open>r\<close> bytes that starts with the old contents.\<close>

definition resized :: "(nat \<Rightarrow> u64) \<Rightarrow> nat \<Rightarrow> tlsf \<Rightarrow> nat \<Rightarrow> layout \<Rightarrow> nat \<Rightarrow> nat \<Rightarrow> u64 \<Rightarrow> u64 \<Rightarrow> tlsf \<Rightarrow> bool" where
  "resized M c s a bs p n r q t \<longleftrightarrow>
     (\<exists>k bs'. heapg M c t a bs' \<and> span bs' = span bs \<and> useds a bs' = insert (unat q, k) (useds a bs - {(p, n)}) \<and>
        unat r \<le> k \<and> (\<forall>x<min n (unat r). mem t (ptr (unat q + x)) = mem s (ptr (p + x))) \<and>
        kept s t (\<Union>(x, m)\<in>useds a bs - {(p, n)}. {x..<x + m}))"

lemma resized_in_place:
  assumes "heapg M c s a bs" "(p, n) \<in> useds a bs" "heapg M c t a bs'" "span bs' = span bs"
    and "useds a bs' = insert (p, k) (useds a bs - {(p, n)})" "unat r \<le> k"
    and "kept s t ({p..<p + min n (unat r)} \<union> (\<Union>(x, m)\<in>useds a bs - {(p, n)}. {x..<x + m}))"
  shows "resized M c s a bs p n r (ptr p) t"
proof -
  have "\<forall>x<min n (unat r). mem t (ptr (p + x)) = mem s (ptr (p + x))" using assms(7) by (auto simp: kept_def)
  moreover have "kept s t (\<Union>(x, m)\<in>useds a bs - {(p, n)}. {x..<x + m})" using assms(7) by (rule kept_mono) blast
  ultimately show ?thesis unfolding resized_def used_ptr(1) [OF assms(1,2)] using assms(3-6) by blast
qed

lemma payload_parts:
  assumes "(p, n) \<in> useds a bs" "m \<le> n"
  shows "{p..<p + m} \<union> (\<Union>(x, m)\<in>useds a bs - A. {x..<x + m}) \<subseteq> payload a bs"
proof -
  have "{p..<p + m} \<subseteq> {p..<p + n}" using assms(2) by auto
  then show ?thesis using assms(1) unfolding payload_def by blast
qed

lemma realloc_unfold:
  assumes H: "heapg M c s a (xs @ (n, False) # ys)" and p: "p = a + span xs + 16"
    and r: "unat r \<le> 2 ^ 64 - 8" "request (unat r) \<noteq> 0"
  shows "tlsf_realloc s (ptr p) r =
    (if n < request (unat r) \<and> (\<not> nf ys \<or> n + nsz ys + 8 < request (unat r)) then
       Option.bind (tlsf_malloc s r) (\<lambda>(q, t).
         if q \<noteq> 0 then Option.bind (tlsf_free (t\<lparr>mem := memcpy (mem t) q (ptr p) (if ptr n < r then ptr n else r)\<rparr>) (ptr p))
           (\<lambda>u. Some (q, u)) else Some (q, t))
     else Option.bind (if n < request (unat r) then Option.bind (block_merge_next s (ptr (a + span xs)))
         (\<lambda>(b, t). block_mark_as_used t (ptr (a + span xs))) else Some s)
       (\<lambda>t. Option.bind (block_trim_used t (ptr (a + span xs)) (ptr (request (unat r)))) (\<lambda>u. Some (ptr p, u))))"
proof -
  let ?N = "request (unat r)"
  note N = request_props [OF r(2)] and e = realloc_next [OF H p]
  have "(p, n) \<in> useds a (xs @ (n, False) # ys)" using p by simp
  then have P: "ptr p \<noteq> 0" by (rule used_ptr(7) [OF H])
  have r0: "r \<noteq> 0" using r(2) by (auto simp: request_def)
  have cmp: "ptr ?N > ptr n \<longleftrightarrow> n < ?N" "ptr ?N > ptr n + ptr (nsz ys) + 8 \<longleftrightarrow> n + nsz ys + 8 < ?N"
    using N e(7,8) by (simp_all add: word_less_nat_alt unat_ptr ptr_numeral ptr_plus)
  have oh: "block_header_overhead = 8" by (simp add: tlsf_consts)
  show ?thesis using e adjust_request_ok [OF r(1)] r0 P
    by (simp add: tlsf_realloc_def tlsf_assert_def oh cmp Let_def cong: if_cong)
qed

lemma realloc_grow:
  assumes H: "heapg M c s a bs" and p: "(p, n) \<in> useds a bs" and r: "unat r \<le> 2 ^ 64 - 8" "request (unat r) \<noteq> 0"
    and bs: "bs = xs @ (n, False) # (szn, True) # zs" "p = a + span xs + 16"
    and N: "n < request (unat r)" "request (unat r) \<le> n + szn + 8"
  shows "\<exists>t. tlsf_realloc s (ptr p) r = Some (ptr p, t) \<and> resized M c s a bs p n r (ptr p) t"
proof -
  let ?b = "a + span xs" and ?k = "n + szn + 8" and ?N = "request (unat r)" and ?ys = "(szn, True) # zs"
  let ?S = "{p..<p + min n (unat r)} \<union> (\<Union>(x, m)\<in>useds a bs - {(p, n)}. {x..<x + m})"
  note f = heap_facts [OF H]
  obtain C where C: "heap_ok M s c a (xs @ (n, False) # ?ys) C {}" and co: "coalesced bs"
    using H bs by (auto simp: heapg_def)
  obtain t1 t2 D where t: "block_merge_next s (ptr ?b) = Some (ptr ?b, t1)" "block_mark_as_used t1 (ptr ?b) = Some t2"
    "heap_ok M t2 c a (xs @ (?k, False) # zs) D {}" "\<forall>w\<in>payload a bs. rd t2 w = rd s w"
    using heap_grow [OF C refl] unfolding bs(1) by blast
  have H2: "heapg M c t2 a (xs @ (?k, False) # zs)" using t(3) co unfolding bs(1) heapg_def
    by (auto simp: coalesced_append coalesced_Cons)
  have u2: "useds a (xs @ (?k, False) # zs) = insert (p, ?k) (useds a xs \<union> useds (?b + 8 + n) ?ys)"
    unfolding bs(2) by (simp add: ac_simps)
  have d: "(p, m) \<notin> useds a xs \<union> useds (?b + 8 + n) ?ys" for m using useds_ends [of xs n ?ys a m] f(1) bs by simp
  have "useds a bs = insert (p, n) (useds a xs \<union> useds (?b + 8 + n) ?ys)" unfolding bs by simp
  then have u3: "useds a (xs @ (?k, False) # zs) - {(p, ?k)} = useds a bs - {(p, n)}" unfolding u2 using d by blast
  have pu: "(p, ?k) \<in> useds a (xs @ (?k, False) # zs)" unfolding u2 by simp
  obtain t3 k bs' where t3: "block_trim_used t2 (block_from_ptr (ptr p)) (ptr ?N) = Some t3" "heapg M c t3 a bs'"
    "span bs' = span (xs @ (?k, False) # zs)" "useds a bs' = insert (p, k) (useds a bs - {(p, n)})" "unat r \<le> k"
    "kept t2 t3 ({p..<p + ?N} \<union> (\<Union>(x, m)\<in>useds a bs - {(p, n)}. {x..<x + m}))"
    using realloc_stay [OF H2 pu r N(2)] unfolding u3 by blast
  have fp: "block_from_ptr (ptr p) = ptr ?b" unfolding bs(2) by (rule block_from_ptr_ptr)
  have "tlsf_realloc s (ptr p) r = Some (ptr p, t3)"
    using realloc_unfold [OF H [unfolded bs(1)] bs(2) r] t(1,2) t3(1) N unfolding fp by simp
  moreover have "kept s t2 ?S" using kept_all [OF H t(4)] by (rule kept_mono) (rule payload_parts [OF p], simp)
  moreover have "kept t2 t3 ?S" using t3(6) by (rule kept_mono) (use N in auto)
  then have "kept s t3 ?S" using \<open>kept s t2 ?S\<close> by (rule kept_trans [rotated])
  moreover have "span bs' = span bs" using t3(3) bs(1) by simp
  ultimately show ?thesis using resized_in_place [OF H p t3(2) _ t3(4,5)] by blast
qed

lemma realloc_move:
  assumes H: "heapg M c s a bs" and p: "(p, n) \<in> useds a bs" and r: "unat r \<le> 2 ^ 64 - 8" "request (unat r) \<noteq> 0"
    and m: "tlsf_malloc s r = Some (q, t)" "q \<noteq> 0" and n: "n < 2 ^ 32"
  shows "\<exists>u. tlsf_free (t\<lparr>mem := memcpy (mem t) q (ptr p) (if ptr n < r then ptr n else r)\<rparr>) (ptr p) = Some u \<and>
    resized M c s a bs p n r q u"
proof -
  let ?z = "if ptr n < r then ptr n else r" and ?rest = "\<Union>(x, m)\<in>useds a bs - {(p, n)}. {x..<x + m}"
  obtain k bs1 where b1: "heapg M c t a bs1" "span bs1 = span bs" "useds a bs1 = insert (unat q, k) (useds a bs)"
    "unat r \<le> k" "{unat q..<unat q + k} \<inter> payload a bs = {}" "kept s t (payload a bs)"
    using malloc_used [OF H r(1)] m by auto
  have q: "ptr (unat q) = q" by (simp add: ptr_def)
  have z: "unat ?z = min n (unat r)" using n by (simp add: word_less_nat_alt unat_ptr min_def)
  have nq: "(unat q, m) \<notin> useds a bs" for m
  proof
    assume a: "(unat q, m) \<in> useds a bs"
    moreover have "(unat q, k) \<in> useds a bs1" using b1(3) by simp
    ultimately have "unat q \<in> {unat q..<unat q + k} \<inter> payload a bs"
      using payload_used [OF a, of 0] used_ptr(6) [OF H a] used_ptr(6) [OF b1(1), of "unat q" k] by simp
    then show False using b1(5) by simp
  qed
  then have ne: "(unat q, k) \<noteq> (p, n)" using p by metis
  have p1: "(p, n) \<in> useds a bs1" and q1: "(unat q, k) \<in> useds a bs1" using b1(3) p by simp_all
  have zn: "unat ?z \<le> n" and zk: "unat ?z \<le> k" unfolding z using b1(4) by simp_all
  obtain u bs' where u: "tlsf_free (t\<lparr>mem := memcpy (mem t) q (ptr p) ?z\<rparr>) (ptr p) = Some u" "heapg M c u a bs'"
    "span bs' = span bs1" "useds a bs' = useds a bs1 - {(p, n)}"
    "\<forall>x<min n (unat r). mem u (ptr (unat q + x)) = mem t (ptr (p + x))"
    "kept t u (\<Union>(x, m)\<in>useds a bs1 - {(p, n), (unat q, k)}. {x..<x + m})"
    using move_used [OF b1(1) p1 q1 ne zn zk] unfolding z q by blast
  have "useds a bs1 - {(p, n), (unat q, k)} = useds a bs - {(p, n)}" using b1(3) nq by auto
  then have "kept t u ?rest" using u(6) by simp
  moreover have "?rest \<subseteq> payload a bs" unfolding payload_def by blast
  then have "kept s t ?rest" by (rule kept_mono [OF b1(6)])
  ultimately have "kept s u ?rest" by (rule kept_trans [rotated])
  moreover have "mem t (ptr (p + x)) = mem s (ptr (p + x))" if "x < min n (unat r)" for x
    using b1(6) payload_used [OF p, of x] that unfolding kept_def by simp
  moreover have "useds a bs' = insert (unat q, k) (useds a bs - {(p, n)})" using u(4) b1(3) ne by auto
  ultimately have "resized M c s a bs p n r q u" unfolding resized_def using u(2,3,5) b1(2,4) by auto
  then show ?thesis using u(1) by blast
qed

lemma realloc_used:
  assumes H: "heapg M c s a bs" and p: "(p, n) \<in> useds a bs" and r: "unat r \<le> 2 ^ 64 - 8" "request (unat r) \<noteq> 0"
  shows "\<exists>q t. tlsf_realloc s (ptr p) r = Some (q, t) \<and>
    (if q = 0 then t = s \<and> n < request (unat r) \<and>
       (\<forall>(b, sz)\<in>frees a bs. sz < request (unat r) + request (unat r) div 32)
     else resized M c s a bs p n r q t)"
proof -
  let ?N = "request (unat r)"
  obtain xs ys where xy: "bs = xs @ (n, False) # ys" "p = a + span xs + 16" using useds_split [OF p] by blast
  note e = realloc_next [OF H [unfolded xy(1)] xy(2)] and rz = realloc_unfold [OF H [unfolded xy(1)] xy(2) r]
    and P = used_ptr(7) [OF H p]
  consider (move) "n < ?N" "\<not> nf ys \<or> n + nsz ys + 8 < ?N" | (stay) "?N \<le> n"
    | (grow) szn zs where "n < ?N" "ys = (szn, True) # zs" "?N \<le> n + szn + 8"
  proof -
    consider "?N \<le> n" | "n < ?N" "\<not> nf ys \<or> n + nsz ys + 8 < ?N" | "n < ?N" "nf ys" "?N \<le> n + nsz ys + 8" by linarith
    then show thesis using that by cases (blast, blast, cases ys, auto simp: nf_def nsz_def)
  qed
  then show ?thesis
  proof cases
    case stay
    obtain t k bs' where t: "block_trim_used s (block_from_ptr (ptr p)) (ptr ?N) = Some t" "heapg M c t a bs'"
      "span bs' = span bs" "useds a bs' = insert (p, k) (useds a bs - {(p, n)})" "unat r \<le> k"
      "kept s t ({p..<p + ?N} \<union> (\<Union>(x, m)\<in>useds a bs - {(p, n)}. {x..<x + m}))"
      using realloc_stay [OF H p r stay] by blast
    have "kept s t ({p..<p + min n (unat r)} \<union> (\<Union>(x, m)\<in>useds a bs - {(p, n)}. {x..<x + m}))"
      using t(6) by (rule kept_mono) (use request_props [OF r(2)] in auto)
    then have "resized M c s a bs p n r (ptr p) t" by (rule resized_in_place [OF H p t(2-5)])
    moreover have "tlsf_realloc s (ptr p) r = Some (ptr p, t)" using rz t(1) stay e(1) by simp
    ultimately show ?thesis using P by auto
  next
    case grow
    then show ?thesis using realloc_grow [OF H p r, of xs szn zs] xy P by auto
  next
    case move
    obtain q t where m: "tlsf_malloc s r = Some (q, t)"
      "q = 0 \<Longrightarrow> t = s \<and> (\<forall>(b, sz)\<in>frees a bs. sz < ?N + ?N div 32)" using malloc_used [OF H r(1)] r(2) by force
    show ?thesis
    proof (cases "q = 0")
      case True
      then show ?thesis using rz move m by (intro exI [of _ q] exI [of _ t]) simp
    next
      case False
      then obtain u where "tlsf_free (t\<lparr>mem := memcpy (mem t) q (ptr p) (if ptr n < r then ptr n else r)\<rparr>) (ptr p) = Some u"
        "resized M c s a bs p n r q u" using realloc_move [OF H p r m(1) _ e(7)] by blast
      then show ?thesis using rz move m(1) False by (intro exI [of _ q] exI [of _ u]) simp
    qed
  qed
qed

section \<open>Properties\<close>

text \<open>A well-formed heap with its control structure at \<open>c\<close> and a pool of the blocks \<open>bs\<close> from \<open>a\<close> on.\<close>

definition heap :: "nat \<Rightarrow> tlsf \<Rightarrow> nat \<Rightarrow> layout \<Rightarrow> bool" where
  "heap c s a bs \<longleftrightarrow> heapg (rd s) c s a bs"

lemma heapg_heap: "heapg M c s a bs \<Longrightarrow> heap c s a bs"
  by (auto simp: heap_def heapg_def heap_ok_def)

lemma outer_kept:
  assumes "heapg (rd s) c t a bs'" "span bs' = span bs"
  shows "kept s t (outer c a (span bs))"
  unfolding kept_def
proof
  fix x assume x: "x \<in> outer c a (span bs)"
  obtain C where C: "heap_ok (rd s) t c a bs' C {}" using assms(1) by (auto simp: heapg_def)
  note h = heap_okD [OF C]
  let ?w = "x div 8 * 8"
  have k: "ok ?w" using x by (auto simp: ok_def outer_def)
  have "8 dvd span bs" using sized_span [OF h(8)] assms(2) by simp
  then have "?w \<in> outer c a (span bs)" by (rule outer_aligned [OF h(9,5) _ _ x]) simp
  then have "rd t ?w = rd s ?w" using h(12) assms(2) by simp
  then have "mem t (ptr (?w + x mod 8)) = mem s (ptr (?w + x mod 8))" using rd_byte [OF k, of "x mod 8"] by simp
  then show "mem t (ptr x) = mem s (ptr x)" by simp
qed

lemma kept_Un: "kept s t (A \<union> B) \<longleftrightarrow> kept s t A \<and> kept s t B"
  by (auto simp: kept_def)

lemma heap_malloc:
  assumes "heap c s a bs" and "unat r \<le> 2 ^ 64 - 8"
  shows "\<exists>q t. tlsf_malloc s r = Some (q, t) \<and>
    (if q = 0 then t = s \<and>
       (request (unat r) = 0 \<or> (\<forall>(b, sz)\<in>frees a bs. sz < request (unat r) + request (unat r) div 32))
     else \<exists>k bs'. heap c t a bs' \<and> span bs' = span bs \<and> useds a bs' = insert (unat q, k) (useds a bs) \<and>
       unat r \<le> k \<and> 8 dvd unat q \<and> {unat q..<unat q + k} \<inter> payload a bs = {} \<and>
       kept s t (payload a bs \<union> outer c a (span bs)))"
  using malloc_used [OF assms [unfolded heap_def]] heapg_heap outer_kept [of s c _ a _ bs] unfolding kept_Un by (smt (verit))

lemma heap_free:
  assumes "heap c s a bs" and "(p, n) \<in> useds a bs"
  shows "\<exists>t bs'. tlsf_free s (ptr p) = Some t \<and> heap c t a bs' \<and> span bs' = span bs \<and>
    useds a bs' = useds a bs - {(p, n)} \<and> kept s t (payload a bs' \<union> outer c a (span bs))"
  using free_used [OF assms(1) [unfolded heap_def] assms(2)] heapg_heap outer_kept [of s c _ a _ bs] unfolding kept_Un by meson

lemma heap_realloc:
  assumes "heap c s a bs" and "(p, n) \<in> useds a bs" and "unat r \<le> 2 ^ 64 - 8" and "request (unat r) \<noteq> 0"
  shows "\<exists>q t. tlsf_realloc s (ptr p) r = Some (q, t) \<and>
    (if q = 0 then t = s \<and> n < request (unat r) \<and>
       (\<forall>(b, sz)\<in>frees a bs. sz < request (unat r) + request (unat r) div 32)
     else \<exists>k bs'. heap c t a bs' \<and> span bs' = span bs \<and> useds a bs' = insert (unat q, k) (useds a bs - {(p, n)}) \<and>
       unat r \<le> k \<and> (\<forall>x<min n (unat r). mem t (ptr (unat q + x)) = mem s (ptr (p + x))) \<and>
       kept s t ((\<Union>(x, m)\<in>useds a bs - {(p, n)}. {x..<x + m}) \<union> outer c a (span bs)))"
proof -
  obtain q t where t: "tlsf_realloc s (ptr p) r = Some (q, t)" "if q = 0 then t = s \<and> n < request (unat r) \<and>
       (\<forall>(b, sz)\<in>frees a bs. sz < request (unat r) + request (unat r) div 32)
     else resized (rd s) c s a bs p n r q t"
    using realloc_used [OF assms(1) [unfolded heap_def] assms(2-4)] by blast
  show ?thesis
  proof (cases "q = 0")
    case True
    then show ?thesis using t by auto
  next
    case False
    then obtain k bs' where k: "heapg (rd s) c t a bs'" "span bs' = span bs" "useds a bs' = insert (unat q, k) (useds a bs - {(p, n)})"
        "unat r \<le> k" "\<forall>x<min n (unat r). mem t (ptr (unat q + x)) = mem s (ptr (p + x))"
        "kept s t (\<Union>(x, m)\<in>useds a bs - {(p, n)}. {x..<x + m})" using t(2) unfolding resized_def by auto
    have "kept s t ((\<Union>(x, m)\<in>useds a bs - {(p, n)}. {x..<x + m}) \<union> outer c a (span bs))"
      using k(6) outer_kept [OF k(1,2)] by (simp add: kept_Un)
    then show ?thesis using t(1) False k heapg_heap [OF k(1)] by (intro exI [of _ q] exI [of _ t]) (simp, blast)
  qed
qed

definition demo_arena :: tlsf where
  "demo_arena = \<lparr>mem = (\<lambda>_. 0), control = ptr 4096, fl_bitmap = 0, sl_bitmap = (\<lambda>_. 0), blocks = (\<lambda>_ _. 0)\<rparr>"

definition demo_heap :: tlsf where
  "demo_heap = snd (the (tlsf_create_with_pool demo_arena (ptr 65536)))"

definition demo_used :: tlsf where
  "demo_used = snd (the (tlsf_malloc demo_heap 100))"

lemma demo_heap: "heap 4096 demo_heap 10624 [(58984, True)]"
proof -
  have "control demo_arena = ptr 4096" by (simp add: demo_arena_def)
  then show ?thesis using create_with_pool_ok [of demo_arena 4096 65536] heapg_heap by (fastforce simp: demo_heap_def)
qed

lemma demo_used: "\<exists>bs p n. heap 4096 demo_used 10624 bs \<and> (p, n) \<in> useds 10624 bs"
proof -
  obtain q t where t: "tlsf_malloc demo_heap 100 = Some (q, t)" "q \<noteq> 0 \<longrightarrow> (\<exists>k bs'. heap 4096 t 10624 bs' \<and>
      useds 10624 bs' = insert (unat q, k) (useds 10624 [(58984, True)]))"
    "q = 0 \<longrightarrow> request 100 = 0 \<or> (\<forall>(b, sz)\<in>frees 10624 [(58984, True)]. sz < request 100 + request 100 div 32)"
    using heap_malloc [OF demo_heap, of 100] by (auto split: if_splits)
  have "q \<noteq> 0" using t(3) by (auto simp: request_def)
  then show ?thesis using t(1,2) by (auto simp: demo_used_def)
qed

text \<open>C26: \<^verbatim>\<open>tlsf_create_with_pool\<close> on an 8-aligned region of at least 6576 bytes and below 4 GiB plus the
  overhead, whatever the memory holds, returns the handle and establishes the invariant: one free block
  that fills the pool behind the control structure, on which the integrity checks of the code pass.\<close>
theorem tlsf_create_with_pool_correct:
  assumes "control s = ptr c" "8 dvd c" "0 < c" "6576 \<le> n" "n < 2 ^ 32 + 6552" "c + n \<le> 2 ^ 64"
  shows "\<exists>t. tlsf_create_with_pool s (ptr n) = Some (ptr c, t) \<and> heap c t (c + 6528) [((n - 6552) div 8 * 8, True)] \<and>
    tlsf_check t = Some 0 \<and> tlsf_check_pool t (ptr (c + 6536)) = Some 0"
proof -
  obtain t where t: "tlsf_create_with_pool s (ptr n) = Some (ptr c, t)" "heap c t (c + 6528) [((n - 6552) div 8 * 8, True)]"
    using create_with_pool_ok [OF assms] heapg_heap by blast
  then show ?thesis using check_ok [OF t(2) [unfolded heap_def]] by (simp add: add.commute)
qed

theorem tlsf_create_with_pool_correct_witness:
  "\<exists>t. tlsf_create_with_pool demo_arena (ptr 65536) = Some (ptr 4096, t) \<and> heap 4096 t 10624 [(58984, True)] \<and>
    tlsf_check t = Some 0 \<and> tlsf_check_pool t (ptr 10632) = Some 0"
  using tlsf_create_with_pool_correct [of demo_arena 4096 65536] by (simp add: demo_arena_def)

text \<open>C23: From every well-formed heap \<^verbatim>\<open>tlsf_malloc\<close> (for a size that does not wrap when aligned) fails no
  assertion. It returns NULL and leaves the state alone only if the size is 0 or of 4 GiB, or no free
  block exceeds the rounded request by a 32nd; otherwise the result is 8-aligned, has room for the
  request, is disjoint from every allocation, and the heap stays well formed with exactly this
  allocation added; the contents of all others, and all memory outside of the heap, are unchanged.\<close>
theorem tlsf_malloc_correct:
  assumes "heap c s a bs" and "unat r \<le> 2 ^ 64 - 8"
  shows "\<exists>q t. tlsf_malloc s r = Some (q, t) \<and>
    (if q = 0 then t = s \<and>
       (request (unat r) = 0 \<or> (\<forall>(b, sz)\<in>frees a bs. sz < request (unat r) + request (unat r) div 32))
     else \<exists>k bs'. heap c t a bs' \<and> span bs' = span bs \<and> useds a bs' = insert (unat q, k) (useds a bs) \<and>
       unat r \<le> k \<and> 8 dvd unat q \<and> {unat q..<unat q + k} \<inter> payload a bs = {} \<and> kept s t (payload a bs \<union> outer c a (span bs)))"
  by (rule heap_malloc [OF assms])

theorem tlsf_malloc_correct_witness:
  "\<exists>q t k bs. tlsf_malloc demo_heap 100 = Some (q, t) \<and> q \<noteq> 0 \<and> heap 4096 t 10624 bs \<and> useds 10624 bs = {(unat q, k)} \<and> 100 \<le> k"
  using tlsf_malloc_correct [OF demo_heap, of 100] by (auto simp: request_def split: if_splits)

text \<open>C24: Freeing an allocation of a well-formed heap fails no assertion, removes exactly this allocation,
  merges the block with its free neighbours (the heap is coalesced again) and leaves the contents of all
  other allocations and all memory outside of the heap unchanged.\<close>
theorem tlsf_free_correct:
  assumes "heap c s a bs" and "(p, n) \<in> useds a bs"
  shows "\<exists>t bs'. tlsf_free s (ptr p) = Some t \<and> heap c t a bs' \<and> span bs' = span bs \<and>
    useds a bs' = useds a bs - {(p, n)} \<and> kept s t (payload a bs' \<union> outer c a (span bs))"
  by (rule heap_free [OF assms])

theorem tlsf_free_correct_witness:
  "\<exists>bs p n t bs'. heap 4096 demo_used 10624 bs \<and> (p, n) \<in> useds 10624 bs \<and> tlsf_free demo_used (ptr p) = Some t \<and>
    heap 4096 t 10624 bs' \<and> useds 10624 bs' = useds 10624 bs - {(p, n)}"
proof -
  obtain bs p n where u: "heap 4096 demo_used 10624 bs" "(p, n) \<in> useds 10624 bs" using demo_used by blast
  then show ?thesis using tlsf_free_correct [OF u] by blast
qed

text \<open>C25: \<^verbatim>\<open>tlsf_realloc\<close> of an allocation, for a size that a block can have, fails no assertion. It
  returns NULL, with the heap untouched, only if the block is too small and no free block exceeds the
  rounded request by a 32nd; otherwise the allocation is replaced by one with room for the request that
  starts with the old contents up to the smaller of the two sizes, whether it was trimmed, grown into the
  free block behind it or moved, and all other allocations, and all memory outside of the heap, keep
  their contents.\<close>
theorem tlsf_realloc_correct:
  assumes "heap c s a bs" and "(p, n) \<in> useds a bs" and "unat r \<le> 2 ^ 64 - 8" and "request (unat r) \<noteq> 0"
  shows "\<exists>q t. tlsf_realloc s (ptr p) r = Some (q, t) \<and>
    (if q = 0 then t = s \<and> n < request (unat r) \<and>
       (\<forall>(b, sz)\<in>frees a bs. sz < request (unat r) + request (unat r) div 32)
     else \<exists>k bs'. heap c t a bs' \<and> span bs' = span bs \<and> useds a bs' = insert (unat q, k) (useds a bs - {(p, n)}) \<and>
       unat r \<le> k \<and> (\<forall>x<min n (unat r). mem t (ptr (unat q + x)) = mem s (ptr (p + x))) \<and>
       kept s t ((\<Union>(x, m)\<in>useds a bs - {(p, n)}. {x..<x + m}) \<union> outer c a (span bs)))"
  by (rule heap_realloc [OF assms])

theorem tlsf_realloc_correct_witness:
  "\<exists>bs p n q t. heap 4096 demo_used 10624 bs \<and> (p, n) \<in> useds 10624 bs \<and> tlsf_realloc demo_used (ptr p) 200 = Some (q, t) \<and>
    (q \<noteq> 0 \<longrightarrow> (\<exists>k bs'. heap 4096 t 10624 bs' \<and> (unat q, k) \<in> useds 10624 bs' \<and> 200 \<le> k))"
proof -
  obtain bs p n where u: "heap 4096 demo_used 10624 bs" "(p, n) \<in> useds 10624 bs" using demo_used by blast
  have "unat (200 :: u64) \<le> 2 ^ 64 - 8" "request (unat (200 :: u64)) \<noteq> 0" by (simp_all add: request_def)
  from tlsf_realloc_correct [OF u this] obtain q t where t: "tlsf_realloc demo_used (ptr p) 200 = Some (q, t)"
    "q \<noteq> 0 \<longrightarrow> (\<exists>k bs'. heap 4096 t 10624 bs' \<and> useds 10624 bs' = insert (unat q, k) (useds 10624 bs - {(p, n)}) \<and> 200 \<le> k)"
    by (auto split: if_splits)
  then show ?thesis using u by (metis insertI1)
qed

text \<open>C27: The integrity checks \<^verbatim>\<open>tlsf_check\<close> and \<^verbatim>\<open>tlsf_check_pool\<close> end and accept every well-formed
  heap: the bitmaps agree with the lists, every listed block is free, coalesced and in the list of its
  size class, and the flags of neighbouring blocks agree along the pool.\<close>
theorem tlsf_check_accepts:
  assumes "heap c s a bs"
  shows "tlsf_check s = Some 0 \<and> tlsf_check_pool s (ptr (a + 8)) = Some 0"
  using check_ok [OF assms [unfolded heap_def]] by blast

theorem tlsf_check_accepts_witness: "tlsf_check demo_heap = Some 0 \<and> tlsf_check_pool demo_heap (ptr 10632) = Some 0"
  using tlsf_check_accepts [OF demo_heap] by simp

text \<open>C28: The size that \<^verbatim>\<open>tlsf_malloc\<close> searches for: the request rounded up to a multiple of 8 and to at least
  24 bytes, and 0 (failure) for a request of 0 or of 4 GiB and more; but for the largest seven sizes the
  rounding wraps around and the result is the smallest block of 24 bytes.\<close>
theorem adjust_request_size_value:
  "adjust_request_size r ALIGN_SIZE = Some (if unat r \<le> 2 ^ 64 - 8 then ptr (request (unat r)) else 24)"
proof (cases "unat r \<le> 2 ^ 64 - 8")
  case True
  then show ?thesis using adjust_request_ok by simp
next
  case False
  define d where "d = 2 ^ 64 - unat r"
  have "0 < d" "d \<le> 7" using False unat_lt64 [of r] by (auto simp: d_def simp del: unat_lt64)
  moreover have "r = of_nat (2 ^ 64 - d)" using unat_lt64 [of r] by (intro of_nat_of_unat) (auto simp: d_def simp del: unat_lt64)
  ultimately have "r = - of_nat d" "d = 1 \<or> d = 2 \<or> d = 3 \<or> d = 4 \<or> d = 5 \<or> d = 6 \<or> d = 7" by (auto simp: of_nat_diff)
  then have "adjust_request_size r ALIGN_SIZE = Some 24"
    by (elim disjE) (simp_all add: adjust_request_size_def align_up_def tlsf_consts tlsf_assert_def)
  then show ?thesis using False by simp
qed

end
