(* ===== verification/Heap_Interface.thy ===== *)
theory Heap_Interface
  imports Tlsf_Correct
begin

text \<open>
  The kernel heap as its clients see it: the functions of \<^verbatim>\<open>kernel/main/mm/heapalloc/malloc.c\<close> bundled
  with access to the byte memory, the laws that the clients rely on, and the proof that TLSF keeps them.
\<close>

record 'h heap_ops =
  h_malloc :: "'h \<Rightarrow> u64 \<Rightarrow> (u64 \<times> 'h) option"
  h_realloc :: "'h \<Rightarrow> u64 \<Rightarrow> u64 \<Rightarrow> (u64 \<times> 'h) option"
  h_free :: "'h \<Rightarrow> u64 \<Rightarrow> 'h option"
  h_mem :: "'h \<Rightarrow> memory"
  h_store :: "memory \<Rightarrow> 'h \<Rightarrow> 'h"

definition kernel_heap :: "tlsf heap_ops" where
  "kernel_heap = \<lparr>h_malloc = malloc, h_realloc = realloc, h_free = free, h_mem = mem, h_store = (\<lambda>m s. s\<lparr>mem := m\<rparr>)\<rparr>"

definition bytes :: "(nat \<times> nat) set \<Rightarrow> nat set" where
  "bytes U = (\<Union>(p, n)\<in>U. {p..<p + n})"

lemma in_bytes:
  assumes "(p, n) \<in> U" "p \<le> x" "x < p + n"
  shows "x \<in> bytes U"
proof -
  have "x \<in> {p..<p + n}" using assms(2,3) by simp
  then show ?thesis using assms(1) unfolding bytes_def by blast
qed

lemma bytes_mono: "U \<subseteq> V \<Longrightarrow> bytes U \<subseteq> bytes V"
  by (auto simp: bytes_def)

lemma bytes_insert: "bytes (insert (p, n) U) = {p..<p + n} \<union> bytes U"
  by (auto simp: bytes_def)

text \<open>
  \<open>live s U\<close>: the heap is well formed and its allocations are \<open>U\<close>, pairs of address and size. \<open>outside\<close> is the
  memory that is not managed by the heap.
\<close>

locale byte_memory =
  fixes H :: "'h heap_ops"
  assumes mem_store: "h_mem H (h_store H m s) = m"
    and store_store: "h_store H m (h_store H m' s) = h_store H m s"

locale heap_laws = byte_memory H for H :: "'h heap_ops" +
  fixes live :: "'h \<Rightarrow> (nat \<times> nat) set \<Rightarrow> bool" and outside :: "nat set"
  assumes malloc_law: "live s U \<Longrightarrow> unat r \<le> 2 ^ 64 - 8 \<Longrightarrow>
      \<exists>q t. h_malloc H s r = Some (q, t) \<and>
        (if q = 0 then t = s
         else \<exists>k. unat r \<le> k \<and> live t (insert (unat q, k) U) \<and> {unat q..<unat q + k} \<inter> bytes U = {} \<and>
           (\<forall>x\<in>bytes U \<union> outside. h_mem H t (ptr x) = h_mem H s (ptr x)))"
    and realloc_null: "h_realloc H s 0 r = h_malloc H s r"
    and realloc_law: "live s U \<Longrightarrow> (p, n) \<in> U \<Longrightarrow> 0 < unat r \<Longrightarrow> unat r < 2 ^ 32 - 7 \<Longrightarrow>
      \<exists>q t. h_realloc H s (ptr p) r = Some (q, t) \<and>
        (if q = 0 then t = s
         else \<exists>k. unat r \<le> k \<and> live t (insert (unat q, k) (U - {(p, n)})) \<and>
           (\<forall>x<min n (unat r). h_mem H t (ptr (unat q + x)) = h_mem H s (ptr (p + x))) \<and>
           (\<forall>x\<in>bytes (U - {(p, n)}) \<union> outside. h_mem H t (ptr x) = h_mem H s (ptr x)))"
    and store_law: "live s U \<Longrightarrow> \<forall>x<2 ^ 64. x \<notin> bytes U \<union> outside \<longrightarrow> m (ptr x) = h_mem H s (ptr x) \<Longrightarrow>
      live (h_store H m s) U"
    and live_range: "live s U \<Longrightarrow> (p, n) \<in> U \<Longrightarrow> 0 < p \<and> 0 < n \<and> p + n \<le> 2 ^ 64"
    and live_disjoint: "live s U \<Longrightarrow> (p, n) \<in> U \<Longrightarrow> (q, k) \<in> U \<Longrightarrow> (p, n) = (q, k) \<or> {p..<p + n} \<inter> {q..<q + k} = {}"
    and live_outside: "live s U \<Longrightarrow> bytes U \<inter> outside = {}"
    and outside_range: "x \<in> outside \<Longrightarrow> x < 2 ^ 64"

text \<open>The invariant of TLSF for a fixed place and size of the pool.\<close>

definition live :: "nat \<Rightarrow> nat \<Rightarrow> nat \<Rightarrow> tlsf \<Rightarrow> (nat \<times> nat) set \<Rightarrow> bool" where
  "live c a n s U \<longleftrightarrow> (\<exists>bs. heap c s a bs \<and> span bs = n \<and> useds a bs = U)"

lemma payload_bytes: "payload a bs = bytes (useds a bs)"
  by (simp add: payload_def bytes_def)

lemma live_store:
  assumes "live c a n s U" "\<forall>x<2 ^ 64. x \<notin> bytes U \<union> outer c a n \<longrightarrow> m (ptr x) = mem s (ptr x)"
  shows "live c a n (s\<lparr>mem := m\<rparr>) U"
proof -
  obtain bs where bs: "heap c s a bs" "span bs = n" "useds a bs = U" using assms(1) by (auto simp: live_def)
  have "heapg (rd (s\<lparr>mem := m\<rparr>)) c (s\<lparr>mem := m\<rparr>) a bs"
    by (rule heap_write_any [OF bs(1) [unfolded heap_def]])
      (use assms(2) bs payload_bytes [of a bs] in \<open>auto simp: same_ctl_def\<close>)
  then show ?thesis using bs heapg_heap unfolding live_def by blast
qed

lemma request_nonzero: "0 < n \<Longrightarrow> n < 2 ^ 32 - 7 \<Longrightarrow> request n \<noteq> 0"
  by (auto simp: request_def)

lemma live_malloc:
  assumes "live c a n s U" "unat r \<le> 2 ^ 64 - 8"
  shows "\<exists>q t. malloc s r = Some (q, t) \<and>
    (if q = 0 then t = s
     else \<exists>k. unat r \<le> k \<and> live c a n t (insert (unat q, k) U) \<and> {unat q..<unat q + k} \<inter> bytes U = {} \<and>
       (\<forall>x\<in>bytes U \<union> outer c a n. mem t (ptr x) = mem s (ptr x)))"
proof -
  obtain bs where bs: "heap c s a bs" "span bs = n" "useds a bs = U" using assms(1) by (auto simp: live_def)
  have "bytes U = payload a bs" using bs(3) payload_bytes by simp
  moreover have "tlsf_malloc s r = malloc s r" by (simp add: malloc_def)
  ultimately show ?thesis using heap_malloc [OF bs(1) assms(2)] bs unfolding live_def kept_def by (smt (verit))
qed

lemma live_realloc:
  assumes "live c a n s U" "(p, l) \<in> U" "0 < unat r" "unat r < 2 ^ 32 - 7"
  shows "\<exists>q t. realloc s (ptr p) r = Some (q, t) \<and>
    (if q = 0 then t = s
     else \<exists>k. unat r \<le> k \<and> live c a n t (insert (unat q, k) (U - {(p, l)})) \<and>
       (\<forall>x<min l (unat r). mem t (ptr (unat q + x)) = mem s (ptr (p + x))) \<and>
       (\<forall>x\<in>bytes (U - {(p, l)}) \<union> outer c a n. mem t (ptr x) = mem s (ptr x)))"
proof -
  obtain bs where bs: "heap c s a bs" "span bs = n" "useds a bs = U" using assms(1) by (auto simp: live_def)
  have r: "unat r \<le> 2 ^ 64 - 8" using assms(4) by simp
  have p: "(p, l) \<in> useds a bs" using assms(2) bs(3) by simp
  have e: "tlsf_realloc s (ptr p) r = realloc s (ptr p) r" by (simp add: realloc_def)
  from heap_realloc [OF bs(1) p r request_nonzero [OF assms(3,4)], unfolded e]
  show ?thesis unfolding live_def kept_def bytes_def bs(2,3) by (smt (verit))
qed

lemma live_geometry:
  assumes "live c a n s U" "(p, k) \<in> U"
  shows "0 < p \<and> 0 < k \<and> p + k \<le> 2 ^ 64" "(q, l) \<in> U \<Longrightarrow> (p, k) = (q, l) \<or> {p..<p + k} \<inter> {q..<q + l} = {}"
    "a + 16 \<le> p \<and> p + k \<le> a + n + 8"
proof -
  obtain bs where bs: "heapg (rd s) c s a bs" "span bs = n" "useds a bs = U" using assms(1) by (auto simp: live_def heap_def)
  have p: "(p, k) \<in> useds a bs" using assms(2) bs(3) by simp
  show "0 < p \<and> 0 < k \<and> p + k \<le> 2 ^ 64" using used_ptr [OF bs(1) p] by simp
  show "a + 16 \<le> p \<and> p + k \<le> a + n + 8" using useds_range [OF p] bs(2) by simp
  show "(p, k) = (q, l) \<or> {p..<p + k} \<inter> {q..<q + l} = {}" if "(q, l) \<in> U"
    using useds_disjoint [OF p] heap_facts(1) [OF bs(1)] that bs(3) by blast
qed

lemma live_outer: "live c a n s U \<Longrightarrow> bytes U \<inter> outer c a n = {}"
  using live_geometry(3) by (fastforce simp: bytes_def outer_def)

interpretation tlsf_heap: heap_laws kernel_heap "live c a n" "outer c a n" for c a n
proof unfold_locales
  fix s U r
  assume "live c a n s U" "unat (r :: u64) \<le> 2 ^ 64 - 8"
  then show "\<exists>q t. h_malloc kernel_heap s r = Some (q, t) \<and>
        (if q = 0 then t = s
         else \<exists>k. unat r \<le> k \<and> live c a n t (insert (unat q, k) U) \<and> {unat q..<unat q + k} \<inter> bytes U = {} \<and>
           (\<forall>x\<in>bytes U \<union> outer c a n. h_mem kernel_heap t (ptr x) = h_mem kernel_heap s (ptr x)))"
    unfolding kernel_heap_def heap_ops.simps by (rule live_malloc)
next
  fix s U p l r
  assume "live c a n s U" "(p, l) \<in> U" "0 < unat (r :: u64)" "unat r < 2 ^ 32 - 7"
  then show "\<exists>q t. h_realloc kernel_heap s (ptr p) r = Some (q, t) \<and>
        (if q = 0 then t = s
         else \<exists>k. unat r \<le> k \<and> live c a n t (insert (unat q, k) (U - {(p, l)})) \<and>
           (\<forall>x<min l (unat r). h_mem kernel_heap t (ptr (unat q + x)) = h_mem kernel_heap s (ptr (p + x))) \<and>
           (\<forall>x\<in>bytes (U - {(p, l)}) \<union> outer c a n. h_mem kernel_heap t (ptr x) = h_mem kernel_heap s (ptr x)))"
    unfolding kernel_heap_def heap_ops.simps by (rule live_realloc)
next
  fix s U m
  assume "live c a n s U" "\<forall>x<2 ^ 64. x \<notin> bytes U \<union> outer c a n \<longrightarrow> m (ptr x) = h_mem kernel_heap s (ptr x)"
  then show "live c a n (h_store kernel_heap m s) U" unfolding kernel_heap_def heap_ops.simps by (rule live_store)
qed (use live_geometry live_outer in \<open>auto simp: kernel_heap_def realloc_def tlsf_realloc_def malloc_def outer_def\<close>)

end
