(* ===== verification/Strings.thy ===== *)
theory Strings
  imports CString_Correct
begin

text \<open>
  C strings as values: the bytes before the terminating NUL. The components that only read paths and names
  pass them by value; the lemmas relate comparison and copy of values to the functions of
  \<^verbatim>\<open>string.c\<close> on memory.
\<close>

type_synonym cstring = "u8 list"

definition str :: "string \<Rightarrow> cstring" where
  "str s = map of_char s"

definition char_at :: "cstring \<Rightarrow> nat \<Rightarrow> u8" where
  "char_at s i = (if i < length s then s ! i else 0)"

definition same_prefix :: "cstring \<Rightarrow> cstring \<Rightarrow> nat \<Rightarrow> bool" where
  "same_prefix a b n \<longleftrightarrow> take n (a @ [0]) = take n (b @ [0])"

lemma same_prefix_length: "\<forall>x\<in>set b. x \<noteq> 0 \<Longrightarrow> same_prefix a b (length b) \<longleftrightarrow> take (length b) a = b"
proof -
  assume b: "\<forall>x\<in>set b. x \<noteq> 0"
  show ?thesis
  proof (cases "length b \<le> length a")
    case True
    then show ?thesis by (simp add: same_prefix_def)
  next
    case False
    then have "take (length b) (a @ [0]) \<noteq> b"
    proof -
      have "b ! length a \<noteq> 0" using b False by simp
      moreover have "take (length b) (a @ [0]) ! length a = 0" using False by (simp add: nth_append)
      ultimately show ?thesis by metis
    qed
    moreover have "take (length b) a \<noteq> b" using False by (metis length_take min_def nat_le_linear)
    ultimately show ?thesis by (simp add: same_prefix_def)
  qed
qed

lemma strncmp_value:
  assumes "cstr m p xs" "cstr m q ys"
  shows "strncmp_loop m p q n = 0 \<longleftrightarrow> same_prefix xs ys n"
  using assms
proof (induction n arbitrary: p q xs ys)
  case (Suc n)
  show ?case
  proof (cases "m p = m q \<and> m p \<noteq> 0")
    case True
    then obtain x xs' y ys' where xy: "xs = x # xs'" "ys = y # ys'"
      using Suc.prems cstr_end [of m p xs] cstr_end [of m q ys] by (cases xs; cases ys) auto
    then have "x = m p" "y = m q" using cstr_nth [OF Suc.prems(1), of 0] cstr_nth [OF Suc.prems(2), of 0] by auto
    moreover have "cstr m (p + 1) xs'" "cstr m (q + 1) ys'"
      using cstr_drop [OF Suc.prems(1), of 1] cstr_drop [OF Suc.prems(2), of 1] xy by auto
    ultimately show ?thesis using True Suc.IH [of "p + 1" xs' "q + 1" ys'] xy by (auto simp: same_prefix_def)
  next
    case False
    then show ?thesis using Suc.prems cstr_end [of m p xs] cstr_end [of m q ys] cstr_nth [of m p xs 0] cstr_nth [of m q ys 0]
        cstr_nonzero [of m p xs] cstr_nonzero [of m q ys]
      by (cases xs; cases ys) (auto simp: same_prefix_def word_uint_eq_iff)
  qed
qed (simp add: same_prefix_def)

end
