(* ===== verification/Vfs.thy ===== *)
theory Vfs
  imports Strings "HOL-Library.Monad_Syntax"
begin

text \<open>
  The virtual file system, \<^verbatim>\<open>kernel/main/fsm/vfs.c\<close>.

  A file system is a table of operations on the rest of the kernel state, of type \<open>'s\<close>; a null entry of the
  table is \<open>None\<close>. An operation that does not return is the value \<open>None\<close> of the call. Contexts, devices and
  callbacks are addresses; a \<^verbatim>\<open>vfs_mount_t *\<close> is an index into \<^verbatim>\<open>mounts\<close>, or \<open>None\<close> for NULL. Results
  of type \<^verbatim>\<open>int\<close> are integers. Log output is left out.
\<close>

definition VFS_TYPE_FILE :: u32 where "VFS_TYPE_FILE = 1"

definition VFS_TYPE_DIR :: u32 where "VFS_TYPE_DIR = 2"

abbreviation (input) FS_TYPE_RAMFS :: u8 where "FS_TYPE_RAMFS \<equiv> 0x08"

definition VFS_MAX_FILESYSTEMS :: nat where "VFS_MAX_FILESYSTEMS = 200"

definition VFS_MAX_MOUNTS :: nat where "VFS_MAX_MOUNTS = 200"

record vfs_dirent_t =
  d_inode :: u64
  d_type :: u32
  d_size :: u64
  d_name :: cstring

record vfs_stat_t =
  st_inode :: u64
  st_size :: u64
  st_type :: u32
  st_permissions :: u32
  st_uid :: u32
  st_gid :: u32
  st_atime :: u64
  st_mtime :: u64
  st_ctime :: u64

record 's vfs_ops =
  op_mount :: "(u64 \<Rightarrow> u64 \<Rightarrow> 's \<Rightarrow> (u64 \<times> 's) option) option"
  op_unmount :: "(u64 \<Rightarrow> 's \<Rightarrow> (int \<times> 's) option) option"
  op_read :: "(u64 \<Rightarrow> u64 \<Rightarrow> u64 \<Rightarrow> u64 \<Rightarrow> u64 \<Rightarrow> 's \<Rightarrow> (int \<times> 's) option) option"
  op_write :: "(u64 \<Rightarrow> u64 \<Rightarrow> u64 \<Rightarrow> u64 \<Rightarrow> u64 \<Rightarrow> 's \<Rightarrow> (int \<times> 's) option) option"
  op_listdir :: "(u64 \<Rightarrow> u64 \<Rightarrow> int \<Rightarrow> 's \<Rightarrow> (int \<times> vfs_dirent_t list \<times> 's) option) option"
  op_path_to_inode :: "(u64 \<Rightarrow> cstring \<Rightarrow> 's \<Rightarrow> (u64 \<times> 's) option) option"
  op_create :: "(u64 \<Rightarrow> cstring \<Rightarrow> 's \<Rightarrow> (u64 \<times> 's) option) option"
  op_mkdir :: "(u64 \<Rightarrow> cstring \<Rightarrow> 's \<Rightarrow> (u64 \<times> 's) option) option"
  op_remove :: "(u64 \<Rightarrow> cstring \<Rightarrow> 's \<Rightarrow> (int \<times> 's) option) option"
  op_rename :: "(u64 \<Rightarrow> cstring \<Rightarrow> cstring \<Rightarrow> 's \<Rightarrow> (int \<times> 's) option) option"
  op_stat :: "(u64 \<Rightarrow> u64 \<Rightarrow> vfs_stat_t \<Rightarrow> 's \<Rightarrow> (int \<times> vfs_stat_t \<times> 's) option) option"
  op_chmod :: "(u64 \<Rightarrow> u64 \<Rightarrow> u32 \<Rightarrow> 's \<Rightarrow> (int \<times> 's) option) option"
  op_truncate :: "(u64 \<Rightarrow> u64 \<Rightarrow> u64 \<Rightarrow> 's \<Rightarrow> (int \<times> 's) option) option"

record 's vfs_filesystem =
  fs_type :: u8
  fs_name :: cstring
  ops :: "'s vfs_ops"

record 's vfs_mount_t =
  m_fs :: "'s vfs_filesystem option"
  fs_ctx :: u64
  device_ptr :: u64
  read_cb :: u64
  write_cb :: u64
  sector_count :: u64

record 's vfs =
  registered_fs :: "nat \<Rightarrow> 's vfs_filesystem option"
  registered_count :: nat
  mounts :: "nat \<Rightarrow> 's vfs_mount_t"
  mount_count :: nat
  mount_paths :: "nat \<Rightarrow> cstring"
  sys :: 's

section \<open>Mount points\<close>

text \<open>The loop of \<^verbatim>\<open>vfs_get_mount_for_path\<close> from index \<open>i\<close> on: the best mount, if any, and the length of its path.\<close>

definition mount_matches :: "cstring \<Rightarrow> cstring \<Rightarrow> bool" where
  "mount_matches path mp \<longleftrightarrow> mp \<noteq> [] \<and> same_prefix path mp (length mp) \<and>
     (char_at path (length mp) = of_char (CHR ''/'') \<or> char_at path (length mp) = 0)"

primrec best_mount :: "(nat \<Rightarrow> cstring) \<Rightarrow> cstring \<Rightarrow> nat \<Rightarrow> nat option \<times> nat" where
  "best_mount paths path 0 = (None, 0)"
| "best_mount paths path (Suc i) =
     (let (best, best_len) = best_mount paths path i; mp = paths i; mplen = length mp
      in if mount_matches path mp \<and> mplen > best_len then (Some i, mplen) else (best, best_len))"

definition vfs_get_mount_for_path :: "'s vfs \<Rightarrow> cstring \<Rightarrow> nat option \<times> cstring" where
  "vfs_get_mount_for_path v path =
     (case best_mount (mount_paths v) path (mount_count v) of
        (None, _) \<Rightarrow> (if mount_count v > 0 then Some 0 else None, path)
      | (Some best, best_len) \<Rightarrow>
          (Some best, (let rel_path = drop best_len path in if rel_path = [] then str ''/'' else rel_path)))"

definition vfs_init :: "'s vfs \<Rightarrow> 's vfs" where
  "vfs_init v = v\<lparr>registered_count := 0, mount_count := 0\<rparr>"

definition vfs_register_filesystem :: "'s vfs_filesystem option \<Rightarrow> 's vfs \<Rightarrow> int \<times> 's vfs" where
  "vfs_register_filesystem fs v =
     (if fs = None then (-1, v)
      else if registered_count v \<ge> VFS_MAX_FILESYSTEMS then (-1, v)
      else (0, v\<lparr>registered_fs := (registered_fs v)(registered_count v := fs),
                 registered_count := registered_count v + 1\<rparr>))"

primrec vfs_find_loop :: "(nat \<Rightarrow> 's vfs_filesystem option) \<Rightarrow> u8 \<Rightarrow> nat \<Rightarrow> nat \<Rightarrow> 's vfs_filesystem option" where
  "vfs_find_loop fss type i 0 = None"
| "vfs_find_loop fss type i (Suc n) =
     (case fss i of
        Some fs \<Rightarrow> (if fs_type fs = type then Some fs else vfs_find_loop fss type (i + 1) n)
      | None \<Rightarrow> None)"

definition vfs_find :: "'s vfs \<Rightarrow> u8 \<Rightarrow> 's vfs_filesystem option" where
  "vfs_find v type = vfs_find_loop (registered_fs v) type 0 (registered_count v)"

definition mount_path_of :: "u8 \<Rightarrow> cstring" where
  "mount_path_of type = (if type = 0x09 then str ''/proc'' else if type = 0x0A then str ''/dev'' else str ''/'')"

definition vfs_mount :: "u8 \<Rightarrow> u64 \<Rightarrow> u64 \<Rightarrow> u64 \<Rightarrow> u64 \<Rightarrow> 's vfs \<Rightarrow> (nat option \<times> 's vfs) option" where
  "vfs_mount type device sz rcb wcb v =
     (case vfs_find v type of
        None \<Rightarrow> Some (None, v)
      | Some fs \<Rightarrow>
          (if mount_count v \<ge> VFS_MAX_MOUNTS then Some (None, v)
           else do {
             (ctx, s) \<leftarrow> (case op_mount (ops fs) of None \<Rightarrow> Some (0, sys v) | Some f \<Rightarrow> f device sz (sys v));
             let v = v\<lparr>sys := s\<rparr>;
             if ctx = 0 then Some (None, v)
             else do {
               let idx = mount_count v;
               let mnt = \<lparr>m_fs = Some fs, fs_ctx = ctx, device_ptr = device, read_cb = rcb, write_cb = wcb,
                          sector_count = sz\<rparr>;
               Some (Some idx, v\<lparr>mount_count := idx + 1, mounts := (mounts v)(idx := mnt),
                                 mount_paths := (mount_paths v)(idx := mount_path_of type)\<rparr>) } }))"

definition vfs_get_root_mount :: "'s vfs \<Rightarrow> nat option" where
  "vfs_get_root_mount v = (if mount_count v > 0 then Some 0 else None)"

definition vfs_get_mount_count :: "'s vfs \<Rightarrow> int" where
  "vfs_get_mount_count v = int (mount_count v)"

definition vfs_get_mount_path :: "int \<Rightarrow> 's vfs \<Rightarrow> cstring option" where
  "vfs_get_mount_path idx v =
     (if idx < 0 \<or> idx \<ge> int (mount_count v) then None else Some (mount_paths v (nat idx)))"

definition vfs_get_mount_by_index :: "int \<Rightarrow> 's vfs \<Rightarrow> nat option" where
  "vfs_get_mount_by_index idx v = (if idx < 0 \<or> idx \<ge> int (mount_count v) then None else Some (nat idx))"

section \<open>Dispatch\<close>

text \<open>
  \<^verbatim>\<open>if (!mnt || !mnt->fs || !mnt->fs->ops.f) return err; return mnt->fs->ops.f(mnt->fs_ctx, ...);\<close>
\<close>

definition dispatch :: "('s vfs_ops \<Rightarrow> (u64 \<Rightarrow> 'f) option) \<Rightarrow> 'r \<Rightarrow> ('f \<Rightarrow> 's \<Rightarrow> ('r \<times> 's) option) \<Rightarrow>
    nat option \<Rightarrow> 's vfs \<Rightarrow> ('r \<times> 's vfs) option" where
  "dispatch f err call mnt v =
     (case mnt of None \<Rightarrow> Some (err, v) | Some idx \<Rightarrow>
     (case m_fs (mounts v idx) of None \<Rightarrow> Some (err, v) | Some fs \<Rightarrow>
     (case f (ops fs) of None \<Rightarrow> Some (err, v) | Some g \<Rightarrow>
       do { (r, s) \<leftarrow> call (g (fs_ctx (mounts v idx))) (sys v); Some (r, v\<lparr>sys := s\<rparr>) })))"

definition vfs_unmount :: "nat option \<Rightarrow> 's vfs \<Rightarrow> (int \<times> 's vfs) option" where
  "vfs_unmount mnt v = dispatch op_unmount (-1) id mnt v"

definition vfs_create :: "nat option \<Rightarrow> cstring \<Rightarrow> 's vfs \<Rightarrow> (u64 \<times> 's vfs) option" where
  "vfs_create mnt path v = dispatch op_create 0 (\<lambda>f. f path) mnt v"

definition vfs_mkdir :: "nat option \<Rightarrow> cstring \<Rightarrow> 's vfs \<Rightarrow> (u64 \<times> 's vfs) option" where
  "vfs_mkdir mnt path v = dispatch op_mkdir 0 (\<lambda>f. f path) mnt v"

definition vfs_remove :: "nat option \<Rightarrow> cstring \<Rightarrow> 's vfs \<Rightarrow> (int \<times> 's vfs) option" where
  "vfs_remove mnt path v = dispatch op_remove (-1) (\<lambda>f. f path) mnt v"

definition vfs_rename :: "nat option \<Rightarrow> cstring \<Rightarrow> cstring \<Rightarrow> 's vfs \<Rightarrow> (int \<times> 's vfs) option" where
  "vfs_rename mnt old_path new_path v = dispatch op_rename (-1) (\<lambda>f. f old_path new_path) mnt v"

definition vfs_stat :: "nat option \<Rightarrow> u64 \<Rightarrow> vfs_stat_t \<Rightarrow> 's vfs \<Rightarrow> (int \<times> vfs_stat_t \<times> 's vfs) option" where
  "vfs_stat mnt inode st v = do {
     ((r, st'), v) \<leftarrow> dispatch op_stat (-1, st) (\<lambda>f s. do { (r, st', s) \<leftarrow> f inode st s; Some ((r, st'), s) }) mnt v;
     Some (r, st', v) }"

definition vfs_chmod :: "nat option \<Rightarrow> u64 \<Rightarrow> u32 \<Rightarrow> 's vfs \<Rightarrow> (int \<times> 's vfs) option" where
  "vfs_chmod mnt inode mode v = dispatch op_chmod (-1) (\<lambda>f. f inode mode) mnt v"

definition vfs_truncate :: "nat option \<Rightarrow> u64 \<Rightarrow> u64 \<Rightarrow> 's vfs \<Rightarrow> (int \<times> 's vfs) option" where
  "vfs_truncate mnt inode sz v = dispatch op_truncate (-1) (\<lambda>f. f inode sz) mnt v"

definition vfs_read :: "nat option \<Rightarrow> u64 \<Rightarrow> u64 \<Rightarrow> u64 \<Rightarrow> u64 \<Rightarrow> 's vfs \<Rightarrow> (int \<times> 's vfs) option" where
  "vfs_read mnt inode buf sz offset v = dispatch op_read (-1) (\<lambda>f. f inode buf sz offset) mnt v"

definition vfs_write :: "nat option \<Rightarrow> u64 \<Rightarrow> u64 \<Rightarrow> u64 \<Rightarrow> u64 \<Rightarrow> 's vfs \<Rightarrow> (int \<times> 's vfs) option" where
  "vfs_write mnt inode buf sz offset v = dispatch op_write (-1) (\<lambda>f. f inode buf sz offset) mnt v"

definition vfs_listdir :: "nat option \<Rightarrow> u64 \<Rightarrow> int \<Rightarrow> 's vfs \<Rightarrow> (int \<times> vfs_dirent_t list \<times> 's vfs) option" where
  "vfs_listdir mnt inode max_entries v = do {
     ((r, ents), v) \<leftarrow>
       dispatch op_listdir (-1, []) (\<lambda>f s. do { (r, ents, s) \<leftarrow> f inode max_entries s; Some ((r, ents), s) }) mnt v;
     Some (r, ents, v) }"

definition vfs_path_to_inode :: "nat option \<Rightarrow> cstring \<Rightarrow> 's vfs \<Rightarrow> (u64 \<times> 's vfs) option" where
  "vfs_path_to_inode mnt path v = dispatch op_path_to_inode 0 (\<lambda>f. f path) mnt v"

section \<open>Mount resolution\<close>

text \<open>The mounts that \<^verbatim>\<open>path\<close> lies under, as paths: equal, or a proper prefix that ends before a slash.\<close>

definition lies_under :: "cstring \<Rightarrow> cstring \<Rightarrow> bool" where
  "lies_under mp path \<longleftrightarrow> mp \<noteq> [] \<and> (path = mp \<or> (\<exists>rest. path = mp @ of_char (CHR ''/'') # rest))"

lemma mount_matches_under:
  assumes "\<forall>x\<in>set path. x \<noteq> 0" "\<forall>x\<in>set mp. x \<noteq> 0"
  shows "mount_matches path mp \<longleftrightarrow> lies_under mp path"
proof
  assume m: "mount_matches path mp"
  then have t: "take (length mp) path = mp" using same_prefix_length [OF assms(2)] by (simp add: mount_matches_def)
  show "lies_under mp path"
  proof (cases "length mp < length path")
    case True
    then have "path ! length mp = of_char (CHR ''/'')" using m assms(1) by (auto simp: mount_matches_def char_at_def)
    then have "path = mp @ of_char (CHR ''/'') # drop (Suc (length mp)) path"
      using True t by (metis append_take_drop_id Cons_nth_drop_Suc)
    then show ?thesis using m by (auto simp: lies_under_def mount_matches_def)
  next
    case False
    then show ?thesis using t m by (auto simp: lies_under_def mount_matches_def)
  qed
next
  assume "lies_under mp path"
  then show "mount_matches path mp"
    by (auto simp: lies_under_def mount_matches_def char_at_def same_prefix_length [OF assms(2)])
qed

lemma best_mount_spec:
  assumes "best_mount paths path n = (r, l)"
  shows "case r of
      None \<Rightarrow> l = 0 \<and> (\<forall>i<n. \<not> mount_matches path (paths i))
    | Some b \<Rightarrow> b < n \<and> l = length (paths b) \<and> mount_matches path (paths b) \<and>
        (\<forall>i<n. mount_matches path (paths i) \<longrightarrow> length (paths i) \<le> l) \<and>
        (\<forall>i<b. mount_matches path (paths i) \<longrightarrow> length (paths i) < l)"
  using assms
proof (induction n arbitrary: r l)
  case (Suc n)
  obtain r' l' where e: "best_mount paths path n = (r', l')" by (metis surj_pair)
  note IH = Suc.IH [OF e]
  have pos: "mount_matches path mp \<Longrightarrow> 0 < length mp" for mp by (simp add: mount_matches_def)
  show ?case
  proof (cases "mount_matches path (paths n) \<and> l' < length (paths n)")
    case True
    then have rl: "r = Some n" "l = length (paths n)" using Suc.prems e by simp_all
    have "length (paths i) < l" if "i < n" "mount_matches path (paths i)" for i
      using IH that rl(2) True by (cases r') (auto dest: le_less_trans)
    then show ?thesis using rl True by (auto simp: less_Suc_eq intro: less_imp_le)
  next
    case False
    then have rl: "r = r'" "l = l'" using Suc.prems e by auto
    show ?thesis using IH False pos [of "paths n"] unfolding rl by (cases r') (auto simp: less_Suc_eq)
  qed
qed simp

text \<open>C29: For every table of mounts and every path \<^verbatim>\<open>vfs_get_mount_for_path\<close> picks the mount with the
  longest mount point that the path lies under, the first of them in the table, with the rest of the
  path (a slash for the mount point itself); when there is none it falls back to the first mount with the
  whole path, and gives NULL when nothing is mounted.\<close>
theorem vfs_get_mount_for_path_correct:
  assumes "\<forall>x\<in>set path. x \<noteq> 0" and "\<forall>i<mount_count v. \<forall>x\<in>set (mount_paths v i). x \<noteq> 0"
  shows "case vfs_get_mount_for_path v path of
      (None, rel) \<Rightarrow> mount_count v = 0 \<and> rel = path
    | (Some m, rel) \<Rightarrow> m < mount_count v \<and>
        (if \<exists>i<mount_count v. lies_under (mount_paths v i) path
         then lies_under (mount_paths v m) path \<and>
           (\<forall>i<mount_count v. lies_under (mount_paths v i) path \<longrightarrow> length (mount_paths v i) \<le> length (mount_paths v m)) \<and>
           (\<forall>i<m. lies_under (mount_paths v i) path \<longrightarrow> length (mount_paths v i) < length (mount_paths v m)) \<and>
           (if path = mount_paths v m then rel = str ''/'' else path = mount_paths v m @ rel)
         else m = 0 \<and> rel = path)"
proof -
  obtain r l where e: "best_mount (mount_paths v) path (mount_count v) = (r, l)" by (metis surj_pair)
  have mu: "mount_matches path (mount_paths v i) \<longleftrightarrow> lies_under (mount_paths v i) path" if "i < mount_count v" for i
    using mount_matches_under [OF assms(1)] assms(2) that by blast
  show ?thesis
  proof (cases r)
    case None
    then show ?thesis using best_mount_spec [OF e] e mu by (auto simp: vfs_get_mount_for_path_def)
  next
    case (Some b)
    note s = best_mount_spec [OF e, unfolded Some option.case]
    have u: "lies_under (mount_paths v b) path" using s mu by blast
    then have ex: "\<exists>i<mount_count v. lies_under (mount_paths v i) path" using s by blast
    define rel where "rel = (if path = mount_paths v b then str ''/'' else drop l path)"
    have "drop l path = [] \<longleftrightarrow> path = mount_paths v b" "path \<noteq> mount_paths v b \<longrightarrow> path = mount_paths v b @ drop l path"
      using u s by (auto simp: lies_under_def)
    then have call: "vfs_get_mount_for_path v path = (Some b, rel)"
      and rel: "if path = mount_paths v b then rel = str ''/'' else path = mount_paths v b @ rel"
      using e Some by (auto simp: vfs_get_mount_for_path_def Let_def rel_def)
    have "\<forall>i<mount_count v. lies_under (mount_paths v i) path \<longrightarrow> length (mount_paths v i) \<le> length (mount_paths v b)"
      using s mu by auto
    moreover have "\<forall>i<b. lies_under (mount_paths v i) path \<longrightarrow> length (mount_paths v i) < length (mount_paths v b)"
      using s mu by (metis order_less_trans)
    ultimately show ?thesis unfolding call prod.case option.case if_P [OF ex] using s u rel by blast
  qed
qed

text \<open>A table with the root, \<^verbatim>\<open>/proc\<close> and \<^verbatim>\<open>/dev\<close>.\<close>

definition demo_vfs :: "unit vfs" where
  "demo_vfs = \<lparr>registered_fs = (\<lambda>_. None), registered_count = 0,
     mounts = (\<lambda>_. \<lparr>m_fs = None, fs_ctx = 0, device_ptr = 0, read_cb = 0, write_cb = 0, sector_count = 0\<rparr>),
     mount_count = 3, mount_paths = (\<lambda>i. mount_path_of ([8, 9, 10] ! i)), sys = ()\<rparr>"

theorem vfs_get_mount_for_path_correct_witness:
  "vfs_get_mount_for_path demo_vfs (str ''/dev/sda'') = (Some 2, str ''/sda'') \<and>
   lies_under (mount_paths demo_vfs 2) (str ''/dev/sda'')"
proof -
  have p: "\<forall>x\<in>set (str ''/dev/sda''). x \<noteq> 0" "\<forall>i<mount_count demo_vfs. \<forall>x\<in>set (mount_paths demo_vfs i). x \<noteq> 0"
    by (simp_all add: str_def demo_vfs_def mount_path_of_def less_Suc_eq numeral_3_eq_3)
  have c: "vfs_get_mount_for_path demo_vfs (str ''/dev/sda'') = (Some 2, str ''/sda'')"
    by (simp add: vfs_get_mount_for_path_def demo_vfs_def numeral_3_eq_3 mount_path_of_def mount_matches_def same_prefix_def
        char_at_def str_def)
  show ?thesis using vfs_get_mount_for_path_correct [OF p, unfolded c prod.case option.case] c by (auto split: if_splits)
qed

end
