(* ===== verification/Ramfs.thy ===== *)
theory Ramfs
  imports Heap_Interface Vfs
begin

text \<open>
  The in-memory file system, \<^verbatim>\<open>kernel/main/fsm/initramfs/ramfs.c\<close>.

  The operations take the kernel heap as an argument. File data and buffers are addresses in the byte memory
  of the heap; the \<^verbatim>\<open>ramfs_ctx_t\<close> at address \<open>p\<close> is the record \<open>ctxs p\<close>, whose list of files has the
  length \<^verbatim>\<open>file_count\<close>. Paths and names are values. \<open>stack_bytes\<close> is what the second and the following
  bytes of the local buffer of a path hold before it is written.
\<close>

definition MAX_FILES :: nat where "MAX_FILES = 2098"

record ram_file_t =
  f_name :: cstring
  f_data :: u64
  f_size :: u64
  f_alloc_size :: u64
  f_inode :: u64
  f_type :: u32

record ramfs_ctx_t =
  files :: "ram_file_t list"
  next_inode :: u64

record 'h ramfs_state =
  kheap :: 'h
  ctxs :: "u64 \<Rightarrow> ramfs_ctx_t"
  stack_bytes :: cstring

text \<open>\<^verbatim>\<open>sizeof(ram_file_t)\<close> is 256 + 4 * 8 + 4, rounded up to a multiple of 8.\<close>

definition sizeof_ramfs_ctx :: u64 where
  "sizeof_ramfs_ctx = of_nat MAX_FILES * 296 + 8 + 8"

definition file_count :: "ramfs_ctx_t \<Rightarrow> nat" where
  "file_count c = length (files c)"

definition new_file :: "cstring \<Rightarrow> u64 \<Rightarrow> u32 \<Rightarrow> ram_file_t" where
  "new_file nm ino type = \<lparr>f_name = take 255 nm, f_data = 0, f_size = 0, f_alloc_size = 0, f_inode = ino, f_type = type\<rparr>"

definition add_file :: "cstring \<Rightarrow> u32 \<Rightarrow> ramfs_ctx_t \<Rightarrow> ramfs_ctx_t" where
  "add_file nm type c = \<lparr>files = files c @ [new_file nm (next_inode c) type], next_inode = next_inode c + 1\<rparr>"

definition to_int :: "u64 \<Rightarrow> int" where
  "to_int x = sint (ucast x :: u32)"

definition ramfs_mount :: "'h heap_ops \<Rightarrow> u64 \<Rightarrow> u64 \<Rightarrow> 'h ramfs_state \<Rightarrow> (u64 \<times> 'h ramfs_state) option" where
  "ramfs_mount H device sz s = do {
     (ctx, h) \<leftarrow> h_malloc H (kheap s) sizeof_ramfs_ctx;
     let s = s\<lparr>kheap := h\<rparr>;
     Some (if ctx = 0 then (0, s)
           else (ctx, s\<lparr>ctxs := (ctxs s)(ctx := add_file (str ''/'') VFS_TYPE_DIR \<lparr>files = [], next_inode = 1\<rparr>)\<rparr>)) }"

text \<open>\<^verbatim>\<open>while ((*p == '/') || (*p == '.' && *(p+1) == '/'))\<close>\<close>

fun skip_leading :: "cstring \<Rightarrow> cstring" where
  "skip_leading [] = []"
| "skip_leading (c # p) =
     (if c = of_char (CHR ''/'') then skip_leading p
      else if c = of_char (CHR ''.'') \<and> char_at p 0 = of_char (CHR ''/'') then skip_leading (tl p)
      else c # p)"

definition normalize_ramfs_path :: "cstring \<Rightarrow> cstring \<Rightarrow> nat \<Rightarrow> cstring" where
  "normalize_ramfs_path rest path out_size =
     (let out = take (out_size - 1) (skip_leading path)
      in if out = [] \<and> out_size > 0 then of_char (CHR ''.'') # takeWhile (\<lambda>c. c \<noteq> 0) rest else out)"

definition find_name :: "cstring \<Rightarrow> ramfs_ctx_t \<Rightarrow> ram_file_t option" where
  "find_name nm c = List.find (\<lambda>f. f_name f = nm) (files c)"

definition ramfs_path_to_inode :: "u64 \<Rightarrow> cstring \<Rightarrow> 'h ramfs_state \<Rightarrow> (u64 \<times> 'h ramfs_state) option" where
  "ramfs_path_to_inode ctxp path s =
     (let ctx = ctxs s ctxp
      in if path = str ''/'' then Some (f_inode (hd (files ctx)), s)
         else (let norm = normalize_ramfs_path (stack_bytes s) path 256
               in case find_name norm ctx of Some f \<Rightarrow> Some (f_inode f, s) | None \<Rightarrow> Some (0, s)))"

text \<open>The first index whose file has this inode.\<close>

fun find_inode :: "ram_file_t list \<Rightarrow> u64 \<Rightarrow> nat option" where
  "find_inode [] ino = None"
| "find_inode (f # fs) ino = (if f_inode f = ino then Some 0 else map_option Suc (find_inode fs ino))"

definition ramfs_read ::
  "'h heap_ops \<Rightarrow> u64 \<Rightarrow> u64 \<Rightarrow> u64 \<Rightarrow> u64 \<Rightarrow> u64 \<Rightarrow> 'h ramfs_state \<Rightarrow> (int \<times> 'h ramfs_state) option" where
  "ramfs_read H ctxp inode buffer sz offset s =
     (case find_inode (files (ctxs s ctxp)) inode of
        None \<Rightarrow> Some (-1, s)
      | Some i \<Rightarrow>
          (let f = files (ctxs s ctxp) ! i
           in if f_type f = VFS_TYPE_DIR then Some (-1, s)
              else if offset \<ge> f_size f then Some (0, s)
              else (let sz = (if offset + sz > f_size f then f_size f - offset else sz);
                        m = memcpy (h_mem H (kheap s)) buffer (f_data f + offset) sz
                    in Some (to_int sz, s\<lparr>kheap := h_store H m (kheap s)\<rparr>))))"

definition set_file :: "u64 \<Rightarrow> nat \<Rightarrow> ram_file_t \<Rightarrow> 'h ramfs_state \<Rightarrow> 'h ramfs_state" where
  "set_file ctxp i f s =
     s\<lparr>ctxs := (ctxs s)(ctxp := (ctxs s ctxp)\<lparr>files := (files (ctxs s ctxp))[i := f]\<rparr>)\<rparr>"

definition ramfs_write ::
  "'h heap_ops \<Rightarrow> u64 \<Rightarrow> u64 \<Rightarrow> u64 \<Rightarrow> u64 \<Rightarrow> u64 \<Rightarrow> 'h ramfs_state \<Rightarrow> (int \<times> 'h ramfs_state) option" where
  "ramfs_write H ctxp inode buffer sz offset s =
     (case find_inode (files (ctxs s ctxp)) inode of
        None \<Rightarrow> Some (-1, s)
      | Some i \<Rightarrow>
          (let f = files (ctxs s ctxp) ! i
           in if f_type f = VFS_TYPE_DIR then Some (-1, s)
              else if sz = 0 then Some (0, s)
              else do {
                let requested_end = offset + sz;
                (r, f, s) \<leftarrow>
                  (if requested_end > f_alloc_size f then do {
                     (new_data, h) \<leftarrow> h_realloc H (kheap s) (f_data f) requested_end;
                     let s = s\<lparr>kheap := h\<rparr>;
                     Some (if new_data = 0 then (-1, f, s)
                           else (0, f\<lparr>f_data := new_data, f_alloc_size := requested_end\<rparr>, s)) }
                   else Some (0 :: int, f, s));
                if r < 0 then Some (r, s)
                else do {
                  let m = memcpy (h_mem H (kheap s)) (f_data f + offset) buffer sz;
                  let s = s\<lparr>kheap := h_store H m (kheap s)\<rparr>;
                  let f = (if requested_end > f_size f then f\<lparr>f_size := requested_end\<rparr> else f);
                  Some (to_int sz, set_file ctxp i f s) } }))"

definition ramfs_create :: "u64 \<Rightarrow> cstring \<Rightarrow> 'h ramfs_state \<Rightarrow> (u64 \<times> 'h ramfs_state) option" where
  "ramfs_create ctxp path s =
     (let ctx = ctxs s ctxp; norm = normalize_ramfs_path (stack_bytes s) path 256
      in case find_name norm ctx of
           Some f \<Rightarrow> Some (f_inode f, s)
         | None \<Rightarrow>
             (if file_count ctx \<ge> MAX_FILES then Some (0, s)
              else Some (next_inode ctx, s\<lparr>ctxs := (ctxs s)(ctxp := add_file norm VFS_TYPE_FILE ctx)\<rparr>)))"

definition ramfs_mkdir :: "u64 \<Rightarrow> cstring \<Rightarrow> 'h ramfs_state \<Rightarrow> (u64 \<times> 'h ramfs_state) option" where
  "ramfs_mkdir ctxp path s =
     (let ctx = ctxs s ctxp
      in if file_count ctx \<ge> MAX_FILES then Some (0, s)
         else (let norm = normalize_ramfs_path (stack_bytes s) path 256
               in Some (next_inode ctx, s\<lparr>ctxs := (ctxs s)(ctxp := add_file norm VFS_TYPE_DIR ctx)\<rparr>)))"

definition ramfs_stat :: "u64 \<Rightarrow> u64 \<Rightarrow> vfs_stat_t \<Rightarrow> 'h ramfs_state \<Rightarrow> (int \<times> vfs_stat_t \<times> 'h ramfs_state) option" where
  "ramfs_stat ctxp inode st s =
     (case find_inode (files (ctxs s ctxp)) inode of
        None \<Rightarrow> Some (-1, st, s)
      | Some i \<Rightarrow>
          (let f = files (ctxs s ctxp) ! i
           in Some (0, st\<lparr>st_inode := inode, st_size := f_size f, st_type := f_type f\<rparr>, s)))"

definition dirent_of :: "ram_file_t \<Rightarrow> vfs_dirent_t" where
  "dirent_of f = \<lparr>d_inode = f_inode f, d_type = f_type f, d_size = f_size f, d_name = take 255 (f_name f)\<rparr>"

definition ramfs_listdir :: "u64 \<Rightarrow> u64 \<Rightarrow> int \<Rightarrow> 'h ramfs_state \<Rightarrow> (int \<times> vfs_dirent_t list \<times> 'h ramfs_state) option" where
  "ramfs_listdir ctxp inode max_entries s =
     (let ctx = ctxs s ctxp
      in case find_inode (files ctx) inode of
           None \<Rightarrow> Some (-1, [], s)
         | Some dir_idx \<Rightarrow>
             (if f_type (files ctx ! dir_idx) \<noteq> VFS_TYPE_DIR then Some (-1, [], s)
              else if inode \<noteq> f_inode (hd (files ctx)) then Some (0, [], s)
              else (let ents = map dirent_of (take (nat max_entries) (tl (files ctx)))
                    in Some (int (length ents), ents, s))))"

definition ramfs_fs :: "'h heap_ops \<Rightarrow> 'h ramfs_state vfs_filesystem" where
  "ramfs_fs H = \<lparr>fs_type = FS_TYPE_RAMFS, fs_name = str ''ramfs'',
     ops = \<lparr>op_mount = Some (ramfs_mount H), op_unmount = None, op_read = Some (ramfs_read H), op_write = Some (ramfs_write H),
            op_listdir = Some ramfs_listdir, op_path_to_inode = Some ramfs_path_to_inode, op_create = Some ramfs_create,
            op_mkdir = Some ramfs_mkdir, op_remove = None, op_rename = None, op_stat = Some ramfs_stat, op_chmod = None,
            op_truncate = None\<rparr>\<rparr>"

definition ramfs_init :: "'h heap_ops \<Rightarrow> 'h ramfs_state vfs \<Rightarrow> 'h ramfs_state vfs" where
  "ramfs_init H v = snd (vfs_register_filesystem (Some (ramfs_fs H)) v)"

end
