(* ===== verification/Initramfs.thy ===== *)
theory Initramfs
  imports Ramfs Vmm
begin

text \<open>
  The unpacker of the initial RAM disk, \<^verbatim>\<open>kernel/main/fsm/initramfs/initramfs-unpacker.c\<close>: a cpio archive in the
  newc format is read from memory and its entries are created through the virtual file system. The modules
  that the boot loader reports are an argument.
\<close>

abbreviation (input) CPIO_MAGIC :: cstring where "CPIO_MAGIC \<equiv> str ''070701''"

abbreviation (input) CPIO_MAGIC_LEN :: nat where "CPIO_MAGIC_LEN \<equiv> 6"

abbreviation (input) CPIO_IFMT :: u32 where "CPIO_IFMT \<equiv> 0xF000"

abbreviation (input) CPIO_IFREG :: u32 where "CPIO_IFREG \<equiv> 0x8000"

abbreviation (input) CPIO_IFDIR :: u32 where "CPIO_IFDIR \<equiv> 0x4000"

text \<open>\<^verbatim>\<open>struct cpio_newc_header\<close>: its size and the offsets of the fields that are read.\<close>

definition sizeof_cpio_newc_header :: u64 where "sizeof_cpio_newc_header = 110"

definition cpio_mode :: u64 where "cpio_mode = 14"

definition cpio_filesize :: u64 where "cpio_filesize = 54"

definition cpio_namesize :: u64 where "cpio_namesize = 94"

definition hex_step :: "u8 \<Rightarrow> u32 \<Rightarrow> u32" where
  "hex_step c v =
     (let v = push_bit 4 v
      in if c \<ge> of_char (CHR ''0'') \<and> c \<le> of_char (CHR ''9'') then v OR ucast (c - of_char (CHR ''0''))
         else if c \<ge> of_char (CHR ''a'') \<and> c \<le> of_char (CHR ''f'') then v OR ucast (c - of_char (CHR ''a'') + 10)
         else if c \<ge> of_char (CHR ''A'') \<and> c \<le> of_char (CHR ''F'') then v OR ucast (c - of_char (CHR ''A'') + 10)
         else v)"

definition hex8_to_u32 :: "memory \<Rightarrow> u64 \<Rightarrow> u32" where
  "hex8_to_u32 m s = fold (\<lambda>i v. hex_step (m (s + of_nat i)) v) [0..<8] 0"

definition align4 :: "u64 \<Rightarrow> u64" where
  "align4 p = (p + 3) AND NOT 3"

definition limine_to_virt :: "pmm \<Rightarrow> 'p vmm \<Rightarrow> u64 \<Rightarrow> u64" where
  "limine_to_virt p v addr = (if addr < pmm_get_hhdm_offset p then phys_to_virt v addr else addr)"

text \<open>\<^verbatim>\<open>while (*src == '/') src++;\<close>\<close>

partial_function (option) skip_slashes :: "memory \<Rightarrow> u64 \<Rightarrow> u64 option" where
  "skip_slashes m src = (if m src = of_char (CHR ''/'') then skip_slashes m (src + 1) else Some src)"

primrec copy_name :: "memory \<Rightarrow> u64 \<Rightarrow> nat \<Rightarrow> cstring" where
  "copy_name m src 0 = []"
| "copy_name m src (Suc n) = (if m src \<noteq> 0 then m src # copy_name m (src + 1) n else [])"

definition normalize_path :: "memory \<Rightarrow> u64 \<Rightarrow> nat \<Rightarrow> cstring option" where
  "normalize_path m src dstsz = do {
     src \<leftarrow> skip_slashes m src;
     let dst = copy_name m src (dstsz - 1);
     Some (if dst = [] \<and> dstsz > 0 then str ''.'' else dst) }"

text \<open>\<^verbatim>\<open>memcmp(p, s, strlen(s)) == 0\<close> for a literal \<open>s\<close>.\<close>

definition starts_with :: "memory \<Rightarrow> u64 \<Rightarrow> cstring \<Rightarrow> bool" where
  "starts_with m p s \<longleftrightarrow> map (\<lambda>i. m (p + of_nat i)) [0..<length s] = s"

text \<open>One regular file or directory of the archive.\<close>

definition unpack_entry ::
  "nat option \<Rightarrow> u32 \<Rightarrow> cstring \<Rightarrow> u64 \<Rightarrow> u32 \<Rightarrow> 'h ramfs_state vfs \<Rightarrow> 'h ramfs_state vfs option" where
  "unpack_entry mnt mode path file_data filesize v =
     (let ftype = mode AND CPIO_IFMT
      in if ftype = CPIO_IFREG then do {
           (inode, v) \<leftarrow> vfs_create mnt path v;
           if inode = 0 then Some v
           else if filesize > 0 then do { (r, v) \<leftarrow> vfs_write mnt inode file_data (ucast filesize) 0 v; Some v }
           else Some v }
         else if ftype = CPIO_IFDIR then do { (r, v) \<leftarrow> vfs_mkdir mnt path v; Some v }
         else Some v)"

partial_function (option) unpack_loop ::
  "'h heap_ops \<Rightarrow> nat option \<Rightarrow> u64 \<Rightarrow> u64 \<Rightarrow> 'h ramfs_state vfs \<Rightarrow> 'h ramfs_state vfs option" where
  "unpack_loop H mnt end p v =
     (let m = h_mem H (kheap (sys v))
      in if p + sizeof_cpio_newc_header \<le> end then
           if \<not> starts_with m p CPIO_MAGIC then Some v
           else
             let namesize = hex8_to_u32 m (p + cpio_namesize);
                 filesize = hex8_to_u32 m (p + cpio_filesize);
                 mode = hex8_to_u32 m (p + cpio_mode);
                 name = p + sizeof_cpio_newc_header
             in if namesize = 0 \<or> name + ucast namesize > end then Some v
                else if starts_with m name (str ''TRAILER!!!'') then Some v
                else
                  let file_data = align4 (name + ucast namesize)
                  in if file_data + ucast filesize > end then Some v
                     else
                       let p = align4 (file_data + ucast filesize)
                       in Option.bind (normalize_path m name 256) (\<lambda>path.
                            if path = str ''.'' then unpack_loop H mnt end p v
                            else Option.bind (unpack_entry mnt mode path file_data filesize v) (\<lambda>v. unpack_loop H mnt end p v))
         else Some v)"

definition unpack_cpio :: "'h heap_ops \<Rightarrow> nat option \<Rightarrow> u64 \<Rightarrow> u64 \<Rightarrow> 'h ramfs_state vfs \<Rightarrow> 'h ramfs_state vfs option" where
  "unpack_cpio H mnt base archive_size v = unpack_loop H mnt (base + archive_size) base v"

declare skip_slashes.simps [code] unpack_loop.simps [code]

record limine_file =
  lf_path :: "cstring option"
  lf_string :: "cstring option"
  lf_address :: u64
  lf_size :: u64

text \<open>\<^verbatim>\<open>strstr(s, t) != NULL\<close> on values.\<close>

definition occurs_in :: "cstring \<Rightarrow> cstring \<Rightarrow> bool" where
  "occurs_in t s \<longleftrightarrow> list_ex (\<lambda>k. take (length t) (drop k s) = t) [0..<length s]"

definition is_initramfs :: "limine_file \<Rightarrow> bool" where
  "is_initramfs md \<longleftrightarrow>
     (case lf_path md of None \<Rightarrow> False | Some p \<Rightarrow> occurs_in (str ''initramfs'') p) \<or>
     (case lf_string md of None \<Rightarrow> False | Some p \<Rightarrow> occurs_in (str ''initramfs'') p)"

primrec unpack_modules ::
  "'h heap_ops \<Rightarrow> pmm \<Rightarrow> 'p vmm \<Rightarrow> nat option \<Rightarrow> limine_file list \<Rightarrow> 'h ramfs_state vfs \<Rightarrow> 'h ramfs_state vfs option" where
  "unpack_modules H pp vv mnt [] v = Some v"
| "unpack_modules H pp vv mnt (md # mods) v = do {
     v \<leftarrow> (if is_initramfs md then unpack_cpio H mnt (limine_to_virt pp vv (lf_address md)) (lf_size md) v else Some v);
     unpack_modules H pp vv mnt mods v }"

definition initramfs_init ::
  "'h heap_ops \<Rightarrow> pmm \<Rightarrow> 'p vmm \<Rightarrow> limine_file list option \<Rightarrow> 'h ramfs_state vfs \<Rightarrow> 'h ramfs_state vfs option" where
  "initramfs_init H pp vv response v = do {
     let v = ramfs_init H v;
     (mnt, v) \<leftarrow> vfs_mount FS_TYPE_RAMFS 0 0 0 0 v;
     case mnt of None \<Rightarrow> Some v | Some idx \<Rightarrow>
     (case response of None \<Rightarrow> Some v | Some mods \<Rightarrow> unpack_modules H pp vv mnt mods v) }"

end
