(* ===== verification/Machine.thy ===== *)
theory Machine
  imports Initramfs
begin

text \<open>
  The state that the program loaders work on: byte memory, page tables and the mounted file systems
  together.

  The file system model keeps memory as bytes and the page-table model as aligned words. Both are views of
  the same memory here: a page-table operation runs on the words of the byte memory, and what it leaves is
  written back byte by byte. \<open>H\<close> is the heap as a set of operations on the state below the file system switch,
  \<open>alloc\<close> the page allocator.
\<close>

section \<open>Byte and word views of memory\<close>

definition load16 :: "memory \<Rightarrow> u64 \<Rightarrow> u16" where
  "load16 m a = ucast (m a) OR push_bit 8 (ucast (m (a + 1)))"

definition load32 :: "memory \<Rightarrow> u64 \<Rightarrow> u32" where
  "load32 m a =
     ucast (m a) OR push_bit 8 (ucast (m (a + 1))) OR push_bit 16 (ucast (m (a + 2))) OR push_bit 24 (ucast (m (a + 3)))"

definition store32 :: "memory \<Rightarrow> u64 \<Rightarrow> u32 \<Rightarrow> memory" where
  "store32 m a v =
     m(a := ucast v, a + 1 := ucast (drop_bit 8 v), a + 2 := ucast (drop_bit 16 v), a + 3 := ucast (drop_bit 24 v))"

definition bytes_of_words :: "(u64 \<Rightarrow> u64) \<Rightarrow> memory" where
  "bytes_of_words w x = ucast (drop_bit (8 * unat (x AND 7)) (w (x AND NOT 7)))"

lemma bytes_of_words_load64: "bytes_of_words (load64 m) = m"
proof
  fix x :: u64
  have a: "x AND 7 = take_bit 3 x" by (simp add: take_bit_eq_mask mask_eq_exp_minus_1)
  then have l: "unat (x AND 7) < 8" using take_bit_nat_less_exp [of 3 "unat x"] by (simp add: unsigned_take_bit_eq)
  have "x AND NOT 7 = x - (x AND 7)" using and_not_mask_u64 [of x 3] a by (simp add: mask_eq_exp_minus_1 take_bit_eq_mod)
  then have "(x AND NOT 7) + (x AND 7) = x" by simp
  then show "bytes_of_words (load64 m) x = m x" using load64_byte [OF l, of m "x AND NOT 7"] by (simp add: bytes_of_words_def)
qed

section \<open>State\<close>

record ('s, 'p) machine =
  k_vfs :: "'s vfs"
  k_vmm :: "'p vmm"
  sym_table :: u64
  sym_count :: u64
  sym_cap :: u64

definition bytes_in :: "'s heap_ops \<Rightarrow> ('s, 'p) machine \<Rightarrow> memory" where
  "bytes_in H k = h_mem H (sys (k_vfs k))"

definition put_bytes :: "'s heap_ops \<Rightarrow> memory \<Rightarrow> ('s, 'p) machine \<Rightarrow> ('s, 'p) machine" where
  "put_bytes H m k = k\<lparr>k_vfs := (k_vfs k)\<lparr>sys := h_store H m (sys (k_vfs k))\<rparr>\<rparr>"

definition k_malloc :: "'s heap_ops \<Rightarrow> u64 \<Rightarrow> ('s, 'p) machine \<Rightarrow> (u64 \<times> ('s, 'p) machine) option" where
  "k_malloc H sz k = do {
     (p, s) \<leftarrow> h_malloc H (sys (k_vfs k)) sz;
     Some (p, k\<lparr>k_vfs := (k_vfs k)\<lparr>sys := s\<rparr>\<rparr>) }"

definition k_realloc :: "'s heap_ops \<Rightarrow> u64 \<Rightarrow> u64 \<Rightarrow> ('s, 'p) machine \<Rightarrow> (u64 \<times> ('s, 'p) machine) option" where
  "k_realloc H p sz k = do {
     (p, s) \<leftarrow> h_realloc H (sys (k_vfs k)) p sz;
     Some (p, k\<lparr>k_vfs := (k_vfs k)\<lparr>sys := s\<rparr>\<rparr>) }"

definition k_free :: "'s heap_ops \<Rightarrow> u64 \<Rightarrow> ('s, 'p) machine \<Rightarrow> ('s, 'p) machine option" where
  "k_free H p k = do {
     s \<leftarrow> h_free H (sys (k_vfs k)) p;
     Some (k\<lparr>k_vfs := (k_vfs k)\<lparr>sys := s\<rparr>\<rparr>) }"

text \<open>An operation of the virtual file system, and one of the page tables.\<close>

definition on_vfs :: "('s vfs \<Rightarrow> ('r \<times> 's vfs) option) \<Rightarrow> ('s, 'p) machine \<Rightarrow> ('r \<times> ('s, 'p) machine) option" where
  "on_vfs f k = do { (r, v) \<leftarrow> f (k_vfs k); Some (r, k\<lparr>k_vfs := v\<rparr>) }"

definition on_vmm :: "'s heap_ops \<Rightarrow> ('p vmm \<Rightarrow> 'p vmm option) \<Rightarrow> ('s, 'p) machine \<Rightarrow> ('s, 'p) machine option" where
  "on_vmm H f k = do {
     v \<leftarrow> f ((k_vmm k)\<lparr>mem := load64 (bytes_in H k)\<rparr>);
     Some (put_bytes H (bytes_of_words (mem v)) (k\<lparr>k_vmm := v\<rparr>)) }"

definition k_palloc :: "('p \<Rightarrow> u64 \<times> 'p) \<Rightarrow> ('s, 'p) machine \<Rightarrow> u64 \<times> ('s, 'p) machine" where
  "k_palloc alloc k =
     (let (pa, p) = alloc (pm (k_vmm k)) in (pa, k\<lparr>k_vmm := (k_vmm k)\<lparr>pm := p\<rparr>\<rparr>))"

text \<open>A loop whose body may stop the kernel: the body for every element, in order.\<close>

primrec each :: "('a \<Rightarrow> 'k \<Rightarrow> 'k option) \<Rightarrow> 'a list \<Rightarrow> 'k \<Rightarrow> 'k option" where
  "each f [] k = Some k"
| "each f (x # xs) k = do { k \<leftarrow> f x k; each f xs k }"

text \<open>The heap below the RAM file system, for the kernel whose only file system it is.\<close>

definition ramfs_heap :: "'h heap_ops \<Rightarrow> 'h ramfs_state heap_ops" where
  "ramfs_heap H =
     \<lparr>h_malloc = (\<lambda>s sz. do { (p, h) \<leftarrow> h_malloc H (kheap s) sz; Some (p, s\<lparr>kheap := h\<rparr>) }),
      h_realloc = (\<lambda>s p sz. do { (p, h) \<leftarrow> h_realloc H (kheap s) p sz; Some (p, s\<lparr>kheap := h\<rparr>) }),
      h_free = (\<lambda>s p. do { h \<leftarrow> h_free H (kheap s) p; Some (s\<lparr>kheap := h\<rparr>) }),
      h_mem = (\<lambda>s. h_mem H (kheap s)),
      h_store = (\<lambda>m s. s\<lparr>kheap := h_store H m (kheap s)\<rparr>)\<rparr>"

end
