(* ===== verification/Elf.thy ===== *)
theory Elf
  imports Machine
begin

text \<open>
  The file formats of \<^verbatim>\<open>kernel/includes/main/util/elf/elf.h\<close>. A structure is a datatype with the fields as
  selectors, and a function that reads it from byte memory at the offsets of the C layout. The fields
  of the 32-bit structures have names of their own.
\<close>

datatype Elf64_Ehdr = Elf64_Ehdr
  (e_ident: "u8 list") (e_type: u16) (e_machine: u16) (e_version: u32) (e_entry: u64) (e_phoff: u64) (e_shoff: u64)
  (e_flags: u32) (e_ehsize: u16) (e_phentsize: u16) (e_phnum: u16) (e_shentsize: u16) (e_shnum: u16) (e_shstrndx: u16)

definition sizeof_Elf64_Ehdr :: u64 where "sizeof_Elf64_Ehdr = 64"

definition Elf64_Ehdr_at :: "memory \<Rightarrow> u64 \<Rightarrow> Elf64_Ehdr" where
  "Elf64_Ehdr_at m p = Elf64_Ehdr (map (\<lambda>i. m (p + of_nat i)) [0..<16]) (load16 m (p + 16)) (load16 m (p + 18))
     (load32 m (p + 20)) (load64 m (p + 24)) (load64 m (p + 32)) (load64 m (p + 40)) (load32 m (p + 48))
     (load16 m (p + 52)) (load16 m (p + 54)) (load16 m (p + 56)) (load16 m (p + 58)) (load16 m (p + 60)) (load16 m (p + 62))"

datatype Elf64_Phdr = Elf64_Phdr
  (p_type: u32) (p_flags: u32) (p_offset: u64) (p_vaddr: u64) (p_paddr: u64) (p_filesz: u64) (p_memsz: u64) (p_align: u64)

definition sizeof_Elf64_Phdr :: u64 where "sizeof_Elf64_Phdr = 56"

definition Elf64_Phdr_at :: "memory \<Rightarrow> u64 \<Rightarrow> Elf64_Phdr" where
  "Elf64_Phdr_at m p = Elf64_Phdr (load32 m p) (load32 m (p + 4)) (load64 m (p + 8)) (load64 m (p + 16)) (load64 m (p + 24))
     (load64 m (p + 32)) (load64 m (p + 40)) (load64 m (p + 48))"

datatype Elf64_Shdr = Elf64_Shdr
  (sh_name: u32) (sh_type: u32) (sh_flags: u64) (sh_addr: u64) (sh_offset: u64) (sh_size: u64) (sh_link: u32)
  (sh_info: u32) (sh_addralign: u64) (sh_entsize: u64)

definition sizeof_Elf64_Shdr :: u64 where "sizeof_Elf64_Shdr = 64"

definition Elf64_Shdr_at :: "memory \<Rightarrow> u64 \<Rightarrow> Elf64_Shdr" where
  "Elf64_Shdr_at m p = Elf64_Shdr (load32 m p) (load32 m (p + 4)) (load64 m (p + 8)) (load64 m (p + 16)) (load64 m (p + 24))
     (load64 m (p + 32)) (load32 m (p + 40)) (load32 m (p + 44)) (load64 m (p + 48)) (load64 m (p + 56))"

datatype Elf64_Sym = Elf64_Sym
  (st_name: u32) (st_info: u8) (st_other: u8) (st_shndx: u16) (st_value: u64) (st_sz: u64)

definition sizeof_Elf64_Sym :: u64 where "sizeof_Elf64_Sym = 24"

definition Elf64_Sym_at :: "memory \<Rightarrow> u64 \<Rightarrow> Elf64_Sym" where
  "Elf64_Sym_at m p = Elf64_Sym (load32 m p) (m (p + 4)) (m (p + 5)) (load16 m (p + 6)) (load64 m (p + 8)) (load64 m (p + 16))"

datatype Elf64_Rela = Elf64_Rela (r_offset: u64) (r_info: u64) (r_addend: u64)

definition sizeof_Elf64_Rela :: u64 where "sizeof_Elf64_Rela = 24"

definition Elf64_Rela_at :: "memory \<Rightarrow> u64 \<Rightarrow> Elf64_Rela" where
  "Elf64_Rela_at m p = Elf64_Rela (load64 m p) (load64 m (p + 8)) (load64 m (p + 16))"

datatype Elf32_Ehdr = Elf32_Ehdr
  (e32_ident: "u8 list") (e32_type: u16) (e32_machine: u16) (e32_version: u32) (e32_entry: u32) (e32_phoff: u32)
  (e32_shoff: u32) (e32_flags: u32) (e32_ehsize: u16) (e32_phentsize: u16) (e32_phnum: u16) (e32_shentsize: u16)
  (e32_shnum: u16) (e32_shstrndx: u16)

definition Elf32_Ehdr_at :: "memory \<Rightarrow> u64 \<Rightarrow> Elf32_Ehdr" where
  "Elf32_Ehdr_at m p = Elf32_Ehdr (map (\<lambda>i. m (p + of_nat i)) [0..<16]) (load16 m (p + 16)) (load16 m (p + 18))
     (load32 m (p + 20)) (load32 m (p + 24)) (load32 m (p + 28)) (load32 m (p + 32)) (load32 m (p + 36))
     (load16 m (p + 40)) (load16 m (p + 42)) (load16 m (p + 44)) (load16 m (p + 46)) (load16 m (p + 48)) (load16 m (p + 50))"

datatype Elf32_Phdr = Elf32_Phdr
  (p32_type: u32) (p32_offset: u32) (p32_vaddr: u32) (p32_paddr: u32) (p32_filesz: u32) (p32_memsz: u32) (p32_flags: u32)
  (p32_align: u32)

definition sizeof_Elf32_Phdr :: u64 where "sizeof_Elf32_Phdr = 32"

definition Elf32_Phdr_at :: "memory \<Rightarrow> u64 \<Rightarrow> Elf32_Phdr" where
  "Elf32_Phdr_at m p = Elf32_Phdr (load32 m p) (load32 m (p + 4)) (load32 m (p + 8)) (load32 m (p + 12)) (load32 m (p + 16))
     (load32 m (p + 20)) (load32 m (p + 24)) (load32 m (p + 28))"

definition ELF64_ST_BIND :: "u8 \<Rightarrow> u8" where "ELF64_ST_BIND i = drop_bit 4 i"

definition ELF64_R_SYM :: "u64 \<Rightarrow> u64" where "ELF64_R_SYM i = drop_bit 32 i"

definition ELF64_R_TYPE :: "u64 \<Rightarrow> u64" where "ELF64_R_TYPE i = i AND 0xffffffff"

abbreviation (input) ELFMAG :: cstring where "ELFMAG \<equiv> [0x7f, 0x45, 0x4c, 0x46]"

abbreviation (input) SHF_ALLOC :: u64 where "SHF_ALLOC \<equiv> 0x2"

abbreviation (input) SHN_UNDEF :: u16 where "SHN_UNDEF \<equiv> 0x0000"

abbreviation (input) SHN_ABS :: u16 where "SHN_ABS \<equiv> 0xfff1"

abbreviation (input) ELFCLASS32 :: u8 where "ELFCLASS32 \<equiv> 1"

abbreviation (input) ELFCLASS64 :: u8 where "ELFCLASS64 \<equiv> 2"

abbreviation (input) ET_EXEC :: u16 where "ET_EXEC \<equiv> 2"

abbreviation (input) ET_REL :: u16 where "ET_REL \<equiv> 1"

abbreviation (input) ET_DYN :: u16 where "ET_DYN \<equiv> 3"

abbreviation (input) PT_LOAD :: u32 where "PT_LOAD \<equiv> 1"

abbreviation (input) SHT_SYMTAB :: u32 where "SHT_SYMTAB \<equiv> 2"

abbreviation (input) SHT_RELA :: u32 where "SHT_RELA \<equiv> 4"

abbreviation (input) SHT_NOBITS :: u32 where "SHT_NOBITS \<equiv> 8"

abbreviation (input) R_X86_64_NONE :: u32 where "R_X86_64_NONE \<equiv> 0"

abbreviation (input) R_X86_64_64 :: u32 where "R_X86_64_64 \<equiv> 1"

abbreviation (input) R_X86_64_PC32 :: u32 where "R_X86_64_PC32 \<equiv> 2"

abbreviation (input) R_X86_64_PLT32 :: u32 where "R_X86_64_PLT32 \<equiv> 4"

abbreviation (input) R_X86_64_32 :: u32 where "R_X86_64_32 \<equiv> 10"

abbreviation (input) R_X86_64_32S :: u32 where "R_X86_64_32S \<equiv> 11"

text \<open>\<^verbatim>\<open>elf_info_t\<close> and \<^verbatim>\<open>module_load_info_t\<close> of \<^verbatim>\<open>elf_loader.h\<close>.\<close>

record elf_info_t =
  i_entry :: u64
  i_stack_top :: u64
  i_is_32bit :: int
  i_phnum :: u64
  i_phent :: u64
  i_phoff :: u64
  i_type :: u32
  i_privileged :: int

record module_load_info_t =
  l_image :: u64
  l_image_size :: u64
  l_entry :: u64

end
