(* ===== verification/Elf_Loader.thy ===== *)
theory Elf_Loader
  imports Elf
begin

text \<open>
  The loader of programs, the first part of \<^verbatim>\<open>kernel/main/util/elf/elf_loader.c\<close>.

  Pointers into the file are addresses in byte memory; a header is read from memory where the code reads
  it. Local buffers are arguments. Messages to the serial port are left out. \<open>None\<close> is a kernel
  that does not come back: out of page-table memory, or a file system that does not return.
\<close>

section \<open>Pages of a segment\<close>

definition off_in_page :: "u64 \<Rightarrow> u64" where
  "off_in_page vaddr = vaddr AND (PAGE_SIZE - 1)"

definition num_pages :: "u64 \<Rightarrow> u64 \<Rightarrow> u64" where
  "num_pages vaddr memsz = (memsz + off_in_page vaddr + PAGE_SIZE - 1) div PAGE_SIZE"

text \<open>What page \<open>p\<close> takes from the file: offset in the page, number of bytes, offset in the segment.\<close>

definition page_copy :: "u64 \<Rightarrow> u64 \<Rightarrow> u64 \<Rightarrow> (u64 \<times> u64 \<times> u64) option" where
  "page_copy offs filesz p =
     (let copy_off = (if p = 0 then offs else 0);
          copy_len = PAGE_SIZE - copy_off;
          file_offset_in_seg = (if p = 0 then 0 else p * PAGE_SIZE - offs)
      in if sint file_offset_in_seg < 0 \<or> file_offset_in_seg \<ge> filesz then None
         else
           let file_rem = filesz - file_offset_in_seg
           in if sint file_rem \<le> 0 then None
              else Some (copy_off, if file_rem > copy_len then copy_len else file_rem, file_offset_in_seg))"

definition k_map_page ::
  "'s heap_ops \<Rightarrow> ('p \<Rightarrow> u64 \<times> 'p) \<Rightarrow> u64 \<Rightarrow> u64 \<Rightarrow> u64 \<Rightarrow> ('s, 'p) machine \<Rightarrow> ('s, 'p) machine option" where
  "k_map_page H alloc virt pa flags k = on_vmm H (\<lambda>v. map_page alloc v virt pa flags) k"

text \<open>The body of the loop over the pages; \<open>copy\<close> brings in the bytes of the file.\<close>

definition load_page ::
  "'s heap_ops \<Rightarrow> ('p \<Rightarrow> u64 \<times> 'p) \<Rightarrow> u64 \<Rightarrow> u64 \<Rightarrow> u64 \<Rightarrow>
   (u64 \<Rightarrow> u64 \<Rightarrow> u64 \<Rightarrow> ('s, 'p) machine \<Rightarrow> ('s, 'p) machine option) \<Rightarrow>
   nat \<Rightarrow> ('s, 'p) machine \<Rightarrow> ('s, 'p) machine option" where
  "load_page H alloc flags vaddr filesz copy p k = do {
     let vaddr_aligned = vaddr AND NOT (PAGE_SIZE - 1);
     let (pa, k) = k_palloc alloc k;
     k \<leftarrow> k_map_page H alloc (vaddr_aligned + of_nat p * PAGE_SIZE) pa flags k;
     let dest = phys_to_virt (k_vmm k) pa;
     let k = put_bytes H (memset (bytes_in H k) dest 0 PAGE_SIZE) k;
     (case page_copy (off_in_page vaddr) filesz (of_nat p) of
        None \<Rightarrow> Some k
      | Some (copy_off, actual_copy, file_offset_in_seg) \<Rightarrow> copy (dest + copy_off) actual_copy file_offset_in_seg k) }"

definition copy_from_memory ::
  "'s heap_ops \<Rightarrow> u64 \<Rightarrow> u64 \<Rightarrow> u64 \<Rightarrow> u64 \<Rightarrow> u64 \<Rightarrow> u64 \<Rightarrow> ('s, 'p) machine \<Rightarrow> ('s, 'p) machine option" where
  "copy_from_memory H filedata filedata_len file_offset dest actual_copy file_offset_in_seg k =
     (let src_off = file_offset + file_offset_in_seg
      in Some (if src_off + actual_copy \<le> filedata_len
               then put_bytes H (memcpy (bytes_in H k) dest (filedata + src_off) actual_copy) k
               else k))"

definition map_segment ::
  "'s heap_ops \<Rightarrow> ('p \<Rightarrow> u64 \<times> 'p) \<Rightarrow> u64 \<Rightarrow> u64 \<Rightarrow> u64 \<Rightarrow> u64 \<Rightarrow> u64 \<Rightarrow> u64 \<Rightarrow>
   ('s, 'p) machine \<Rightarrow> ('s, 'p) machine option" where
  "map_segment H alloc vaddr memsz filesz filedata filedata_len file_offset k =
     each (load_page H alloc (PTE_PRESENT OR PTE_WRITABLE OR PTE_USER) vaddr filesz
             (copy_from_memory H filedata filedata_len file_offset))
       [0..<unat (num_pages vaddr memsz)] k"

definition setup_stack ::
  "'s heap_ops \<Rightarrow> ('p \<Rightarrow> u64 \<times> 'p) \<Rightarrow> u64 \<Rightarrow> nat \<Rightarrow> ('s, 'p) machine \<Rightarrow> ('s, 'p) machine option" where
  "setup_stack H alloc stack_base stack_pages k =
     each (\<lambda>i. on_vmm H (\<lambda>v. map_fresh alloc v (stack_base - (of_nat i + 1) * PAGE_SIZE)
                               (PTE_PRESENT OR PTE_WRITABLE OR PTE_USER)))
       [0..<stack_pages] k"

section \<open>Where a program goes\<close>

definition phdr64 :: "memory \<Rightarrow> u64 \<Rightarrow> nat \<Rightarrow> Elf64_Phdr" where
  "phdr64 m phdrs i = Elf64_Phdr_at m (phdrs + of_nat i * sizeof_Elf64_Phdr)"

definition phdr32 :: "memory \<Rightarrow> u64 \<Rightarrow> nat \<Rightarrow> Elf32_Phdr" where
  "phdr32 m phdrs i = Elf32_Phdr_at m (phdrs + of_nat i * sizeof_Elf32_Phdr)"

definition min_vaddr64 :: "memory \<Rightarrow> u64 \<Rightarrow> u16 \<Rightarrow> u64" where
  "min_vaddr64 m phdrs phnum =
     fold (\<lambda>i v. let ph = phdr64 m phdrs i in if p_type ph = PT_LOAD \<and> p_vaddr ph < v then p_vaddr ph else v)
       [0..<unat phnum] (-1)"

definition min_vaddr32 :: "memory \<Rightarrow> u64 \<Rightarrow> u16 \<Rightarrow> u64" where
  "min_vaddr32 m phdrs phnum =
     fold (\<lambda>i v. let ph = phdr32 m phdrs i in if p32_type ph = PT_LOAD \<and> ucast (p32_vaddr ph) < v then ucast (p32_vaddr ph) else v)
       [0..<unat phnum] (-1)"

definition max_vaddr64 :: "memory \<Rightarrow> u64 \<Rightarrow> u16 \<Rightarrow> u64" where
  "max_vaddr64 m phdrs phnum =
     fold (\<lambda>i v. let ph = phdr64 m phdrs i; seg_end = p_vaddr ph + p_memsz ph
                 in if p_type ph = PT_LOAD \<and> seg_end > v then seg_end else v)
       [0..<unat phnum] 0"

text \<open>The sum of the two 32-bit fields wraps before it is widened.\<close>

definition max_vaddr32 :: "memory \<Rightarrow> u64 \<Rightarrow> u16 \<Rightarrow> u64" where
  "max_vaddr32 m phdrs phnum =
     fold (\<lambda>i v. let ph = phdr32 m phdrs i; seg_end = ucast (p32_vaddr ph + p32_memsz ph)
                 in if p32_type ph = PT_LOAD \<and> seg_end > v then seg_end else v)
       [0..<unat phnum] 0"

definition load_flags :: "elf_info_t \<Rightarrow> u64" where
  "load_flags info = (if i_privileged info = 0 then PTE_PRESENT OR PTE_WRITABLE OR PTE_USER else PTE_PRESENT OR PTE_WRITABLE)"

text \<open>The entry point when nothing was relocated or the whole file was.\<close>

definition entry_point :: "u64 \<Rightarrow> u64 \<Rightarrow> u64 \<Rightarrow> u64" where
  "entry_point load_base ent min_vaddr =
     (if load_base \<noteq> 0 then ent + load_base
      else if ent < 0x400000 then if min_vaddr \<ge> 0x400000 then ent + 0x400000 else ent
      else ent)"

section \<open>Loading from a file\<close>

definition read_bytes ::
  "nat option \<Rightarrow> u64 \<Rightarrow> (('s, 'p) machine \<Rightarrow> u64) \<Rightarrow> u64 \<Rightarrow> u64 \<Rightarrow> u64 \<Rightarrow> ('s, 'p) machine \<Rightarrow> ('s, 'p) machine option" where
  "read_bytes mnt inode p_offs dest actual_copy file_offset_in_seg k = do {
     (r, k) \<leftarrow> on_vfs (vfs_read mnt inode dest actual_copy (p_offs k + file_offset_in_seg)) k;
     Some k }"

definition elf64_load_path ::
  "'s heap_ops \<Rightarrow> ('p \<Rightarrow> u64 \<times> 'p) \<Rightarrow> nat option \<Rightarrow> u64 \<Rightarrow> Elf64_Ehdr \<Rightarrow> elf_info_t \<Rightarrow> u64 \<Rightarrow>
   ('s, 'p) machine \<Rightarrow> (int \<times> elf_info_t \<times> ('s, 'p) machine) option" where
  "elf64_load_path H alloc mnt inode ehdr info stack_top k = do {
     let ph_size = ucast (e_phnum ehdr) * sizeof_Elf64_Phdr;
     (phdrs, k) \<leftarrow> k_malloc H ph_size k;
     if phdrs = 0 then Some (-1, info, k)
     else do {
       (r, k) \<leftarrow> on_vfs (vfs_read mnt inode phdrs ph_size (e_phoff ehdr)) k;
       let min_vaddr = min_vaddr64 (bytes_in H k) phdrs (e_phnum ehdr);
       let load_base = (if e_type ehdr = ET_DYN then 0x400000
                        else if min_vaddr < 0x400000 then 0x400000 - min_vaddr else 0);
       k \<leftarrow> each (\<lambda>i k.
           let ph = phdr64 (bytes_in H k) phdrs i; vaddr = p_vaddr ph + load_base
           in if p_type ph \<noteq> PT_LOAD then Some k
              else each (load_page H alloc (load_flags info) vaddr (p_filesz ph)
                     (read_bytes mnt inode (\<lambda>k. p_offset (phdr64 (bytes_in H k) phdrs i))))
                   [0..<unat (num_pages vaddr (p_memsz ph))] k)
         [0..<unat (e_phnum ehdr)] k;
       k \<leftarrow> setup_stack H alloc stack_top 16 k;
       let entry = entry_point load_base (e_entry ehdr) (min_vaddr64 (bytes_in H k) phdrs (e_phnum ehdr));
       let info = info\<lparr>i_entry := entry, i_stack_top := stack_top, i_phnum := ucast (e_phnum ehdr),
                       i_phent := ucast (e_phentsize ehdr), i_phoff := e_phoff ehdr, i_type := ucast (e_type ehdr)\<rparr>;
       k \<leftarrow> k_free H phdrs k;
       Some (0, info, k) } }"

definition elf32_load_path ::
  "'s heap_ops \<Rightarrow> ('p \<Rightarrow> u64 \<times> 'p) \<Rightarrow> nat option \<Rightarrow> u64 \<Rightarrow> Elf32_Ehdr \<Rightarrow> elf_info_t \<Rightarrow> u64 \<Rightarrow>
   ('s, 'p) machine \<Rightarrow> (int \<times> elf_info_t \<times> ('s, 'p) machine) option" where
  "elf32_load_path H alloc mnt inode ehdr info stack_top k = do {
     let ph_size = ucast (e32_phnum ehdr) * sizeof_Elf32_Phdr;
     (phdrs, k) \<leftarrow> k_malloc H ph_size k;
     if phdrs = 0 then Some (-1, info, k)
     else do {
       (r, k) \<leftarrow> on_vfs (vfs_read mnt inode phdrs ph_size (ucast (e32_phoff ehdr))) k;
       let min_vaddr = min_vaddr32 (bytes_in H k) phdrs (e32_phnum ehdr);
       let load_base = (if e32_type ehdr = ET_DYN then 0x400000
                        else if min_vaddr < 0x400000 then 0x400000 - min_vaddr
                        else if e32_entry ehdr < 0x400000 \<and> min_vaddr \<ge> 0x400000 then 0x400000 else 0);
       k \<leftarrow> each (\<lambda>i k.
           let ph = phdr32 (bytes_in H k) phdrs i; vaddr = ucast (p32_vaddr ph) + load_base
           in if p32_type ph \<noteq> PT_LOAD then Some k
              else each (load_page H alloc (load_flags info) vaddr (ucast (p32_filesz ph))
                     (read_bytes mnt inode (\<lambda>k. ucast (p32_offset (phdr32 (bytes_in H k) phdrs i)))))
                   [0..<unat (num_pages vaddr (ucast (p32_memsz ph)))] k)
         [0..<unat (e32_phnum ehdr)] k;
       k \<leftarrow> setup_stack H alloc stack_top 16 k;
       let entry = entry_point load_base (ucast (e32_entry ehdr)) (min_vaddr32 (bytes_in H k) phdrs (e32_phnum ehdr));
       let info = info\<lparr>i_entry := entry, i_stack_top := stack_top, i_phnum := ucast (e32_phnum ehdr),
                       i_phent := ucast (e32_phentsize ehdr), i_phoff := ucast (e32_phoff ehdr),
                       i_type := ucast (e32_type ehdr)\<rparr>;
       k \<leftarrow> k_free H phdrs k;
       Some (0, info, k) } }"

text \<open>\<open>hdr_buf\<close> is the address of the local buffer.\<close>

definition elf_load ::
  "'s heap_ops \<Rightarrow> ('p \<Rightarrow> u64 \<times> 'p) \<Rightarrow> u64 \<Rightarrow> cstring \<Rightarrow> elf_info_t \<Rightarrow> u64 \<Rightarrow>
   ('s, 'p) machine \<Rightarrow> (int \<times> elf_info_t \<times> ('s, 'p) machine) option" where
  "elf_load H alloc hdr_buf path info stack_top k =
     (case vfs_get_root_mount (k_vfs k) of
        None \<Rightarrow> Some (-1, info, k)
      | mnt \<Rightarrow> do {
          (inode, k) \<leftarrow> on_vfs (vfs_path_to_inode mnt path) k;
          if inode = 0 then Some (-1, info, k)
          else do {
            (r, k) \<leftarrow> on_vfs (vfs_read mnt inode hdr_buf sizeof_Elf64_Ehdr 0) k;
            if of_int r \<noteq> sizeof_Elf64_Ehdr then Some (-1, info, k)
            else if \<not> starts_with (bytes_in H k) hdr_buf ELFMAG then Some (-1, info, k)
            else
              let class = bytes_in H k (hdr_buf + 4)
              in if class = ELFCLASS64 then
                   let ehdr = Elf64_Ehdr_at (bytes_in H k) hdr_buf
                   in if e_type ehdr \<noteq> ET_EXEC \<and> e_type ehdr \<noteq> ET_DYN then Some (-1, info, k)
                      else elf64_load_path H alloc mnt inode ehdr (info\<lparr>i_is_32bit := 0\<rparr>) stack_top k
                 else if class = ELFCLASS32 then
                   let ehdr = Elf32_Ehdr_at (bytes_in H k) hdr_buf
                   in if e32_type ehdr \<noteq> ET_EXEC \<and> e32_type ehdr \<noteq> ET_DYN then Some (-1, info, k)
                      else elf32_load_path H alloc mnt inode ehdr (info\<lparr>i_is_32bit := 1\<rparr>) stack_top k
                 else Some (-1, info, k) } })"

section \<open>Loading from memory\<close>

definition load_base_exec :: "u64 \<Rightarrow> u64 \<Rightarrow> u64 \<Rightarrow> u64" where
  "load_base_exec ent min_vaddr max_vaddr =
     (if ent \<ge> min_vaddr \<and> ent < max_vaddr then 0
      else if ent < min_vaddr then 0x400000 - min_vaddr
      else if min_vaddr < 0x400000 then 0x400000 - min_vaddr else 0)"

text \<open>The loops over the program headers, which stop at a segment outside the file: True when they reach the end.\<close>

primrec map_segments64 ::
  "'s heap_ops \<Rightarrow> ('p \<Rightarrow> u64 \<times> 'p) \<Rightarrow> u64 \<Rightarrow> u64 \<Rightarrow> u64 \<Rightarrow> u64 \<Rightarrow> nat list \<Rightarrow>
   ('s, 'p) machine \<Rightarrow> (bool \<times> ('s, 'p) machine) option" where
  "map_segments64 H alloc buf sz phdrs load_base [] k = Some (True, k)"
| "map_segments64 H alloc buf sz phdrs load_base (i # is) k =
     (let ph = phdr64 (bytes_in H k) phdrs i
      in if p_type ph \<noteq> PT_LOAD then map_segments64 H alloc buf sz phdrs load_base is k
         else if p_offset ph + p_filesz ph > sz then Some (False, k)
         else do {
           k \<leftarrow> map_segment H alloc (p_vaddr ph + load_base) (p_memsz ph) (p_filesz ph) buf sz (p_offset ph) k;
           map_segments64 H alloc buf sz phdrs load_base is k })"

primrec map_segments32 ::
  "'s heap_ops \<Rightarrow> ('p \<Rightarrow> u64 \<times> 'p) \<Rightarrow> u64 \<Rightarrow> u64 \<Rightarrow> u64 \<Rightarrow> u64 \<Rightarrow> nat list \<Rightarrow>
   ('s, 'p) machine \<Rightarrow> (bool \<times> ('s, 'p) machine) option" where
  "map_segments32 H alloc buf sz phdrs load_base [] k = Some (True, k)"
| "map_segments32 H alloc buf sz phdrs load_base (i # is) k =
     (let ph = phdr32 (bytes_in H k) phdrs i
      in if p32_type ph \<noteq> PT_LOAD then map_segments32 H alloc buf sz phdrs load_base is k
         else if ucast (p32_offset ph) + ucast (p32_filesz ph) > sz then Some (False, k)
         else do {
           k \<leftarrow> map_segment H alloc (ucast (p32_vaddr ph) + load_base) (ucast (p32_memsz ph)) (ucast (p32_filesz ph)) buf sz
                 (ucast (p32_offset ph)) k;
           map_segments32 H alloc buf sz phdrs load_base is k })"

definition load_memory64 ::
  "'s heap_ops \<Rightarrow> ('p \<Rightarrow> u64 \<times> 'p) \<Rightarrow> u64 \<Rightarrow> u64 \<Rightarrow> elf_info_t \<Rightarrow>
   ('s, 'p) machine \<Rightarrow> (int \<times> elf_info_t \<times> ('s, 'p) machine) option" where
  "load_memory64 H alloc buf sz info k =
     (let ehdr = Elf64_Ehdr_at (bytes_in H k) buf
      in if e_type ehdr \<noteq> ET_EXEC \<and> e_type ehdr \<noteq> ET_DYN then Some (-1, info, k)
         else if e_phoff ehdr + ucast (e_phnum ehdr) * sizeof_Elf64_Phdr > sz then Some (-1, info, k)
         else do {
           let phdrs = buf + e_phoff ehdr;
           let load_base = (if e_type ehdr = ET_DYN then 0x400000
                            else load_base_exec (e_entry ehdr) (min_vaddr64 (bytes_in H k) phdrs (e_phnum ehdr))
                                   (max_vaddr64 (bytes_in H k) phdrs (e_phnum ehdr)));
           (ok, k) \<leftarrow> map_segments64 H alloc buf sz phdrs load_base [0..<unat (e_phnum ehdr)] k;
           if \<not> ok then Some (-1, info, k)
           else
             let entry = (if load_base \<noteq> 0 then e_entry ehdr + load_base
                          else if e_entry ehdr < 0x400000 then e_entry ehdr + 0x400000 else e_entry ehdr)
             in Some (0, info\<lparr>i_entry := entry, i_stack_top := 0x700000000000, i_is_32bit := 0,
                              i_phnum := ucast (e_phnum ehdr), i_phent := ucast (e_phentsize ehdr),
                              i_phoff := e_phoff ehdr, i_type := ucast (e_type ehdr)\<rparr>, k) })"

definition load_memory32 ::
  "'s heap_ops \<Rightarrow> ('p \<Rightarrow> u64 \<times> 'p) \<Rightarrow> u64 \<Rightarrow> u64 \<Rightarrow> elf_info_t \<Rightarrow>
   ('s, 'p) machine \<Rightarrow> (int \<times> elf_info_t \<times> ('s, 'p) machine) option" where
  "load_memory32 H alloc buf sz info k =
     (let ehdr = Elf32_Ehdr_at (bytes_in H k) buf
      in if e32_type ehdr \<noteq> ET_EXEC \<and> e32_type ehdr \<noteq> ET_DYN then Some (-1, info, k)
         else if ucast (e32_phoff ehdr) + ucast (e32_phnum ehdr) * sizeof_Elf32_Phdr > sz then Some (-1, info, k)
         else do {
           let phdrs = buf + ucast (e32_phoff ehdr);
           let load_base = (if e32_type ehdr = ET_DYN then 0x400000
                            else load_base_exec (ucast (e32_entry ehdr)) (min_vaddr32 (bytes_in H k) phdrs (e32_phnum ehdr))
                                   (max_vaddr32 (bytes_in H k) phdrs (e32_phnum ehdr)));
           (ok, k) \<leftarrow> map_segments32 H alloc buf sz phdrs load_base [0..<unat (e32_phnum ehdr)] k;
           if \<not> ok then Some (-1, info, k)
           else do {
             let stack_base = 0xC0000000;
             k \<leftarrow> setup_stack H alloc stack_base 16 k;
             let entry = entry_point load_base (ucast (e32_entry ehdr)) (min_vaddr32 (bytes_in H k) phdrs (e32_phnum ehdr));
             Some (0, info\<lparr>i_entry := entry, i_stack_top := stack_base, i_is_32bit := 1,
                              i_phnum := ucast (e32_phnum ehdr), i_phent := ucast (e32_phentsize ehdr),
                              i_phoff := ucast (e32_phoff ehdr), i_type := ucast (e32_type ehdr)\<rparr>, k) } })"

definition elf_load_from_memory ::
  "'s heap_ops \<Rightarrow> ('p \<Rightarrow> u64 \<times> 'p) \<Rightarrow> u64 \<Rightarrow> u64 \<Rightarrow> elf_info_t \<Rightarrow>
   ('s, 'p) machine \<Rightarrow> (int \<times> elf_info_t \<times> ('s, 'p) machine) option" where
  "elf_load_from_memory H alloc address sz info k =
     (if sz < sizeof_Elf64_Ehdr then Some (-1, info, k)
      else if \<not> starts_with (bytes_in H k) address ELFMAG then Some (-1, info, k)
      else
        let class = bytes_in H k (address + 4)
        in if class = ELFCLASS64 then load_memory64 H alloc address sz info k
           else if class = ELFCLASS32 then load_memory32 H alloc address sz info k
           else Some (-1, info, k))"

end
