(* ===== verification/Modules.thy ===== *)
theory Modules
  imports Elf_Loader
begin

text \<open>
  Kernel modules: the symbol tables of \<^verbatim>\<open>kernel/main/module/ksym.c\<close> and \<^verbatim>\<open>modsym.c\<close>, and the loader of
  relocatable files, the second part of \<^verbatim>\<open>kernel/main/util/elf/elf_loader.c\<close>.

  The table of module symbols is in heap memory. The addresses of the kernel's own functions are
  chosen by the linker: they are the argument \<open>kaddr\<close>. An unterminated string or an allocator that halts
  is the value \<open>None\<close>.
\<close>

section \<open>Symbols of the kernel\<close>

definition ksym_table :: "string list" where
  "ksym_table =
    [''kprintf'', ''serial_printf'', ''malloc'', ''calloc'', ''realloc'', ''free'', ''memcpy'', ''memset'', ''memcmp'',
     ''strlen'', ''strcpy'', ''strncpy'', ''strcmp'', ''strncmp'', ''strstr'', ''strchr'', ''serial_write'', ''outb'',
     ''outw'', ''outl'', ''inb'', ''inw'', ''inl'', ''log_to_terminal'', ''palloc_order'', ''pfree_order'', ''palloc'',
     ''phys_to_virt'', ''virt_to_phys'', ''phys_flush_cache'', ''phys_invalidate_cache'', ''udelay'', ''pfree'',
     ''map_page'', ''get_time_ms'', ''ISR_RegisterHandler'', ''strrchr'', ''vfs_register_filesystem'', ''vfs_mount'',
     ''vfs_unmount'', ''vfs_get_root_mount'', ''vfs_read'', ''vfs_write'', ''vfs_listdir'', ''vfs_path_to_inode'',
     ''vfs_create'', ''vfs_mkdir'', ''vfs_remove'', ''vfs_rename'', ''vfs_stat'', ''vfs_get_mount_for_path'']"

text \<open>\<^verbatim>\<open>strcmp\<close> of a literal with the string at \<open>name\<close> gives 0 exactly when that string is the literal.\<close>

definition ksym_lookup :: "(string \<Rightarrow> u64) \<Rightarrow> memory \<Rightarrow> u64 \<Rightarrow> u64" where
  "ksym_lookup kaddr m name =
     (case List.find (\<lambda>n. cstr m name (str n)) ksym_table of None \<Rightarrow> 0 | Some n \<Rightarrow> kaddr n)"

section \<open>Symbols of modules\<close>

definition sizeof_modsym_entry :: u64 where "sizeof_modsym_entry = 16"

definition push_sym :: "'s heap_ops \<Rightarrow> u64 \<Rightarrow> u64 \<Rightarrow> ('s, 'p) machine \<Rightarrow> ('s, 'p) machine option" where
  "push_sym H name addr k = do {
     (ok, k) \<leftarrow>
       (if sym_count k \<ge> sym_cap k then do {
          let new_cap = (if sym_cap k \<noteq> 0 then sym_cap k * 2 else 64);
          (grown, k) \<leftarrow> k_realloc H (sym_table k) (new_cap * sizeof_modsym_entry) k;
          Some (if grown = 0 then (False, k) else (True, k\<lparr>sym_table := grown, sym_cap := new_cap\<rparr>)) }
        else Some (True, k));
     if \<not> ok then Some k
     else do {
       len \<leftarrow> strlen (bytes_in H k) name;
       (name_copy, k) \<leftarrow> k_malloc H (len + 1) k;
       if name_copy = 0 then Some k
       else do {
         m \<leftarrow> strcpy (bytes_in H k) name_copy name;
         let e = sym_table k + sym_count k * sizeof_modsym_entry;
         let m = store64 (store64 m e name_copy) (e + 8) addr;
         Some ((put_bytes H m k)\<lparr>sym_count := sym_count k + 1\<rparr>) } } }"

definition shdr :: "memory \<Rightarrow> u64 \<Rightarrow> nat \<Rightarrow> Elf64_Shdr" where
  "shdr m shdrs i = Elf64_Shdr_at m (shdrs + of_nat i * sizeof_Elf64_Shdr)"

definition sym_at :: "memory \<Rightarrow> u64 \<Rightarrow> nat \<Rightarrow> Elf64_Sym" where
  "sym_at m syms j = Elf64_Sym_at m (syms + of_nat j * sizeof_Elf64_Sym)"

text \<open>The guards of the loop over the symbols: what a module exports.\<close>

definition exported :: "memory \<Rightarrow> u16 \<Rightarrow> u64 \<Rightarrow> Elf64_Sym \<Rightarrow> bool" where
  "exported m shnum strtab sy \<longleftrightarrow>
     st_shndx sy \<noteq> SHN_UNDEF \<and> st_shndx sy \<noteq> SHN_ABS \<and> ELF64_ST_BIND (st_info sy) \<noteq> 0 \<and> st_shndx sy < shnum \<and>
     strtab + ucast (st_name sy) \<noteq> 0 \<and> m (strtab + ucast (st_name sy)) \<noteq> 0"

definition modsym_register ::
  "'s heap_ops \<Rightarrow> u64 \<Rightarrow> u64 \<Rightarrow> u16 \<Rightarrow> u64 \<Rightarrow> ('s, 'p) machine \<Rightarrow> ('s, 'p) machine option" where
  "modsym_register H buf img shnum shdrs k =
     (case List.find (\<lambda>i. sh_type (shdr (bytes_in H k) shdrs i) = SHT_SYMTAB) [0..<unat shnum] of
        None \<Rightarrow> Some k
      | Some i \<Rightarrow>
          (let sh = shdr (bytes_in H k) shdrs i;
               syms = buf + sh_offset sh;
               strtab = buf + sh_offset (shdr (bytes_in H k) shdrs (unat (sh_link sh)));
               nsym = sh_size sh div sizeof_Elf64_Sym
           in each (\<lambda>j k.
                let sy = sym_at (bytes_in H k) syms j
                in if exported (bytes_in H k) shnum strtab sy
                   then push_sym H (strtab + ucast (st_name sy))
                          (img + sh_addr (shdr (bytes_in H k) shdrs (unat (st_shndx sy))) + st_value sy) k
                   else Some k)
              [1..<unat nsym] k))"

primrec modsym_lookup_loop :: "memory \<Rightarrow> u64 \<Rightarrow> u64 \<Rightarrow> nat list \<Rightarrow> u64 option" where
  "modsym_lookup_loop m table name [] = Some 0"
| "modsym_lookup_loop m table name (i # is) = do {
     let e = table + of_nat i * sizeof_modsym_entry;
     r \<leftarrow> strcmp m (load64 m e) name;
     if r = 0 then Some (load64 m (e + 8)) else modsym_lookup_loop m table name is }"

definition modsym_lookup :: "'s heap_ops \<Rightarrow> u64 \<Rightarrow> ('s, 'p) machine \<Rightarrow> u64 option" where
  "modsym_lookup H name k = modsym_lookup_loop (bytes_in H k) (sym_table k) name [0..<unat (sym_count k)]"

section \<open>The image of a module\<close>

definition mod_align_up :: "u64 \<Rightarrow> u64 \<Rightarrow> u64" where
  "mod_align_up val align = (if align \<le> 1 then val else (val + align - 1) AND NOT (align - 1))"

definition is_alloc :: "Elf64_Shdr \<Rightarrow> bool" where
  "is_alloc sh \<longleftrightarrow> sh_flags sh AND SHF_ALLOC \<noteq> 0"

text \<open>The first loop over the sections gives every allocated section its offset in the image.\<close>

definition layout_section :: "u64 \<Rightarrow> nat \<Rightarrow> memory \<times> u64 \<Rightarrow> memory \<times> u64" where
  "layout_section shdrs i ms =
     (let (m, image_size) = ms; sh = shdr m shdrs i
      in if \<not> is_alloc sh then (m, image_size)
         else
           let image_size = mod_align_up image_size (sh_addralign sh);
               m = store64 m (shdrs + of_nat i * sizeof_Elf64_Shdr + 16) image_size
           in (m, image_size + sh_size (shdr m shdrs i)))"

definition layout :: "memory \<Rightarrow> u64 \<Rightarrow> u16 \<Rightarrow> memory \<times> u64" where
  "layout m shdrs shnum = fold (layout_section shdrs) [0..<unat shnum] (m, 0)"

definition copy_section :: "u64 \<Rightarrow> u64 \<Rightarrow> u64 \<Rightarrow> nat \<Rightarrow> memory \<Rightarrow> memory" where
  "copy_section buf img shdrs i m =
     (let sh = shdr m shdrs i
      in if \<not> is_alloc sh \<or> sh_type sh = SHT_NOBITS then m
         else memcpy m (img + sh_addr sh) (buf + sh_offset sh) (sh_size sh))"

section \<open>Relocation\<close>

text \<open>The address of a symbol, or \<open>None\<close> inside when it is not defined anywhere.\<close>

definition mod_resolve_sym ::
  "(string \<Rightarrow> u64) \<Rightarrow> 's heap_ops \<Rightarrow> u64 \<Rightarrow> u16 \<Rightarrow> u64 \<Rightarrow> Elf64_Sym \<Rightarrow> u64 \<Rightarrow> ('s, 'p) machine \<Rightarrow> u64 option option" where
  "mod_resolve_sym kaddr H img shnum shdrs sy strtab k =
     (if st_shndx sy = SHN_UNDEF then do {
        let name = strtab + ucast (st_name sy);
        let addr = ksym_lookup kaddr (bytes_in H k) name;
        addr \<leftarrow> (if addr = 0 then modsym_lookup H name k else Some addr);
        Some (if addr = 0 then None else Some addr) }
      else if st_shndx sy = SHN_ABS then Some (Some (st_value sy))
      else if st_shndx sy \<ge> shnum then Some None
      else Some (Some (img + sh_addr (shdr (bytes_in H k) shdrs (unat (st_shndx sy))) + st_value sy)))"

definition mod_apply_rela :: "memory \<Rightarrow> u64 \<Rightarrow> u64 \<Rightarrow> u64 \<Rightarrow> u32 \<Rightarrow> memory" where
  "mod_apply_rela m patch S A r_type =
     (if r_type = R_X86_64_NONE then m
      else if r_type = R_X86_64_64 then store64 m patch (S + A)
      else if r_type = R_X86_64_32 then store32 m patch (ucast (S + A))
      else if r_type = R_X86_64_32S then store32 m patch (ucast (S + A))
      else if r_type = R_X86_64_PC32 \<or> r_type = R_X86_64_PLT32 then store32 m patch (ucast (S + A - patch))
      else m)"

text \<open>The loop over the relocations of a section: False when a symbol is not defined.\<close>

primrec apply_relas ::
  "(string \<Rightarrow> u64) \<Rightarrow> 's heap_ops \<Rightarrow> u64 \<Rightarrow> u16 \<Rightarrow> u64 \<Rightarrow> u64 \<Rightarrow> u64 \<Rightarrow> u64 \<Rightarrow> u64 \<Rightarrow> nat list \<Rightarrow>
   ('s, 'p) machine \<Rightarrow> (bool \<times> ('s, 'p) machine) option" where
  "apply_relas kaddr H img shnum shdrs target symtab strtab relas [] k = Some (True, k)"
| "apply_relas kaddr H img shnum shdrs target symtab strtab relas (j # js) k = do {
     let rela = Elf64_Rela_at (bytes_in H k) (relas + of_nat j * sizeof_Elf64_Rela);
     let sym_idx = (ucast (ELF64_R_SYM (r_info rela)) :: u32);
     let rtype = (ucast (ELF64_R_TYPE (r_info rela)) :: u32);
     r \<leftarrow> (if sym_idx \<noteq> 0
           then mod_resolve_sym kaddr H img shnum shdrs (sym_at (bytes_in H k) symtab (unat sym_idx)) strtab k
           else Some (Some 0));
     case r of
       None \<Rightarrow> Some (False, k)
     | Some sym_val \<Rightarrow>
         (let patch = img + sh_addr (Elf64_Shdr_at (bytes_in H k) target) + r_offset rela
          in apply_relas kaddr H img shnum shdrs target symtab strtab relas js
               (put_bytes H (mod_apply_rela (bytes_in H k) patch sym_val (r_addend rela) rtype) k)) }"

primrec relocate ::
  "(string \<Rightarrow> u64) \<Rightarrow> 's heap_ops \<Rightarrow> u64 \<Rightarrow> u64 \<Rightarrow> u16 \<Rightarrow> u64 \<Rightarrow> nat list \<Rightarrow>
   ('s, 'p) machine \<Rightarrow> (bool \<times> ('s, 'p) machine) option" where
  "relocate kaddr H buf img shnum shdrs [] k = Some (True, k)"
| "relocate kaddr H buf img shnum shdrs (i # is) k = do {
     let m = bytes_in H k;
     let sh = shdr m shdrs i;
     let symtab_shdr = shdr m shdrs (unat (sh_link sh));
     if sh_type sh \<noteq> SHT_RELA \<or> sh_info sh \<ge> ucast shnum \<or> sh_link sh \<ge> ucast shnum \<or>
        \<not> is_alloc (shdr m shdrs (unat (sh_info sh))) \<or> sh_link symtab_shdr \<ge> ucast shnum
     then relocate kaddr H buf img shnum shdrs is k
     else do {
       (ok, k) \<leftarrow> apply_relas kaddr H img shnum shdrs (shdrs + ucast (sh_info sh) * sizeof_Elf64_Shdr)
                   (buf + sh_offset symtab_shdr) (buf + sh_offset (shdr m shdrs (unat (sh_link symtab_shdr))))
                   (buf + sh_offset sh) [0..<unat (sh_size sh div sizeof_Elf64_Rela)] k;
       if \<not> ok then Some (False, k) else relocate kaddr H buf img shnum shdrs is k } }"

section \<open>Loading a module\<close>

text \<open>The address of \<^verbatim>\<open>module_init\<close>, 0 when no symbol table has it.\<close>

definition find_entry :: "memory \<Rightarrow> u64 \<Rightarrow> u64 \<Rightarrow> u16 \<Rightarrow> u64 \<Rightarrow> nat \<Rightarrow> u64" where
  "find_entry m buf img shnum shdrs i =
     (let sh = shdr m shdrs i;
          syms = buf + sh_offset sh;
          strtab = buf + sh_offset (shdr m shdrs (unat (sh_link sh)))
      in case List.find (\<lambda>j. let sy = sym_at m syms j
                             in st_shndx sy \<noteq> SHN_UNDEF \<and> st_shndx sy < shnum \<and>
                                cstr m (strtab + ucast (st_name sy)) (str ''module_init''))
                [0..<unat (sh_size sh div sizeof_Elf64_Sym)] of
           None \<Rightarrow> 0
         | Some j \<Rightarrow> (let sy = sym_at m syms j in img + sh_addr (shdr m shdrs (unat (st_shndx sy))) + st_value sy))"

primrec module_entry :: "memory \<Rightarrow> u64 \<Rightarrow> u64 \<Rightarrow> u16 \<Rightarrow> u64 \<Rightarrow> nat list \<Rightarrow> u64" where
  "module_entry m buf img shnum shdrs [] = 0"
| "module_entry m buf img shnum shdrs (i # is) =
     (if sh_type (shdr m shdrs i) \<noteq> SHT_SYMTAB then module_entry m buf img shnum shdrs is
      else
        let entry = find_entry m buf img shnum shdrs i
        in if entry \<noteq> 0 then entry else module_entry m buf img shnum shdrs is)"

text \<open>The checks of the header of a file of \<open>sz\<close> bytes at \<open>buf\<close>.\<close>

definition is_module :: "memory \<Rightarrow> u64 \<Rightarrow> u64 \<Rightarrow> bool" where
  "is_module m buf sz \<longleftrightarrow>
     (let ehdr = Elf64_Ehdr_at m buf
      in sz \<ge> sizeof_Elf64_Ehdr \<and> take 4 (e_ident ehdr) = ELFMAG \<and> e_ident ehdr ! 4 = ELFCLASS64 \<and>
         e_type ehdr = ET_REL \<and> \<not> (e_shoff ehdr = 0 \<or> e_shnum ehdr = 0))"

definition free_all :: "'s heap_ops \<Rightarrow> u64 list \<Rightarrow> ('s, 'p) machine \<Rightarrow> (int \<times> 'a option \<times> ('s, 'p) machine) option" where
  "free_all H ps k = do { k \<leftarrow> each (k_free H) ps k; Some (-1, None, k) }"

definition place_module ::
  "(string \<Rightarrow> u64) \<Rightarrow> 's heap_ops \<Rightarrow> u64 \<Rightarrow> ('s, 'p) machine \<Rightarrow> (int \<times> module_load_info_t option \<times> ('s, 'p) machine) option" where
  "place_module kaddr H buf k = do {
     let ehdr = Elf64_Ehdr_at (bytes_in H k) buf;
     let shnum = e_shnum ehdr;
     let shdrs = buf + e_shoff ehdr;
     let (m, image_size) = layout (bytes_in H k) shdrs shnum;
     let k = put_bytes H m k;
     if image_size = 0 then free_all H [buf] k
     else do {
       (img, k) \<leftarrow> k_malloc H image_size k;
       if img = 0 then free_all H [buf] k
       else do {
         let k = put_bytes H (memset (bytes_in H k) img 0 image_size) k;
         let k = put_bytes H (fold (copy_section buf img shdrs) [0..<unat shnum] (bytes_in H k)) k;
         (ok, k) \<leftarrow> relocate kaddr H buf img shnum shdrs [0..<unat shnum] k;
         if \<not> ok then free_all H [img, buf] k
         else do {
           let entry = module_entry (bytes_in H k) buf img shnum shdrs [0..<unat shnum];
           if entry = 0 then free_all H [img, buf] k
           else do {
             k \<leftarrow> modsym_register H buf img shnum shdrs k;
             k \<leftarrow> k_free H buf k;
             Some (0, Some \<lparr>l_image = img, l_image_size = image_size, l_entry = entry\<rparr>, k) } } } } }"

definition empty_stat :: vfs_stat_t where
  "empty_stat = \<lparr>st_inode = 0, st_size = 0, st_type = 0, st_permissions = 0, st_uid = 0, st_gid = 0, st_atime = 0,
     st_mtime = 0, st_ctime = 0\<rparr>"

text \<open>The result and, when it is 0, the contents of \<^verbatim>\<open>*out\<close>.\<close>

definition elf_load_module ::
  "(string \<Rightarrow> u64) \<Rightarrow> 's heap_ops \<Rightarrow> cstring \<Rightarrow> ('s, 'p) machine \<Rightarrow>
   (int \<times> module_load_info_t option \<times> ('s, 'p) machine) option" where
  "elf_load_module kaddr H path k =
     (case vfs_get_root_mount (k_vfs k) of
        None \<Rightarrow> Some (-1, None, k)
      | mnt \<Rightarrow> do {
          (inode, k) \<leftarrow> on_vfs (vfs_path_to_inode mnt path) k;
          if inode = 0 then Some (-1, None, k)
          else do {
            ((r, st), k) \<leftarrow> on_vfs (\<lambda>v. do { (r, st, v) \<leftarrow> vfs_stat mnt inode empty_stat v; Some ((r, st), v) }) k;
            if r \<noteq> 0 \<or> st_size st = 0 then Some (-1, None, k)
            else do {
              (buf, k) \<leftarrow> k_malloc H (st_size st) k;
              if buf = 0 then Some (-1, None, k)
              else do {
                (r, k) \<leftarrow> on_vfs (vfs_read mnt inode buf (st_size st) 0) k;
                if of_int r \<noteq> st_size st then free_all H [buf] k
                else if \<not> is_module (bytes_in H k) buf (st_size st) then free_all H [buf] k
                else place_module kaddr H buf k } } } })"

end
