(* ===== verification/Kernel_Modules.thy ===== *)
theory Kernel_Modules
  imports Modules
begin

text \<open>
  Loading the modules at boot, \<^verbatim>\<open>kernel/main/kernel.c\<close>.

  \<^verbatim>\<open>loaded_modules\<close> holds pointers, so a path is a reference: a literal, or the static buffer
  \<^verbatim>\<open>full_path\<close>, whose contents are part of the state. \<^verbatim>\<open>snprintf\<close> into that buffer keeps the first 511
  bytes. \<open>init\<close> is the code of a module, which may change everything but the static variables of the file.
\<close>

datatype path_ref = Literal cstring | Full_path

record ('s, 'p) kernel =
  km :: "('s, 'p) machine"
  loaded_modules :: "path_ref list"
  full_path :: cstring
  entries :: "vfs_dirent_t list"

abbreviation (input) MAX_LOADED_MODULES :: nat where "MAX_LOADED_MODULES \<equiv> 10000"

definition get_physical_core_count :: "(u32 \<Rightarrow> u32 \<Rightarrow> u32 \<times> u32 \<times> u32 \<times> u32) \<Rightarrow> cstring \<Rightarrow> u32" where
  "get_physical_core_count cpuid vendor =
     (if vendor = str ''GenuineIntel'' then
        (let (eax, ebx, ecx, edx) = cpuid 4 0 in (drop_bit 26 eax AND 0x3F) + 1)
      else if vendor = str ''AuthenticAMD'' then
        (let (eax, ebx, ecx, edx) = cpuid 0x80000008 0 in (ecx AND 0xFF) + 1)
      else 1)"

fun deref :: "('s, 'p) kernel \<Rightarrow> path_ref \<Rightarrow> cstring" where
  "deref k (Literal s) = s"
| "deref k Full_path = full_path k"

definition module_already_loaded :: "('s, 'p) kernel \<Rightarrow> path_ref \<Rightarrow> bool" where
  "module_already_loaded k path \<longleftrightarrow> list_ex (\<lambda>p. deref k p = deref k path) (loaded_modules k)"

definition load_module ::
  "(string \<Rightarrow> u64) \<Rightarrow> 's heap_ops \<Rightarrow> (u64 \<Rightarrow> ('s, 'p) machine \<Rightarrow> ('s, 'p) machine option) \<Rightarrow> path_ref \<Rightarrow>
   ('s, 'p) kernel \<Rightarrow> ('s, 'p) kernel option" where
  "load_module kaddr H init path k =
     (if module_already_loaded k path then Some k
      else do {
        (r, info, m) \<leftarrow> elf_load_module kaddr H (deref k path) (km k);
        let k = k\<lparr>km := m\<rparr>;
        if r = 0 then do {
          let k = (if length (loaded_modules k) < MAX_LOADED_MODULES
                   then k\<lparr>loaded_modules := loaded_modules k @ [path]\<rparr> else k);
          m \<leftarrow> init (l_entry (the info)) (km k);
          Some (k\<lparr>km := m\<rparr>) }
        else Some k })"

definition is_elf_name :: "cstring \<Rightarrow> bool" where
  "is_elf_name nm \<longleftrightarrow> length nm > 4 \<and> drop (length nm - 4) nm = str ''.elf''"

definition join_path :: "cstring \<Rightarrow> cstring \<Rightarrow> cstring" where
  "join_path path nm =
     take 511 (if char_at path (length path - 1) = of_char (CHR ''/'') then path @ nm else path @ str ''/'' @ nm)"

text \<open>The body of the loop of \<^verbatim>\<open>load_elfs_in_dir\<close>; \<open>nested\<close> is the recursive call on \<^verbatim>\<open>full_path\<close>.\<close>

definition visit_entry ::
  "(string \<Rightarrow> u64) \<Rightarrow> 's heap_ops \<Rightarrow> (u64 \<Rightarrow> ('s, 'p) machine \<Rightarrow> ('s, 'p) machine option) \<Rightarrow> path_ref \<Rightarrow>
   (('s, 'p) kernel \<Rightarrow> ('s, 'p) kernel option) \<Rightarrow> nat \<Rightarrow> ('s, 'p) kernel \<Rightarrow> ('s, 'p) kernel option" where
  "visit_entry kaddr H init path nested i k =
     (let e = entries k ! i; k = k\<lparr>full_path := join_path (deref k path) (d_name e)\<rparr>
      in if d_type e = VFS_TYPE_DIR then nested k
         else if d_type e = VFS_TYPE_FILE then
           if is_elf_name (d_name e) then load_module kaddr H init Full_path k else Some k
         else Some k)"

text \<open>
  \<^verbatim>\<open>load_elfs_in_dir\<close> with a bound on the depth of the directories; \<open>None\<close> when it is reached. The
  entries are a static array, which a nested call overwrites.
\<close>

primrec load_elfs_in_dir ::
  "(string \<Rightarrow> u64) \<Rightarrow> 's heap_ops \<Rightarrow> (u64 \<Rightarrow> ('s, 'p) machine \<Rightarrow> ('s, 'p) machine option) \<Rightarrow> nat option \<Rightarrow> nat \<Rightarrow> path_ref \<Rightarrow>
   ('s, 'p) kernel \<Rightarrow> ('s, 'p) kernel option" where
  "load_elfs_in_dir kaddr H init mnt 0 path k = None"
| "load_elfs_in_dir kaddr H init mnt (Suc depth) path k = do {
     (inode, m) \<leftarrow> on_vfs (vfs_path_to_inode mnt (deref k path)) (km k);
     let k = k\<lparr>km := m\<rparr>;
     if inode = 0 then Some k
     else do {
       ((count, ents), m) \<leftarrow> on_vfs (\<lambda>v. do { (r, es, v) \<leftarrow> vfs_listdir mnt inode 64 v; Some ((r, es), v) }) (km k);
       let k = k\<lparr>km := m, entries := ents @ drop (length ents) (entries k)\<rparr>;
       if count < 0 then Some k
       else each (visit_entry kaddr H init path (load_elfs_in_dir kaddr H init mnt depth Full_path))
         [0..<nat count] k } }"

definition priority_modules :: "path_ref list" where
  "priority_modules = map (Literal \<circ> str) [''/apic/apic.elf'', ''/storage/storage.elf'', ''/pci/pci.elf'']"

text \<open>The part of \<^verbatim>\<open>kmain\<close> after \<^verbatim>\<open>initramfs_init\<close>, up to \<^verbatim>\<open>sched_init\<close>.\<close>

definition load_all_modules ::
  "(string \<Rightarrow> u64) \<Rightarrow> 's heap_ops \<Rightarrow> (u64 \<Rightarrow> ('s, 'p) machine \<Rightarrow> ('s, 'p) machine option) \<Rightarrow> nat \<Rightarrow>
   ('s, 'p) kernel \<Rightarrow> ('s, 'p) kernel option" where
  "load_all_modules kaddr H init depth k = do {
     let mnt = vfs_get_root_mount (k_vfs (km k));
     k \<leftarrow> each (load_module kaddr H init) priority_modules k;
     load_elfs_in_dir kaddr H init mnt depth (Literal (str ''/'')) k }"

section \<open>How many modules are loaded\<close>

lemma load_module_loaded:
  assumes "load_module kaddr H init path k = Some k'"
  shows "loaded_modules k' = loaded_modules k \<or>
    loaded_modules k' = loaded_modules k @ [path] \<and> path \<notin> set (loaded_modules k)"
proof (cases "module_already_loaded k path")
  case True
  then show ?thesis using assms by (simp add: load_module_def)
next
  case False
  then have "path \<notin> set (loaded_modules k)" by (auto simp: module_already_loaded_def list_ex_iff)
  moreover obtain r info m where "elf_load_module kaddr H (deref k path) (km k) = Some (r, info, m)"
    using assms False by (auto simp: load_module_def bind_eq_Some_conv)
  ultimately show ?thesis
    using assms False by (auto simp: load_module_def bind_eq_Some_conv Let_def split: if_splits)
qed

lemma each_invariant:
  assumes "each f xs k = Some k'" "P k" "\<And>x k k'. P k \<Longrightarrow> f x k = Some k' \<Longrightarrow> P k'"
  shows "P k'"
  using assms(1,2) by (induction xs arbitrary: k) (auto simp: bind_eq_Some_conv dest: assms(3))

lemma load_elfs_invariant:
  assumes "load_elfs_in_dir kaddr H init mnt depth path k = Some k'" "P (loaded_modules k)"
    "\<And>ms. P ms \<Longrightarrow> Full_path \<notin> set ms \<Longrightarrow> P (ms @ [Full_path])"
  shows "P (loaded_modules k')"
  using assms(1,2)
proof (induction depth arbitrary: path k k')
  case (Suc depth)
  have body: "P (loaded_modules k2)"
    if "P (loaded_modules k1)" "visit_entry kaddr H init path (load_elfs_in_dir kaddr H init mnt depth Full_path) i k1 = Some k2"
    for i k1 k2
    using that assms(3) Suc.IH [of Full_path "k1\<lparr>full_path := join_path (deref k1 path) (d_name (entries k1 ! i))\<rparr>" k2]
    by (auto simp: visit_entry_def Let_def split: if_splits dest!: load_module_loaded)
  obtain inode m where i: "on_vfs (vfs_path_to_inode mnt (deref k path)) (km k) = Some (inode, m)"
    using Suc.prems(1) by (auto simp: bind_eq_Some_conv)
  show ?case
  proof (cases "inode = 0")
    case True
    then show ?thesis using Suc.prems i by auto
  next
    case False
    obtain count ents m2 where l: "on_vfs (\<lambda>v. do { (r, es, v) \<leftarrow> vfs_listdir mnt inode 64 v; Some ((r, es), v) }) m =
        Some ((count, ents), m2)"
      using Suc.prems(1) i False by (auto simp: bind_eq_Some_conv)
    define k1 where "k1 = k\<lparr>km := m2, entries := ents @ drop (length ents) (entries k)\<rparr>"
    have "(if count < 0 then Some k1
        else each (visit_entry kaddr H init path (load_elfs_in_dir kaddr H init mnt depth Full_path)) [0..<nat count] k1) = Some k'"
      using Suc.prems(1) i False l by (simp add: k1_def Let_def split: if_splits)
    moreover have "P (loaded_modules k1)" using Suc.prems(2) by (simp add: k1_def)
    ultimately show ?thesis
      using each_invariant [where P = "\<lambda>k. P (loaded_modules k)", OF _ _ body] by (auto split: if_splits)
  qed
qed simp


text \<open>A RAM file system with two modules in its root directory.\<close>

definition demo_kernel :: "(tlsf ramfs_state, unit) kernel" where
  "demo_kernel =
     (let ctx = \<lparr>files = [new_file (str ''/'') 1 VFS_TYPE_DIR, new_file (str ''a.elf'') 2 VFS_TYPE_FILE,
                          new_file (str ''b.elf'') 3 VFS_TYPE_FILE], next_inode = 4\<rparr>;
          st = \<lparr>kheap = \<lparr>tlsf.mem = (\<lambda>_. 0), control = 0, fl_bitmap = 0, sl_bitmap = (\<lambda>_. 0), blocks = (\<lambda>_ _. 0)\<rparr>,
                ctxs = (\<lambda>_. ctx), stack_bytes = []\<rparr>;
          mnt = \<lparr>m_fs = Some (ramfs_fs kernel_heap), fs_ctx = 0, device_ptr = 0, read_cb = 0, write_cb = 0, sector_count = 0\<rparr>
      in \<lparr>km = \<lparr>k_vfs = \<lparr>registered_fs = (\<lambda>_. None), registered_count = 0, mounts = (\<lambda>_. mnt), mount_count = 1,
                         mount_paths = (\<lambda>_. str ''/''), sys = st\<rparr>,
                k_vmm = \<lparr>v_hhdm_offset = 0, kernel_pml4 = 0, mem = (\<lambda>_. 0), pm = (), cr3 = 0, invlpg_log = []\<rparr>,
                sym_table = 0, sym_count = 0, sym_cap = 0\<rparr>,
         loaded_modules = [Full_path], full_path = str ''/a.elf'', entries = []\<rparr>)"


end
