(* ===== verification/Convert.thy ===== *)
theory Convert
  imports Strings
begin

text \<open>
  Conversion between numbers and text, \<^verbatim>\<open>kernel/main/util/util.c\<close>. The buffer that \<^verbatim>\<open>itoa\<close> fills is the
  resulting string. Signed integers are words; \<^verbatim>\<open>int\<close> arithmetic wraps.
\<close>

abbreviation chr :: "char \<Rightarrow> u8" where "chr c \<equiv> of_char c"

definition digit_char :: "u32 \<Rightarrow> u8" where
  "digit_char rem =
     (if sint rem > 9 then ucast (rem - 10) + chr (CHR ''a'') else ucast rem + chr (CHR ''0''))"

text \<open>
  The loop of \<^verbatim>\<open>itoa\<close>, least digit first. The operands of \<^verbatim>\<open>%\<close> and \<^verbatim>\<open>/\<close> are converted to \<^verbatim>\<open>uint32_t\<close>, the type
  of \<^verbatim>\<open>base\<close>. With a base of 1 it does not end and with a base of 0 it traps.
\<close>

partial_function (option) itoa_loop :: "u32 \<Rightarrow> u32 \<Rightarrow> cstring option" where
  "itoa_loop base value =
     (if value \<noteq> 0 then
        if base = 0 then None
        else Option.bind (itoa_loop base (value div base)) (\<lambda>ds. Some (digit_char (value mod base) # ds))
      else Some [])"

declare itoa_loop.simps [code]

definition itoa :: "u32 \<Rightarrow> u32 \<Rightarrow> cstring option" where
  "itoa value base =
     (if value = 0 then Some (str ''0'')
      else
        let isNegative = (sint value < 0 \<and> base = 10);
            value = (if isNegative then - value else value)
        in case itoa_loop base value of
             None \<Rightarrow> None
           | Some ds \<Rightarrow> Some (rev (ds @ (if isNegative then str ''-'' else []))))"

fun skip_space :: "cstring \<Rightarrow> cstring" where
  "skip_space (c # s) = (if c \<in> {chr (CHR '' ''), 9, 10} then skip_space s else c # s)"
| "skip_space [] = []"

fun read_sign :: "cstring \<Rightarrow> bool \<times> cstring" where
  "read_sign (c # s) =
     (if c = chr (CHR ''-'') then (True, s) else if c = chr (CHR ''+'') then (False, s) else (False, c # s))"
| "read_sign [] = (False, [])"

fun read_digits :: "'a::len word \<Rightarrow> cstring \<Rightarrow> 'a word" where
  "read_digits result (c # s) =
     (if c \<ge> chr (CHR ''0'') \<and> c \<le> chr (CHR ''9'') then read_digits (result * 10 + ucast (c - chr (CHR ''0''))) s else result)"
| "read_digits result [] = result"

definition atoi :: "cstring \<Rightarrow> u32" where
  "atoi s = (let (neg, s) = read_sign (skip_space s); result = read_digits 0 s in if neg then - result else result)"

definition atol :: "cstring \<Rightarrow> u64" where
  "atol s = (let (neg, s) = read_sign (skip_space s); result = read_digits 0 s in if neg then - result else result)"

section \<open>Reading back what was printed\<close>

lemma itoa_loop_total: "base \<ge> 2 \<Longrightarrow> \<exists>ds. itoa_loop base v = Some ds"
proof (induction "unat v" arbitrary: v rule: less_induct)
  case less
  show ?case
  proof (cases "v = 0")
    case False
    have "unat base \<ge> 2" using less.prems by (simp add: word_le_nat_alt)
    then have "unat (v div base) < unat v" using False by (simp add: unat_div unat_gt_0)
    then obtain ds where "itoa_loop base (v div base) = Some ds" using less by blast
    moreover have "base \<noteq> 0" using less.prems by auto
    ultimately show ?thesis by (simp add: itoa_loop.simps [of base v])
  qed (simp add: itoa_loop.simps)
qed

lemma digit_char_value:
  assumes "r < 10"
  shows "digit_char r = ucast r + 48" "digit_char r \<ge> 48" "digit_char r \<le> 57" "ucast (digit_char r - 48) = r"
    "digit_char r \<noteq> 0"
proof -
  have "unat r < 10" using assms by (simp add: word_less_nat_alt)
  then have "unat r \<in> {0,1,2,3,4,5,6,7,8,9}" by auto
  then have "r \<in> {0,1,2,3,4,5,6,7,8,9}" by (auto simp: word_unat_eq_iff)
  then have "digit_char r = ucast r + 48 \<and> digit_char r \<ge> 48 \<and> digit_char r \<le> 57 \<and> ucast (digit_char r - 48) = r \<and> digit_char r \<noteq> 0"
    by (auto simp: digit_char_def)
  then show "digit_char r = ucast r + 48" "digit_char r \<ge> 48" "digit_char r \<le> 57" "ucast (digit_char r - 48) = r"
    "digit_char r \<noteq> 0" by blast+
qed

lemma read_digits_append:
  "\<forall>c\<in>set s. 48 \<le> c \<and> c \<le> 57 \<Longrightarrow> read_digits r (s @ t) = read_digits (read_digits r s) t"
  by (induction s arbitrary: r) auto

lemma mod10_less: "v mod 10 < (10 :: u32)"
  by (simp add: word_less_nat_alt unat_mod)

lemma itoa_loop_digits:
  assumes "itoa_loop 10 v = Some ds"
  shows "(\<forall>c\<in>set ds. 48 \<le> c \<and> c \<le> 57) \<and> read_digits 0 (rev ds) = v"
  using assms
proof (induction "unat v" arbitrary: v ds rule: less_induct)
  case less
  show ?case
  proof (cases "v = 0")
    case True
    then show ?thesis using less.prems by (simp add: itoa_loop.simps)
  next
    case False
    then obtain es where es: "itoa_loop 10 (v div 10) = Some es" "ds = digit_char (v mod 10) # es"
      using less.prems by (auto simp: itoa_loop.simps [of 10 v] bind_eq_Some_conv)
    have "unat (v div 10) < unat v" using False by (simp add: unat_div unat_gt_0)
    note IH = less.hyps [OF this es(1)]
    note d = digit_char_value [OF mod10_less [of v]]
    have "v div 10 * 10 + v mod 10 = v" by (metis div_mult_mod_eq)
    then show ?thesis using IH d es(2) by (auto simp: read_digits_append)
  qed
qed

lemma itoa_loop_nonempty: "itoa_loop base v = Some ds \<Longrightarrow> v \<noteq> 0 \<Longrightarrow> ds \<noteq> []"
  by (auto simp: itoa_loop.simps [of base v] bind_eq_Some_conv split: if_splits)

lemma read_sign_digit: "c \<ge> 48 \<Longrightarrow> c \<le> 57 \<Longrightarrow> read_sign (skip_space (c # s)) = (False, c # s)"
  by auto

text \<open>C30: Every 32-bit integer survives the way through text: \<^verbatim>\<open>itoa\<close> in base 10 ends, and \<^verbatim>\<open>atoi\<close> reads the
  same integer from what it wrote, for negative numbers and \<^verbatim>\<open>INT_MIN\<close> too.\<close>
theorem itoa_atoi: "\<exists>s. itoa v 10 = Some s \<and> atoi s = v"
proof (cases "v = 0")
  case True
  then show ?thesis by (simp add: itoa_def atoi_def str_def)
next
  case False
  define w where "w = (if sint v < 0 then - v else v)"
  obtain ds where ds: "itoa_loop 10 w = Some ds" using itoa_loop_total [of 10] by auto
  have w: "w \<noteq> 0" using False by (simp add: w_def)
  note d = itoa_loop_digits [OF ds]
  obtain c cs where cs: "rev ds = c # cs" using itoa_loop_nonempty [OF ds w] by (cases "rev ds") auto
  then have "c \<in> set ds" by (metis list.set_intros(1) set_rev)
  then have c: "48 \<le> c" "c \<le> 57" using d by auto
  show ?thesis
  proof (cases "sint v < 0")
    case True
    then have "itoa v 10 = Some (45 # rev ds)" using False ds by (simp add: itoa_def w_def str_def)
    then show ?thesis using True d by (auto simp: atoi_def w_def)
  next
    case nn: False
    then have "itoa v 10 = Some (rev ds)" using False ds by (simp add: itoa_def w_def)
    moreover have "atoi (rev ds) = w" using d c unfolding atoi_def cs by (simp only: read_sign_digit) (simp add: Let_def)
    ultimately show ?thesis using nn by (simp add: w_def)
  qed
qed

end
