(* ===== verification/Printf.thy ===== *)
theory Printf
  imports Convert "HOL-Library.Monad_Syntax"
begin

text \<open>
  Formatted output, \<^verbatim>\<open>kernel/main/util/print/kprintf.c\<close>: \<^verbatim>\<open>vsnprintf\<close> into a buffer in byte memory and
  \<^verbatim>\<open>kprintf\<close> to the terminal.

  Formats and string arguments are values. A variable argument is an 8-byte slot or a string; an \<^verbatim>\<open>int\<close> is the
  low half of its slot. \<open>None\<close> is an access past the end of the format or of the arguments, or an argument of
  the wrong kind. Field widths are mathematical integers.
\<close>

datatype va = Slot u64 | Text "cstring option" | Float u32 u32

fun va_long :: "va list \<Rightarrow> (u64 \<times> va list) option" where
  "va_long (Slot x # ap) = Some (x, ap)"
| "va_long _ = None"

definition va_int :: "va list \<Rightarrow> (u32 \<times> va list) option" where
  "va_int ap = do { (x, ap) \<leftarrow> va_long ap; Some (ucast x, ap) }"

fun va_text :: "va list \<Rightarrow> (cstring option \<times> va list) option" where
  "va_text (Text s # ap) = Some (s, ap)"
| "va_text _ = None"

section \<open>The buffer\<close>

definition FLAG_ZERO_PAD :: u32 where "FLAG_ZERO_PAD = 0x01"
definition FLAG_LEFT_JUST :: u32 where "FLAG_LEFT_JUST = 0x02"
definition FLAG_SIGN_SPACE :: u32 where "FLAG_SIGN_SPACE = 0x04"
definition FLAG_SIGN_PLUS :: u32 where "FLAG_SIGN_PLUS = 0x08"
definition FLAG_ALT_FORM :: u32 where "FLAG_ALT_FORM = 0x10"

definition digits :: cstring where "digits = str ''0123456789abcdef''"
definition digits_upper :: cstring where "digits_upper = str ''0123456789ABCDEF''"

text \<open>The memory and the variables \<^verbatim>\<open>out\<close> and \<^verbatim>\<open>remaining\<close> of \<^verbatim>\<open>vsnprintf\<close>.\<close>

record sink =
  buf :: memory
  out :: u64
  remaining :: u64

definition print_char :: "sink \<Rightarrow> u8 \<Rightarrow> sink" where
  "print_char k c =
     (if out k = 0 \<or> remaining k \<le> 1 then k
      else k\<lparr>buf := (buf k)(out k := c), out := out k + 1, remaining := remaining k - 1\<rparr>)"

fun print_string_loop :: "sink \<Rightarrow> cstring \<Rightarrow> sink" where
  "print_string_loop k (c # s) = (if remaining k > 1 then print_string_loop (print_char k c) s else k)"
| "print_string_loop k [] = k"

definition print_string :: "sink \<Rightarrow> cstring option \<Rightarrow> sink" where
  "print_string k s = print_string_loop k (case s of None \<Rightarrow> str ''(null)'' | Some s \<Rightarrow> s)"

text \<open>\<^verbatim>\<open>while (len < width && *remaining > 1)\<close> with \<open>n\<close> iterations left.\<close>

primrec print_pad :: "sink \<Rightarrow> u8 \<Rightarrow> nat \<Rightarrow> sink" where
  "print_pad k c 0 = k"
| "print_pad k c (Suc n) = (if remaining k > 1 then print_pad (print_char k c) c n else k)"

text \<open>The digits of a number, least first. The base is 10 or 16.\<close>

function number_digits :: "cstring \<Rightarrow> u64 \<Rightarrow> u64 \<Rightarrow> cstring" where
  "number_digits ds base n =
     (if n > 0 \<and> base \<ge> 2 then ds ! unat (n mod base) # number_digits ds base (n div base) else [])"
  by pat_completeness auto
termination
proof (relation "measure (\<lambda>(ds, base, n). unat n)", simp)
  fix ds and base n :: u64
  assume a: "n > 0 \<and> base \<ge> 2"
  then have "unat base \<ge> 2" "unat n > 0" by (auto simp: word_le_nat_alt word_less_nat_alt)
  then show "((ds, base, n div base), ds, base, n) \<in> measure (\<lambda>(ds, base, n). unat n)"
    by (simp add: unat_div)
qed

declare number_digits.simps [simp del]

definition number_buffer :: "cstring \<Rightarrow> u64 \<Rightarrow> u64 \<Rightarrow> cstring" where
  "number_buffer ds base n = (if n = 0 then str ''0'' else number_digits ds base n)"

definition print_unsigned :: "cstring \<Rightarrow> sink \<Rightarrow> u64 \<Rightarrow> u64 \<Rightarrow> int \<Rightarrow> u32 \<Rightarrow> sink" where
  "print_unsigned ds k n base width flags =
     (let buffer = number_buffer ds base n;
          len = int (length buffer);
          left = (flags AND FLAG_LEFT_JUST \<noteq> 0);
          k = (if \<not> left
               then print_pad k (if flags AND FLAG_ZERO_PAD \<noteq> 0 then chr (CHR ''0'') else chr (CHR '' '')) (nat (width - len))
               else k);
          k = print_string_loop k (rev buffer)
      in if left then print_pad k (chr (CHR '' '')) (nat (width - len)) else k)"

definition print_int :: "sink \<Rightarrow> u64 \<Rightarrow> u64 \<Rightarrow> int \<Rightarrow> u32 \<Rightarrow> sink" where
  "print_int k n base width flags =
     (let (k, n, width) =
        (if sint n < 0 then (print_char k (chr (CHR ''-'')), - n, width - 1)
         else if flags AND FLAG_SIGN_PLUS \<noteq> 0 then (print_char k (chr (CHR ''+'')), n, width - 1)
         else if flags AND FLAG_SIGN_SPACE \<noteq> 0 then (print_char k (chr (CHR '' '')), n, width - 1)
         else (k, n, width))
      in print_unsigned digits k n base width flags)"

section \<open>Directives\<close>

fun parse_flags :: "cstring \<Rightarrow> u32 \<Rightarrow> u32 \<times> cstring" where
  "parse_flags (c # f) flags =
     (if c = chr (CHR ''0'') then parse_flags f (flags OR FLAG_ZERO_PAD)
      else if c = chr (CHR ''-'') then parse_flags f (flags OR FLAG_LEFT_JUST)
      else if c = chr (CHR '' '') then parse_flags f (flags OR FLAG_SIGN_SPACE)
      else if c = chr (CHR ''+'') then parse_flags f (flags OR FLAG_SIGN_PLUS)
      else if c = chr (CHR ''#'') then parse_flags f (flags OR FLAG_ALT_FORM)
      else (flags, c # f))"
| "parse_flags [] flags = (flags, [])"

fun parse_number :: "cstring \<Rightarrow> int \<Rightarrow> int \<times> cstring" where
  "parse_number (c # f) n =
     (if c \<ge> chr (CHR ''0'') \<and> c \<le> chr (CHR ''9'') then parse_number f (n * 10 + uint (c - chr (CHR ''0''))) else (n, c # f))"
| "parse_number [] n = (n, [])"

definition parse_width :: "cstring \<Rightarrow> va list \<Rightarrow> (int \<times> cstring \<times> va list) option" where
  "parse_width f ap =
     (if char_at f 0 = chr (CHR ''*'') then do { (w, ap) \<leftarrow> va_int ap; Some (sint w, tl f, ap) }
      else (let (w, f) = parse_number f 0 in Some (w, f, ap)))"

text \<open>The precision is parsed and then not used.\<close>

definition parse_precision :: "cstring \<Rightarrow> va list \<Rightarrow> (int \<times> cstring \<times> va list) option" where
  "parse_precision f ap = (if char_at f 0 = chr (CHR ''.'') then parse_width (tl f) ap else Some (-1, f, ap))"

datatype length = LENGTH_NONE | LENGTH_SHORT | LENGTH_LONG | LENGTH_LONG_LONG

definition parse_length :: "cstring \<Rightarrow> length \<times> cstring" where
  "parse_length f =
     (if char_at f 0 = chr (CHR ''h'') then (LENGTH_SHORT, tl f)
      else if char_at f 0 = chr (CHR ''l'') then
        (if char_at (tl f) 0 = chr (CHR ''l'') then (LENGTH_LONG_LONG, tl (tl f)) else (LENGTH_LONG, tl f))
      else (LENGTH_NONE, f))"

definition va_signed :: "length \<Rightarrow> va list \<Rightarrow> (u64 \<times> va list) option" where
  "va_signed len ap =
     (if len = LENGTH_LONG_LONG \<or> len = LENGTH_LONG then va_long ap
      else do { (n, ap) \<leftarrow> va_int ap; Some (scast n, ap) })"

definition va_unsigned :: "length \<Rightarrow> va list \<Rightarrow> (u64 \<times> va list) option" where
  "va_unsigned len ap =
     (if len = LENGTH_LONG_LONG \<or> len = LENGTH_LONG then va_long ap
      else do { (n, ap) \<leftarrow> va_int ap; Some (ucast n, ap) })"

text \<open>The \<^verbatim>\<open>switch\<close> on the conversion \<open>c\<close>.\<close>

definition convert :: "u8 \<Rightarrow> u32 \<Rightarrow> int \<Rightarrow> length \<Rightarrow> va list \<Rightarrow> sink \<Rightarrow> (va list \<times> sink) option" where
  "convert c flags width len ap k =
     (if c = chr (CHR ''c'') then do { (x, ap) \<leftarrow> va_int ap; Some (ap, print_char k (ucast x)) }
      else if c = chr (CHR ''s'') then do { (s, ap) \<leftarrow> va_text ap; Some (ap, print_string k s) }
      else if c = chr (CHR ''d'') \<or> c = chr (CHR ''i'') then
        do { (n, ap) \<leftarrow> va_signed len ap; Some (ap, print_int k n 10 width flags) }
      else if c = chr (CHR ''u'') then
        do { (n, ap) \<leftarrow> va_unsigned len ap; Some (ap, print_unsigned digits k n 10 width flags) }
      else if c = chr (CHR ''x'') then do {
        (n, ap) \<leftarrow> va_unsigned len ap;
        let k = (if flags AND FLAG_ALT_FORM \<noteq> 0 \<and> n \<noteq> 0 then print_string k (Some (str ''0x'')) else k);
        Some (ap, print_unsigned digits k n 16 width flags) }
      else if c = chr (CHR ''X'') then do {
        (n, ap) \<leftarrow> va_unsigned len ap;
        let k = (if flags AND FLAG_ALT_FORM \<noteq> 0 \<and> n \<noteq> 0 then print_string k (Some (str ''0X'')) else k);
        Some (ap, print_unsigned digits_upper k n 16 width flags) }
      else if c = chr (CHR ''p'') then do {
        (n, ap) \<leftarrow> va_long ap;
        Some (ap, print_unsigned digits (print_string k (Some (str ''0x''))) n 16 width flags) }
      else if c = chr (CHR ''%'') then Some (ap, print_char k (chr (CHR ''%'')))
      else Some (ap, print_char (print_char k (chr (CHR ''%''))) c))"

definition directive :: "cstring \<Rightarrow> va list \<Rightarrow> sink \<Rightarrow> (cstring \<times> va list \<times> sink) option" where
  "directive f ap k = do {
     let (flags, f) = parse_flags f 0;
     (width, f, ap) \<leftarrow> parse_width f ap;
     (precision, f, ap) \<leftarrow> parse_precision f ap;
     let (len, f) = parse_length f;
     (ap, k) \<leftarrow> convert (char_at f 0) flags width len ap k;
     Some (f, ap, k) }"

text \<open>A directive that ends with the format leaves \<^verbatim>\<open>f\<close> at the NUL, which the loop then steps over.\<close>

lemma parse_flags_length: "length (snd (parse_flags f fl)) \<le> length f"
  by (induction f fl rule: parse_flags.induct) (auto simp: le_SucI)

lemma parse_number_length: "length (snd (parse_number f n)) \<le> length f"
  by (induction f n rule: parse_number.induct) (auto simp: le_SucI)

lemma parse_width_length: "parse_width f ap = Some (w, f', ap') \<Longrightarrow> length f' \<le> length f"
  using parse_number_length [of f 0] by (auto simp: parse_width_def bind_eq_Some_conv split: if_splits prod.splits)

lemma parse_precision_length: "parse_precision f ap = Some (w, f', ap') \<Longrightarrow> length f' \<le> length f"
  using parse_width_length [of "tl f" ap w f' ap'] by (auto simp: parse_precision_def split: if_splits)

lemma parse_length_length: "length (snd (parse_length f)) \<le> length f"
  by (auto simp: parse_length_def)

lemma directive_length:
  assumes "directive f ap k = Some (f', ap', k')"
  shows "length f' \<le> length f"
proof -
  obtain flags f1 where 1: "parse_flags f 0 = (flags, f1)" by fastforce
  obtain w f2 ap2 where 2: "parse_width f1 ap = Some (w, f2, ap2)"
    using assms 1 by (auto simp: directive_def Let_def bind_eq_Some_conv)
  obtain pr f3 ap3 where 3: "parse_precision f2 ap2 = Some (pr, f3, ap3)"
    using assms 1 2 by (auto simp: directive_def Let_def bind_eq_Some_conv)
  have 4: "f' = snd (parse_length f3)"
    using assms 1 2 3 by (auto simp: directive_def Let_def bind_eq_Some_conv split: prod.splits)
  have "length f1 \<le> length f" using parse_flags_length [of f 0] 1 by simp
  moreover have "length f2 \<le> length f1" by (rule parse_width_length [OF 2])
  moreover have "length f3 \<le> length f2" by (rule parse_precision_length [OF 3])
  moreover have "length f' \<le> length f3" unfolding 4 by (rule parse_length_length)
  ultimately show ?thesis by linarith
qed

function format_loop :: "cstring \<Rightarrow> va list \<Rightarrow> sink \<Rightarrow> sink option" where
  "format_loop [] ap k = Some k"
| "format_loop (c # f) ap k =
     (if c \<noteq> chr (CHR ''%'') then format_loop f ap (print_char k c)
      else (case directive f ap k of
              None \<Rightarrow> None
            | Some (f', ap', k') \<Rightarrow> (if f' = [] then None else format_loop (tl f') ap' k')))"
  by pat_completeness auto
termination
  by (relation "measure (\<lambda>(f, ap, k). length f)") (auto dest: directive_length simp: less_Suc_eq_le le_diff_conv)

text \<open>\<^verbatim>\<open>remaining\<close> is 0 at the end only if it was 0 at the start.\<close>

definition vsnprintf :: "memory \<Rightarrow> u64 \<Rightarrow> u64 \<Rightarrow> cstring \<Rightarrow> va list \<Rightarrow> (int \<times> memory) option" where
  "vsnprintf m dst sz format ap = do {
     let null = (dst = 0 \<or> sz = 0);
     k \<leftarrow> format_loop format ap \<lparr>buf = m, out = (if null then 0 else dst), remaining = (if null then -1 else sz)\<rparr>;
     let m = (if \<not> null then if remaining k > 0 then (buf k)(out k := 0) else (buf k)(dst + (sz - 1) := 0) else buf k);
     Some (sint (ucast (out k - dst) :: u32), m) }"

definition snprintf :: "memory \<Rightarrow> u64 \<Rightarrow> u64 \<Rightarrow> cstring \<Rightarrow> va list \<Rightarrow> (int \<times> memory) option" where
  "snprintf m dst sz format ap = vsnprintf m dst sz format ap"

section \<open>The terminal\<close>

text \<open>What \<^verbatim>\<open>flanterm_write\<close> receives, in order.\<close>

definition translate :: "cstring \<Rightarrow> cstring" where
  "translate s = concat (map (\<lambda>c. if c = 10 then [13, 10] else [c]) s)"

text \<open>One directive of \<^verbatim>\<open>kprintf\<close> after its width and length: the bytes written and their number as it is counted.\<close>

definition itoa_base :: "u8 \<Rightarrow> u32" where
  "itoa_base c = (if c = chr (CHR ''x'') then 16 else if c = chr (CHR ''o'') then 8 else 10)"

definition padded :: "u8 \<Rightarrow> int \<Rightarrow> cstring \<Rightarrow> cstring \<times> int" where
  "padded pad_char pad p =
     (let n = nat (pad - int (length p)) in (replicate n pad_char @ translate p, int n + int (length p)))"

definition kconvert :: "u8 \<Rightarrow> u8 \<Rightarrow> int \<Rightarrow> bool \<Rightarrow> va list \<Rightarrow> ((cstring \<times> int) \<times> va list) option" where
  "kconvert c pad_char pad long ap =
     (if c = chr (CHR ''d'') \<or> c = chr (CHR ''u'') \<or> c = chr (CHR ''x'') \<or> c = chr (CHR ''o'') then do {
        (val, ap) \<leftarrow> (if long then do { (x, ap) \<leftarrow> va_long ap; Some (ucast x, ap) } else va_int ap);
        let pre = (if c = chr (CHR ''x'') then str ''0x'' else []);
        p \<leftarrow> itoa val (itoa_base c);
        let (w, n) = padded pad_char pad p;
        Some ((pre @ w, int (length pre) + n), ap) }
      else if c = chr (CHR ''f'') then
        (case ap of
           Float int_part frac # ap \<Rightarrow> do {
             p \<leftarrow> itoa int_part 10;
             q \<leftarrow> itoa frac 10;
             Some ((p @ str ''.'' @ q, int (length p) + 1 + int (length q)), ap) }
         | _ \<Rightarrow> None)
      else if c = chr (CHR ''s'') then do {
        (s, ap) \<leftarrow> va_text ap;
        Some (padded pad_char pad (case s of None \<Rightarrow> str ''(null)'' | Some s \<Rightarrow> s), ap) }
      else if c = chr (CHR ''c'') then do {
        (x, ap) \<leftarrow> va_int ap;
        let w = translate [ucast x];
        Some ((w, int (length w)), ap) }
      else if c = chr (CHR ''p'') then do {
        (x, ap) \<leftarrow> va_long ap;
        p \<leftarrow> itoa (ucast x) 16;
        let (w, n) = padded pad_char pad p;
        Some ((str ''0x'' @ w, 2 + n), ap) }
      else if c = chr (CHR ''m'') then do {
        (s, ap) \<leftarrow> va_text ap;
        let mem = (case s of None \<Rightarrow> str ''(null)'' | Some s \<Rightarrow> s) @ [0];
        let len = nat (if pad \<noteq> 0 then pad else 16);
        if len > length mem then None else Some ((take len mem, int len), ap) }
      else Some ((str ''%'' @ [c], 2), ap))"

definition kparse_length :: "cstring \<Rightarrow> bool \<times> cstring" where
  "kparse_length f =
     (if char_at f 0 = chr (CHR ''l'') then (True, if char_at (tl f) 0 = chr (CHR ''l'') then tl (tl f) else tl f)
      else if char_at f 0 = chr (CHR ''L'') then (True, tl f)
      else (False, f))"

definition kdirective :: "cstring \<Rightarrow> va list \<Rightarrow> ((cstring \<times> int) \<times> cstring \<times> va list) option" where
  "kdirective f ap = do {
     let (pad_char, f) = (if char_at f 0 = chr (CHR ''0'') then (chr (CHR ''0''), tl f) else (chr (CHR '' ''), f));
     let (pad, f) = parse_number f 0;
     let (long, f) = kparse_length f;
     (r, ap) \<leftarrow> kconvert (char_at f 0) pad_char pad long ap;
     if f = [] then None else Some (r, tl f, ap) }"

lemma kdirective_length: "kdirective f ap = Some (r, f', ap') \<Longrightarrow> length f' < Suc (length f)"
proof -
  assume d: "kdirective f ap = Some (r, f', ap')"
  define g where "g = (if char_at f 0 = chr (CHR ''0'') then tl f else f)"
  define h where "h = snd (parse_number g 0)"
  have "f' = tl (snd (kparse_length h))"
    using d by (auto simp: kdirective_def Let_def g_def h_def bind_eq_Some_conv split: prod.splits if_splits)
  then have "length f' \<le> length (snd (kparse_length h))" by simp
  also have "\<dots> \<le> length h" by (auto simp: kparse_length_def)
  also have "\<dots> \<le> length g" unfolding h_def by (rule parse_number_length)
  also have "\<dots> \<le> length f" by (simp add: g_def)
  finally show ?thesis by simp
qed

function kprintf_loop :: "cstring \<Rightarrow> va list \<Rightarrow> (cstring \<times> int) option" where
  "kprintf_loop [] ap = Some ([], 0)"
| "kprintf_loop (c # f) ap =
     (if c \<noteq> chr (CHR ''%'') then
        (case kprintf_loop f ap of None \<Rightarrow> None
         | Some (w, n) \<Rightarrow> Some (translate [c] @ w, int (length (translate [c])) + n))
      else
        (case kdirective f ap of None \<Rightarrow> None
         | Some ((w, n), f', ap') \<Rightarrow>
             (case kprintf_loop f' ap' of None \<Rightarrow> None | Some (w', n') \<Rightarrow> Some (w @ w', n + n'))))"
  by pat_completeness auto
termination by (relation "measure (\<lambda>(f, ap). length f)") (auto dest: kdirective_length)

text \<open>\<open>ready\<close> tells whether \<^verbatim>\<open>global_flanterm\<close> is set.\<close>

definition kprintf :: "bool \<Rightarrow> cstring \<Rightarrow> va list \<Rightarrow> (cstring \<times> int) option" where
  "kprintf ready format ap = (if \<not> ready then Some ([], -1) else kprintf_loop format ap)"

end
