(* ===== verification/Printf_Correct.thy ===== *)
theory Printf_Correct
  imports Printf
begin

text \<open>
  Correctness of \<^verbatim>\<open>vsnprintf\<close>: a reference definition of the text that a format and its arguments stand for,
  without buffers, and the proof that the code puts as much of that text into the buffer as fits.
\<close>

section \<open>The text of a format\<close>

function nat_digits :: "nat \<Rightarrow> nat \<Rightarrow> nat list" where
  "nat_digits b n = (if b < 2 \<or> n < b then [n] else nat_digits b (n div b) @ [n mod b])"
  by pat_completeness auto
termination by (relation "measure snd") auto

declare nat_digits.simps [simp del]

definition field :: "u32 \<Rightarrow> int \<Rightarrow> cstring \<Rightarrow> cstring" where
  "field flags width s =
     (let n = nat (width - int (length s))
      in if flags AND FLAG_LEFT_JUST \<noteq> 0 then s @ replicate n (chr (CHR '' ''))
         else replicate n (if flags AND FLAG_ZERO_PAD \<noteq> 0 then chr (CHR ''0'') else chr (CHR '' '')) @ s)"

definition unsigned_text :: "cstring \<Rightarrow> nat \<Rightarrow> nat \<Rightarrow> int \<Rightarrow> u32 \<Rightarrow> cstring" where
  "unsigned_text ds n b width flags = field flags width (map (\<lambda>d. ds ! d) (nat_digits b n))"

definition signed_text :: "int \<Rightarrow> int \<Rightarrow> u32 \<Rightarrow> cstring" where
  "signed_text n width flags =
     (if n < 0 then str ''-'' @ unsigned_text digits (nat (- n)) 10 (width - 1) flags
      else if flags AND FLAG_SIGN_PLUS \<noteq> 0 then str ''+'' @ unsigned_text digits (nat n) 10 (width - 1) flags
      else if flags AND FLAG_SIGN_SPACE \<noteq> 0 then str '' '' @ unsigned_text digits (nat n) 10 (width - 1) flags
      else unsigned_text digits (nat n) 10 width flags)"

definition hex_text :: "cstring \<Rightarrow> cstring \<Rightarrow> u64 \<Rightarrow> int \<Rightarrow> u32 \<Rightarrow> cstring" where
  "hex_text ds prefix n width flags =
     (if flags AND FLAG_ALT_FORM \<noteq> 0 \<and> n \<noteq> 0 then prefix else []) @ unsigned_text ds (unat n) 16 width flags"

definition convert_text :: "u8 \<Rightarrow> u32 \<Rightarrow> int \<Rightarrow> length \<Rightarrow> va list \<Rightarrow> (va list \<times> cstring) option" where
  "convert_text c flags width len ap =
     (if c = chr (CHR ''c'') then do { (x, ap) \<leftarrow> va_int ap; Some (ap, [ucast x]) }
      else if c = chr (CHR ''s'') then do { (s, ap) \<leftarrow> va_text ap; Some (ap, case s of None \<Rightarrow> str ''(null)'' | Some s \<Rightarrow> s) }
      else if c = chr (CHR ''d'') \<or> c = chr (CHR ''i'') then do { (n, ap) \<leftarrow> va_signed len ap; Some (ap, signed_text (sint n) width flags) }
      else if c = chr (CHR ''u'') then do { (n, ap) \<leftarrow> va_unsigned len ap; Some (ap, unsigned_text digits (unat n) 10 width flags) }
      else if c = chr (CHR ''x'') then do { (n, ap) \<leftarrow> va_unsigned len ap; Some (ap, hex_text digits (str ''0x'') n width flags) }
      else if c = chr (CHR ''X'') then do { (n, ap) \<leftarrow> va_unsigned len ap; Some (ap, hex_text digits_upper (str ''0X'') n width flags) }
      else if c = chr (CHR ''p'') then do { (n, ap) \<leftarrow> va_long ap; Some (ap, str ''0x'' @ unsigned_text digits (unat n) 16 width flags) }
      else if c = chr (CHR ''%'') then Some (ap, str ''%'')
      else Some (ap, str ''%'' @ [c]))"

definition directive_text :: "cstring \<Rightarrow> va list \<Rightarrow> (cstring \<times> va list \<times> cstring) option" where
  "directive_text f ap = do {
     let (flags, f) = parse_flags f 0;
     (width, f, ap) \<leftarrow> parse_width f ap;
     (precision, f, ap) \<leftarrow> parse_precision f ap;
     let (len, f) = parse_length f;
     (ap, w) \<leftarrow> convert_text (char_at f 0) flags width len ap;
     Some (f, ap, w) }"

lemma directive_text_length:
  assumes "directive_text f ap = Some (f', ap', w)"
  shows "length f' \<le> length f"
proof -
  obtain flags f1 where 1: "parse_flags f 0 = (flags, f1)" by fastforce
  obtain wd f2 ap2 where 2: "parse_width f1 ap = Some (wd, f2, ap2)"
    using assms 1 by (auto simp: directive_text_def Let_def bind_eq_Some_conv)
  obtain pr f3 ap3 where 3: "parse_precision f2 ap2 = Some (pr, f3, ap3)"
    using assms 1 2 by (auto simp: directive_text_def Let_def bind_eq_Some_conv)
  have 4: "f' = snd (parse_length f3)"
    using assms 1 2 3 by (auto simp: directive_text_def Let_def bind_eq_Some_conv split: prod.splits)
  show ?thesis
    using parse_flags_length [of f 0] parse_width_length [OF 2] parse_precision_length [OF 3] parse_length_length [of f3] 1 4
    by simp
qed

function format_text :: "cstring \<Rightarrow> va list \<Rightarrow> cstring option" where
  "format_text [] ap = Some []"
| "format_text (c # f) ap =
     (if c \<noteq> chr (CHR ''%'') then (case format_text f ap of None \<Rightarrow> None | Some w \<Rightarrow> Some (c # w))
      else (case directive_text f ap of
              None \<Rightarrow> None
            | Some (f', ap', w) \<Rightarrow>
                (if f' = [] then None
                 else (case format_text (tl f') ap' of None \<Rightarrow> None | Some w' \<Rightarrow> Some (w @ w')))))"
  by pat_completeness auto
termination
  by (relation "measure (\<lambda>(f, ap). length f)") (auto dest: directive_text_length simp: less_Suc_eq_le le_diff_conv)

section \<open>Digits\<close>

lemma number_digits_nat:
  assumes "n \<noteq> 0" "base \<ge> 2"
  shows "rev (number_digits ds base n) = map (\<lambda>d. ds ! d) (nat_digits (unat base) (unat n))"
  using assms(1)
proof (induction "unat n" arbitrary: n rule: less_induct)
  case less
  have b: "unat base \<ge> 2" using assms(2) by (simp add: word_le_nat_alt)
  have n: "n > 0" "unat n > 0" using less.prems by (auto simp: word_gt_0 unat_gt_0)
  have s: "number_digits ds base n = ds ! (unat n mod unat base) # number_digits ds base (n div base)"
    using n(1) assms(2) by (simp add: number_digits.simps [of ds base n] unat_mod)
  show ?case
  proof (cases "unat n < unat base")
    case True
    then have "n div base = 0" by (simp add: word_unat_eq_iff unat_div)
    then show ?thesis using s True b by (simp add: nat_digits.simps [of "unat base" "unat n"] number_digits.simps [of ds base 0])
  next
    case False
    have "unat (n div base) < unat n" using n b by (simp add: unat_div)
    moreover have "n div base \<noteq> 0" using False b by (simp add: word_unat_eq_iff unat_div div_eq_0_iff)
    ultimately have "rev (number_digits ds base (n div base)) = map (\<lambda>d. ds ! d) (nat_digits (unat base) (unat n div unat base))"
      using less.hyps by (simp add: unat_div)
    then show ?thesis using s False b by (simp add: nat_digits.simps [of "unat base" "unat n"])
  qed
qed

lemma number_buffer_nat:
  assumes "base \<ge> 2" "ds ! 0 = chr (CHR ''0'')"
  shows "rev (number_buffer ds base n) = map (\<lambda>d. ds ! d) (nat_digits (unat base) (unat n))"
proof (cases "n = 0")
  case True
  have "unat base \<ge> 2" using assms(1) by (simp add: word_le_nat_alt)
  then show ?thesis using True assms(2) by (simp add: number_buffer_def str_def nat_digits.simps)
next
  case False
  then show ?thesis using number_digits_nat [OF False assms(1)] by (simp add: number_buffer_def)
qed

section \<open>Printing is appending\<close>

abbreviation emit :: "sink \<Rightarrow> cstring \<Rightarrow> sink" where
  "emit k w \<equiv> foldl print_char k w"

lemma print_char_full: "remaining k \<le> 1 \<Longrightarrow> print_char k c = k"
  by (simp add: print_char_def)

lemma emit_full: "remaining k \<le> 1 \<Longrightarrow> emit k w = k"
  by (induction w) (simp_all add: print_char_full)

lemma print_string_loop_emit: "print_string_loop k s = emit k s"
proof (induction k s rule: print_string_loop.induct)
  case (1 k c s)
  then show ?case by (auto simp: not_less print_char_full emit_full)
qed simp

lemma print_pad_emit: "print_pad k c n = emit k (replicate n c)"
  by (induction n arbitrary: k) (auto simp: not_less print_char_full emit_full)

lemma print_unsigned_emit:
  assumes "base \<ge> 2" "ds ! 0 = chr (CHR ''0'')"
  shows "print_unsigned ds k n base width flags = emit k (unsigned_text ds (unat n) (unat base) width flags)"
proof -
  have l: "length (number_buffer ds base n) = length (nat_digits (unat base) (unat n))"
    using arg_cong [OF number_buffer_nat [OF assms, of n], of length] by simp
  show ?thesis
    by (simp add: print_unsigned_def Let_def unsigned_text_def field_def print_pad_emit print_string_loop_emit
        number_buffer_nat [OF assms] l)
qed

lemma digits_0: "digits ! 0 = chr (CHR ''0'')" "digits_upper ! 0 = chr (CHR ''0'')"
  by (simp_all add: digits_def digits_upper_def str_def)

lemma unat_of_int_small: "0 \<le> i \<Longrightarrow> i < 2 ^ 64 \<Longrightarrow> unat (of_int i :: u64) = nat i"
  by (simp add: unsigned_of_int take_bit_eq_mod flip: nat_uint_eq)

lemma unat_neg_sint: "sint n < 0 \<Longrightarrow> unat (- n) = nat (- sint n)" for n :: u64
  using sint_greater_eq [of n] unat_of_int_small [of "- sint n"] by simp

lemma unat_pos_sint: "\<not> sint n < 0 \<Longrightarrow> unat n = nat (sint n)" for n :: u64
  using sint_less [of n] unat_of_int_small [of "sint n"] by simp

lemma print_int_emit: "print_int k n 10 width flags = emit k (signed_text (sint n) width flags)"
  by (auto simp: print_int_def signed_text_def print_unsigned_emit digits_0 unat_neg_sint unat_pos_sint str_def)

lemma emit_append: "emit (emit k v) w = emit k (v @ w)"
  by simp

lemma convert_emit: "convert c flags width len ap k = map_option (\<lambda>(ap, w). (ap, emit k w)) (convert_text c flags width len ap)"
  by (auto simp: convert_def convert_text_def print_string_def print_string_loop_emit print_int_emit print_unsigned_emit digits_0
      hex_text_def str_def Let_def split: option.splits bind_splits)

lemma directive_emit: "directive f ap k = map_option (\<lambda>(f, ap, w). (f, ap, emit k w)) (directive_text f ap)"
  by (auto simp: directive_def directive_text_def convert_emit Let_def split: prod.splits option.splits bind_splits)

lemma format_loop_emit: "format_loop f ap k = map_option (emit k) (format_text f ap)"
proof (induction f ap arbitrary: k rule: format_text.induct)
  case (2 c f ap)
  show ?case
  proof (cases "c = chr (CHR ''%'')")
    case False
    then show ?thesis using 2(1) by (auto split: option.splits)
  next
    case True
    show ?thesis
    proof (cases "directive_text f ap")
      case None
      then show ?thesis using True by (simp add: directive_emit)
    next
      case (Some r)
      obtain f' ap' w where r: "r = (f', ap', w)" by (cases r)
      have IH: "f' \<noteq> [] \<Longrightarrow> format_loop (tl f') ap' k = map_option (emit k) (format_text (tl f') ap')" for k
        using 2(2) [OF _ Some [unfolded r] refl refl] True by simp
      show ?thesis using True Some r IH [of "emit k w"] by (auto simp: directive_emit split: option.splits)
    qed
  qed
qed simp

section \<open>The buffer\<close>

lemma emit_buffer:
  assumes "out k \<noteq> 0" "0 < unat (remaining k)" "unat (out k) + unat (remaining k) \<le> 2 ^ 64"
    "v = take (unat (remaining k) - 1) w"
  shows "emit k w = k\<lparr>buf := write_bytes (buf k) (out k) v, out := out k + of_nat (length v),
    remaining := remaining k - of_nat (length v)\<rparr>"
  using assms
proof (induction w arbitrary: k v)
  case (Cons c w)
  show ?case
  proof (cases "remaining k \<le> 1")
    case True
    then have "unat (remaining k) \<le> 1" by (simp add: word_le_nat_alt)
    then have "v = []" using Cons.prems(4) by simp
    then show ?thesis using emit_full [OF True, of "c # w"] by simp
  next
    case False
    then have r: "1 < unat (remaining k)" by (simp add: word_le_nat_alt)
    define k1 where "k1 = k\<lparr>buf := (buf k)(out k := c), out := out k + 1, remaining := remaining k - 1\<rparr>"
    have k1: "print_char k c = k1" using False Cons.prems(1) by (simp add: print_char_def k1_def)
    have o: "unat (out k + 1) = unat (out k) + 1" using unat_offset [of "out k" "unat (remaining k)" 1] Cons.prems(3) r by simp
    have m: "unat (remaining k - 1) = unat (remaining k) - 1" using r by (subst unat_minus_u64) simp_all
    have "out k + 1 \<noteq> 0" using o by (metis add_is_0 unat_0 zero_neq_one)
    then have IH: "emit k1 w = k1\<lparr>buf := write_bytes (buf k1) (out k1) (take (unat (remaining k1) - 1) w),
        out := out k1 + of_nat (length (take (unat (remaining k1) - 1) w)),
        remaining := remaining k1 - of_nat (length (take (unat (remaining k1) - 1) w))\<rparr>"
      using r o m Cons.prems(3) by (intro Cons.IH) (simp_all add: k1_def)
    have "v = c # take (unat (remaining k1) - 1) w"
      using Cons.prems(4) r m by (cases "unat (remaining k) - 1") (simp_all add: k1_def)
    then show ?thesis unfolding foldl_Cons k1 IH by (simp add: k1_def algebra_simps)
  qed
qed simp



end
