(* ===== verification/Elf_Segments.thy ===== *)
theory Elf_Segments
  imports Elf_Loader Vmm_Correct
begin

text \<open>
  What the loader of program segments leaves in memory. Virtual memory is read through the page tables;
  the pages \<open>X\<close> are in use by someone else and must survive.
\<close>

section \<open>Bytes and words\<close>

lemma aligned_split:
  assumes "aligned a" "i < 8"
  shows "(a + of_nat i) AND NOT 7 = a" "unat ((a + of_nat i) AND 7) = i"
proof -
  have u: "unat (a + of_nat i) = unat a + i" by (rule aligned_offset [OF assms])
  have "unat (a + of_nat i) mod 8 = i" using u assms by (simp add: aligned_def mod_add_eq [symmetric])
  moreover have m: "x AND 7 = x mod 8" for x :: u64 using take_bit_eq_mask [of 3 x] by (simp add: take_bit_eq_mod mask_eq_exp_minus_1)
  ultimately show l: "unat ((a + of_nat i) AND 7) = i" by (simp add: unat_mod)
  then have "(a + of_nat i) mod 8 = of_nat i" unfolding m by (rule of_nat_of_unat)
  moreover have "x AND NOT 7 = x - x mod 8" for x :: u64 using and_not_mask_u64 [of x 3] by (simp add: mask_eq_exp_minus_1)
  ultimately show "(a + of_nat i) AND NOT 7 = a" by simp
qed

lemma load64_bytes_of_words:
  assumes "aligned a"
  shows "load64 (bytes_of_words w) a = w a"
proof -
  have b: "bytes_of_words w (a + of_nat i) = ucast (drop_bit (8 * i) (w a))" if "i < 8" for i
    using aligned_split [OF assms that] by (simp add: bytes_of_words_def)
  from b [of 0] b [of 1] b [of 2] b [of 3] b [of 4] b [of 5] b [of 6] b [of 7]
  show ?thesis using bytes_of_word [of "w a"] by (simp add: load64_def)
qed

section \<open>Tables do not depend on other pages\<close>

lemma tab_agree:
  assumes "tables_ok E r n F" "\<And>p i. p \<notin> F \<Longrightarrow> E' p i = E p i" "length \<pi> \<le> 3" "idx \<pi>"
  shows "tab E' r \<pi> = tab E r \<pi>"
  using assms(3,4)
proof (induction \<pi> rule: rev_induct)
  case (snoc i \<pi>)
  then have "\<And>x. tab E r \<pi> = Some x \<Longrightarrow> x \<notin> F" using tables_okD(1) [OF assms(1)] by auto
  then show ?case using snoc assms(2) by (auto simp: tab_snoc split: option.splits)
qed simp

lemma tables_ok_agree:
  assumes "tables_ok E r n F" "\<And>p i. p \<notin> F \<Longrightarrow> E' p i = E p i"
  shows "tables_ok E' r n F"
proof -
  note t = tab_agree [OF assms]
  show ?thesis
    unfolding tables_ok_def
  proof (intro conjI allI impI; (elim conjE)?)
    fix \<rho> x assume "length \<rho> \<le> 3" "idx \<rho>" "tab E' r \<rho> = Some x"
    then show "x \<notin> F" "0 < x" "x < n" using tables_okD(1) [OF assms(1)] t by simp_all
  next
    fix \<rho> \<sigma> x
    assume "length \<rho> \<le> 3" "idx \<rho>" "length \<sigma> \<le> 3" "idx \<sigma>" "tab E' r \<rho> = Some x" "tab E' r \<sigma> = Some x"
    then show "\<rho> = \<sigma>" using tables_okD(2) [OF assms(1)] t by simp
  next
    fix \<rho> x j assume a: "length \<rho> \<le> 2" "idx \<rho>" "j < 512" "tab E' r \<rho> = Some x" "pr (E' x j)"
    then have x: "tab E r \<rho> = Some x" using t by simp
    then have "E' x j = E x j" using tables_okD(1) [OF assms(1) x] a assms(2) by simp
    then show "entry_fine (E' x j)" "length \<rho> \<le> 1 \<Longrightarrow> \<not> ps (E' x j)" using tables_okD(3) [OF assms(1) x] a by simp_all
  qed
qed

lemma translate_agree:
  assumes "tables_ok E r n F" "\<And>p i. p \<notin> F \<Longrightarrow> E' p i = E p i"
  shows "translate E' r v = translate E r v"
proof -
  have t: "tab E' r [ix4 v, ix3 v] = tab E r [ix4 v, ix3 v]" by (rule tab_agree [OF assms]) simp_all
  show ?thesis
  proof (cases "tab E r [ix4 v, ix3 v]")
    case (Some d)
    have e: "E' d j = E d j" for j using tables_okD(1) [OF assms(1) Some] assms(2) by simp
    have "E' (child (E d (ix2 v))) j = E (child (E d (ix2 v))) j" if "pr (E d (ix2 v))" "\<not> ps (E d (ix2 v))" for j
    proof -
      have "tab E r ([ix4 v, ix3 v] @ [ix2 v]) = Some (child (E d (ix2 v)))" using Some that by (subst tab_snoc) simp
      then show ?thesis using tables_okD(1) [OF assms(1)] assms(2) by simp
    qed
    then show ?thesis using t Some e by (simp add: translate_def Let_def)
  qed (use t in \<open>simp add: translate_def\<close>)
qed

section \<open>The address space of a machine\<close>

definition vm_of :: "'s heap_ops \<Rightarrow> ('s, 'p) machine \<Rightarrow> 'p vmm" where
  "vm_of H k = (k_vmm k)\<lparr>mem := load64 (bytes_in H k)\<rparr>"

text \<open>The byte that a program sees at a virtual address.\<close>

definition vread :: "'s heap_ops \<Rightarrow> ('s, 'p) machine \<Rightarrow> u64 \<Rightarrow> u8" where
  "vread H k v = bytes_in H k (phys_to_virt (k_vmm k) (virt_to_phys_user (vm_of H k) v))"

definition space_ok ::
  "('p \<Rightarrow> bool) \<Rightarrow> ('p \<Rightarrow> nat set) \<Rightarrow> ('p \<Rightarrow> nat) \<Rightarrow> 's heap_ops \<Rightarrow> nat \<Rightarrow> nat set \<Rightarrow> ('s, 'p) machine \<Rightarrow> bool" where
  "space_ok pinv fpages plimit H r X k \<longleftrightarrow>
     vmm_wf (protects pinv fpages plimit X) (\<lambda>m. fpages m \<union> X) plimit r (vm_of H k) \<and>
     4096 dvd unat (v_hhdm_offset (k_vmm k))"

abbreviation pm_of :: "('s, 'p) machine \<Rightarrow> 'p" where "pm_of k \<equiv> pm (k_vmm k)"

definition kept_pages :: "'s heap_ops \<Rightarrow> nat set \<Rightarrow> ('s, 'p) machine \<Rightarrow> ('s, 'p) machine \<Rightarrow> bool" where
  "kept_pages H X k k' \<longleftrightarrow> (\<forall>p\<in>X. \<forall>a. in_page (vm_of H k) p a \<longrightarrow> bytes_in H k' a = bytes_in H k a)"

lemma vm_of_simps [simp]: "pm (vm_of H k) = pm_of k" "v_hhdm_offset (vm_of H k) = v_hhdm_offset (k_vmm k)"
  "kernel_pml4 (vm_of H k) = kernel_pml4 (k_vmm k)" "mem (vm_of H k) = load64 (bytes_in H k)"
  by (simp_all add: vm_of_def)

lemma ptr_cong: "v_hhdm_offset t = v_hhdm_offset s \<Longrightarrow> ptr t = ptr s"
  by (simp add: ptr_def phys_to_virt_def fun_eq_iff)

lemma slot_aligned:
  assumes "direct_map_ok n s" "p < n" "i < 512" "4096 dvd unat (v_hhdm_offset s)"
  shows "aligned (ptr s p + 8 * of_nat i)"
proof -
  obtain c where "unat (v_hhdm_offset s) = 4096 * c" using assms(4) by auto
  then have "unat (ptr s p + 8 * of_nat i) = 8 * (512 * c + 512 * p + i)" using unat_slot [OF assms(1-3)] by simp
  then show ?thesis by (simp add: aligned_def)
qed

lemma in_page_low:
  assumes "direct_map_ok n s" "p < n" "4096 dvd unat (v_hhdm_offset s)" "in_page s p a"
  shows "in_page s p (a AND NOT 7)"
proof -
  obtain c where c: "unat (v_hhdm_offset s) = 4096 * c" using assms(3) by auto
  have "a AND NOT 7 = a - a mod 8" using and_not_mask_u64 [of a 3] by (simp add: mask_eq_exp_minus_1)
  then have "unat (a AND NOT 7) = unat a - unat a mod 8" using unat_minus_mod_u64 [of a 8] by simp
  then have e: "unat (a AND NOT 7) = 8 * (unat a div 8)" by (simp add: minus_mod_eq_mult_div)
  have "8 * (512 * c + 512 * p) \<le> unat a" "unat a < 8 * (512 * c + 512 * p) + 4096"
    using in_page_iff [OF assms(1,2)] assms(4) c by auto
  then have "512 * c + 512 * p \<le> unat a div 8" "8 * (unat a div 8) \<le> unat a" by auto
  then have "4096 * c + p * 4096 \<le> 8 * (unat a div 8)" "8 * (unat a div 8) < 4096 * c + (p + 1) * 4096"
    using \<open>unat a < _\<close> by simp_all
  then show ?thesis unfolding in_page_iff [OF assms(1,2)] e c by simp
qed

lemma vmm_wf_agree:
  assumes "vmm_wf pinv F plimit r s" "pm t = pm s" "v_hhdm_offset t = v_hhdm_offset s" "kernel_pml4 t = kernel_pml4 s"
    "\<And>p i. p < plimit (pm s) \<Longrightarrow> p \<notin> F (pm s) \<Longrightarrow> i < 512 \<Longrightarrow> rd t (ptr s p) (of_nat i) = rd s (ptr s p) (of_nat i)"
  shows "vmm_wf pinv F plimit r t" "virt_to_phys_user t v = virt_to_phys_user s v"
proof -
  have p: "ptr t = ptr s" by (rule ptr_cong [OF assms(3)])
  have e: "ents (plimit (pm s)) t p i = ents (plimit (pm s)) s p i" if "p \<notin> F (pm s)" for p i
    using assms(5) [of p i] that by (simp add: ents_def p)
  show w: "vmm_wf pinv F plimit r t"
    using vmm_wfD [OF assms(1)] tables_ok_agree [OF vmm_wfD(4) [OF assms(1)] e] direct_map_ok_cong [OF assms(3)] assms(2,4)
    by (simp add: vmm_wf_def p)
  show "virt_to_phys_user t v = virt_to_phys_user s v"
    unfolding virt_to_phys_user_eq [OF w] virt_to_phys_user_eq [OF assms(1)] assms(2)
    by (rule translate_agree [OF vmm_wfD(4) [OF assms(1)] e])
qed

lemma slot_in_page:
  assumes "direct_map_ok n s" "p < n" "i < 512" "j < 8" "4096 dvd unat (v_hhdm_offset s)"
  shows "in_page s p (ptr s p + 8 * of_nat i + of_nat j)"
  using aligned_offset [OF slot_aligned [OF assms(1-3,5)] assms(4)] unat_slot [OF assms(1-3)] assms(3,4)
  by (simp add: in_page_iff [OF assms(1,2)])

lemma space_okD:
  assumes "space_ok pinv fpages plimit H r X k"
  shows "vmm_wf (protects pinv fpages plimit X) (\<lambda>m. fpages m \<union> X) plimit r (vm_of H k)"
    "4096 dvd unat (v_hhdm_offset (k_vmm k))" "direct_map_ok (plimit (pm_of k)) (vm_of H k)" "pinv (pm_of k)"
    "X \<inter> fpages (pm_of k) = {}" "p \<in> X \<Longrightarrow> 0 < p \<and> p < plimit (pm_of k)"
  using assms vmm_wfD(1,3) [of _ _ plimit r "vm_of H k"] unfolding space_ok_def protects_def by fastforce+

text \<open>Writing to pages that the tables do not use keeps the address space.\<close>

lemma space_write:
  assumes s: "space_ok pinv fpages plimit H r X k" and v: "(k_vmm k')\<lparr>mem := f\<rparr> = (k_vmm k)\<lparr>mem := f\<rparr>"
    and m: "\<And>p a. p < plimit (pm_of k) \<Longrightarrow> p \<notin> fpages (pm_of k) \<union> X \<Longrightarrow> in_page (vm_of H k) p a \<Longrightarrow> bytes_in H k' a = bytes_in H k a"
  shows "space_ok pinv fpages plimit H r X k'" "virt_to_phys_user (vm_of H k') u = virt_to_phys_user (vm_of H k) u"
proof -
  have f: "pm_of k' = pm_of k" "v_hhdm_offset (k_vmm k') = v_hhdm_offset (k_vmm k)" "kernel_pml4 (k_vmm k') = kernel_pml4 (k_vmm k)"
    using arg_cong [OF v, of pm] arg_cong [OF v, of v_hhdm_offset] arg_cong [OF v, of kernel_pml4] by simp_all
  have r: "rd (vm_of H k') (ptr (vm_of H k) p) (of_nat i) = rd (vm_of H k) (ptr (vm_of H k) p) (of_nat i)"
    if "p < plimit (pm (vm_of H k))" "p \<notin> fpages (pm (vm_of H k)) \<union> X" "i < 512" for p i
    unfolding rd_def vm_of_simps
    by (rule load64_cong) (use m that slot_in_page [OF space_okD(3) [OF s]] space_okD(2) [OF s] in simp)
  note a = vmm_wf_agree [OF space_okD(1) [OF s], of "vm_of H k'", OF _ _ _ r]
  show "space_ok pinv fpages plimit H r X k'" using a(1) f space_okD(2) [OF s] by (simp add: space_ok_def)
  show "virt_to_phys_user (vm_of H k') u = virt_to_phys_user (vm_of H k) u" using a(2) f by simp
qed

section \<open>What a page takes from the file\<close>

lemma sint_small: "unat x < 2 ^ 63 \<Longrightarrow> sint x = int (unat x)" for x :: u64
proof -
  assume a: "unat x < 2 ^ 63"
  have "int (unat x) < int (2 ^ 63)" using a by (simp only: of_nat_less_iff)
  then have "uint x < 2 ^ 63" by simp
  moreover have "0 \<le> uint x" by simp
  ultimately have "signed_take_bit 63 (uint x) = uint x" by (intro signed_take_bit_int_eq_self) linarith+
  then show ?thesis by (simp add: sint_uint)
qed

lemma page_copy_ok:
  assumes "offs < 4096" "filesz < 2 ^ 62" "p < 2 ^ 48"
  shows "case page_copy (of_nat offs) (of_nat filesz) (of_nat p) of
      None \<Rightarrow> \<forall>j<4096. \<not> (offs \<le> p * 4096 + j \<and> p * 4096 + j < offs + filesz)
    | Some (c, n, f) \<Rightarrow> unat c + unat n \<le> 4096 \<and> unat f + unat n \<le> filesz \<and>
        (\<forall>j<4096. (offs \<le> p * 4096 + j \<and> p * 4096 + j < offs + filesz) = (unat c \<le> j \<and> j < unat c + unat n)) \<and>
        unat f + offs = p * 4096 + unat c"
proof -
  have u: "unat (of_nat offs :: u64) = offs" "unat (of_nat filesz :: u64) = filesz" "unat (of_nat p :: u64) = p"
    using assms by (simp_all add: unat_of_nat_u64)
  have z: "(of_nat p :: u64) = 0 \<longleftrightarrow> p = 0" using arg_cong [of "of_nat p :: u64" 0 unat] u(3) by auto
  define fo where "fo = (if p = 0 then 0 else p * 4096 - offs)"
  define co where "co = (if p = 0 then offs else 0)"
  have fo: "fo + offs = p * 4096 + co" "fo < 2 ^ 61" using assms by (auto simp: fo_def co_def)
  define fw :: u64 where "fw = (if of_nat p = (0 :: u64) then 0 else of_nat p * PAGE_SIZE - of_nat offs)"
  define cw :: u64 where "cw = (if of_nat p = (0 :: u64) then of_nat offs else 0)"
  have pm: "unat (of_nat p * PAGE_SIZE :: u64) = p * 4096"
    using u(3) assms(3) by (subst unat_mult_u64) (simp_all add: PAGE_SIZE_def)
  have cw: "unat cw = co" using u z by (simp add: cw_def co_def)
  have fw: "unat fw = fo" using u z pm assms(1) by (simp add: fw_def fo_def unat_minus_u64)
  have cl: "unat (PAGE_SIZE - cw) = 4096 - co" using cw assms(1) by (subst unat_minus_u64) (simp_all add: PAGE_SIZE_def co_def)
  have sf: "\<not> sint fw < 0" using sint_small [of fw] fw fo(2) by simp
  show ?thesis
  proof (cases "fo < filesz")
    case False
    then have "page_copy (of_nat offs) (of_nat filesz) (of_nat p) = None"
      using fw u(2) by (simp add: page_copy_def Let_def word_le_nat_alt flip: fw_def)
    then show ?thesis using False fo by (auto simp: co_def split: if_splits)
  next
    case True
    have rm: "unat (of_nat filesz - fw) = filesz - fo" using True fw u(2) by (subst unat_minus_u64) simp_all
    then have sr: "\<not> sint (of_nat filesz - fw) \<le> 0" using True sint_small [of "of_nat filesz - fw"] assms(2) by simp
    have "\<not> fw \<ge> of_nat filesz" using True fw u(2) by (simp add: word_le_nat_alt)
    then have e: "page_copy (of_nat offs) (of_nat filesz) (of_nat p) =
        Some (cw, if of_nat filesz - fw > PAGE_SIZE - cw then PAGE_SIZE - cw else of_nat filesz - fw, fw)"
      using sf sr by (simp add: page_copy_def Let_def flip: fw_def cw_def)
    have n: "unat (if of_nat filesz - fw > PAGE_SIZE - cw then PAGE_SIZE - cw else of_nat filesz - fw) = min (4096 - co) (filesz - fo)"
      using rm cl by (simp add: word_less_nat_alt min_def)
    show ?thesis unfolding e option.case prod.case n cw fw using True fo assms(1) by (auto simp: co_def min_def split: if_splits)
  qed
qed

section \<open>Loading a page\<close>

lemma memset_loop_ok:
  "unat s + n \<le> 2 ^ 64 \<Longrightarrow> memset_loop m s c n a = (if in_range s n a then c else m a)"
proof (induction n)
  case (Suc n)
  then show ?case using in_range_Suc [OF Suc.prems] by auto
qed simp

text \<open>Byte \<open>g\<close> of the pages of a segment of \<open>filesz\<close> bytes at \<open>src\<close> that starts at offset \<open>offs\<close>.\<close>

definition seg_byte :: "memory \<Rightarrow> u64 \<Rightarrow> nat \<Rightarrow> nat \<Rightarrow> nat \<Rightarrow> u8" where
  "seg_byte m src offs filesz g = (if offs \<le> g \<and> g < offs + filesz then m (src + of_nat (g - offs)) else 0)"

text \<open>A range of memory that lies in the pages \<open>X\<close>.\<close>

definition lies_in :: "'p vmm \<Rightarrow> nat set \<Rightarrow> u64 \<Rightarrow> nat \<Rightarrow> bool" where
  "lies_in s X a n \<longleftrightarrow> unat a + n \<le> 2 ^ 64 \<and> (\<forall>i<n. \<exists>p\<in>X. in_page s p (a + of_nat i))"

lemma copy_page:
  assumes "direct_map_ok n s" "q < n" "q \<notin> X" "\<forall>p\<in>X. p < n" "lies_in s X a l" "c + l \<le> 4096" "j < 4096"
  shows "memcpy_loop m (ptr s q + of_nat c) a l (ptr s q + of_nat j) =
    (if c \<le> j \<and> j < c + l then m (a + of_nat (j - c)) else m (ptr s q + of_nat j))"
    "\<not> in_page s q b \<Longrightarrow> memcpy_loop m (ptr s q + of_nat c) a l b = m b"
proof -
  have "(q + 1) * 4096 \<le> n * 4096" using assms(2) by (intro mult_right_mono) simp_all
  then have b: "unat (ptr s q) + 4096 \<le> 2 ^ 64" using unat_page_ptr [OF assms(1,2)] assms(1) by (simp add: direct_map_ok_def)
  have u: "unat (ptr s q + of_nat i) = unat (ptr s q) + i" if "i < 4096" for i using unat_offset [OF b that] .
  have pg: "in_page s q x \<longleftrightarrow> unat (ptr s q) \<le> unat x \<and> unat x < unat (ptr s q) + 4096" for x
    by (simp add: in_page_iff [OF assms(1,2)] unat_page_ptr [OF assms(1,2)] algebra_simps)
  have ok: "l \<noteq> 0 \<Longrightarrow> c < 4096 \<Longrightarrow> memcpy_loop m (ptr s q + of_nat c) a l x =
      (if in_range (ptr s q + of_nat c) l x then m (a + (x - (ptr s q + of_nat c))) else m x)" for x
  proof -
    assume c: "c < 4096" "l \<noteq> 0"
    have ap: "unat (ptr s q + of_nat c) \<le> unat a \<or> unat a + l \<le> unat (ptr s q + of_nat c)"
    proof (rule ccontr)
      assume n: "\<not> ?thesis"
      define i where "i = unat (ptr s q + of_nat c) - unat a"
      have i: "i < l" using n by (auto simp: i_def)
      then have "unat (a + of_nat i) = unat (ptr s q + of_nat c)"
        using unat_offset [of a l i] assms(5) n by (auto simp: lies_in_def i_def)
      then have e: "a + of_nat i = ptr s q + of_nat c" by (simp add: word_unat_eq_iff)
      obtain p where p: "p \<in> X" "in_page s p (a + of_nat i)" using assms(5) i by (auto simp: lies_in_def)
      moreover have "in_page s q (a + of_nat i)" using pg u [OF c(1)] c(1) by (simp add: e)
      ultimately show False using in_page_unique [OF assms(1) assms(2), of p] assms(3,4) by blast
    qed
    show "memcpy_loop m (ptr s q + of_nat c) a l x =
        (if in_range (ptr s q + of_nat c) l x then m (a + (x - (ptr s q + of_nat c))) else m x)"
      by (rule memcpy_loop_ok [OF _ _ ap]) (use u [OF c(1)] b assms(5,6) in \<open>auto simp: lies_in_def\<close>)
  qed
  have "a + (ptr s q + of_nat j - (ptr s q + of_nat c)) = a + of_nat (j - c)" if "c \<le> j" using that by (simp add: of_nat_diff)
  then show "memcpy_loop m (ptr s q + of_nat c) a l (ptr s q + of_nat j) =
    (if c \<le> j \<and> j < c + l then m (a + of_nat (j - c)) else m (ptr s q + of_nat j))"
    by (cases "l = 0") (use ok u [OF assms(7)] u [of c] assms(6) in \<open>auto simp: in_range_def\<close>)
  show "memcpy_loop m (ptr s q + of_nat c) a l b = m b" if "\<not> in_page s q b"
    by (cases "l = 0") (use ok u [of c] that pg assms(6) in \<open>auto simp: in_range_def\<close>)
qed

lemma lies_in_part:
  assumes "lies_in s X a l" "unat f + n \<le> l"
  shows "lies_in s X (a + f) n"
proof (cases "n = 0")
  case False
  then have f: "unat f < l" using assms(2) by simp
  have e: "a + f + of_nat i = a + of_nat (unat f + i)" for i by simp
  have "unat (a + f) = unat a + unat f" using unat_offset [of a l "unat f"] assms(1) f by (simp add: lies_in_def)
  moreover have "\<exists>p\<in>X. in_page s p (a + f + of_nat i)" if "i < n" for i
    unfolding e using assms that by (simp only: lies_in_def)
  ultimately show ?thesis using assms by (simp add: lies_in_def)
qed (use unat_lt64 [of "a + f"] in \<open>simp add: lies_in_def del: unat_lt64\<close>)

lemma zeroed_page:
  assumes "direct_map_ok n s" "q < n"
  shows "memset m (ptr s q) 0 PAGE_SIZE b = (if in_page s q b then 0 else m b)"
proof -
  have "(q + 1) * 4096 \<le> n * 4096" using assms(2) by (intro mult_right_mono) simp_all
  then have "unat (ptr s q) + 4096 \<le> 2 ^ 64" using unat_page_ptr [OF assms] assms(1) by (simp add: direct_map_ok_def)
  then show ?thesis
    by (simp add: memset_def PAGE_SIZE_def memset_loop_ok in_range_def in_page_iff [OF assms] unat_page_ptr [OF assms])
qed

lemma ptr_in_page:
  assumes "direct_map_ok n s" "q < n" "j < 4096"
  shows "in_page s q (ptr s q + of_nat j)"
proof -
  have "(q + 1) * 4096 \<le> n * 4096" using assms(2) by (intro mult_right_mono) simp_all
  then have "unat (ptr s q) + 4096 \<le> 2 ^ 64" using unat_page_ptr [OF assms(1,2)] assms(1) by (simp add: direct_map_ok_def)
  then show ?thesis using unat_offset [of "ptr s q" 4096 j] assms(3)
    by (simp add: in_page_iff [OF assms(1,2)] unat_page_ptr [OF assms(1,2)])
qed

text \<open>The memory after a page has been cleared and filled by \<^verbatim>\<open>map_segment\<close>.\<close>

definition filled :: "memory \<Rightarrow> u64 \<Rightarrow> u64 \<Rightarrow> u64 \<Rightarrow> u64 \<Rightarrow> u64 \<Rightarrow> u64 \<Rightarrow> nat \<Rightarrow> memory" where
  "filled m dest filedata len file_offset offs filesz p =
     (let z = memset m dest 0 PAGE_SIZE
      in case page_copy offs filesz (of_nat p) of
           None \<Rightarrow> z
         | Some (c, n, f) \<Rightarrow>
             (if file_offset + f + n \<le> len then memcpy z (dest + c) (filedata + (file_offset + f)) n else z))"

lemma filled_ok:
  assumes dm: "direct_map_ok n s" "q < n" "q \<notin> X" "\<forall>p\<in>X. p < n"
    and src: "lies_in s X (filedata + file_offset) (unat filesz)" "unat file_offset + unat filesz \<le> unat len"
    and sz: "unat filesz < 2 ^ 62" "p < 2 ^ 48" "unat offs < 4096"
  shows "\<not> in_page s q b \<Longrightarrow> filled m (ptr s q) filedata len file_offset offs filesz p b = m b"
    "j < 4096 \<Longrightarrow> filled m (ptr s q) filedata len file_offset offs filesz p (ptr s q + of_nat j) =
      seg_byte m (filedata + file_offset) (unat offs) (unat filesz) (p * 4096 + j)"
proof -
  note z = zeroed_page [OF dm(1,2), of m]
  note pc = page_copy_ok [OF sz(3,1,2), unfolded of_nat_unat ucast_id]
  have both: "(\<not> in_page s q b \<longrightarrow> filled m (ptr s q) filedata len file_offset offs filesz p b = m b) \<and>
    (j < 4096 \<longrightarrow> filled m (ptr s q) filedata len file_offset offs filesz p (ptr s q + of_nat j) =
      seg_byte m (filedata + file_offset) (unat offs) (unat filesz) (p * 4096 + j))" for b j
  proof (cases "page_copy offs filesz (of_nat p)")
    case None
    then show ?thesis using pc z ptr_in_page [OF dm(1,2)] by (auto simp: filled_def seg_byte_def)
  next
    case (Some t)
    obtain c l f where t: "t = (c, l, f)" by (cases t)
    have cl: "unat c + unat l \<le> 4096" "unat f + unat l \<le> unat filesz" "unat f + unat offs = p * 4096 + unat c"
      "\<And>j. j < 4096 \<Longrightarrow>
        (unat offs \<le> p * 4096 + j \<and> p * 4096 + j < unat offs + unat filesz) = (unat c \<le> j \<and> j < unat c + unat l)"
      using pc unfolding Some t by simp_all
    have b1: "unat file_offset + unat f + unat l \<le> unat len" using cl(2) src(2) by simp
    then have u1: "unat (file_offset + f) = unat file_offset + unat f"
      using unat_lt64 [of len] by (intro unat_plus_u64) (simp del: unat_lt64)
    then have "unat (file_offset + f + l) = unat file_offset + unat f + unat l"
      using b1 unat_lt64 [of len] by (subst unat_plus_u64) (simp_all del: unat_lt64)
    then have "file_offset + f + l \<le> len" using b1 by (simp add: word_le_nat_alt)
    then have e: "filled m (ptr s q) filedata len file_offset offs filesz p =
        memcpy_loop (memset m (ptr s q) 0 PAGE_SIZE) (ptr s q + of_nat (unat c)) (filedata + file_offset + f) (unat l)"
      by (simp add: filled_def Some t memcpy_def add.assoc)
    have li: "lies_in s X (filedata + file_offset + f) (unat l)" by (rule lies_in_part [OF src(1) cl(2)])
    note cp = copy_page [OF dm li cl(1)]
    have "filled m (ptr s q) filedata len file_offset offs filesz p b = m b" if "\<not> in_page s q b"
      unfolding e using cp(2) [of 0, OF _ that] z that by simp
    moreover have "filled m (ptr s q) filedata len file_offset offs filesz p (ptr s q + of_nat j) =
      seg_byte m (filedata + file_offset) (unat offs) (unat filesz) (p * 4096 + j)" if j: "j < 4096"
    proof (cases "unat c \<le> j \<and> j < unat c + unat l")
      case True
      define i where "i = j - unat c"
      have i: "i < unat l" "p * 4096 + j - unat offs = unat f + i" using True cl(3) by (auto simp: i_def)
      obtain x where "x \<in> X" "in_page s x (filedata + file_offset + f + of_nat i)" using li i(1) by (auto simp: lies_in_def)
      then have "\<not> in_page s q (filedata + file_offset + f + of_nat i)" using in_page_unique [OF dm(1,2)] dm(3,4) by blast
      then show ?thesis using cp(1) [OF j] True cl(4) [OF j] z i unfolding e
        by (simp add: seg_byte_def i_def [symmetric] add.assoc)
    next
      case False
      show ?thesis unfolding e seg_byte_def cp(1) [OF j] cl(4) [OF j] if_not_P [OF False] z
        by (simp add: ptr_in_page [OF dm(1,2) j])
    qed
    ultimately show ?thesis by blast
  qed
  show "\<not> in_page s q b \<Longrightarrow> filled m (ptr s q) filedata len file_offset offs filesz p b = m b"
    "j < 4096 \<Longrightarrow> filled m (ptr s q) filedata len file_offset offs filesz p (ptr s q + of_nat j) =
      seg_byte m (filedata + file_offset) (unat offs) (unat filesz) (p * 4096 + j)"
    using both by blast+
qed

text \<open>The loader runs on any page allocator and any byte memory.\<close>

locale loader = page_allocator inv alloc free_pages_of limit + byte_memory H
  for inv :: "'p \<Rightarrow> bool" and alloc free_pages_of limit and H :: "'s heap_ops"
begin

abbreviation space :: "nat \<Rightarrow> nat set \<Rightarrow> ('s, 'p) machine \<Rightarrow> bool" where
  "space \<equiv> space_ok inv free_pages_of limit H"

abbreviation avail :: "('s, 'p) machine \<Rightarrow> nat set" where
  "avail k \<equiv> free_pages_of (pm_of k)"

lemma bytes_put [simp]: "bytes_in H (put_bytes H m k) = m" "k_vmm (put_bytes H m k) = k_vmm k"
  by (simp_all add: bytes_in_def put_bytes_def mem_store)

lemma palloc_step:
  assumes s: "space r X k" and a: "alloc (pm_of k) = (a, m)" "a \<noteq> 0"
  shows "\<exists>q. a = page_addr q \<and> q \<in> avail k \<and> q \<notin> X \<and> 0 < q \<and> q < limit m \<and>
    free_pages_of m = avail k - {q} \<and> space r (insert q X) (k\<lparr>k_vmm := (k_vmm k)\<lparr>pm := m\<rparr>\<rparr>)"
proof -
  note d = space_okD [OF s]
  obtain q where q: "a = page_addr q" "q \<in> avail k" "free_pages_of m = avail k - {q}" using alloc_some [OF d(4) a] by blast
  have r: "0 < q" "q < limit (pm_of k)" using free_range [OF d(4) q(2)] by auto
  have m: "inv m" "limit m = limit (pm_of k)" using alloc_inv [OF d(4) a(1)] by auto
  define k1 where "k1 = k\<lparr>k_vmm := (k_vmm k)\<lparr>pm := m\<rparr>\<rparr>"
  have b: "bytes_in H k1 = bytes_in H k" by (simp add: k1_def bytes_in_def)
  have v: "vm_of H k1 = (vm_of H k)\<lparr>pm := m\<rparr>" by (simp add: vm_of_def b) (simp add: k1_def)
  have F: "free_pages_of m \<union> insert q X = avail k \<union> X" using q by auto
  have "protects inv free_pages_of limit (insert q X) m"
    using m q d(5,6) r by (auto simp: protects_def)
  then have "vmm_wf (protects inv free_pages_of limit (insert q X)) (\<lambda>m. free_pages_of m \<union> insert q X) limit r (vm_of H k1)"
    using vmm_wfD(2-4) [OF d(1)] F m(2) unfolding v vmm_wf_def by (simp add: direct_map_ok_def)
  then have "space r (insert q X) k1" using d(2) by (simp add: space_ok_def k1_def)
  moreover have "q \<notin> X" using q(2) d(5) by auto
  ultimately show ?thesis using q r m unfolding k1_def by (intro exI [of _ q] conjI) simp_all
qed

lemma map_step:
  assumes s: "space r X k" and fl: "flags AND PTE_ADDR_MASK = 0" and m: "k_map_page H alloc virt pa flags k = Some k'"
  shows "space r X k'" "kept_pages H X k k'" "avail k' \<subseteq> avail k" "card (avail k - avail k') \<le> 3"
    "v_hhdm_offset (k_vmm k') = v_hhdm_offset (k_vmm k)"
    "virt_to_phys_user (vm_of H k') v =
      (if same_page v virt then (pa AND PTE_ADDR_MASK) + (v AND 0xFFF) else virt_to_phys_user (vm_of H k) v)"
proof -
  note d = space_okD [OF s] and P = protected [of X]
  obtain w where w: "map_page alloc (vm_of H k) virt pa flags = Some w"
    and k': "k' = put_bytes H (bytes_of_words (mem w)) (k\<lparr>k_vmm := w\<rparr>)"
    using m by (auto simp: k_map_page_def on_vmm_def vm_of_def bind_eq_Some_conv)
  note ok = page_source.map_page_ok [OF P d(1) fl w] and fr = page_source.map_page_frame [OF P d(1) w]
    and fs = page_source.map_page_free [OF P d(1) w]
  have kv: "k_vmm k' = w" "bytes_in H k' = bytes_of_words (mem w)" using k' by simp_all
  have al: "rd (vm_of H k') (ptr w p) (of_nat i) = rd w (ptr w p) (of_nat i)"
    if "p < limit (pm w)" "p \<notin> free_pages_of (pm w) \<union> X" "i < 512" for p i
    using slot_aligned [OF vmm_wfD(3) [OF ok(1)] that(1,3)] d(2) fr(3) by (simp add: rd_def kv load64_bytes_of_words)
  have f: "pm (vm_of H k') = pm w" "v_hhdm_offset (vm_of H k') = v_hhdm_offset w" "kernel_pml4 (vm_of H k') = kernel_pml4 w"
    using kv by simp_all
  have ag: "vmm_wf (protects inv free_pages_of limit X) (\<lambda>m. free_pages_of m \<union> X) limit r (vm_of H k')"
    "virt_to_phys_user (vm_of H k') v = virt_to_phys_user w v"
    using vmm_wf_agree [OF ok(1) f] al by blast+
  show sp: "space r X k'" using ag(1) fr(3) kv(1) d(2) by (simp add: space_ok_def)
  show "virt_to_phys_user (vm_of H k') v =
      (if same_page v virt then (pa AND PTE_ADDR_MASK) + (v AND 0xFFF) else virt_to_phys_user (vm_of H k) v)"
    unfolding ag(2) by (rule ok(2))
  note d' = space_okD [OF sp]
  show "avail k' \<subseteq> avail k" using fs d'(5) kv(1) by auto
  have "avail k - avail k' = (avail k \<union> X) - (avail k' \<union> X)" using d(5) by auto
  then show "card (avail k - avail k') \<le> 3" using fr(4) kv(1) by simp
  show "v_hhdm_offset (k_vmm k') = v_hhdm_offset (k_vmm k)" using fr(3) kv(1) by simp
  show "kept_pages H X k k'"
    unfolding kept_pages_def
  proof (intro ballI allI impI)
    fix p a assume p: "p \<in> X" "in_page (vm_of H k) p a"
    have "in_page (vm_of H k) p (a AND NOT 7)" using in_page_low [OF d(3) _ _ p(2)] d(2,6) p(1) by simp
    then have "mem w (a AND NOT 7) = load64 (bytes_in H k) (a AND NOT 7)"
      using fr(1) p(1) by (auto simp: same_pages_def)
    then show "bytes_in H k' a = bytes_in H k a"
      using fun_cong [OF bytes_of_words_load64 [of "bytes_in H k"], of a] by (simp add: kv bytes_of_words_def)
  qed
qed

lemma map_returns:
  assumes s: "space r X k" and c: "3 \<le> card (avail k)"
  shows "\<exists>k'. k_map_page H alloc virt pa flags k = Some k'"
proof -
  note d = space_okD [OF s]
  have "vmm_wf inv free_pages_of limit r (vm_of H k)"
    using vmm_wfD [OF d(1)] d(4) tables_ok_mono [of _ r _ "avail k \<union> X" "avail k"] by (simp add: vmm_wf_def)
  from map_page_returns [OF this, of virt pa flags] c show ?thesis by (auto simp: k_map_page_def on_vmm_def vm_of_def)
qed

lemma in_page_cong: "v_hhdm_offset t = v_hhdm_offset s \<Longrightarrow> in_page t = in_page s"
  by (simp add: in_page_def ptr_cong [of t s] fun_eq_iff)

lemma off_in_page_less: "unat (off_in_page v) < 4096"
proof -
  have "off_in_page v = v mod 4096"
    using take_bit_eq_mask [of 12 v] by (simp add: off_in_page_def PAGE_SIZE_def take_bit_eq_mod mask_eq_exp_minus_1)
  then show ?thesis by (simp add: unat_mod)
qed

lemma fresh_page_mapped:
  assumes s: "space r X k" and c: "4 \<le> card (avail k)" and fl: "flags AND PTE_ADDR_MASK = 0"
  obtains q k1 k2 where "k_palloc alloc k = (page_addr q, k1)" "k_map_page H alloc virt (page_addr q) flags k1 = Some k2"
    "q \<in> avail k" "q \<notin> X" "space r (insert q X) k2" "avail k2 \<subseteq> avail k" "card (avail k - avail k2) \<le> 4"
    "v_hhdm_offset (k_vmm k2) = v_hhdm_offset (k_vmm k)" "kept_pages H (insert q X) k k2"
    "\<And>v. virt_to_phys_user (vm_of H k2) v =
      (if same_page v virt then page_addr q + (v AND 0xFFF) else virt_to_phys_user (vm_of H k) v)"
proof -
  note d = space_okD [OF s]
  obtain pa m where a: "alloc (pm_of k) = (pa, m)" by fastforce
  have "pa \<noteq> 0" using alloc_none [OF d(4)] a c by fastforce
  then obtain q where q: "pa = page_addr q" "q \<in> avail k" "q \<notin> X" "q < limit m" "free_pages_of m = avail k - {q}"
    "space r (insert q X) (k\<lparr>k_vmm := (k_vmm k)\<lparr>pm := m\<rparr>\<rparr>)"
    using palloc_step [OF s a] by blast
  define k1 where "k1 = k\<lparr>k_vmm := (k_vmm k)\<lparr>pm := m\<rparr>\<rparr>"
  have b1: "bytes_in H k1 = bytes_in H k" by (simp add: k1_def bytes_in_def)
  have "vm_of H k1 = (vm_of H k)\<lparr>pm := m\<rparr>" by (simp add: vm_of_def b1) (simp add: k1_def)
  then have v1: "virt_to_phys_user (vm_of H k1) v = virt_to_phys_user (vm_of H k) v" for v by simp
  have a1: "avail k1 = avail k - {q}" "v_hhdm_offset (k_vmm k1) = v_hhdm_offset (k_vmm k)" using q(5) by (simp_all add: k1_def)
  have fin: "finite (avail k)" using finite_free [OF d(4)] .
  have s1: "space r (insert q X) k1" using q(6) by (simp add: k1_def)
  have "3 \<le> card (avail k1)" using c a1(1) q(2) fin by simp
  then obtain k2 where k2: "k_map_page H alloc virt pa flags k1 = Some k2" using map_returns [OF s1] by blast
  note m2 = map_step [OF s1 fl k2]
  have "in_page (vm_of H k1) = in_page (vm_of H k)" by (rule in_page_cong) (use a1(2) in simp)
  then have kp: "kept_pages H (insert q X) k k2" using m2(2) b1 by (simp add: kept_pages_def)
  have "q < limit (pm_of k2)" "direct_map_ok (limit (pm_of k2)) (vm_of H k2)" using space_okD(3,6) [OF m2(1)] by auto
  then have "q * 4096 < 2 ^ 52" by (simp add: direct_map_ok_def)
  then have tr: "virt_to_phys_user (vm_of H k2) v =
      (if same_page v virt then page_addr q + (v AND 0xFFF) else virt_to_phys_user (vm_of H k) v)" for v
    unfolding m2(6) q(1) using v1 by (simp add: page_addr_mask)
  have "card (avail k - avail k2) \<le> card (insert q (avail k1 - avail k2))" using fin a1(1) by (intro card_mono) auto
  then have cd: "card (avail k - avail k2) \<le> 4" using m2(4) card_insert_le_m1 [of 4 "avail k1 - avail k2" q] by simp
  show thesis
    by (rule that [of q k1 k2]) (use a q(1-3) k2 m2(1,3,5) a1 kp tr cd in \<open>auto simp: k_palloc_def k1_def\<close>)
qed

lemma seg_byte_cong:
  assumes "\<forall>i<filesz. m' (src + of_nat i) = m (src + of_nat i)"
  shows "seg_byte m' src offs filesz g = seg_byte m src offs filesz g"
proof (cases "offs \<le> g \<and> g < offs + filesz")
  case True
  then have "g - offs < filesz" by linarith
  then show ?thesis using assms by (simp only: seg_byte_def)
next
  case False
  show ?thesis unfolding seg_byte_def if_not_P [OF False] ..
qed

lemma load_page_ok:
  assumes s: "space r X k" and c: "4 \<le> card (avail k)" and fl: "flags AND PTE_ADDR_MASK = 0"
    and src: "lies_in (vm_of H k) X (filedata + file_offset) (unat filesz)" "unat file_offset + unat filesz \<le> unat len"
    and sz: "unat filesz < 2 ^ 62" "p < 2 ^ 48"
  shows "\<exists>k' q. load_page H alloc flags vaddr filesz (copy_from_memory H filedata len file_offset) p k = Some k' \<and>
    q \<in> avail k \<and> space r (insert q X) k' \<and> kept_pages H X k k' \<and> avail k' \<subseteq> avail k \<and> card (avail k - avail k') \<le> 4 \<and>
    v_hhdm_offset (k_vmm k') = v_hhdm_offset (k_vmm k) \<and>
    (\<forall>v. virt_to_phys_user (vm_of H k') v =
      (if same_page v ((vaddr AND NOT (PAGE_SIZE - 1)) + of_nat p * PAGE_SIZE) then page_addr q + (v AND 0xFFF)
       else virt_to_phys_user (vm_of H k) v)) \<and>
    (\<forall>j<4096. bytes_in H k' (ptr (vm_of H k) q + of_nat j) =
      seg_byte (bytes_in H k) (filedata + file_offset) (unat (off_in_page vaddr)) (unat filesz) (p * 4096 + j))"
proof -
  let ?src = "filedata + file_offset" and ?o = "off_in_page vaddr"
  define cur where "cur = (vaddr AND NOT (PAGE_SIZE - 1)) + of_nat p * PAGE_SIZE"
  obtain q k1 k2 where m: "k_palloc alloc k = (page_addr q, k1)" "k_map_page H alloc cur (page_addr q) flags k1 = Some k2"
    "q \<in> avail k" "q \<notin> X" "space r (insert q X) k2" "avail k2 \<subseteq> avail k" "card (avail k - avail k2) \<le> 4"
    "v_hhdm_offset (k_vmm k2) = v_hhdm_offset (k_vmm k)" "kept_pages H (insert q X) k k2"
    "\<And>v. virt_to_phys_user (vm_of H k2) v =
      (if same_page v cur then page_addr q + (v AND 0xFFF) else virt_to_phys_user (vm_of H k) v)"
    using fresh_page_mapped [OF s c fl, of cur] by metis
  note d2 = space_okD [OF m(5)]
  have v2: "in_page (vm_of H k2) = in_page (vm_of H k)" "ptr (vm_of H k2) = ptr (vm_of H k)"
    by (rule in_page_cong ptr_cong, use m(8) in simp)+
  have k2b: "bytes_in H k2 b = bytes_in H k b" if "x \<in> X" "in_page (vm_of H k) x b" for x b
    using m(9) that by (auto simp: kept_pages_def)
  have ql: "q < limit (pm_of k2)" "\<forall>x\<in>X. x < limit (pm_of k2)" using d2(6) by auto
  define m4 where "m4 = filled (bytes_in H k2) (ptr (vm_of H k) q) filedata len file_offset ?o filesz p"
  define k4 where "k4 = put_bytes H m4 k2"
  have src2: "lies_in (vm_of H k2) X ?src (unat filesz)" using src(1) v2(1) by (simp add: lies_in_def)
  note f = filled_ok [OF d2(3) ql(1) m(4) ql(2) src2 src(2) sz off_in_page_less [of vaddr], unfolded v2]
  have pv: "phys_to_virt (k_vmm k2) (page_addr q) = ptr (vm_of H k) q" using m(8) by (simp add: ptr_def phys_to_virt_def)
  have put2: "put_bytes H m' (put_bytes H m'' k2) = put_bytes H m' k2" for m' m'' by (simp add: put_bytes_def store_store)
  have run: "load_page H alloc flags vaddr filesz (copy_from_memory H filedata len file_offset) p k = Some k4"
    using m(1,2) put2 by (simp add: load_page_def Let_def flip: cur_def)
      (simp add: pv k4_def m4_def filled_def Let_def copy_from_memory_def add.assoc split: option.split)
  have keep: "bytes_in H k4 b = bytes_in H k2 b" if "\<not> in_page (vm_of H k) q b" for b
    using f(1) [OF that] by (simp add: k4_def m4_def)
  have other: "bytes_in H k4 b = bytes_in H k2 b" if "x < limit (pm_of k2)" "x \<noteq> q" "in_page (vm_of H k) x b" for x b
    using keep in_page_unique [OF d2(3) that(1) ql(1)] that(2,3) v2(1) by auto
  have vm4: "(k_vmm k4)\<lparr>mem := g\<rparr> = (k_vmm k2)\<lparr>mem := g\<rparr>" for g by (simp add: k4_def)
  have w: "space r (insert q X) k4" "virt_to_phys_user (vm_of H k4) u = virt_to_phys_user (vm_of H k2) u" for u
    using space_write [OF m(5) vm4, unfolded v2(1)] other by blast+
  have "kept_pages H X k k4" unfolding kept_pages_def using other k2b ql(2) m(4) by metis
  moreover have "\<forall>i<unat filesz. bytes_in H k2 (?src + of_nat i) = bytes_in H k (?src + of_nat i)"
    using src(1) k2b unfolding lies_in_def by blast
  then have "\<forall>j<4096. bytes_in H k4 (ptr (vm_of H k) q + of_nat j) =
      seg_byte (bytes_in H k) ?src (unat ?o) (unat filesz) (p * 4096 + j)"
    using f(2) seg_byte_cong by (simp add: k4_def m4_def)
  moreover have "avail k4 = avail k2" "v_hhdm_offset (k_vmm k4) = v_hhdm_offset (k_vmm k)" using m(8) by (simp_all add: k4_def)
  ultimately show ?thesis using run w m(3,6,7,10) unfolding cur_def by (intro exI [of _ k4] exI [of _ q] conjI) simp_all
qed

lemma kept_pages_mono: "kept_pages H Y k k' \<Longrightarrow> X \<subseteq> Y \<Longrightarrow> kept_pages H X k k'"
  by (auto simp: kept_pages_def)

lemma kept_pages_trans:
  assumes "kept_pages H X k k1" "kept_pages H X k1 k2" "v_hhdm_offset (k_vmm k1) = v_hhdm_offset (k_vmm k)"
  shows "kept_pages H X k k2"
proof -
  have "in_page (vm_of H k1) = in_page (vm_of H k)" by (rule in_page_cong) (use assms(3) in simp)
  then show ?thesis using assms(1,2) by (simp add: kept_pages_def)
qed

text \<open>The pages of a segment that the loop has reached, with the frame and the contents of each.\<close>

definition loaded :: "nat set \<Rightarrow> ('s, 'p) machine \<Rightarrow> ('s, 'p) machine \<Rightarrow> nat \<Rightarrow> (nat \<Rightarrow> u8) \<Rightarrow> nat \<Rightarrow> bool" where
  "loaded Y k k' a0 c n \<longleftrightarrow>
     (\<forall>p<n. \<exists>q\<in>Y. (\<forall>v. unat v < 2 ^ 48 \<and> unat v div 4096 = a0 + p \<longrightarrow>
          virt_to_phys_user (vm_of H k') v = page_addr q + (v AND 0xFFF)) \<and>
        (\<forall>j<4096. bytes_in H k' (ptr (vm_of H k) q + of_nat j) = c (p * 4096 + j))) \<and>
     (\<forall>v. unat v < 2 ^ 48 \<and> \<not> (a0 \<le> unat v div 4096 \<and> unat v div 4096 < a0 + n) \<longrightarrow>
        virt_to_phys_user (vm_of H k') v = virt_to_phys_user (vm_of H k) v)"

lemma loaded_Suc:
  assumes l: "loaded Y k k1 a0 c n" and sp: "space r Y k1" and kp: "kept_pages H Y k1 k2"
    and hh: "v_hhdm_offset (k_vmm k1) = v_hhdm_offset (k_vmm k)" and a0: "a0 + n < 2 ^ 36"
    and tr: "\<And>v. virt_to_phys_user (vm_of H k2) v =
      (if same_page v (page_addr (a0 + n)) then page_addr q + (v AND 0xFFF) else virt_to_phys_user (vm_of H k1) v)"
    and ct: "\<forall>j<4096. bytes_in H k2 (ptr (vm_of H k) q + of_nat j) = c (n * 4096 + j)"
  shows "loaded (insert q Y) k k2 a0 c (Suc n)"
proof -
  have "unat (page_addr (a0 + n)) = (a0 + n) * 4096" using a0 by (intro unat_page_addr) simp
  then have sp': "same_page v (page_addr (a0 + n)) \<longleftrightarrow> unat v div 4096 = a0 + n" if "unat v < 2 ^ 48" for v
    using same_page_iff [OF that, of "page_addr (a0 + n)"] a0 by simp
  have pg: "ptr (vm_of H k1) = ptr (vm_of H k)" "in_page (vm_of H k1) = in_page (vm_of H k)"
    by (rule ptr_cong in_page_cong, use hh in simp)+
  have old: "bytes_in H k2 (ptr (vm_of H k) x + of_nat j) = bytes_in H k1 (ptr (vm_of H k) x + of_nat j)"
    if "x \<in> Y" "j < 4096" for x j
    using kp that ptr_in_page [OF space_okD(3) [OF sp] _ that(2), of x] space_okD(6) [OF sp that(1)] pg by (auto simp: kept_pages_def)
  show ?thesis
    unfolding loaded_def
  proof (intro conjI allI impI)
    fix p assume p: "p < Suc n"
    show "\<exists>q\<in>insert q Y. (\<forall>v. unat v < 2 ^ 48 \<and> unat v div 4096 = a0 + p \<longrightarrow>
          virt_to_phys_user (vm_of H k2) v = page_addr q + (v AND 0xFFF)) \<and>
        (\<forall>j<4096. bytes_in H k2 (ptr (vm_of H k) q + of_nat j) = c (p * 4096 + j))"
    proof (cases "p = n")
      case True
      then show ?thesis using ct tr sp' by (intro bexI [of _ q]) auto
    next
      case False
      then have "p < n" using p by simp
      then obtain x where x: "x \<in> Y" "\<forall>v. unat v < 2 ^ 48 \<and> unat v div 4096 = a0 + p \<longrightarrow>
          virt_to_phys_user (vm_of H k1) v = page_addr x + (v AND 0xFFF)"
        "\<forall>j<4096. bytes_in H k1 (ptr (vm_of H k) x + of_nat j) = c (p * 4096 + j)"
        using l unfolding loaded_def by blast
      then show ?thesis using old tr sp' False by (intro bexI [of _ x]) auto
    qed
  next
    fix v :: u64 assume v: "unat v < 2 ^ 48 \<and> \<not> (a0 \<le> unat v div 4096 \<and> unat v div 4096 < a0 + Suc n)"
    then have "unat v div 4096 \<noteq> a0 + n" by auto
    then show "virt_to_phys_user (vm_of H k2) v = virt_to_phys_user (vm_of H k) v"
      using l v tr sp' unfolding loaded_def by auto
  qed
qed

end

lemma each_snoc: "each f (xs @ [x]) k = Option.bind (each f xs k) (f x)"
  by (induction xs arbitrary: k) (auto split: bind_split)

lemma page_base: "(v AND NOT (PAGE_SIZE - 1)) + of_nat p * PAGE_SIZE = page_addr (unat v div 4096 + p)"
proof -
  have "v AND NOT (PAGE_SIZE - 1) = v - v mod 4096"
    using and_not_mask_u64 [of v 12] by (simp add: PAGE_SIZE_def mask_eq_exp_minus_1)
  moreover have "unat (v mod 4096) = unat v mod 4096" by (simp add: unat_mod)
  then have "v mod 4096 = of_nat (unat v mod 4096)" by (rule of_nat_of_unat)
  moreover have "of_nat (unat v div 4096 * 4096 + unat v mod 4096) = v" by simp
  then have "of_nat (unat v div 4096) * 4096 + of_nat (unat v mod 4096) = v" unfolding of_nat_add of_nat_mult of_nat_numeral .
  ultimately have "v AND NOT (PAGE_SIZE - 1) = of_nat (unat v div 4096) * 4096" by (metis add_diff_cancel_right')
  then show ?thesis by (simp add: page_addr_def PAGE_SIZE_def algebra_simps)
qed

context loader
begin

lemma segment_loop:
  assumes s: "space r X k" and fl: "flags AND PTE_ADDR_MASK = 0"
    and src: "lies_in (vm_of H k) X (filedata + file_offset) (unat filesz)" "unat file_offset + unat filesz \<le> unat len"
    and sz: "unat filesz < 2 ^ 62" "unat vaddr div 4096 + n \<le> 2 ^ 36" and c: "4 * n \<le> card (avail k)"
  shows "\<exists>k' Y. each (load_page H alloc flags vaddr filesz (copy_from_memory H filedata len file_offset)) [0..<n] k = Some k' \<and>
    X \<subseteq> Y \<and> space r Y k' \<and> kept_pages H X k k' \<and> avail k' \<subseteq> avail k \<and> card (avail k - avail k') \<le> 4 * n \<and>
    v_hhdm_offset (k_vmm k') = v_hhdm_offset (k_vmm k) \<and>
    loaded Y k k' (unat vaddr div 4096)
      (seg_byte (bytes_in H k) (filedata + file_offset) (unat (off_in_page vaddr)) (unat filesz)) n"
  using sz(2) c
proof (induction n)
  case 0
  then show ?case using s by (intro exI [of _ k] exI [of _ X]) (simp add: loaded_def kept_pages_def)
next
  case (Suc n)
  let ?src = "filedata + file_offset" and ?f = "load_page H alloc flags vaddr filesz (copy_from_memory H filedata len file_offset)"
  obtain k1 Y where k1: "each ?f [0..<n] k = Some k1" "X \<subseteq> Y" "space r Y k1" "kept_pages H X k k1" "avail k1 \<subseteq> avail k"
    "card (avail k - avail k1) \<le> 4 * n" "v_hhdm_offset (k_vmm k1) = v_hhdm_offset (k_vmm k)"
    "loaded Y k k1 (unat vaddr div 4096) (seg_byte (bytes_in H k) ?src (unat (off_in_page vaddr)) (unat filesz)) n"
    using Suc by auto
  have fin: "finite (avail k)" using finite_free [OF space_okD(4) [OF s]] .
  have "card (avail k - avail k1) = card (avail k) - card (avail k1)"
    using k1(5) fin by (intro card_Diff_subset) (auto intro: finite_subset)
  then have c1: "4 \<le> card (avail k1)" using k1(6) Suc.prems(2) by simp
  have pg: "ptr (vm_of H k1) = ptr (vm_of H k)" "in_page (vm_of H k1) = in_page (vm_of H k)"
    by (rule ptr_cong in_page_cong, use k1(7) in simp)+
  have src1: "lies_in (vm_of H k1) Y ?src (unat filesz)" 
    using src(1) k1(2) unfolding lies_in_def pg(2) by blast
  have "n < 2 ^ 48" using Suc.prems(1) by simp
  from load_page_ok [OF k1(3) c1 fl src1 src(2) sz(1) this, of vaddr] obtain k2 q where k2: "?f n k1 = Some k2" "q \<in> avail k1"
    "space r (insert q Y) k2" "kept_pages H Y k1 k2" "avail k2 \<subseteq> avail k1" "card (avail k1 - avail k2) \<le> 4"
    "v_hhdm_offset (k_vmm k2) = v_hhdm_offset (k_vmm k1)"
    "\<And>v. virt_to_phys_user (vm_of H k2) v =
      (if same_page v (page_addr (unat vaddr div 4096 + n)) then page_addr q + (v AND 0xFFF) else virt_to_phys_user (vm_of H k1) v)"
    "\<forall>j<4096. bytes_in H k2 (ptr (vm_of H k1) q + of_nat j) =
      seg_byte (bytes_in H k1) ?src (unat (off_in_page vaddr)) (unat filesz) (n * 4096 + j)"
    unfolding page_base by blast
  have "\<forall>i<unat filesz. bytes_in H k1 (?src + of_nat i) = bytes_in H k (?src + of_nat i)"
    using src(1) k1(4) unfolding lies_in_def kept_pages_def by blast
  note sb = seg_byte_cong [OF this]
  have "loaded (insert q Y) k k2 (unat vaddr div 4096) (seg_byte (bytes_in H k) ?src (unat (off_in_page vaddr)) (unat filesz)) (Suc n)"
    by (rule loaded_Suc [OF k1(8,3) k2(4) k1(7) _ k2(8)]) (use Suc.prems(1) k2(9) pg(1) sb in simp_all)
  moreover have "kept_pages H X k k2" using kept_pages_trans [OF k1(4) kept_pages_mono [OF k2(4) k1(2)] k1(7)] .
  moreover have "card (avail k - avail k2) \<le> 4 * n + 4"
    by (rule card_used [OF space_okD(4) [OF s] k1(6) k2(6) k1(5)])
  ultimately show ?case using k1 k2 each_snoc [of ?f "[0..<n]" n k] by (intro exI [of _ k2] exI [of _ "insert q Y"]) auto
qed

lemma unat_num_pages:
  assumes "unat vaddr + unat memsz \<le> 2 ^ 47"
  shows "unat (num_pages vaddr memsz) = (unat memsz + unat (off_in_page vaddr) + 4095) div 4096"
proof -
  have "unat (memsz + off_in_page vaddr) = unat memsz + unat (off_in_page vaddr)"
    using assms off_in_page_less [of vaddr] by (intro unat_plus_u64) simp
  then have "unat (memsz + off_in_page vaddr + 4095) = unat memsz + unat (off_in_page vaddr) + 4095"
    using assms off_in_page_less [of vaddr] by (subst unat_plus_u64) simp_all
  then show ?thesis
    using unat_div [of "memsz + off_in_page vaddr + 4095" 4096] by (simp add: num_pages_def PAGE_SIZE_def add.assoc add.commute [of 4095])
qed

lemma vread_loaded:
  assumes "loaded Y k k' a0 c n" "v_hhdm_offset (k_vmm k') = v_hhdm_offset (k_vmm k)"
    "unat v < 2 ^ 48" "a0 * 4096 \<le> unat v" "unat v < (a0 + n) * 4096"
  shows "vread H k' v = c (unat v - a0 * 4096)"
proof -
  define p where "p = unat v div 4096 - a0"
  define j where "j = unat v mod 4096"
  have "a0 \<le> unat v div 4096" "unat v div 4096 < a0 + n" using assms(4,5) by (auto simp: div_le_mono less_mult_imp_div_less)
  then have p: "p < n" "unat v div 4096 = a0 + p" by (auto simp: p_def)
  have "unat v = unat v div 4096 * 4096 + j" by (simp add: j_def)
  then have e: "unat v - a0 * 4096 = p * 4096 + j" using p(2) by (simp add: algebra_simps)
  obtain q where q: "virt_to_phys_user (vm_of H k') v = page_addr q + (v AND 0xFFF)"
    "\<forall>j<4096. bytes_in H k' (ptr (vm_of H k) q + of_nat j) = c (p * 4096 + j)"
    using assms(1,3) p unfolding loaded_def by blast
  have "v AND 0xFFF = v mod 4096"
    using take_bit_eq_mask [of 12 v] by (simp add: take_bit_eq_mod mask_eq_exp_minus_1)
  then have "unat (v AND 0xFFF) = j" by (simp add: j_def unat_mod)
  then have "v AND 0xFFF = of_nat j" by (rule of_nat_of_unat)
  then have "vread H k' v = bytes_in H k' (ptr (vm_of H k) q + of_nat j)"
    using q(1) assms(2) by (simp add: vread_def ptr_def phys_to_virt_def algebra_simps)
  then show ?thesis using q(2) e by (simp add: j_def)
qed

text \<open>A segment is loaded: its bytes are those of the file, then zeroes.\<close>

lemma map_segment_ok:
  assumes s: "space r X k"
    and src: "lies_in (vm_of H k) X (filedata + file_offset) (unat filesz)" "unat file_offset + unat filesz \<le> unat len"
    and sz: "unat filesz \<le> unat memsz" "unat vaddr + unat memsz \<le> 2 ^ 47"
    and c: "4 * unat (num_pages vaddr memsz) \<le> card (avail k)"
  shows "\<exists>k' Y. map_segment H alloc vaddr memsz filesz filedata len file_offset k = Some k' \<and>
    (\<forall>i<unat memsz. vread H k' (vaddr + of_nat i) =
       (if i < unat filesz then bytes_in H k (filedata + file_offset + of_nat i) else 0)) \<and>
    kept_pages H X k k' \<and> X \<subseteq> Y \<and> space r Y k' \<and>
    (\<forall>v. unat v < 2 ^ 48 \<and>
       (unat v div 4096 < unat vaddr div 4096 \<or> (unat vaddr + unat memsz + 4095) div 4096 \<le> unat v div 4096) \<longrightarrow>
       virt_to_phys_user (vm_of H k') v = virt_to_phys_user (vm_of H k) v)"
proof -
  let ?n = "unat (num_pages vaddr memsz)" and ?a = "unat vaddr div 4096" and ?o = "unat (off_in_page vaddr)"
  let ?fl = "PTE_PRESENT OR PTE_WRITABLE OR PTE_USER"
  have fl: "?fl AND PTE_ADDR_MASK = 0" by (simp add: PTE_PRESENT_def PTE_WRITABLE_def PTE_USER_def PTE_ADDR_MASK_def)
  have "off_in_page vaddr = vaddr mod 4096"
    using take_bit_eq_mask [of 12 vaddr] by (simp add: off_in_page_def PAGE_SIZE_def take_bit_eq_mod mask_eq_exp_minus_1)
  then have o: "unat vaddr = ?a * 4096 + ?o" by (simp add: unat_mod)
  have n: "?n = (unat memsz + ?o + 4095) div 4096" using sz(2) by (rule unat_num_pages)
  have top: "?a + ?n = (unat vaddr + unat memsz + 4095) div 4096"
  proof -
    have "unat vaddr + unat memsz + 4095 = (unat memsz + ?o + 4095) + ?a * 4096" using o by simp
    then show ?thesis unfolding n by (metis add.commute div_mult_self3 zero_neq_numeral)
  qed
  then have b: "?a + ?n \<le> 2 ^ 36" using sz(2) by simp
  have "unat filesz < 2 ^ 62" using sz by simp
  from segment_loop [OF s fl src this b c] obtain k' Y where
    k': "map_segment H alloc vaddr memsz filesz filedata len file_offset k = Some k'" "X \<subseteq> Y" "space r Y k'" "kept_pages H X k k'"
      "v_hhdm_offset (k_vmm k') = v_hhdm_offset (k_vmm k)"
      "loaded Y k k' ?a (seg_byte (bytes_in H k) (filedata + file_offset) ?o (unat filesz)) ?n"
    unfolding map_segment_def by blast
  have "vread H k' (vaddr + of_nat i) = (if i < unat filesz then bytes_in H k (filedata + file_offset + of_nat i) else 0)"
    if i: "i < unat memsz" for i
  proof -
    have "i < 2 ^ 64" using i sz(2) by simp
    then have "unat (of_nat i :: u64) = i" by (simp add: unat_of_nat_u64)
    then have v: "unat (vaddr + of_nat i) = unat vaddr + i" using i sz(2) by (subst unat_plus_u64) simp_all
    have "unat vaddr + i < (?a + ?n) * 4096" unfolding top using i by simp
    then have "vread H k' (vaddr + of_nat i) =
        seg_byte (bytes_in H k) (filedata + file_offset) ?o (unat filesz) (unat (vaddr + of_nat i) - ?a * 4096)"
      using vread_loaded [OF k'(6,5), of "vaddr + of_nat i"] v o i sz(2) by simp
    moreover have "unat (vaddr + of_nat i) - ?a * 4096 = ?o + i" unfolding v using o by linarith
    ultimately show ?thesis by (simp add: seg_byte_def)
  qed
  moreover have "virt_to_phys_user (vm_of H k') v = virt_to_phys_user (vm_of H k) v"
    if "unat v < 2 ^ 48 \<and> (unat v div 4096 < ?a \<or> ?a + ?n \<le> unat v div 4096)" for v
    using k'(6) that unfolding loaded_def by auto
  ultimately show ?thesis using k'(1-4) unfolding top by (intro exI [of _ k'] exI [of _ Y]) simp
qed

end

interpretation kernel_bytes: byte_memory "ramfs_heap kernel_heap"
  by unfold_locales (simp_all add: ramfs_heap_def kernel_heap_def)

interpretation elf: loader pmm_inv palloc free_set "\<lambda>s. unat (pmm_max_page s)" "ramfs_heap kernel_heap"
  by unfold_locales

section \<open>The kernel\<close>

abbreviation kernel_memory :: "tlsf ramfs_state heap_ops" where "kernel_memory \<equiv> ramfs_heap kernel_heap"

type_synonym kernel_machine = "(tlsf ramfs_state, pmm) machine"

definition kernel_space_ok :: "nat \<Rightarrow> nat set \<Rightarrow> kernel_machine \<Rightarrow> bool" where
  "kernel_space_ok r X k = space_ok pmm_inv free_set (\<lambda>s. unat (pmm_max_page s)) kernel_memory r X k"

text \<open>C33: \<open>map_segment\<close> loads a segment of a program. When the file lies in pages that the page tables do not
  use, the segment ends below the middle of the address space, and four free pages are left for every page of the
  segment, it returns; then the program reads the bytes of the file at the addresses of the segment and zeroes
  behind them up to \<open>memsz\<close>, the file and every other protected page are untouched, addresses outside the pages of
  the segment translate as before, and the page tables are still well formed.\<close>

theorem map_segment_correct:
  assumes "kernel_space_ok r X k" "lies_in (vm_of kernel_memory k) X (filedata + file_offset) (unat filesz)"
    "unat file_offset + unat filesz \<le> unat len" "unat filesz \<le> unat memsz" "unat vaddr + unat memsz \<le> 2 ^ 47"
    "4 * unat (num_pages vaddr memsz) \<le> card (free_set (pm_of k))"
  shows "\<exists>k' Y. map_segment kernel_memory palloc vaddr memsz filesz filedata len file_offset k = Some k' \<and>
    (\<forall>i<unat memsz. vread kernel_memory k' (vaddr + of_nat i) =
       (if i < unat filesz then bytes_in kernel_memory k (filedata + file_offset + of_nat i) else 0)) \<and>
    kept_pages kernel_memory X k k' \<and> X \<subseteq> Y \<and> kernel_space_ok r Y k' \<and>
    (\<forall>v. unat v < 2 ^ 48 \<and>
       (unat v div 4096 < unat vaddr div 4096 \<or> (unat vaddr + unat memsz + 4095) div 4096 \<le> unat v div 4096) \<longrightarrow>
       virt_to_phys_user (vm_of kernel_memory k') v = virt_to_phys_user (vm_of kernel_memory k) v)"
  using elf.map_segment_ok [OF assms(1) [unfolded kernel_space_ok_def] assms(2-)] unfolding kernel_space_ok_def .

text \<open>A machine with four free pages and a file of one byte in page 12.\<close>

definition demo_machine :: kernel_machine where
  "demo_machine =
     \<lparr>k_vfs = \<lparr>registered_fs = Map.empty, registered_count = 0, mounts = (\<lambda>_. undefined), mount_count = 0, mount_paths = (\<lambda>_. []),
        sys = \<lparr>kheap = tlsf.make (\<lambda>a. if a = 0xFFFF80000000C000 then 0x7F else 0) 0 0 (\<lambda>_. 0) (\<lambda>_ _. 0),
               ctxs = (\<lambda>_. \<lparr>files = [], next_inode = 1\<rparr>), stack_bytes = []\<rparr>\<rparr>,
      k_vmm = demo_vmm, sym_table = 0, sym_count = 0, sym_cap = 0\<rparr>"

lemma demo_bytes: "bytes_in kernel_memory demo_machine a = (if a = 0xFFFF80000000C000 then 0x7F else 0)"
  by (simp add: bytes_in_def demo_machine_def ramfs_heap_def kernel_heap_def tlsf.make_def)

lemma demo_map: "direct_map_ok 16 (vm_of kernel_memory demo_machine)"
  by (simp add: direct_map_ok_def demo_machine_def demo_vmm_def)

lemma demo_in_page: "in_page (vm_of kernel_memory demo_machine) p a \<longleftrightarrow> a - (0xFFFF800000000000 + page_addr p) < PAGE_SIZE"
  by (simp add: in_page_def Vmm_Memory.ptr_def phys_to_virt_def demo_machine_def demo_vmm_def add.commute)

lemma demo_table_entry:
  assumes "p < 16" "p \<noteq> 12" "i < 512"
  shows "rd (vm_of kernel_memory demo_machine) (ptr (vm_of kernel_memory demo_machine) p) (of_nat i) = 0"
proof -
  let ?v = "vm_of kernel_memory demo_machine"
  have "bytes_in kernel_memory demo_machine (ptr ?v p + 8 * of_nat i + of_nat j) = 0" if "j < 8" for j
  proof -
    have "in_page ?v p (ptr ?v p + 8 * of_nat i + of_nat j)"
      by (rule slot_in_page [OF demo_map assms(1,3) that]) (simp add: demo_machine_def demo_vmm_def)
    moreover have "in_page ?v 12 0xFFFF80000000C000" by (simp add: demo_in_page page_addr_def PAGE_SIZE_def)
    ultimately show ?thesis using in_page_unique [OF demo_map assms(1), of 12] assms(2) by (auto simp: demo_bytes)
  qed
  then have "load64 (bytes_in kernel_memory demo_machine) (ptr ?v p + 8 * of_nat i) = load64 (\<lambda>_. 0) (ptr ?v p + 8 * of_nat i)"
    by (intro load64_cong) simp
  also have "\<dots> = 0" by (simp add: load64_def)
  finally show ?thesis by (simp add: rd_def)
qed

lemma demo_space: "kernel_space_ok 1 {12} demo_machine"
proof -
  let ?v = "vm_of kernel_memory demo_machine"
  let ?E = "ents 16 ?v"
  have z: "?E 1 i = 0" for i by (simp add: ents_def demo_table_entry)
  then have t: "tab ?E 1 \<pi> = Some p \<longleftrightarrow> \<pi> = [] \<and> p = 1" for \<pi> p by (cases \<pi>) (auto simp: tab.simps pr_def)
  have "tables_ok ?E 1 16 (free_set demo_pmm \<union> {12})"
    unfolding tables_ok_def t using z by (auto simp: demo_pmm_inv(2) pr_def)
  moreover have "kernel_pml4 ?v = ptr ?v 1"
    by (simp add: Vmm_Memory.ptr_def phys_to_virt_def demo_machine_def demo_vmm_def page_addr_def)
  moreover have "pm ?v = demo_pmm" "4096 dvd unat (v_hhdm_offset (k_vmm demo_machine))"
    by (simp_all add: demo_machine_def demo_vmm_def)
  ultimately show ?thesis using demo_map
    by (simp add: kernel_space_ok_def space_ok_def vmm_wf_def protects_def demo_pmm_inv demo_pmm_max)
qed

theorem map_segment_correct_witness:
  "kernel_space_ok 1 {12} demo_machine \<and>
   (\<exists>k. map_segment kernel_memory palloc 0x400010 2 1 0xFFFF80000000C000 64 0 demo_machine = Some k \<and>
      vread kernel_memory k 0x400010 = 0x7F \<and> vread kernel_memory k 0x400011 = 0)"
proof -
  have "lies_in (vm_of kernel_memory demo_machine) {12} (0xFFFF80000000C000 + 0) (unat (1 :: u64))"
    by (simp add: lies_in_def demo_in_page page_addr_def PAGE_SIZE_def)
  moreover have "unat (num_pages 0x400010 2) = 1" by (simp add: num_pages_def off_in_page_def PAGE_SIZE_def)
  moreover have "free_set (pm_of demo_machine) = {8..<12}" by (simp add: demo_machine_def demo_vmm_def demo_pmm_inv(2))
  ultimately obtain k where k: "map_segment kernel_memory palloc 0x400010 2 1 0xFFFF80000000C000 64 0 demo_machine = Some k"
    "\<forall>i<2. vread kernel_memory k (0x400010 + of_nat i) =
       (if i < 1 then bytes_in kernel_memory demo_machine (0xFFFF80000000C000 + 0 + of_nat i) else 0)"
    using map_segment_correct [OF demo_space, of "0xFFFF80000000C000" 0 1 64 2 "0x400010"] by auto
  have "vread kernel_memory k 0x400010 = 0x7F" using k(2) [rule_format, of 0] by (simp add: demo_bytes)
  moreover have "vread kernel_memory k 0x400011 = 0" using k(2) [rule_format, of 1] by simp
  ultimately show ?thesis using demo_space k(1) by blast
qed

end
