(* ===== verification/Storage.thy ===== *)
theory Storage
  imports Elf_Loader
begin

text \<open>
  Drives: the AHCI driver of \<^verbatim>\<open>drivers/storage/sata.c\<close> and the disk handles that the file systems read and
  write through.

  The hardware is an argument. \<open>mmio_rd\<close> and \<open>mmio_wr\<close> are accesses to a 32-bit register of a controller; an
  access may change the state \<open>'d\<close> of the drives and, since the controller reads and writes memory by itself,
  the memory. \<open>handles\<close> is the \<^verbatim>\<open>disk_handle_t\<close> at an address, with the functions behind its pointers;
  \<^verbatim>\<open>NULL\<close> is \<open>None\<close>. Pages of physical memory come from \<open>alloc_pages\<close> and go back with \<open>free_pages\<close>, which
  the kernel implements by \<open>palloc_order\<close> and \<open>pfree_order\<close>. Messages are left out, and so is \<^verbatim>\<open>udelay\<close>, which only
  passes time. A result \<open>None\<close> is a loop that never ends.
\<close>

record 'd disk_handle_t =
  partition_offset :: u64
  read_sector :: "(u64 \<Rightarrow> u64 \<Rightarrow> 'd \<times> memory \<Rightarrow> int \<times> 'd \<times> memory) option"
  write_sector :: "(u64 \<Rightarrow> u64 \<Rightarrow> 'd \<times> memory \<Rightarrow> int \<times> 'd \<times> memory) option"

record ('d, 'p) platform =
  mmio_rd :: "u64 \<Rightarrow> 'd \<times> memory \<Rightarrow> u32 \<times> 'd \<times> memory"
  mmio_wr :: "u64 \<Rightarrow> u32 \<Rightarrow> 'd \<times> memory \<Rightarrow> 'd \<times> memory"
  handles :: "u64 \<Rightarrow> 'd disk_handle_t"
  alloc_pages :: "'p \<Rightarrow> nat \<Rightarrow> u64 \<times> 'p"
  free_pages :: "'p \<Rightarrow> u64 \<Rightarrow> nat \<Rightarrow> 'p option"
  stale :: "u8 list"
  behind :: "nat \<Rightarrow> u16"

text \<open>\<open>stale\<close> is what a local directory entry holds before it is written, \<open>behind\<close> what lies behind the local
  buffer of the 15 characters of a name.\<close>

record ('d, 'p) world =
  drives :: 'd
  ram :: memory
  pool :: 'p
  w_hhdm :: u64
  g_sata_port :: u64

definition on_hw :: "('d \<times> memory \<Rightarrow> 'a \<times> 'd \<times> memory) \<Rightarrow> ('d, 'p) world \<Rightarrow> 'a \<times> ('d, 'p) world" where
  "on_hw f w = (case f (drives w, ram w) of (r, d, m) \<Rightarrow> (r, w\<lparr>drives := d, ram := m\<rparr>))"

definition reg_rd :: "('d, 'p) platform \<Rightarrow> u64 \<Rightarrow> ('d, 'p) world \<Rightarrow> u32 \<times> ('d, 'p) world" where
  "reg_rd E a w = on_hw (mmio_rd E a) w"

definition reg_wr :: "('d, 'p) platform \<Rightarrow> u64 \<Rightarrow> u32 \<Rightarrow> ('d, 'p) world \<Rightarrow> ('d, 'p) world" where
  "reg_wr E a v w = snd (on_hw (\<lambda>s. ((), mmio_wr E a v s)) w)"

text \<open>\<open>reg |= v\<close> and \<open>reg &= v\<close>: a read and a write.\<close>

definition reg_upd :: "('d, 'p) platform \<Rightarrow> u64 \<Rightarrow> (u32 \<Rightarrow> u32) \<Rightarrow> ('d, 'p) world \<Rightarrow> ('d, 'p) world" where
  "reg_upd E a f w = (case reg_rd E a w of (v, w) \<Rightarrow> reg_wr E a (f v) w)"

definition store16 :: "memory \<Rightarrow> u64 \<Rightarrow> u16 \<Rightarrow> memory" where
  "store16 m a v = m(a := ucast v, a + 1 := ucast (drop_bit 8 v))"

text \<open>The pattern of every function that needs a buffer: pages are allocated, \<open>e\<close> is returned when there are none,
  and they are released at the end.\<close>

definition with_pages ::
  "('d, 'p) platform \<Rightarrow> nat \<Rightarrow> 'r \<Rightarrow> (u64 \<Rightarrow> ('d, 'p) world \<Rightarrow> ('r \<times> ('d, 'p) world) option) \<Rightarrow>
   ('d, 'p) world \<Rightarrow> ('r \<times> ('d, 'p) world) option" where
  "with_pages E order e f w =
     (case alloc_pages E (pool w) order of (ph, p) \<Rightarrow>
        if ph = 0 then Some (e, w\<lparr>pool := p\<rparr>)
        else do {
          (r, w) \<leftarrow> f (ph + w_hhdm w) (w\<lparr>pool := p\<rparr>);
          p \<leftarrow> free_pages E (pool w) ph order;
          Some (r, w\<lparr>pool := p\<rparr>) })"

section \<open>Commands of the controller\<close>

text \<open>
  The command list is at offset 0 of the \<^verbatim>\<open>ahci_port_mem_t\<close>, the area for received FISes at 1024 and the
  command table at 1280. In the command table the FIS is at offset 0 and the regions of the buffer follow from
  offset 128 on, 16 bytes each.
\<close>

definition sizeof_ahci_port_mem :: u64 where
  "sizeof_ahci_port_mem = 1024 + 256 + 4096 * 32"

definition set_bases :: "('d, 'p) platform \<Rightarrow> u64 \<Rightarrow> u64 \<Rightarrow> ('d, 'p) world \<Rightarrow> ('d, 'p) world" where
  "set_bases E port port_mem w =
     (let cl_phys = port_mem - w_hhdm w; fb_phys = port_mem + 1024 - w_hhdm w;
          w = reg_wr E port (ucast cl_phys) w;
          w = reg_wr E (port + 0x04) (ucast (drop_bit 32 cl_phys)) w;
          w = reg_wr E (port + 0x08) (ucast fb_phys) w
      in reg_wr E (port + 0x0C) (ucast (drop_bit 32 fb_phys)) w)"

partial_function (option) spin ::
  "('d, 'p) platform \<Rightarrow> u64 \<Rightarrow> u32 \<Rightarrow> ('d, 'p) world \<Rightarrow> ('d, 'p) world option" where
  "spin E a bits w =
     (case reg_rd E a w of (v, w) \<Rightarrow> if v AND bits \<noteq> 0 then spin E a bits w else Some w)"

definition write_header :: "memory \<Rightarrow> u64 \<Rightarrow> u16 \<Rightarrow> u16 \<Rightarrow> u64 \<Rightarrow> memory" where
  "write_header m cl flags prdt_length ct_phys =
     (let m = store16 m cl flags; m = store16 m (cl + 2) prdt_length; m = store32 m (cl + 8) (ucast ct_phys)
      in store32 m (cl + 12) (ucast (drop_bit 32 ct_phys)))"

text \<open>\<^verbatim>\<open>dbc\<close> is the lower 22 bits and \<^verbatim>\<open>i\<close> the highest bit of the last word of an entry.\<close>

definition write_prdt :: "memory \<Rightarrow> u64 \<Rightarrow> u64 \<Rightarrow> u32 \<Rightarrow> memory" where
  "write_prdt m entry buf_phys dbc =
     (let m = store32 m entry (ucast buf_phys); m = store32 m (entry + 4) (ucast (drop_bit 32 buf_phys));
          m = store32 m (entry + 12) ((load32 m (entry + 12) AND NOT 0x3FFFFF) OR (dbc AND 0x3FFFFF))
      in store32 m (entry + 12) (load32 m (entry + 12) OR 0x80000000))"

primrec prdt_loop :: "u64 \<Rightarrow> nat \<Rightarrow> u64 \<Rightarrow> u64 \<Rightarrow> nat \<Rightarrow> memory \<Rightarrow> memory" where
  "prdt_loop hhdm 0 entry buf remaining m = m"
| "prdt_loop hhdm (Suc n) entry buf remaining m =
     (let sectors_this_entry = (if remaining < 16 then remaining else 16);
          m = write_prdt m entry (buf - hhdm) (push_bit 9 (of_nat sectors_this_entry) - 1)
      in prdt_loop hhdm n (entry + 16) (buf + push_bit 9 (of_nat sectors_this_entry)) (remaining - sectors_this_entry) m)"

definition write_fis :: "memory \<Rightarrow> u64 \<Rightarrow> u8 \<Rightarrow> u64 \<Rightarrow> u16 \<Rightarrow> memory" where
  "write_fis m fis command lba sectors =
     m(fis := 0x27, fis + 1 := (m (fis + 1) AND 0x7F) OR 0x80, fis + 2 := command, fis + 7 := 0x40,
       fis + 4 := ucast lba, fis + 5 := ucast (drop_bit 8 lba), fis + 6 := ucast (drop_bit 16 lba),
       fis + 8 := ucast (drop_bit 24 lba), fis + 9 := ucast (drop_bit 32 lba), fis + 10 := ucast (drop_bit 40 lba),
       fis + 12 := ucast (sectors AND 0xFF), fis + 13 := ucast (drop_bit 8 sectors AND 0xFF))"

definition build_command :: "u64 \<Rightarrow> memory \<Rightarrow> u64 \<Rightarrow> u16 \<Rightarrow> u8 \<Rightarrow> u64 \<Rightarrow> u16 \<Rightarrow> u64 \<Rightarrow> memory" where
  "build_command hhdm m port_mem flags command lba sectors buffer =
     (let prdt_entries = (unat sectors + 15) div 16; ct = port_mem + 1280;
          m = write_header m port_mem flags (of_nat prdt_entries) (ct - hhdm);
          m = prdt_loop hhdm prdt_entries (ct + 128) buffer (unat sectors) m
      in write_fis m ct command lba sectors)"

text \<open>
  The loop that waits for the command: whether the task file has an error, and the value of \<^verbatim>\<open>timeout\<close>, which is
  decremented once more when it is 0 already.
\<close>

primrec wait_command :: "('d, 'p) platform \<Rightarrow> u64 \<Rightarrow> nat \<Rightarrow> ('d, 'p) world \<Rightarrow> bool \<times> u32 \<times> ('d, 'p) world" where
  "wait_command E port 0 w =
     (case reg_rd E (port + 0x38) w of (v, w) \<Rightarrow> (False, if v AND 1 = 0 then 0 else - 1, w))"
| "wait_command E port (Suc n) w =
     (case reg_rd E (port + 0x38) w of (v, w) \<Rightarrow>
        if v AND 1 = 0 then (False, of_nat (Suc n), w)
        else
          (case reg_rd E (port + 0x10) w of (s, w) \<Rightarrow>
             if s AND 0x40000000 \<noteq> 0 then (True, of_nat n, w) else wait_command E port n w))"

definition stop_engine :: "('d, 'p) platform \<Rightarrow> u64 \<Rightarrow> ('d, 'p) world \<Rightarrow> ('d, 'p) world option" where
  "stop_engine E port w = do {
     let w = reg_upd E (port + 0x18) (\<lambda>v. v AND NOT 0x01) w;
     let w = reg_upd E (port + 0x18) (\<lambda>v. v AND NOT 0x10) w;
     w \<leftarrow> spin E (port + 0x18) 0x8000 w;
     spin E (port + 0x18) 0x4000 w }"

definition start_engine :: "('d, 'p) platform \<Rightarrow> u64 \<Rightarrow> ('d, 'p) world \<Rightarrow> ('d, 'p) world" where
  "start_engine E port w =
     (let w = reg_wr E (port + 0x10) 0xFFFFFFFF w; w = reg_upd E (port + 0x18) (\<lambda>v. v OR 0x10) w
      in reg_upd E (port + 0x18) (\<lambda>v. v OR 0x01) w)"

section \<open>Sectors of a SATA drive\<close>

definition sata_ahci_read_sector ::
  "('d, 'p) platform \<Rightarrow> u64 \<Rightarrow> u64 \<Rightarrow> u16 \<Rightarrow> u64 \<Rightarrow> ('d, 'p) world \<Rightarrow> (int \<times> ('d, 'p) world) option" where
  "sata_ahci_read_sector E port lba sectors buffer =
     with_pages E 6 (- 1) (\<lambda>port_mem w. do {
       let w = w\<lparr>ram := memset (ram w) port_mem 0 (4096 * 64)\<rparr>;
       w \<leftarrow> stop_engine E port (set_bases E port port_mem w);
       let w = w\<lparr>ram := build_command (w_hhdm w) (ram w) port_mem 5 0x25 lba sectors buffer\<rparr>;
       let w = start_engine E port w;
       _ \<leftarrow> phys_flush_cache port_mem sizeof_ahci_port_mem;
       let w = reg_wr E (port + 0x38) 1 w;
       let (tfes, timeout, w) = wait_command E port 1000000 w;
       if tfes then Some (- 1, w)
       else do {
         _ \<leftarrow> phys_invalidate_cache buffer (ucast sectors * 512);
         if timeout = 0 then Some (- 1, w)
         else do {
           _ \<leftarrow> phys_invalidate_cache buffer (ucast sectors * 512);
           Some (0, w) } } })"

definition sata_ahci_write_sector ::
  "('d, 'p) platform \<Rightarrow> u64 \<Rightarrow> u64 \<Rightarrow> u16 \<Rightarrow> u64 \<Rightarrow> ('d, 'p) world \<Rightarrow> (int \<times> ('d, 'p) world) option" where
  "sata_ahci_write_sector E port lba sectors buffer =
     with_pages E 6 (- 1) (\<lambda>port_mem w. do {
       let w = w\<lparr>ram := memset (ram w) port_mem 0 (4096 * 64)\<rparr>;
       w \<leftarrow> stop_engine E port (set_bases E port port_mem w);
       let w = w\<lparr>ram := build_command (w_hhdm w) (ram w) port_mem (5 OR 0x40) 0x35 lba sectors buffer\<rparr>;
       let w = start_engine E port w;
       _ \<leftarrow> phys_flush_cache buffer (ucast sectors * 512);
       _ \<leftarrow> phys_flush_cache port_mem sizeof_ahci_port_mem;
       let w = reg_wr E (port + 0x38) 1 w;
       let (tfes, timeout, w) = wait_command E port 1000000 w;
       Some (if tfes \<or> timeout = 0 then - 1 else 0, w) })"

text \<open>\<^verbatim>\<open>sata_ahci_identify\<close> sets only the first three fields of the FIS, clears and sets both engine bits at once and
  does not look at the outcome.\<close>

primrec wait_identify :: "('d, 'p) platform \<Rightarrow> u64 \<Rightarrow> nat \<Rightarrow> ('d, 'p) world \<Rightarrow> ('d, 'p) world" where
  "wait_identify E port 0 w = snd (reg_rd E (port + 0x38) w)"
| "wait_identify E port (Suc n) w =
     (case reg_rd E (port + 0x38) w of (v, w) \<Rightarrow> if v AND 1 = 0 then w else wait_identify E port n w)"

definition sata_ahci_identify ::
  "('d, 'p) platform \<Rightarrow> u64 \<Rightarrow> u64 \<Rightarrow> ('d, 'p) world \<Rightarrow> (int \<times> ('d, 'p) world) option" where
  "sata_ahci_identify E port buffer =
     with_pages E 2 (- 1) (\<lambda>port_mem w. do {
       let w = w\<lparr>ram := memset (ram w) port_mem 0 (4096 * 4)\<rparr>;
       let w = set_bases E port port_mem w;
       let w = reg_upd E (port + 0x18) (\<lambda>v. v AND NOT 0x11) w;
       w \<leftarrow> spin E (port + 0x18) 0x8000 w;
       w \<leftarrow> spin E (port + 0x18) 0x4000 w;
       let ct = port_mem + 1280;
       let m = write_header (ram w) port_mem 5 1 (ct - w_hhdm w);
       let m = write_prdt m (ct + 128) (buffer - w_hhdm w) (512 - 1);
       let w = w\<lparr>ram := m(ct := 0x27, ct + 1 := (m (ct + 1) AND 0x7F) OR 0x80, ct + 2 := 0xEC)\<rparr>;
       let w = reg_wr E (port + 0x10) 0xFFFFFFFF w;
       let w = reg_upd E (port + 0x18) (\<lambda>v. v OR 0x11) w;
       _ \<leftarrow> phys_invalidate_cache buffer 512;
       _ \<leftarrow> phys_flush_cache port_mem sizeof_ahci_port_mem;
       let w = wait_identify E port 1000000 (reg_wr E (port + 0x38) 1 w);
       _ \<leftarrow> phys_invalidate_cache buffer 512;
       Some (0, w) })"

text \<open>The ports of a controller are looked at in order; the first one with a SATA drive is kept.\<close>

definition sata_search :: "('d, 'p) platform \<Rightarrow> u64 \<Rightarrow> ('d, 'p) world \<Rightarrow> ('d, 'p) world" where
  "sata_search E mmio_base w =
     (if mmio_base = 0 then w
      else
        (case reg_rd E (mmio_base + 0x0C) w of (impl, w) \<Rightarrow>
           fold (\<lambda>p w. if \<not> bit impl p then w
             else
               let port = mmio_base + 0x100 + of_nat p * 0x80
               in case reg_rd E (port + 0x28) w of (ssts, w) \<Rightarrow>
                    if ssts AND 0x0F \<noteq> 3 then w
                    else
                      (case reg_rd E (port + 0x24) w of (sig, w) \<Rightarrow>
                         if sig = 0x00000101 \<and> g_sata_port w = 0 then w\<lparr>g_sata_port := port\<rparr> else w))
             [0..<32] w))"

definition sata_get_port :: "('d, 'p) world \<Rightarrow> u64" where
  "sata_get_port w = g_sata_port w"

definition sata_read_lba ::
  "('d, 'p) platform \<Rightarrow> u64 \<Rightarrow> u16 \<Rightarrow> u64 \<Rightarrow> ('d, 'p) world \<Rightarrow> (int \<times> ('d, 'p) world) option" where
  "sata_read_lba E lba count buffer w =
     (if g_sata_port w = 0 then Some (- 1, w) else sata_ahci_read_sector E (g_sata_port w) lba count buffer w)"

definition sata_write_lba ::
  "('d, 'p) platform \<Rightarrow> u64 \<Rightarrow> u16 \<Rightarrow> u64 \<Rightarrow> ('d, 'p) world \<Rightarrow> (int \<times> ('d, 'p) world) option" where
  "sata_write_lba E lba count buffer w =
     (if g_sata_port w = 0 then Some (- 1, w) else sata_ahci_write_sector E (g_sata_port w) lba count buffer w)"

section \<open>Disk handles\<close>

text \<open>The loop of both callbacks: one sector after the other, until one fails.\<close>

primrec transfer ::
  "(u64 \<Rightarrow> u64 \<Rightarrow> 'd \<times> memory \<Rightarrow> int \<times> 'd \<times> memory) \<Rightarrow> u64 \<Rightarrow> u64 \<Rightarrow> nat \<Rightarrow> ('d, 'p) world \<Rightarrow> int \<times> ('d, 'p) world" where
  "transfer f lba buf 0 w = (0, w)"
| "transfer f lba buf (Suc n) w =
     (case on_hw (f lba buf) w of (r, w) \<Rightarrow> if r \<noteq> 0 then (- 1, w) else transfer f (lba + 1) (buf + 512) n w)"

definition disk_read_callback ::
  "('d, 'p) platform \<Rightarrow> u64 \<Rightarrow> u64 \<Rightarrow> u32 \<Rightarrow> u64 \<Rightarrow> ('d, 'p) world \<Rightarrow> int \<times> ('d, 'p) world" where
  "disk_read_callback E device sector count buffer w =
     (if device = 0 then (- 1, w)
      else case read_sector (handles E device) of
        None \<Rightarrow> (- 1, w)
      | Some f \<Rightarrow> transfer f (partition_offset (handles E device) + sector) buffer (unat count) w)"

definition disk_write_callback ::
  "('d, 'p) platform \<Rightarrow> u64 \<Rightarrow> u64 \<Rightarrow> u32 \<Rightarrow> u64 \<Rightarrow> ('d, 'p) world \<Rightarrow> int \<times> ('d, 'p) world" where
  "disk_write_callback E device sector count buffer w =
     (if device = 0 then (- 1, w)
      else case write_sector (handles E device) of
        None \<Rightarrow> (- 1, w)
      | Some f \<Rightarrow> transfer f (partition_offset (handles E device) + sector) buffer (unat count) w)"

end
