(* ===== verification/Exfat.thy ===== *)
theory Exfat
  imports Storage
begin

text \<open>
  The exFAT driver \<^verbatim>\<open>fs/exfat/exfat.c\<close>.

  A directory entry is the list of its 32 bytes, as in the packed structures of \<^verbatim>\<open>exfat.h\<close>: the count of
  secondary entries is byte 1, the checksum bytes 2 and 3, the attributes bytes 4 and 5; a stream entry has its
  flags in byte 1, the length of the name in byte 3, the valid length in bytes 8 to 15, the first cluster in bytes
  20 to 23 and the length in bytes 24 to 31. Names are values. \<^verbatim>\<open>exfat_read_dir_entry\<close> takes the entry that it
  overwrites, since its callers do not always look at its result. \<open>None\<close> is a loop that never ends.
\<close>

section \<open>Data\<close>

abbreviation (input) EXFAT_FAT_EOC :: u32 where "EXFAT_FAT_EOC \<equiv> 0xFFFFFFFF"
abbreviation (input) EXFAT_FAT_FREE :: u32 where "EXFAT_FAT_FREE \<equiv> 0"
abbreviation (input) EXFAT_TYPE_EOD :: u8 where "EXFAT_TYPE_EOD \<equiv> 0x00"
abbreviation (input) EXFAT_TYPE_FILE :: u8 where "EXFAT_TYPE_FILE \<equiv> 0x85"
abbreviation (input) EXFAT_TYPE_STREAM :: u8 where "EXFAT_TYPE_STREAM \<equiv> 0xC0"
abbreviation (input) EXFAT_TYPE_NAME :: u8 where "EXFAT_TYPE_NAME \<equiv> 0xC1"
abbreviation (input) EXFAT_ATTR_DIRECTORY :: u8 where "EXFAT_ATTR_DIRECTORY \<equiv> 0x10"
abbreviation (input) EXFAT_ATTR_ARCHIVE :: u8 where "EXFAT_ATTR_ARCHIVE \<equiv> 0x20"

type_synonym exfat_dentry_t = "u8 list"

record exfat_fs_t =
  bytes_per_sector :: u32
  sectors_per_cluster :: u32
  bytes_per_cluster :: u32
  fat_offset :: u32
  fat_length :: u32
  cluster_heap_offset :: u32
  cluster_count :: u32
  root_dir_cluster :: u32
  num_fats :: u8
  fs_device :: u64

record exfat_file_t =
  x_fs :: exfat_fs_t
  first_cluster :: u32
  file_size :: u64
  position :: u64
  current_cluster :: u32
  cluster_offset :: u32
  no_fat_chain :: bool
  dir_cluster :: u32
  dir_contiguous :: bool
  dir_index :: u32

definition bytes_at :: "memory \<Rightarrow> u64 \<Rightarrow> nat \<Rightarrow> u8 list" where
  "bytes_at m a n = map (\<lambda>i. m (a + of_nat i)) [0..<n]"

primrec put_list :: "memory \<Rightarrow> u64 \<Rightarrow> u8 list \<Rightarrow> memory" where
  "put_list m a [] = m"
| "put_list m a (b # bs) = put_list (m(a := b)) (a + 1) bs"

definition le_bytes :: "nat \<Rightarrow> u64 \<Rightarrow> u8 list" where
  "le_bytes n v = map (\<lambda>i. ucast (drop_bit (8 * i) v)) [0..<n]"

definition le_value :: "u8 list \<Rightarrow> u64" where
  "le_value bs = foldr (\<lambda>b v. ucast b OR push_bit 8 v) bs 0"

definition stream_first_cluster :: "exfat_dentry_t \<Rightarrow> u32" where
  "stream_first_cluster e = ucast (le_value (take 4 (drop 20 e)))"

definition stream_data_length :: "exfat_dentry_t \<Rightarrow> u64" where
  "stream_data_length e = le_value (take 8 (drop 24 e))"

definition put_field :: "nat \<Rightarrow> u8 list \<Rightarrow> exfat_dentry_t \<Rightarrow> exfat_dentry_t" where
  "put_field k bs e = take k e @ bs @ drop (k + length bs) e"

section \<open>Sectors, the allocation table and clusters\<close>

definition exfat_read_sectors ::
  "('d, 'p) platform \<Rightarrow> u64 \<Rightarrow> u64 \<Rightarrow> u32 \<Rightarrow> u64 \<Rightarrow> ('d, 'p) world \<Rightarrow> (int \<times> ('d, 'p) world) option" where
  "exfat_read_sectors E device sector count buffer w =
     (if device = 0 then sata_read_lba E sector (ucast count) buffer w
      else Some (disk_read_callback E device sector count buffer w))"

definition exfat_write_sectors ::
  "('d, 'p) platform \<Rightarrow> u64 \<Rightarrow> u64 \<Rightarrow> u32 \<Rightarrow> u64 \<Rightarrow> ('d, 'p) world \<Rightarrow> (int \<times> ('d, 'p) world) option" where
  "exfat_write_sectors E device sector count buffer w =
     (if device = 0 then sata_write_lba E sector (ucast count) buffer w
      else Some (disk_write_callback E device sector count buffer w))"

definition fat_sector_of :: "u32 \<Rightarrow> u32 \<Rightarrow> u32 \<Rightarrow> u64" where
  "fat_sector_of fat_off bps cluster = ucast fat_off + ucast cluster * 4 div ucast bps"

definition fat_byte_of :: "u32 \<Rightarrow> u32 \<Rightarrow> u64" where
  "fat_byte_of bps cluster = ucast (ucast (ucast cluster * 4 mod ucast bps :: u64) :: u32)"

definition exfat_get_fat_entry ::
  "('d, 'p) platform \<Rightarrow> exfat_fs_t \<Rightarrow> u32 \<Rightarrow> ('d, 'p) world \<Rightarrow> (u32 \<times> ('d, 'p) world) option" where
  "exfat_get_fat_entry E fs cluster =
     with_pages E 0 EXFAT_FAT_EOC (\<lambda>buf w. do {
       (r, w) \<leftarrow> exfat_read_sectors E (fs_device fs) (fat_sector_of (fat_offset fs) (bytes_per_sector fs) cluster) 1 buf w;
       Some (if r \<noteq> 0 then EXFAT_FAT_EOC else load32 (ram w) (buf + fat_byte_of (bytes_per_sector fs) cluster), w) })"

definition exfat_set_fat_entry ::
  "('d, 'p) platform \<Rightarrow> exfat_fs_t \<Rightarrow> u32 \<Rightarrow> u32 \<Rightarrow> ('d, 'p) world \<Rightarrow> (int \<times> ('d, 'p) world) option" where
  "exfat_set_fat_entry E fs cluster v =
     with_pages E 0 (- 1) (\<lambda>buf w. do {
       let fat_sector = fat_sector_of (fat_offset fs) (bytes_per_sector fs) cluster;
       (r, w) \<leftarrow> exfat_read_sectors E (fs_device fs) fat_sector 1 buf w;
       if r \<noteq> 0 then Some (- 1, w)
       else
         let w = w\<lparr>ram := store32 (ram w) (buf + fat_byte_of (bytes_per_sector fs) cluster) v\<rparr>
         in exfat_write_sectors E (fs_device fs) fat_sector 1 buf w })"

text \<open>The variant that \<^verbatim>\<open>exfat_format\<close> uses does not look at the result of the read.\<close>

definition exfat_set_fat_entry_raw ::
  "('d, 'p) platform \<Rightarrow> u64 \<Rightarrow> u32 \<Rightarrow> u32 \<Rightarrow> u32 \<Rightarrow> u32 \<Rightarrow> ('d, 'p) world \<Rightarrow> (int \<times> ('d, 'p) world) option" where
  "exfat_set_fat_entry_raw E device fat_off bps cluster v =
     with_pages E 0 (- 1) (\<lambda>buf w. do {
       let fat_sector = fat_sector_of fat_off bps cluster;
       (_, w) \<leftarrow> exfat_read_sectors E device fat_sector 1 buf w;
       let w = w\<lparr>ram := store32 (ram w) (buf + fat_byte_of bps cluster) v\<rparr>;
       exfat_write_sectors E device fat_sector 1 buf w })"

definition exfat_cluster_to_sector :: "exfat_fs_t \<Rightarrow> u32 \<Rightarrow> u64" where
  "exfat_cluster_to_sector fs cluster =
     (if cluster < 2 then 0
      else ucast (cluster_heap_offset fs) + ucast (cluster - 2) * ucast (sectors_per_cluster fs))"

definition exfat_mount ::
  "('d, 'p) platform \<Rightarrow> exfat_fs_t \<Rightarrow> u64 \<Rightarrow> ('d, 'p) world \<Rightarrow> ((int \<times> exfat_fs_t) \<times> ('d, 'p) world) option" where
  "exfat_mount E fs device =
     with_pages E 0 (- 1, fs) (\<lambda>boot w. do {
       (r, w) \<leftarrow> exfat_read_sectors E device 0 1 boot w;
       if r \<noteq> 0 then Some ((- 1, fs), w)
       else
         let m = ram w
         in if bytes_at m (boot + 3) 8 \<noteq> map (\<lambda>c. of_nat (of_char c)) ''EXFAT   '' \<or> load16 m (boot + 510) \<noteq> 0xAA55
            then Some ((- 1, fs), w)
            else
              let bps = push_bit (unat (m (boot + 108))) 1; spc = push_bit (unat (m (boot + 109))) 1
              in Some ((0, \<lparr>bytes_per_sector = bps, sectors_per_cluster = spc, bytes_per_cluster = bps * spc,
                      fat_offset = load32 m (boot + 80), fat_length = load32 m (boot + 84),
                      cluster_heap_offset = load32 m (boot + 88), cluster_count = load32 m (boot + 92),
                      root_dir_cluster = load32 m (boot + 96), num_fats = m (boot + 110), fs_device = device\<rparr>), w) })"

section \<open>Directory entries\<close>

text \<open>The loop that finds the cluster and the index in it of an entry; \<open>None\<close> inside when the chain ends before.\<close>

partial_function (option) dir_walk ::
  "('d, 'p) platform \<Rightarrow> exfat_fs_t \<Rightarrow> u32 \<Rightarrow> bool \<Rightarrow> u32 \<Rightarrow> u32 \<Rightarrow> ('d, 'p) world \<Rightarrow>
   ((u32 \<times> u32) option \<times> ('d, 'p) world) option" where
  "dir_walk E fs ents_per_clus contiguous curr_clus ent_off w =
     (if ent_off \<ge> ents_per_clus then
        if contiguous then dir_walk E fs ents_per_clus contiguous (curr_clus + 1) (ent_off - ents_per_clus) w
        else do {
          (c, w) \<leftarrow> exfat_get_fat_entry E fs curr_clus w;
          if c \<ge> EXFAT_FAT_EOC then Some (None, w)
          else dir_walk E fs ents_per_clus contiguous c (ent_off - ents_per_clus) w }
      else Some (Some (curr_clus, ent_off), w))"

definition entry_sector :: "exfat_fs_t \<Rightarrow> u32 \<Rightarrow> u32 \<Rightarrow> u64" where
  "entry_sector fs clus ent_off = exfat_cluster_to_sector fs clus + ucast (ent_off * 32 div bytes_per_sector fs)"

definition entry_byte :: "exfat_fs_t \<Rightarrow> u32 \<Rightarrow> u64" where
  "entry_byte fs ent_off = ucast (ent_off * 32 mod bytes_per_sector fs)"

definition exfat_read_dir_entry ::
  "('d, 'p) platform \<Rightarrow> exfat_fs_t \<Rightarrow> u32 \<Rightarrow> bool \<Rightarrow> u32 \<Rightarrow> exfat_dentry_t \<Rightarrow> ('d, 'p) world \<Rightarrow>
   ((int \<times> exfat_dentry_t) \<times> ('d, 'p) world) option" where
  "exfat_read_dir_entry E fs cluster contiguous index entry w = do {
     (pos, w) \<leftarrow> dir_walk E fs (bytes_per_cluster fs div 32) contiguous cluster index w;
     case pos of
       None \<Rightarrow> Some ((- 1, entry), w)
     | Some (clus, ent_off) \<Rightarrow>
         with_pages E 0 (- 1, entry) (\<lambda>buf w. do {
           (r, w) \<leftarrow> exfat_read_sectors E (fs_device fs) (entry_sector fs clus ent_off) 1 buf w;
           Some (if r \<noteq> 0 then (- 1, entry) else (0, bytes_at (ram w) (buf + entry_byte fs ent_off) 32), w) }) w }"

definition exfat_write_dir_entry ::
  "('d, 'p) platform \<Rightarrow> exfat_fs_t \<Rightarrow> u32 \<Rightarrow> bool \<Rightarrow> u32 \<Rightarrow> exfat_dentry_t \<Rightarrow> ('d, 'p) world \<Rightarrow>
   (int \<times> ('d, 'p) world) option" where
  "exfat_write_dir_entry E fs cluster contiguous index entry w = do {
     (pos, w) \<leftarrow> dir_walk E fs (bytes_per_cluster fs div 32) contiguous cluster index w;
     case pos of
       None \<Rightarrow> Some (- 1, w)
     | Some (clus, ent_off) \<Rightarrow>
         with_pages E 0 (- 1) (\<lambda>buf w. do {
           (r, w) \<leftarrow> exfat_read_sectors E (fs_device fs) (entry_sector fs clus ent_off) 1 buf w;
           if r \<noteq> 0 then Some (- 1, w)
           else
             let w = w\<lparr>ram := put_list (ram w) (buf + entry_byte fs ent_off) entry\<rparr>
             in exfat_write_sectors E (fs_device fs) (entry_sector fs clus ent_off) 1 buf w }) w }"

definition checksum_byte :: "u16 \<Rightarrow> u8 \<Rightarrow> u16" where
  "checksum_byte checksum b = (push_bit 15 checksum OR drop_bit 1 checksum) + ucast b"

definition exfat_calc_checksum :: "u8 list \<Rightarrow> u16" where
  "exfat_calc_checksum bs =
     fold (\<lambda>i checksum. if i = 2 \<or> i = 3 then checksum else checksum_byte checksum (bs ! i)) [0..<length bs] 0"

primrec checksum_loop ::
  "('d, 'p) platform \<Rightarrow> exfat_fs_t \<Rightarrow> u32 \<Rightarrow> bool \<Rightarrow> u32 \<Rightarrow> nat list \<Rightarrow> u16 \<Rightarrow> ('d, 'p) world \<Rightarrow>
   (u16 option \<times> ('d, 'p) world) option" where
  "checksum_loop E fs dir contiguous index [] checksum w = Some (Some checksum, w)"
| "checksum_loop E fs dir contiguous index (i # is) checksum w = do {
     ((r, entry), w) \<leftarrow> exfat_read_dir_entry E fs dir contiguous (index + of_nat i) (stale E) w;
     if r \<noteq> 0 then Some (None, w)
     else
       let checksum = fold (\<lambda>j c. if i = 0 \<and> (j = 2 \<or> j = 3) then c else checksum_byte c (entry ! j)) [0..<32] checksum
       in checksum_loop E fs dir contiguous index is checksum w }"

definition exfat_update_checksum ::
  "('d, 'p) platform \<Rightarrow> exfat_fs_t \<Rightarrow> u32 \<Rightarrow> bool \<Rightarrow> u32 \<Rightarrow> ('d, 'p) world \<Rightarrow> (int \<times> ('d, 'p) world) option" where
  "exfat_update_checksum E fs dir contiguous index w = do {
     ((r, file_ent), w) \<leftarrow> exfat_read_dir_entry E fs dir contiguous index (stale E) w;
     if r \<noteq> 0 then Some (- 1, w)
     else do {
       (checksum, w) \<leftarrow> checksum_loop E fs dir contiguous index [0..<1 + unat (file_ent ! 1)] 0 w;
       case checksum of
         None \<Rightarrow> Some (- 1, w)
       | Some c \<Rightarrow> exfat_write_dir_entry E fs dir contiguous index (put_field 2 (le_bytes 2 (ucast c)) file_ent) w } }"

section \<open>The allocation bitmap\<close>

primrec bitmap_info_loop ::
  "('d, 'p) platform \<Rightarrow> exfat_fs_t \<Rightarrow> nat list \<Rightarrow> ('d, 'p) world \<Rightarrow> ((u32 \<times> u64) option \<times> ('d, 'p) world) option" where
  "bitmap_info_loop E fs [] w = Some (None, w)"
| "bitmap_info_loop E fs (i # is) w = do {
     ((r, entry), w) \<leftarrow> exfat_read_dir_entry E fs (root_dir_cluster fs) False (of_nat i) (stale E) w;
     if r \<noteq> 0 \<or> entry ! 0 = EXFAT_TYPE_EOD then Some (None, w)
     else if entry ! 0 = 0x81 then Some (Some (stream_first_cluster entry, stream_data_length entry), w)
     else bitmap_info_loop E fs is w }"

definition exfat_get_bitmap_info ::
  "('d, 'p) platform \<Rightarrow> exfat_fs_t \<Rightarrow> ('d, 'p) world \<Rightarrow> ((u32 \<times> u64) option \<times> ('d, 'p) world) option" where
  "exfat_get_bitmap_info E fs w = bitmap_info_loop E fs [0..<128] w"

text \<open>The two inner loops of the search: the first byte that is not full and its first clear bit.\<close>

function first_clear :: "memory \<Rightarrow> u64 \<Rightarrow> nat \<Rightarrow> nat \<Rightarrow> (nat \<times> nat) option" where
  "first_clear m buf i n =
     (if i < n then
        case (if m (buf + of_nat i) \<noteq> 0xFF then List.find (\<lambda>b. \<not> bit (m (buf + of_nat i)) b) [0..<8] else None) of
          Some b \<Rightarrow> Some (i, b)
        | None \<Rightarrow> first_clear m buf (Suc i) n
      else None)"
  by pat_completeness auto
termination
  by (relation "measure (\<lambda>(m, buf, i, n). n - i)") auto

declare first_clear.simps [simp del]

partial_function (option) bitmap_search ::
  "('d, 'p) platform \<Rightarrow> exfat_fs_t \<Rightarrow> u64 \<Rightarrow> u32 \<Rightarrow> u32 \<Rightarrow> ('d, 'p) world \<Rightarrow> (u32 option \<times> ('d, 'p) world) option" where
  "bitmap_search E fs buf curr_clus clus_idx w =
     (if curr_clus < EXFAT_FAT_EOC then do {
        let sector = exfat_cluster_to_sector fs curr_clus;
        (r, w) \<leftarrow> exfat_read_sectors E (fs_device fs) sector (sectors_per_cluster fs) buf w;
        if r \<noteq> 0 then Some (None, w)
        else case first_clear (ram w) buf 0 (unat (bytes_per_cluster fs)) of
          Some (i, b) \<Rightarrow>
            (let found = (clus_idx * bytes_per_cluster fs + of_nat i) * 8 + of_nat b + 2
             in if found - 2 \<ge> cluster_count fs then Some (None, w)
                else do {
                  let w = w\<lparr>ram := (ram w)(buf + of_nat i := ram w (buf + of_nat i) OR push_bit b 1)\<rparr>;
                  (_, w) \<leftarrow> exfat_write_sectors E (fs_device fs) (sector + ucast (of_nat i div bytes_per_sector fs)) 1
                    (buf + ucast (of_nat i AND NOT (bytes_per_sector fs - 1))) w;
                  Some (Some found, w) })
        | None \<Rightarrow> do {
            (c, w) \<leftarrow> exfat_get_fat_entry E fs curr_clus w;
            bitmap_search E fs buf c (clus_idx + 1) w } }
      else Some (None, w))"

definition exfat_allocate_cluster ::
  "('d, 'p) platform \<Rightarrow> exfat_fs_t \<Rightarrow> ('d, 'p) world \<Rightarrow> (u32 option \<times> ('d, 'p) world) option" where
  "exfat_allocate_cluster E fs w = do {
     (info, w) \<leftarrow> exfat_get_bitmap_info E fs w;
     case info of
       None \<Rightarrow> Some (None, w)
     | Some (bitmap_cluster, _) \<Rightarrow> do {
         (found, w) \<leftarrow> with_pages E 0 None (\<lambda>buf w. bitmap_search E fs buf bitmap_cluster 0 w) w;
         case found of
           None \<Rightarrow> Some (None, w)
         | Some c \<Rightarrow> do {
             (_, w) \<leftarrow> exfat_set_fat_entry E fs c EXFAT_FAT_EOC w;
             Some (Some c, w) } } }"

definition exfat_update_bitmap ::
  "('d, 'p) platform \<Rightarrow> exfat_fs_t \<Rightarrow> u32 \<Rightarrow> bool \<Rightarrow> ('d, 'p) world \<Rightarrow> (int \<times> ('d, 'p) world) option" where
  "exfat_update_bitmap E fs cluster allocated w = do {
     (info, w) \<leftarrow> exfat_get_bitmap_info E fs w;
     case info of
       None \<Rightarrow> Some (- 1, w)
     | Some (bitmap_cluster, _) \<Rightarrow>
         let byte_idx = (cluster - 2) div 8; bit_idx = unat ((cluster - 2) mod 8);
             sector = exfat_cluster_to_sector fs bitmap_cluster + ucast (byte_idx div bytes_per_sector fs);
             off = ucast (byte_idx mod bytes_per_sector fs) :: u64
         in with_pages E 0 (- 1) (\<lambda>buf w. do {
              (r, w) \<leftarrow> exfat_read_sectors E (fs_device fs) sector 1 buf w;
              if r \<noteq> 0 then Some (- 1, w)
              else
                let b = ram w (buf + off);
                    w = w\<lparr>ram := (ram w)(buf + off := (if allocated then b OR push_bit bit_idx 1 else b AND NOT (push_bit bit_idx 1)))\<rparr>
                in exfat_write_sectors E (fs_device fs) sector 1 buf w }) w }"

end
