(* ===== verification/Exfat_Files.thy ===== *)
theory Exfat_Files
  imports Exfat
begin

text \<open>
  The exFAT driver \<^verbatim>\<open>fs/exfat/exfat.c\<close>, continued: names and the search for a file, creation of files and
  directories, reading, writing and removing, and formatting.
\<close>

section \<open>Names\<close>

text \<open>The characters up to the first 0, at most \<open>max_len - 1\<close>; \<open>utf16\<close> is the buffer with what lies behind it.\<close>

definition exfat_utf16_to_ascii :: "(nat \<Rightarrow> u16) \<Rightarrow> nat \<Rightarrow> cstring" where
  "exfat_utf16_to_ascii utf16 max_len = map (\<lambda>i. ucast (utf16 i AND 0xFF)) (takeWhile (\<lambda>i. utf16 i \<noteq> 0) [0..<max_len - 1])"

text \<open>\<^verbatim>\<open>char\<close> is signed, so that the characters from 128 on are sign-extended.\<close>

definition exfat_ascii_to_utf16 :: "cstring \<Rightarrow> nat \<Rightarrow> u16 list" where
  "exfat_ascii_to_utf16 ascii max_chars = map scast (take max_chars (takeWhile (\<lambda>c. c \<noteq> 0) ascii))"

definition to_lower :: "u8 \<Rightarrow> u8" where
  "to_lower c = (if 0x41 \<le> c \<and> c \<le> 0x5A then c + 32 else c)"

fun strcasecmp_simple :: "cstring \<Rightarrow> cstring \<Rightarrow> int" where
  "strcasecmp_simple (c1 # s1) (c2 # s2) =
     (if c1 \<noteq> 0 \<and> c2 \<noteq> 0 then
        if to_lower c1 \<noteq> to_lower c2 then sint (to_lower c1) - sint (to_lower c2) else strcasecmp_simple s1 s2
      else sint c1 - sint c2)"
| "strcasecmp_simple [] (c2 # s2) = - sint c2"
| "strcasecmp_simple (c1 # s1) [] = sint c1"
| "strcasecmp_simple [] [] = 0"

text \<open>The characters of a name entry start at byte 2; a name without a 0 in its entry is read on behind the buffer.\<close>

definition name_chars :: "('d, 'p) platform \<Rightarrow> exfat_dentry_t \<Rightarrow> nat \<Rightarrow> u16" where
  "name_chars E e i = (if i < 15 then ucast (e ! (2 + 2 * i)) OR push_bit 8 (ucast (e ! (3 + 2 * i))) else behind E i)"

primrec read_name ::
  "('d, 'p) platform \<Rightarrow> exfat_fs_t \<Rightarrow> u32 \<Rightarrow> bool \<Rightarrow> u32 \<Rightarrow> nat list \<Rightarrow> cstring \<Rightarrow> ('d, 'p) world \<Rightarrow>
   (cstring \<times> ('d, 'p) world) option" where
  "read_name E fs dir contiguous index [] name w = Some (name, w)"
| "read_name E fs dir contiguous index (i # is) name w = do {
     ((r, e), w) \<leftarrow> exfat_read_dir_entry E fs dir contiguous (index + 2 + of_nat i) (stale E) w;
     if r \<noteq> 0 then Some (name, w)
     else
       let name = (if e ! 0 = EXFAT_TYPE_NAME then name @ exfat_utf16_to_ascii (name_chars E e) (256 - length name) else name)
       in read_name E fs dir contiguous index is name w }"

function find_loop ::
  "('d, 'p) platform \<Rightarrow> exfat_fs_t \<Rightarrow> u32 \<Rightarrow> bool \<Rightarrow> cstring \<Rightarrow> nat \<Rightarrow> ('d, 'p) world \<Rightarrow>
   ((exfat_dentry_t \<times> exfat_dentry_t \<times> u32) option \<times> ('d, 'p) world) option" where
  "find_loop E fs dir contiguous name index w =
     (if index < 1024 then do {
        ((r, file), w) \<leftarrow> exfat_read_dir_entry E fs dir contiguous (of_nat index) (stale E) w;
        if r \<noteq> 0 \<or> file ! 0 = EXFAT_TYPE_EOD then Some (None, w)
        else if file ! 0 = EXFAT_TYPE_FILE then do {
          ((r, stream), w) \<leftarrow> exfat_read_dir_entry E fs dir contiguous (of_nat index + 1) (stale E) w;
          if r \<noteq> 0 then Some (None, w)
          else if stream ! 0 \<noteq> EXFAT_TYPE_STREAM then find_loop E fs dir contiguous name (Suc index) w
          else do {
            (temp_name, w) \<leftarrow> read_name E fs dir contiguous (of_nat index) [0..<unat (file ! 1) - 1] [] w;
            if strcasecmp_simple temp_name name = 0 then Some (Some (file, stream, of_nat index), w)
            else find_loop E fs dir contiguous name (index + unat (file ! 1) + 1) w } }
        else find_loop E fs dir contiguous name (Suc index) w }
      else Some (None, w))"
  by pat_completeness auto
termination
  by (relation "measure (\<lambda>(E, fs, dir, contiguous, name, index, w). 1024 - index)") auto

declare find_loop.simps [simp del]

text \<open>The entries of a file and its index, or \<open>None\<close> for -1.\<close>

definition exfat_find_file ::
  "('d, 'p) platform \<Rightarrow> exfat_fs_t \<Rightarrow> u32 \<Rightarrow> bool \<Rightarrow> cstring \<Rightarrow> ('d, 'p) world \<Rightarrow>
   ((exfat_dentry_t \<times> exfat_dentry_t \<times> u32) option \<times> ('d, 'p) world) option" where
  "exfat_find_file E fs dir contiguous name w = find_loop E fs dir contiguous name 0 w"

definition exfat_open ::
  "('d, 'p) platform \<Rightarrow> exfat_fs_t \<Rightarrow> cstring \<Rightarrow> exfat_file_t \<Rightarrow> ('d, 'p) world \<Rightarrow>
   ((int \<times> exfat_file_t) \<times> ('d, 'p) world) option" where
  "exfat_open E fs path file w = do {
     let filename = (case path of c # cs \<Rightarrow> if c = 0x2F then cs else path | [] \<Rightarrow> path);
     (found, w) \<leftarrow> exfat_find_file E fs (root_dir_cluster fs) False filename w;
     case found of
       None \<Rightarrow> Some ((- 1, file), w)
     | Some (fe, se, di) \<Rightarrow>
         Some ((0, \<lparr>x_fs = fs, first_cluster = stream_first_cluster se, file_size = stream_data_length se, position = 0,
                  current_cluster = stream_first_cluster se, cluster_offset = 0, no_fat_chain = (se ! 1 AND 2 \<noteq> 0),
                  dir_cluster = root_dir_cluster fs, dir_contiguous = False, dir_index = di\<rparr>), w) }"

section \<open>New entries\<close>

text \<open>The search for \<open>tot\<close> free entries in a row: the start of the last run that it has seen, also of a shorter one.\<close>

primrec free_run ::
  "('d, 'p) platform \<Rightarrow> exfat_fs_t \<Rightarrow> u32 \<Rightarrow> nat \<Rightarrow> nat list \<Rightarrow> nat \<Rightarrow> u32 \<Rightarrow> ('d, 'p) world \<Rightarrow>
   (u32 \<times> ('d, 'p) world) option" where
  "free_run E fs dir tot [] free_cnt found w = Some (found, w)"
| "free_run E fs dir tot (i # is) free_cnt found w = do {
     ((r, e), w) \<leftarrow> exfat_read_dir_entry E fs dir False (of_nat i) (stale E) w;
     if r \<noteq> 0 then Some (found, w)
     else if e ! 0 = EXFAT_TYPE_EOD \<or> e ! 0 AND 0x80 = 0 then
       let found = (if free_cnt = 0 then of_nat i else found)
       in if free_cnt + 1 \<ge> tot then Some (found, w) else free_run E fs dir tot is (free_cnt + 1) found w
     else free_run E fs dir tot is 0 found w }"

definition file_entry :: "u8 \<Rightarrow> u8 \<Rightarrow> exfat_dentry_t" where
  "file_entry secondary_count attributes =
     [EXFAT_TYPE_FILE, secondary_count, 0, 0, attributes] @ replicate 27 0"

definition stream_entry :: "u8 \<Rightarrow> u8 \<Rightarrow> u32 \<Rightarrow> u64 \<Rightarrow> exfat_dentry_t" where
  "stream_entry flags name_length first len =
     [EXFAT_TYPE_STREAM, flags, 0, name_length, 0, 0, 0, 0] @ le_bytes 8 len @ replicate 4 0 @ le_bytes 4 (ucast first) @ le_bytes 8 len"

definition name_entry :: "u16 list \<Rightarrow> exfat_dentry_t" where
  "name_entry cs = (let bs = concat (map (\<lambda>c. [ucast c, ucast (drop_bit 8 c)]) cs) in [EXFAT_TYPE_NAME, 0] @ bs @ replicate (30 - length bs) 0)"

primrec write_names ::
  "('d, 'p) platform \<Rightarrow> exfat_fs_t \<Rightarrow> u32 \<Rightarrow> u32 \<Rightarrow> cstring \<Rightarrow> nat list \<Rightarrow> ('d, 'p) world \<Rightarrow> ('d, 'p) world option" where
  "write_names E fs dir found name [] w = Some w"
| "write_names E fs dir found name (i # is) w = do {
     (_, w) \<leftarrow> exfat_write_dir_entry E fs dir False (found + 2 + of_nat i)
       (name_entry (exfat_ascii_to_utf16 (drop (i * 15) name) 15)) w;
     write_names E fs dir found name is w }"

text \<open>What \<^verbatim>\<open>exfat_create\<close> and \<^verbatim>\<open>exfat_mkdir\<close> have in common: the place for the entries, the entries and the
  checksum. The results of the writes are not looked at.\<close>

definition add_entries ::
  "('d, 'p) platform \<Rightarrow> exfat_fs_t \<Rightarrow> u32 \<Rightarrow> cstring \<Rightarrow> u8 \<Rightarrow> exfat_dentry_t \<Rightarrow> ('d, 'p) world \<Rightarrow>
   (u32 option \<times> ('d, 'p) world) option" where
  "add_entries E fs dir name attributes stream w = do {
     let name_ents = (length name + 14) div 15;
     (found, w) \<leftarrow> free_run E fs dir (2 + name_ents) [0..<1024] 0 0xFFFFFFFF w;
     if found = 0xFFFFFFFF then Some (None, w)
     else do {
       (_, w) \<leftarrow> exfat_write_dir_entry E fs dir False found (file_entry (1 + of_nat name_ents) attributes) w;
       (_, w) \<leftarrow> exfat_write_dir_entry E fs dir False (found + 1) stream w;
       w \<leftarrow> write_names E fs dir found name [0..<name_ents] w;
       (_, w) \<leftarrow> exfat_update_checksum E fs dir False found w;
       Some (Some found, w) } }"

definition exfat_create ::
  "('d, 'p) platform \<Rightarrow> exfat_fs_t \<Rightarrow> u32 \<Rightarrow> cstring \<Rightarrow> exfat_file_t \<Rightarrow> ('d, 'p) world \<Rightarrow>
   ((int \<times> exfat_file_t) \<times> ('d, 'p) world) option" where
  "exfat_create E fs dir filename file w = do {
     (old, w) \<leftarrow> exfat_find_file E fs dir False filename w;
     if old \<noteq> None then Some ((- 1, file), w)
     else do {
       (found, w) \<leftarrow> add_entries E fs dir filename EXFAT_ATTR_ARCHIVE (stream_entry 1 (of_nat (length filename)) 0 0) w;
       case found of
         None \<Rightarrow> Some ((- 1, file), w)
       | Some i \<Rightarrow>
           Some ((0, \<lparr>x_fs = fs, first_cluster = 0, file_size = 0, position = 0, current_cluster = 0, cluster_offset = 0,
                    no_fat_chain = False, dir_cluster = dir, dir_contiguous = False, dir_index = i\<rparr>), w) } }"

definition exfat_mkdir ::
  "('d, 'p) platform \<Rightarrow> exfat_fs_t \<Rightarrow> u32 \<Rightarrow> cstring \<Rightarrow> ('d, 'p) world \<Rightarrow> (u32 option \<times> ('d, 'p) world) option" where
  "exfat_mkdir E fs dir name w = do {
     (old, w) \<leftarrow> exfat_find_file E fs dir False name w;
     if old \<noteq> None then Some (None, w)
     else do {
       (new, w) \<leftarrow> exfat_allocate_cluster E fs w;
       case new of
         None \<Rightarrow> Some (None, w)
       | Some nc \<Rightarrow> do {
           (ok, w) \<leftarrow> with_pages E 0 False (\<lambda>buf w. do {
             let w = w\<lparr>ram := memset (ram w) buf 0 (ucast (bytes_per_cluster fs))\<rparr>;
             (_, w) \<leftarrow> exfat_write_sectors E (fs_device fs) (exfat_cluster_to_sector fs nc) (sectors_per_cluster fs) buf w;
             Some (True, w) }) w;
           if \<not> ok then Some (None, w)
           else do {
             (found, w) \<leftarrow> add_entries E fs dir name EXFAT_ATTR_DIRECTORY
               (stream_entry 3 (of_nat (length name)) nc (ucast (bytes_per_cluster fs))) w;
             Some (map_option (\<lambda>_. nc) found, w) } } } }"

section \<open>Contents of files\<close>

function clus_order :: "u32 \<Rightarrow> nat \<Rightarrow> nat" where
  "clus_order bpc order = (if order < 64 \<and> push_bit order (4096 :: u64) < ucast bpc then clus_order bpc (Suc order) else order)"
  by pat_completeness auto
termination
  by (relation "measure (\<lambda>(bpc, order). 64 - order)") auto

declare clus_order.simps [simp del]

partial_function (option) read_loop ::
  "('d, 'p) platform \<Rightarrow> u64 \<Rightarrow> u64 \<Rightarrow> exfat_file_t \<Rightarrow> u64 \<Rightarrow> u64 \<Rightarrow> ('d, 'p) world \<Rightarrow>
   ((u64 \<times> exfat_file_t) \<times> ('d, 'p) world) option" where
  "read_loop E clus_buf buf file to_read done w =
     (if to_read > 0 then do {
        let fs = x_fs file;
        (eoc, file, w) \<leftarrow>
          (if cluster_offset file \<ge> bytes_per_cluster fs then
             if no_fat_chain file
             then Some (False, file\<lparr>current_cluster := current_cluster file + 1, cluster_offset := 0\<rparr>, w)
             else do {
               (c, w) \<leftarrow> exfat_get_fat_entry E fs (current_cluster file) w;
               if c \<ge> EXFAT_FAT_EOC then Some (True, file\<lparr>current_cluster := c\<rparr>, w)
               else Some (False, file\<lparr>current_cluster := c, cluster_offset := 0\<rparr>, w) }
           else Some (False, file, w));
        if eoc then Some ((done, file), w)
        else do {
          (r, w) \<leftarrow> exfat_read_sectors E (fs_device fs) (exfat_cluster_to_sector fs (current_cluster file))
            (sectors_per_cluster fs) clus_buf w;
          if r \<noteq> 0 then Some ((done, file), w)
          else
            let avail = bytes_per_cluster fs - cluster_offset file;
                copy = (if to_read < ucast avail then ucast to_read else avail);
                w = w\<lparr>ram := memcpy (ram w) (buf + done) (clus_buf + ucast (cluster_offset file)) (ucast copy)\<rparr>;
                file = file\<lparr>position := position file + ucast copy, cluster_offset := cluster_offset file + copy\<rparr>
            in read_loop E clus_buf buf file (to_read - ucast copy) (done + ucast copy) w } }
      else Some ((done, file), w))"

definition exfat_read ::
  "('d, 'p) platform \<Rightarrow> exfat_file_t \<Rightarrow> u64 \<Rightarrow> u64 \<Rightarrow> ('d, 'p) world \<Rightarrow>
   ((int \<times> exfat_file_t) \<times> ('d, 'p) world) option" where
  "exfat_read E file buffer sz w =
     (if buffer = 0 then Some ((- 1, file), w)
      else
        let to_read = (if position file + sz > file_size file then file_size file - position file else sz)
        in with_pages E (clus_order (bytes_per_cluster (x_fs file)) 0) (- 1, file) (\<lambda>clus_buf w. do {
             ((done, file), w) \<leftarrow> read_loop E clus_buf buffer file to_read 0 w;
             Some ((sint (ucast done :: u32), file), w) }) w)"

text \<open>The stream entry of a file is read, changed and written back, and the checksum follows. The first result is
  not looked at: when the entry cannot be read, what the local variable held is written.\<close>

definition update_stream ::
  "('d, 'p) platform \<Rightarrow> exfat_file_t \<Rightarrow> (exfat_dentry_t \<Rightarrow> exfat_dentry_t) \<Rightarrow> ('d, 'p) world \<Rightarrow> ('d, 'p) world option" where
  "update_stream E file f w = do {
     ((_, se), w) \<leftarrow> exfat_read_dir_entry E (x_fs file) (dir_cluster file) (dir_contiguous file) (dir_index file + 1) (stale E) w;
     (_, w) \<leftarrow> exfat_write_dir_entry E (x_fs file) (dir_cluster file) (dir_contiguous file) (dir_index file + 1) (f se) w;
     (_, w) \<leftarrow> exfat_update_checksum E (x_fs file) (dir_cluster file) (dir_contiguous file) (dir_index file) w;
     Some w }"

definition start_file ::
  "('d, 'p) platform \<Rightarrow> exfat_file_t \<Rightarrow> ('d, 'p) world \<Rightarrow> (exfat_file_t option \<times> ('d, 'p) world) option" where
  "start_file E file w = do {
     (new, w) \<leftarrow> exfat_allocate_cluster E (x_fs file) w;
     case new of
       None \<Rightarrow> Some (None, w)
     | Some nc \<Rightarrow> do {
         let file = file\<lparr>first_cluster := nc, current_cluster := nc, no_fat_chain := True\<rparr>;
         w \<leftarrow> update_stream E file (\<lambda>se. put_field 1 [3] (put_field 20 (le_bytes 4 (ucast nc)) se)) w;
         Some (Some file, w) } }"

definition link_run :: "('d, 'p) platform \<Rightarrow> exfat_fs_t \<Rightarrow> u32 \<Rightarrow> u32 \<Rightarrow> ('d, 'p) world \<Rightarrow> ('d, 'p) world option" where
  "link_run E fs first cur =
     each (\<lambda>c w. do { (_, w) \<leftarrow> exfat_set_fat_entry E fs (of_nat c) (of_nat c + 1) w; Some w }) [unat first..<unat cur]"

definition next_cluster ::
  "('d, 'p) platform \<Rightarrow> exfat_file_t \<Rightarrow> ('d, 'p) world \<Rightarrow> (exfat_file_t option \<times> ('d, 'p) world) option" where
  "next_cluster E file w =
     (let fs = x_fs file; cur = current_cluster file
      in if no_fat_chain file then do {
           (new, w) \<leftarrow> exfat_allocate_cluster E fs w;
           case new of
             None \<Rightarrow> Some (None, w)
           | Some nxt \<Rightarrow>
               if nxt = cur + 1 then Some (Some (file\<lparr>current_cluster := nxt, cluster_offset := 0\<rparr>), w)
               else do {
                 w \<leftarrow> link_run E fs (first_cluster file) cur w;
                 (_, w) \<leftarrow> exfat_set_fat_entry E fs cur nxt w;
                 let file = file\<lparr>no_fat_chain := False, current_cluster := nxt\<rparr>;
                 w \<leftarrow> update_stream E file (\<lambda>se. put_field 1 [se ! 1 AND NOT 2] se) w;
                 Some (Some (file\<lparr>cluster_offset := 0\<rparr>), w) } }
         else do {
           (nxt, w) \<leftarrow> exfat_get_fat_entry E fs cur w;
           if nxt \<ge> EXFAT_FAT_EOC then do {
             (new, w) \<leftarrow> exfat_allocate_cluster E fs w;
             case new of
               None \<Rightarrow> Some (None, w)
             | Some nxt \<Rightarrow> do {
                 (_, w) \<leftarrow> exfat_set_fat_entry E fs cur nxt w;
                 Some (Some (file\<lparr>current_cluster := nxt, cluster_offset := 0\<rparr>), w) } }
           else Some (Some (file\<lparr>current_cluster := nxt, cluster_offset := 0\<rparr>), w) })"

partial_function (option) write_loop ::
  "('d, 'p) platform \<Rightarrow> u64 \<Rightarrow> u64 \<Rightarrow> exfat_file_t \<Rightarrow> u64 \<Rightarrow> u64 \<Rightarrow> ('d, 'p) world \<Rightarrow>
   ((u64 \<times> exfat_file_t) \<times> ('d, 'p) world) option" where
  "write_loop E clus_buf src file rem done w =
     (if rem > 0 then do {
        (started, w) \<leftarrow> (if first_cluster file = 0 then start_file E file w else Some (Some file, w));
        case started of
          None \<Rightarrow> Some ((done, file), w)
        | Some file \<Rightarrow> do {
            (moved, w) \<leftarrow> (if cluster_offset file \<ge> bytes_per_cluster (x_fs file) then next_cluster E file w else Some (Some file, w));
            case moved of
              None \<Rightarrow> Some ((done, file), w)
            | Some file \<Rightarrow> do {
                let fs = x_fs file;
                let avail = bytes_per_cluster fs - cluster_offset file;
                let tw = (if rem < ucast avail then ucast rem else avail);
                let sec = exfat_cluster_to_sector fs (current_cluster file);
                (_, w) \<leftarrow> (if tw < bytes_per_cluster fs
                            then exfat_read_sectors E (fs_device fs) sec (sectors_per_cluster fs) clus_buf w else Some (0, w));
                let w = w\<lparr>ram := memcpy (ram w) (clus_buf + ucast (cluster_offset file)) (src + done) (ucast tw)\<rparr>;
                (r, w) \<leftarrow> exfat_write_sectors E (fs_device fs) sec (sectors_per_cluster fs) clus_buf w;
                if r \<noteq> 0 then Some ((done, file), w)
                else
                  let file = file\<lparr>position := position file + ucast tw, cluster_offset := cluster_offset file + tw\<rparr>;
                      file = (if position file > file_size file then file\<lparr>file_size := position file\<rparr> else file)
                  in write_loop E clus_buf src file (rem - ucast tw) (done + ucast tw) w } } }
      else Some ((done, file), w))"

definition exfat_write ::
  "('d, 'p) platform \<Rightarrow> exfat_file_t \<Rightarrow> u64 \<Rightarrow> u64 \<Rightarrow> ('d, 'p) world \<Rightarrow>
   ((int \<times> exfat_file_t) \<times> ('d, 'p) world) option" where
  "exfat_write E file buffer sz w =
     (if buffer = 0 \<or> sz = 0 then Some ((0, file), w)
      else
        with_pages E (clus_order (bytes_per_cluster (x_fs file)) 0) (- 1, file) (\<lambda>clus_buf w. do {
          ((done, file), w) \<leftarrow> write_loop E clus_buf buffer file sz 0 w;
          w \<leftarrow> update_stream E file
            (\<lambda>se. put_field 24 (le_bytes 8 (file_size file)) (put_field 8 (le_bytes 8 (file_size file)) se)) w;
          Some ((sint (ucast done :: u32), file), w) }) w)"

partial_function (option) seek_loop ::
  "('d, 'p) platform \<Rightarrow> exfat_file_t \<Rightarrow> u64 \<Rightarrow> ('d, 'p) world \<Rightarrow> (exfat_file_t \<times> ('d, 'p) world) option" where
  "seek_loop E file rem w =
     (if rem > 0 \<and> current_cluster file \<ge> 2 \<and> current_cluster file < EXFAT_FAT_EOC then
        let skip = ucast (bytes_per_cluster (x_fs file)) - ucast (cluster_offset file)
        in if rem < skip
           then Some (file\<lparr>cluster_offset := cluster_offset file + ucast rem, position := position file + rem\<rparr>, w)
           else
             let file = file\<lparr>position := position file + skip\<rparr>
             in if no_fat_chain file
                then seek_loop E (file\<lparr>current_cluster := current_cluster file + 1, cluster_offset := 0\<rparr>) (rem - skip) w
                else do {
                  (c, w) \<leftarrow> exfat_get_fat_entry E (x_fs file) (current_cluster file) w;
                  if c \<ge> EXFAT_FAT_EOC then Some (file\<lparr>current_cluster := c\<rparr>, w)
                  else seek_loop E (file\<lparr>current_cluster := c, cluster_offset := 0\<rparr>) (rem - skip) w }
      else Some (file, w))"

definition exfat_seek ::
  "('d, 'p) platform \<Rightarrow> exfat_file_t \<Rightarrow> u64 \<Rightarrow> ('d, 'p) world \<Rightarrow> (exfat_file_t \<times> ('d, 'p) world) option" where
  "exfat_seek E file pos w =
     (let pos = (if pos > file_size file then file_size file else pos)
      in seek_loop E (file\<lparr>position := 0, current_cluster := first_cluster file, cluster_offset := 0\<rparr>) pos w)"

section \<open>Removal\<close>

partial_function (option) free_loop ::
  "('d, 'p) platform \<Rightarrow> exfat_fs_t \<Rightarrow> bool \<Rightarrow> u64 \<Rightarrow> u32 \<Rightarrow> u32 \<Rightarrow> u32 \<Rightarrow> ('d, 'p) world \<Rightarrow> ('d, 'p) world option" where
  "free_loop E fs contiguous sz count i cur w =
     (if i < count \<or> sz = 0 \<and> i = 0 then do {
        (nxt, w) \<leftarrow> (if \<not> contiguous then exfat_get_fat_entry E fs cur w else Some (cur + 1, w));
        (_, w) \<leftarrow> exfat_set_fat_entry E fs cur EXFAT_FAT_FREE w;
        (_, w) \<leftarrow> exfat_update_bitmap E fs cur False w;
        if (if contiguous then i + 1 \<ge> (if count = 0 then 1 else count) else nxt \<ge> EXFAT_FAT_EOC) then Some w
        else free_loop E fs contiguous sz count (i + 1) nxt w }
      else Some w)"

definition exfat_free_chain ::
  "('d, 'p) platform \<Rightarrow> exfat_fs_t \<Rightarrow> u32 \<Rightarrow> bool \<Rightarrow> u64 \<Rightarrow> ('d, 'p) world \<Rightarrow> (int \<times> ('d, 'p) world) option" where
  "exfat_free_chain E fs first contiguous sz w =
     (if first < 2 then Some (0, w)
      else do {
        let count = ucast ((sz + ucast (bytes_per_cluster fs) - 1) div ucast (bytes_per_cluster fs));
        w \<leftarrow> free_loop E fs contiguous sz count 0 first w;
        Some (0, w) })"

definition exfat_remove ::
  "('d, 'p) platform \<Rightarrow> exfat_fs_t \<Rightarrow> u32 \<Rightarrow> cstring \<Rightarrow> ('d, 'p) world \<Rightarrow> (int \<times> ('d, 'p) world) option" where
  "exfat_remove E fs dir name w = do {
     (found, w) \<leftarrow> exfat_find_file E fs dir False name w;
     case found of
       None \<Rightarrow> Some (- 1, w)
     | Some (fe, se, di) \<Rightarrow> do {
         (_, w) \<leftarrow> (if stream_first_cluster se \<ge> 2
                     then exfat_free_chain E fs (stream_first_cluster se) (se ! 1 AND 2 \<noteq> 0) (stream_data_length se) w
                     else Some (0, w));
         w \<leftarrow> each (\<lambda>i w. do {
           ((r, e), w) \<leftarrow> exfat_read_dir_entry E fs dir False (di + of_nat i) (stale E) w;
           if r = 0 then do {
             (_, w) \<leftarrow> exfat_write_dir_entry E fs dir False (di + of_nat i) (e[0 := e ! 0 AND 0x7F]) w;
             Some w }
           else Some w }) [0..<1 + unat (fe ! 1)] w;
         Some (0, w) } }"

section \<open>Formatting\<close>

text \<open>Sectors \<open>base\<close> to \<open>base + len\<close> are written in steps of 8 from a page of zeroes, the first step with \<open>first\<close> at
  the start of the page.\<close>

definition write_chunks ::
  "('d, 'p) platform \<Rightarrow> u64 \<Rightarrow> u32 \<Rightarrow> u32 \<Rightarrow> u8 list \<Rightarrow> u64 \<Rightarrow> ('d, 'p) world \<Rightarrow> ('d, 'p) world option" where
  "write_chunks E device base len first scratch =
     each (\<lambda>k w. do {
       let i = of_nat (8 * k);
       let w = (if k = 0 then w\<lparr>ram := put_list (ram w) scratch first\<rparr> else w);
       (_, w) \<leftarrow> exfat_write_sectors E device (ucast (base + i)) (if len - i < 8 then len - i else 8) scratch w;
       Some (if k = 0 then w\<lparr>ram := memset (ram w) scratch 0 4096\<rparr> else w) })
     [0..<(unat len + 7) div 8]"

text \<open>The boot sector, by the offsets of \<^verbatim>\<open>exfat_boot_sector_t\<close>.\<close>

definition boot_sector :: "memory \<Rightarrow> u64 \<Rightarrow> u64 \<Rightarrow> u32 \<Rightarrow> u32 \<Rightarrow> u32 \<Rightarrow> memory" where
  "boot_sector m boot sectors fat_len heap_off clus_cnt =
     (let m = put_list m boot [0xEB, 0x76, 0x90];
          m = put_list m (boot + 3) (map (\<lambda>c. of_nat (of_char c)) ''EXFAT   '');
          m = store64 m (boot + 64) 0; m = store64 m (boot + 72) sectors;
          m = store32 m (boot + 80) 128; m = store32 m (boot + 84) fat_len;
          m = store32 m (boot + 88) heap_off; m = store32 m (boot + 92) clus_cnt;
          m = store32 m (boot + 96) 2; m = store32 m (boot + 100) 0x12345678; m = store16 m (boot + 104) 0x0100
      in store16 (m(boot + 108 := 9, boot + 109 := 3, boot + 110 := 1, boot + 111 := 0x80)) (boot + 510) 0xAA55)"

definition root_entries :: "u32 \<Rightarrow> u8 list" where
  "root_entries clus_cnt =
     [0x83, 9] @ concat (map (\<lambda>c. [of_nat (of_char c), 0]) ''VNiX DISK'') @ replicate 12 0 @
     [0x81] @ replicate 19 0 @ le_bytes 4 3 @ le_bytes 8 (ucast ((clus_cnt + 7) div 8)) @
     [0x82] @ replicate 19 0 @ le_bytes 4 4 @ le_bytes 8 5836"

definition exfat_format ::
  "('d, 'p) platform \<Rightarrow> u64 \<Rightarrow> u64 \<Rightarrow> ('d, 'p) world \<Rightarrow> (int \<times> ('d, 'p) world) option" where
  "exfat_format E device sectors w =
     (if sectors < 1024 then Some (- 1, w)
      else
        let max_clusters = ucast (sectors div 8); fat_len = (max_clusters * 4 + 512 - 1) div 512;
            heap_off = (128 + fat_len + 8 - 1) AND NOT (8 - 1); clus_cnt = ucast ((sectors - ucast heap_off) div 8);
            zero = (\<lambda>scratch n w. w\<lparr>ram := memset (ram w) scratch 0 n\<rparr>)
        in with_pages E 0 (- 1) (\<lambda>scratch w. do {
             let w = zero scratch 4096 w;
             let w = w\<lparr>ram := boot_sector (ram w) scratch sectors fat_len heap_off clus_cnt\<rparr>;
             (r, w) \<leftarrow> exfat_write_sectors E device 0 1 scratch w;
             if r \<noteq> 0 then Some (- 1, w)
             else do {
               w \<leftarrow> each (\<lambda>i w. do { (_, w) \<leftarrow> exfat_write_sectors E device (of_nat i) 1 scratch w; Some w }) [1..<11] (zero scratch 512 w);
               (_, w) \<leftarrow> exfat_read_sectors E device 0 1 scratch w;
               (_, w) \<leftarrow> exfat_write_sectors E device 12 1 scratch w;
               w \<leftarrow> write_chunks E device 128 fat_len
                 (le_bytes 4 0xFFFFFFF8 @ le_bytes 4 0xFFFFFFFF @ le_bytes 4 0xFFFFFFFF) scratch (zero scratch 4096 w);
               (_, w) \<leftarrow> exfat_write_sectors E device (ucast heap_off) 8 scratch (zero scratch 4096 w);
               let w = w\<lparr>ram := put_list (ram w) scratch (root_entries clus_cnt)\<rparr>;
               (_, w) \<leftarrow> exfat_write_sectors E device (ucast heap_off) 1 scratch w;
               w \<leftarrow> write_chunks E device (heap_off + 8) ((clus_cnt div 8 + 511) div 512) [0x07] scratch (zero scratch 4096 w);
               (_, w) \<leftarrow> exfat_set_fat_entry_raw E device 128 512 3 0xFFFFFFFF w;
               (_, w) \<leftarrow> exfat_set_fat_entry_raw E device 128 512 4 0xFFFFFFFF w;
               Some (0, w) } }) w)"

end
