(* ===== verification/Exfat_Disk.thy ===== *)
theory Exfat_Disk
  imports Exfat_Files
begin

text \<open>
  What the exFAT driver relies on: pages for its buffers and a disk whose sectors hold what was written to them
  last. The sectors of a disk are the abstract state that the properties of the driver speak about.
\<close>

section \<open>Lists in memory\<close>

lemma put_list_eq:
  assumes "length bs \<le> 2 ^ 64"
  shows "put_list m a bs = (\<lambda>x. if unat (x - a) < length bs then bs ! unat (x - a) else m x)"
  using assms
proof (induction bs arbitrary: m a)
  case (Cons b bs)
  have IH: "put_list (m(a := b)) (a + 1) bs =
      (\<lambda>x. if unat (x - (a + 1)) < length bs then bs ! unat (x - (a + 1)) else (m(a := b)) x)"
    using Cons by simp
  have "put_list m a (b # bs) x = (if unat (x - a) < length (b # bs) then (b # bs) ! unat (x - a) else m x)" for x
  proof (cases "x = a")
    case True
    then have "unat (x - (a + 1)) = 2 ^ 64 - 1" by (simp add: unsigned_minus_1_eq_mask mask_eq_exp_minus_1)
    then show ?thesis using True Cons.prems IH by simp
  next
    case False
    then have "x - a \<noteq> 0" by simp
    then have "unat (x - a) = Suc (unat (x - a - 1))"
      by (metis Suc_pred' unat_gt_0 unat_minus_one)
    then show ?thesis using False IH by (simp add: diff_diff_eq)
  qed
  then show ?case by blast
qed simp

lemma length_bytes_at [simp]: "length (bytes_at m a n) = n"
  by (simp add: bytes_at_def)

lemma nth_bytes_at [simp]: "i < n \<Longrightarrow> bytes_at m a n ! i = m (a + of_nat i)"
  by (simp add: bytes_at_def)

lemma bytes_at_cong: "(\<And>i. i < n \<Longrightarrow> m (a + of_nat i) = m' (a + of_nat i)) \<Longrightarrow> bytes_at m a n = bytes_at m' a n"
  by (simp add: bytes_at_def)

lemma put_list_in:
  assumes "k < length bs" "length bs \<le> 2 ^ 64"
  shows "put_list m a bs (a + of_nat k) = bs ! k"
  using assms by (simp add: put_list_eq unat_of_nat_u64)

lemma bytes_at_put_list:
  assumes "k + n \<le> length bs" "length bs \<le> 2 ^ 64"
  shows "bytes_at (put_list m a bs) (a + of_nat k) n = take n (drop k bs)"
proof (rule nth_equalityI)
  fix i assume i: "i < length (bytes_at (put_list m a bs) (a + of_nat k) n)"
  then have "put_list m a bs (a + of_nat (k + i)) = bs ! (k + i)" using assms by (intro put_list_in) simp_all
  then show "bytes_at (put_list m a bs) (a + of_nat k) n ! i = take n (drop k bs) ! i"
    using i assms by (simp add: add.assoc)
qed (use assms in simp)

lemma unat_shift:
  assumes "k + l \<le> 2 ^ 64"
  shows "unat (x - of_nat k :: u64) < l \<longleftrightarrow> k \<le> unat x \<and> unat x < k + l"
    "k \<le> unat x \<Longrightarrow> unat (x - of_nat k :: u64) = unat x - k"
proof -
  have e: "unat (x - of_nat k :: u64) = (if k \<le> unat x then unat x - k else 2 ^ 64 + unat x - k)"
  proof (cases "k \<le> unat x")
    case True
    moreover have "unat (of_nat (unat x - k) :: u64) = unat x - k" by (intro unat_of_nat_u64) (simp add: less_imp_diff_less)
    ultimately show ?thesis by (simp add: of_nat_diff)
  next
    case False
    moreover have "unat (of_nat (2 ^ 64 + unat x - k) :: u64) = 2 ^ 64 + unat x - k" using False by (intro unat_of_nat_u64) simp
    moreover have "k \<le> 2 ^ 64 + unat x" using assms by simp
    then have "(of_nat (2 ^ 64 + unat x - k) :: u64) = x - of_nat k" by (simp add: of_nat_diff)
    ultimately show ?thesis by simp
  qed
  then show "unat (x - of_nat k :: u64) < l \<longleftrightarrow> k \<le> unat x \<and> unat x < k + l"
    "k \<le> unat x \<Longrightarrow> unat (x - of_nat k :: u64) = unat x - k" using assms by auto
qed

text \<open>A part of a list in memory is replaced.\<close>

definition patch :: "u8 list \<Rightarrow> nat \<Rightarrow> u8 list \<Rightarrow> u8 list" where
  "patch xs k bs = take k xs @ bs @ drop (k + length bs) xs"

lemma length_patch [simp]: "k + length bs \<le> length xs \<Longrightarrow> length (patch xs k bs) = length xs"
  by (simp add: patch_def)

lemma nth_patch: "k + length bs \<le> length xs \<Longrightarrow> i < length xs \<Longrightarrow>
    patch xs k bs ! i = (if k \<le> i \<and> i < k + length bs then bs ! (i - k) else xs ! i)"
  by (auto simp: patch_def nth_append)

lemma put_list_patch:
  assumes "k + length bs \<le> length xs" "length xs \<le> 2 ^ 64"
  shows "put_list (put_list m a xs) (a + of_nat k) bs = put_list m a (patch xs k bs)"
proof
  fix x
  have "k + length bs \<le> 2 ^ 64" using assms by simp
  note unat_shift [OF this, of "x - a"]
  then show "put_list (put_list m a xs) (a + of_nat k) bs x = put_list m a (patch xs k bs) x"
    using assms by (auto simp: put_list_eq nth_patch diff_diff_eq [symmetric])
qed

section \<open>Pages for buffers\<close>

text \<open>
  The law of the page pool behind the drivers: \<open>idle p\<close> are the free page numbers, \<open>npages p\<close> the number of pages.
  What was allocated can be released again.
\<close>

locale page_pool =
  fixes E :: "('d, 'p) platform" and pinv :: "'p \<Rightarrow> bool" and idle :: "'p \<Rightarrow> nat set" and npages :: "'p \<Rightarrow> nat"
  assumes pages_alloc: "pinv p \<Longrightarrow> alloc_pages E p k = (ph, p') \<Longrightarrow>
      ph = 0 \<and> p' = p \<and> (k = 0 \<longrightarrow> idle p = {}) \<or>
      ph \<noteq> 0 \<and> (\<exists>q. ph = page_addr q \<and> 2 ^ k dvd q \<and> 0 < q \<and> q + 2 ^ k \<le> npages p \<and> k < MAX_ORDER \<and>
        {q..<q + 2 ^ k} \<subseteq> idle p \<and> idle p' = idle p - {q..<q + 2 ^ k} \<and> pinv p' \<and> npages p' = npages p)"
    and pages_free: "pinv p \<Longrightarrow> 2 ^ k dvd q \<Longrightarrow> 0 < q \<Longrightarrow> q + 2 ^ k \<le> npages p \<Longrightarrow> k < MAX_ORDER \<Longrightarrow>
      {q..<q + 2 ^ k} \<inter> idle p = {} \<Longrightarrow>
      \<exists>p'. free_pages E p (page_addr q) k = Some p' \<and> pinv p' \<and> npages p' = npages p \<and> idle p' = idle p \<union> {q..<q + 2 ^ k}"

text \<open>An address in one of the pages \<open>X\<close>, seen through the direct map.\<close>

definition in_pages :: "u64 \<Rightarrow> nat set \<Rightarrow> u64 \<Rightarrow> bool" where
  "in_pages hhdm X a \<longleftrightarrow> (\<exists>p\<in>X. unat (a - (page_addr p + hhdm)) < 4096)"

text \<open>Two states that differ at most in the drives and in the contents of free pages.\<close>

definition kept ::
  "('p \<Rightarrow> bool) \<Rightarrow> ('p \<Rightarrow> nat set) \<Rightarrow> ('p \<Rightarrow> nat) \<Rightarrow> ('d, 'p) world \<Rightarrow> ('d, 'p) world \<Rightarrow> bool" where
  "kept pinv idle npages w w' \<longleftrightarrow>
     pinv (pool w') \<and> idle (pool w') = idle (pool w) \<and> npages (pool w') = npages (pool w) \<and>
     w_hhdm w' = w_hhdm w \<and> g_sata_port w' = g_sata_port w \<and>
     (\<forall>a. \<not> in_pages (w_hhdm w) (idle (pool w)) a \<longrightarrow> ram w' a = ram w a)"

lemma in_pages_mono: "in_pages h X a \<Longrightarrow> X \<subseteq> Y \<Longrightarrow> in_pages h Y a"
  by (auto simp: in_pages_def)

lemma keptD:
  assumes "kept pinv idle npages w w'"
  shows "pinv (pool w')" "idle (pool w') = idle (pool w)" "npages (pool w') = npages (pool w)" "w_hhdm w' = w_hhdm w"
    "g_sata_port w' = g_sata_port w" "\<not> in_pages (w_hhdm w) (idle (pool w)) a \<Longrightarrow> ram w' a = ram w a"
  using assms by (simp_all add: kept_def)

lemma kept_refl: "pinv (pool w) \<Longrightarrow> kept pinv idle npages w w"
  by (simp add: kept_def)

lemma world_kept_trans: "kept pinv idle npages w1 w2 \<Longrightarrow> kept pinv idle npages w2 w3 \<Longrightarrow> kept pinv idle npages w1 w3"
  by (simp add: kept_def)

lemma kept_drives: "kept pinv idle npages w w' \<Longrightarrow> kept pinv idle npages w (w'\<lparr>drives := d\<rparr>)"
  by (simp add: kept_def)

text \<open>A write to a buffer in the pages \<open>X\<close>.\<close>

lemma kept_ram:
  assumes "kept pinv idle npages w w'" "\<And>a. \<not> in_pages (w_hhdm w) (idle (pool w)) a \<Longrightarrow> m a = ram w' a"
  shows "kept pinv idle npages w (w'\<lparr>ram := m\<rparr>)"
  using assms by (simp add: kept_def)

context page_pool
begin

abbreviation kp :: "('d, 'p) world \<Rightarrow> ('d, 'p) world \<Rightarrow> bool" where
  "kp \<equiv> kept pinv idle npages"

text \<open>
  The rule for functions with a buffer: when the body works with any free pages as its buffer, so does the function,
  and the pages are free again afterwards.
\<close>

lemma with_pages_pool:
  assumes i: "pinv (pool w)" and al: "fst (alloc_pages E (pool w) k) \<noteq> 0"
    and body: "\<And>q p. {q..<q + 2 ^ k} \<subseteq> idle (pool w) \<Longrightarrow> 0 < q \<Longrightarrow> q + 2 ^ k \<le> npages (pool w) \<Longrightarrow> pinv p \<Longrightarrow>
      idle p = idle (pool w) - {q..<q + 2 ^ k} \<Longrightarrow> npages p = npages (pool w) \<Longrightarrow>
      \<exists>r w'. f (page_addr q + w_hhdm w) (w\<lparr>pool := p\<rparr>) = Some (r, w') \<and> Q r w' \<and>
        pinv (pool w') \<and> idle (pool w') = idle p \<and> npages (pool w') = npages p"
  shows "\<exists>r w' p. with_pages E k e f w = Some (r, w'\<lparr>pool := p\<rparr>) \<and> Q r w' \<and>
    pinv p \<and> idle p = idle (pool w) \<and> npages p = npages (pool w)"
proof -
  obtain ph p where a: "alloc_pages E (pool w) k = (ph, p)" by fastforce
  then obtain q where q: "ph = page_addr q" "2 ^ k dvd q" "0 < q" "q + 2 ^ k \<le> npages (pool w)" "k < MAX_ORDER"
    "{q..<q + 2 ^ k} \<subseteq> idle (pool w)" "idle p = idle (pool w) - {q..<q + 2 ^ k}" "pinv p" "npages p = npages (pool w)" "ph \<noteq> 0"
    using pages_alloc [OF i a] al by auto
  obtain r w' where w': "f (page_addr q + w_hhdm w) (w\<lparr>pool := p\<rparr>) = Some (r, w')" "Q r w'" "pinv (pool w')"
    "idle (pool w') = idle p" "npages (pool w') = npages p"
    using body [OF q(6,3,4,8,7,9)] by blast
  have "{q..<q + 2 ^ k} \<inter> idle (pool w') = {}" using w'(4) q(7) by auto
  then obtain p' where p': "free_pages E (pool w') (page_addr q) k = Some p'" "pinv p'" "npages p' = npages (pool w')"
    "idle p' = idle (pool w') \<union> {q..<q + 2 ^ k}"
    using pages_free [OF w'(3) q(2,3) _ q(5)] q(4,9) w'(5) by auto
  have "idle p' = idle (pool w)" using p'(4) w'(4) q(6,7) by auto
  moreover have "with_pages E k e f w = Some (r, w'\<lparr>pool := p'\<rparr>)" using a q(1,10) w'(1) p'(1) by (simp add: with_pages_def)
  ultimately show ?thesis using w'(2,5) p'(2,3) q(9) by metis
qed

text \<open>The same for a body that leaves memory outside the free pages alone.\<close>

lemma with_pages_rule:
  assumes i: "pinv (pool w)" and al: "fst (alloc_pages E (pool w) k) \<noteq> 0"
    and body: "\<And>q p. {q..<q + 2 ^ k} \<subseteq> idle (pool w) \<Longrightarrow> 0 < q \<Longrightarrow> q + 2 ^ k \<le> npages (pool w) \<Longrightarrow> pinv p \<Longrightarrow>
      idle p = idle (pool w) - {q..<q + 2 ^ k} \<Longrightarrow> npages p = npages (pool w) \<Longrightarrow>
      \<exists>r w'. f (page_addr q + w_hhdm w) (w\<lparr>pool := p\<rparr>) = Some (r, w') \<and> Q r w' \<and>
        pinv (pool w') \<and> idle (pool w') = idle p \<and> npages (pool w') = npages p \<and> w_hhdm w' = w_hhdm w \<and>
        g_sata_port w' = g_sata_port w \<and> (\<forall>a. \<not> in_pages (w_hhdm w) (idle (pool w)) a \<longrightarrow> ram w' a = ram w a)"
  shows "\<exists>r w' p. with_pages E k e f w = Some (r, w'\<lparr>pool := p\<rparr>) \<and> Q r w' \<and> kp w (w'\<lparr>pool := p\<rparr>)"
proof -
  let ?Q = "\<lambda>r w'. Q r w' \<and> w_hhdm w' = w_hhdm w \<and> g_sata_port w' = g_sata_port w \<and>
      (\<forall>a. \<not> in_pages (w_hhdm w) (idle (pool w)) a \<longrightarrow> ram w' a = ram w a)"
  have "\<exists>r w' p. with_pages E k e f w = Some (r, w'\<lparr>pool := p\<rparr>) \<and> ?Q r w' \<and> pinv p \<and> idle p = idle (pool w) \<and> npages p = npages (pool w)"
    by (rule with_pages_pool [OF i al]) (drule (5) body, blast)
  then show ?thesis by (fastforce simp: kept_def)
qed

lemma page_available: "pinv p \<Longrightarrow> idle p \<noteq> {} \<Longrightarrow> fst (alloc_pages E p 0) \<noteq> 0"
  using pages_alloc [of p 0] by (metis prod.collapse)

end

text \<open>The kernel: pages come from the page allocator.\<close>

definition kernel_platform ::
  "(u64 \<Rightarrow> 'd \<times> memory \<Rightarrow> u32 \<times> 'd \<times> memory) \<Rightarrow> (u64 \<Rightarrow> u32 \<Rightarrow> 'd \<times> memory \<Rightarrow> 'd \<times> memory) \<Rightarrow>
   (u64 \<Rightarrow> 'd disk_handle_t) \<Rightarrow> u8 list \<Rightarrow> (nat \<Rightarrow> u16) \<Rightarrow> ('d, pmm) platform" where
  "kernel_platform rs ws hs st bh =
     \<lparr>mmio_rd = rs, mmio_wr = ws, handles = hs, alloc_pages = palloc_order, free_pages = pfree_order, stale = st, behind = bh\<rparr>"

interpretation kernel_pool: page_pool "kernel_platform rs ws hs st bh" pmm_inv free_set "\<lambda>s. unat (pmm_max_page s)" for rs ws hs st bh
proof
  fix p p' :: pmm and k ph assume i: "pmm_inv p" and a: "alloc_pages (kernel_platform rs ws hs st bh) p k = (ph, p')"
  then have a': "palloc_order p k = (ph, p')" by (simp add: kernel_platform_def)
  show "ph = 0 \<and> p' = p \<and> (k = 0 \<longrightarrow> free_set p = {}) \<or>
      ph \<noteq> 0 \<and> (\<exists>q. ph = page_addr q \<and> 2 ^ k dvd q \<and> 0 < q \<and> q + 2 ^ k \<le> unat (pmm_max_page p) \<and> k < MAX_ORDER \<and>
        {q..<q + 2 ^ k} \<subseteq> free_set p \<and> free_set p' = free_set p - {q..<q + 2 ^ k} \<and> pmm_inv p' \<and>
        unat (pmm_max_page p') = unat (pmm_max_page p))"
    using palloc_order_ok [OF i a'] empty_lists [OF i] by (auto simp: alloc_ok_def block_ok_def blk_def pmm_same_config_def)
next
  fix p :: pmm and k q assume i: "pmm_inv p" "2 ^ k dvd q" "0 < q" "q + 2 ^ k \<le> unat (pmm_max_page p)" "k < MAX_ORDER"
    "{q..<q + 2 ^ k} \<inter> free_set p = {}"
  then have "block_ok p (k, q)" "block k q \<inter> free_set p = {}" by (simp_all add: block_ok_def blk_def)
  then show "\<exists>p'. free_pages (kernel_platform rs ws hs st bh) p (page_addr q) k = Some p' \<and> pmm_inv p' \<and>
      unat (pmm_max_page p') = unat (pmm_max_page p) \<and> free_set p' = free_set p \<union> {q..<q + 2 ^ k}"
    using pfree_order_ok [OF i(1), of k q] by (auto simp: kernel_platform_def pmm_same_config_def blk_def)
qed

section \<open>Disks\<close>

text \<open>
  The documented behaviour of a disk handle with \<open>N\<close> sectors: \<^verbatim>\<open>read_sector\<close> stores the 512 bytes of a sector at
  the buffer and \<^verbatim>\<open>write_sector\<close> takes them from there. \<open>content d s\<close> is what sector \<open>s\<close> of the partition holds.
\<close>

definition disk_ok :: "'d disk_handle_t \<Rightarrow> ('d \<Rightarrow> nat \<Rightarrow> u8 list) \<Rightarrow> nat \<Rightarrow> bool" where
  "disk_ok h content N \<longleftrightarrow>
     unat (partition_offset h) + N \<le> 2 ^ 64 \<and> (\<forall>d s. length (content d s) = 512) \<and>
     (\<exists>rs ws. read_sector h = Some rs \<and> write_sector h = Some ws \<and>
       (\<forall>s<N. \<forall>a d m. \<exists>d'. rs (partition_offset h + of_nat s) a (d, m) = (0, d', put_list m a (content d s)) \<and> content d' = content d) \<and>
       (\<forall>s<N. \<forall>a d m. \<exists>d'. ws (partition_offset h + of_nat s) a (d, m) = (0, d', m) \<and>
          content d' = (content d)(s := bytes_at m a 512)))"

lemma put_list_append: "put_list m a (xs @ ys) = put_list (put_list m a xs) (a + of_nat (length xs)) ys"
  by (induction xs arbitrary: m a) (simp_all add: add.assoc)

definition sectors_of :: "(nat \<Rightarrow> u8 list) \<Rightarrow> nat \<Rightarrow> nat \<Rightarrow> u8 list" where
  "sectors_of c s n = concat (map c [s..<s + n])"

lemma length_sectors_of: "(\<And>i. length (c i) = 512) \<Longrightarrow> length (sectors_of c s n) = 512 * n"
  by (induction n) (simp_all add: sectors_of_def)

lemma sectors_of_Suc: "sectors_of c s (Suc n) = c s @ sectors_of c (Suc s) n"
  by (simp add: sectors_of_def upt_conv_Cons del: upt_Suc)

lemma sectors_of_1 [simp]: "sectors_of c s (Suc 0) = c s"
  by (simp add: sectors_of_def)

lemma nth_sectors_of:
  assumes "\<And>i. length (c i) = 512" "k < 512 * n"
  shows "sectors_of c s n ! k = c (s + k div 512) ! (k mod 512)"
  using assms(2)
proof (induction n arbitrary: s k)
  case (Suc n)
  show ?case
  proof (cases "k < 512")
    case False
    then have "k div 512 = Suc ((k - 512) div 512)" "k mod 512 = (k - 512) mod 512" by (auto simp: le_div_geq le_mod_geq)
    then show ?thesis using False Suc.prems Suc.IH [of "k - 512" "Suc s"] by (simp add: sectors_of_Suc nth_append assms(1))
  qed (simp add: sectors_of_Suc nth_append assms(1))
qed simp

lemma transfer_read:
  assumes rs: "\<And>s a d m. s < N \<Longrightarrow> \<exists>d'. rs (off + of_nat s) a (d, m) = (0, d', put_list m a (content d s)) \<and> content d' = content d"
    and len: "\<And>d s. length (content d s) = 512"
  shows "s + n \<le> N \<Longrightarrow> \<exists>d. transfer rs (off + of_nat s) buf n w =
    (0, w\<lparr>drives := d, ram := put_list (ram w) buf (sectors_of (content (drives w)) s n)\<rparr>) \<and> content d = content (drives w)"
proof (induction n arbitrary: s buf w)
  case 0
  then show ?case by (intro exI [of _ "drives w"]) (simp add: sectors_of_def)
next
  case (Suc n)
  then obtain d' where d': "rs (off + of_nat s) buf (drives w, ram w) = (0, d', put_list (ram w) buf (content (drives w) s))"
    "content d' = content (drives w)" using rs [of s buf "drives w" "ram w"] by auto
  define w1 where "w1 = w\<lparr>drives := d', ram := put_list (ram w) buf (content (drives w) s)\<rparr>"
  obtain d where "transfer rs (off + of_nat (Suc s)) (buf + 512) n w1 =
      (0, w1\<lparr>drives := d, ram := put_list (ram w1) (buf + 512) (sectors_of (content (drives w1)) (Suc s) n)\<rparr>)"
    "content d = content (drives w1)"
    using Suc.IH [of "Suc s" "buf + 512" w1] Suc.prems by auto
  then show ?case using d' len [of "drives w" s]
    by (intro exI [of _ d]) (simp add: w1_def on_hw_def sectors_of_Suc put_list_append algebra_simps)
qed

text \<open>The sectors after a transfer of the bytes \<open>bs\<close>.\<close>

definition write_at :: "(nat \<Rightarrow> u8 list) \<Rightarrow> nat \<Rightarrow> u8 list \<Rightarrow> nat \<Rightarrow> u8 list" where
  "write_at c s bs i = (if s \<le> i \<and> 512 * (i - s) < length bs then take 512 (drop (512 * (i - s)) bs) else c i)"

lemma write_at_1: "length bs = 512 \<Longrightarrow> write_at c s bs = c(s := bs)"
  by (auto simp: write_at_def fun_eq_iff)

lemma write_at_other: "i < s \<or> s + n \<le> i \<Longrightarrow> length bs = 512 * n \<Longrightarrow> write_at c s bs i = c i"
  by (auto simp: write_at_def)

lemma transfer_write:
  assumes ws: "\<And>s a d m. s < N \<Longrightarrow> \<exists>d'. ws (off + of_nat s) a (d, m) = (0, d', m) \<and> content d' = (content d)(s := bytes_at m a 512)"
  shows "s + n \<le> N \<Longrightarrow> \<exists>d. transfer ws (off + of_nat s) buf n w = (0, w\<lparr>drives := d\<rparr>) \<and>
    content d = write_at (content (drives w)) s (bytes_at (ram w) buf (512 * n))"
proof (induction n arbitrary: s buf w)
  case 0
  then show ?case by (intro exI [of _ "drives w"]) (simp add: write_at_def fun_eq_iff)
next
  case (Suc n)
  then obtain d' where d': "ws (off + of_nat s) buf (drives w, ram w) = (0, d', ram w)"
    "content d' = (content (drives w))(s := bytes_at (ram w) buf 512)" using ws [of s buf "drives w" "ram w"] by auto
  obtain d where d: "transfer ws (off + of_nat (Suc s)) (buf + 512) n (w\<lparr>drives := d'\<rparr>) = (0, w\<lparr>drives := d\<rparr>)"
    "content d = write_at (content d') (Suc s) (bytes_at (ram w) (buf + 512) (512 * n))"
    using Suc.IH [of "Suc s" "buf + 512" "w\<lparr>drives := d'\<rparr>"] Suc.prems by auto
  have "write_at (content d') (Suc s) (bytes_at (ram w) (buf + 512) (512 * n)) i =
      write_at (content (drives w)) s (bytes_at (ram w) buf (512 * Suc n)) i" for i
  proof -
    consider "i < s" | "i = s" | j where "i = Suc s + j" by (metis less_imp_Suc_add linorder_neqE_nat add_Suc)
    then show ?thesis
    proof cases
      case 3
      have "drop (512 + 512 * j) (bytes_at (ram w) buf (512 * Suc n)) = drop (512 * j) (bytes_at (ram w) (buf + 512) (512 * n))"
        by (rule nth_equalityI) (simp_all add: algebra_simps)
      then show ?thesis using 3 d'(2) by (simp add: write_at_def)
    next
      case 2
      have "take 512 (bytes_at (ram w) buf (512 * Suc n)) = bytes_at (ram w) buf 512" by (rule nth_equalityI) simp_all
      then show ?thesis using 2 d'(2) by (simp add: write_at_def)
    qed (simp add: write_at_def d'(2))
  qed
  then show ?case using d d'(1) by (intro exI [of _ d]) (simp add: on_hw_def algebra_simps fun_eq_iff)
qed

lemma read_sectors_ok:
  assumes "device \<noteq> 0" "disk_ok (handles E device) content N" "unat sector + unat count \<le> N"
  shows "\<exists>d. exfat_read_sectors E device sector count buf w =
    Some (0, w\<lparr>drives := d, ram := put_list (ram w) buf (sectors_of (content (drives w)) (unat sector) (unat count))\<rparr>) \<and>
    content d = content (drives w)"
proof -
  let ?h = "handles E device"
  obtain rs where "read_sector ?h = Some rs" "\<And>d s. length (content d s) = 512"
    "\<And>s a d m. s < N \<Longrightarrow> \<exists>d'. rs (partition_offset ?h + of_nat s) a (d, m) = (0, d', put_list m a (content d s)) \<and> content d' = content d"
    using assms(2) unfolding disk_ok_def by blast
  then show ?thesis using transfer_read [of N rs "partition_offset ?h" content "unat sector" "unat count" buf w] assms(1,3)
    by (simp add: exfat_read_sectors_def disk_read_callback_def)
qed

lemma write_sectors_ok:
  assumes "device \<noteq> 0" "disk_ok (handles E device) content N" "unat sector + unat count \<le> N"
  shows "\<exists>d. exfat_write_sectors E device sector count buf w = Some (0, w\<lparr>drives := d\<rparr>) \<and>
    content d = write_at (content (drives w)) (unat sector) (bytes_at (ram w) buf (512 * unat count))"
proof -
  let ?h = "handles E device"
  obtain ws where "write_sector ?h = Some ws"
    "\<And>s a d m. s < N \<Longrightarrow> \<exists>d'. ws (partition_offset ?h + of_nat s) a (d, m) = (0, d', m) \<and> content d' = (content d)(s := bytes_at m a 512)"
    using assms(2) unfolding disk_ok_def by blast
  then show ?thesis using transfer_write [of N ws "partition_offset ?h" content "unat sector" "unat count" buf w] assms(1,3)
    by (simp add: exfat_write_sectors_def disk_write_callback_def)
qed

end
