(* ===== verification/Exfat_Correct.thy ===== *)
theory Exfat_Correct
  imports Exfat_Disk
begin

text \<open>
  The exFAT driver on a volume: the allocation table, chains of clusters, directory entries and the allocation
  bitmap as functions of the sectors, and the proofs that the operations of the driver compute and update them.
\<close>

section \<open>The layout of a volume\<close>

text \<open>A volume with sectors of 512 bytes on a disk of \<open>N\<close> sectors: the table comes before the clusters and covers them all.\<close>

definition fs_ok :: "exfat_fs_t \<Rightarrow> nat \<Rightarrow> bool" where
  "fs_ok fs N \<longleftrightarrow>
     bytes_per_sector fs = 512 \<and> bytes_per_cluster fs = 512 * sectors_per_cluster fs \<and>
     0 < unat (sectors_per_cluster fs) \<and> 512 * unat (sectors_per_cluster fs) < 2 ^ 32 \<and>
     unat (fat_offset fs) + unat (fat_length fs) \<le> unat (cluster_heap_offset fs) \<and>
     (unat (cluster_count fs) + 2) * 4 \<le> unat (fat_length fs) * 512 \<and> unat (cluster_count fs) + 2 < 2 ^ 32 - 1 \<and>
     unat (cluster_heap_offset fs) + unat (cluster_count fs) * unat (sectors_per_cluster fs) \<le> N"

definition valid_cluster :: "exfat_fs_t \<Rightarrow> u32 \<Rightarrow> bool" where
  "valid_cluster fs c \<longleftrightarrow> 2 \<le> unat c \<and> unat c < unat (cluster_count fs) + 2"

definition le32 :: "u8 list \<Rightarrow> nat \<Rightarrow> u32" where
  "le32 bs k = ucast (bs ! k) OR push_bit 8 (ucast (bs ! (k + 1))) OR push_bit 16 (ucast (bs ! (k + 2))) OR
     push_bit 24 (ucast (bs ! (k + 3)))"

definition fat_at :: "exfat_fs_t \<Rightarrow> u32 \<Rightarrow> nat" where
  "fat_at fs c = unat (fat_offset fs) + unat c * 4 div 512"

definition fat_word :: "(nat \<Rightarrow> u8 list) \<Rightarrow> exfat_fs_t \<Rightarrow> u32 \<Rightarrow> u32" where
  "fat_word c fs clus = le32 (c (fat_at fs clus)) (unat clus * 4 mod 512)"

definition first_sector :: "exfat_fs_t \<Rightarrow> u32 \<Rightarrow> nat" where
  "first_sector fs c = unat (cluster_heap_offset fs) + (unat c - 2) * unat (sectors_per_cluster fs)"

lemma unat_plus_u32: "unat x + unat y < 2 ^ 32 \<Longrightarrow> unat (x + y) = unat x + unat y" for x y :: u32
  by (simp add: unat_word_ariths)

lemma unat_u32: "unat (x :: u32) < 2 ^ 32"
  using unsigned_less [of x] by simp

lemma unat_up [simp]: "unat (ucast (x :: u32) :: u64) = unat x"
proof -
  have "unat x < 2 ^ 64" using unat_u32 [of x] by simp
  then show ?thesis by (simp add: unsigned_ucast_eq take_bit_nat_eq_self)
qed

lemma unat_down: "unat x < 2 ^ 32 \<Longrightarrow> unat (ucast (x :: u64) :: u32) = unat x"
  by (simp add: unsigned_ucast_eq take_bit_nat_eq_self)

lemma eoc_le: "EXFAT_FAT_EOC \<le> x \<longleftrightarrow> x = EXFAT_FAT_EOC"
  using unat_u32 [of x] by (simp add: word_le_nat_alt word_unat_eq_iff) linarith

lemma fs_okD:
  assumes "fs_ok fs N"
  shows "bytes_per_sector fs = 512" "bytes_per_cluster fs = 512 * sectors_per_cluster fs"
    "unat (bytes_per_cluster fs) = 512 * unat (sectors_per_cluster fs)"
    "0 < unat (sectors_per_cluster fs)" "512 * unat (sectors_per_cluster fs) < 2 ^ 32"
    "unat (fat_offset fs) + unat (fat_length fs) \<le> unat (cluster_heap_offset fs)"
    "(unat (cluster_count fs) + 2) * 4 \<le> unat (fat_length fs) * 512" "unat (cluster_count fs) + 2 < 2 ^ 32 - 1"
    "unat (cluster_heap_offset fs) + unat (cluster_count fs) * unat (sectors_per_cluster fs) \<le> N"
proof -
  have "512 * unat (sectors_per_cluster fs) < 2 ^ 32" using assms by (simp add: fs_ok_def)
  then show "unat (bytes_per_cluster fs) = 512 * unat (sectors_per_cluster fs)"
    using assms by (simp add: fs_ok_def unat_word_ariths)
qed (use assms in \<open>simp_all add: fs_ok_def\<close>)

lemma fat_position:
  assumes "fs_ok fs N" "valid_cluster fs c"
  shows "unat (fat_sector_of (fat_offset fs) (bytes_per_sector fs) c) = fat_at fs c"
    "fat_byte_of (bytes_per_sector fs) c = of_nat (unat c * 4 mod 512)"
    "fat_at fs c < unat (cluster_heap_offset fs)" "fat_at fs c < N" "unat c * 4 mod 512 + 4 \<le> 512"
proof -
  note d = fs_okD [OF assms(1)]
  have "unat c * 4 < unat (fat_length fs) * 512" using assms(2) d(7) by (simp add: valid_cluster_def)
  then have "unat c * 4 div 512 < unat (fat_length fs)" by (simp add: less_mult_imp_div_less)
  then show l: "fat_at fs c < unat (cluster_heap_offset fs)" using d(6) by (simp add: fat_at_def)
  then show "fat_at fs c < N" using d(9) by simp
  have c4: "unat (ucast c * 4 :: u64) = unat c * 4"
    using unat_u32 [of c] by (subst unat_mult_u64) simp_all
  have "unat (fat_offset fs) + unat c * 4 div 512 < 2 ^ 64" using l unat_u32 [of "cluster_heap_offset fs"] by (simp add: fat_at_def)
  then show "unat (fat_sector_of (fat_offset fs) (bytes_per_sector fs) c) = fat_at fs c"
    using d(1) c4 by (simp add: fat_sector_of_def fat_at_def unat_plus_u64 unat_div)
  have e: "(ucast (512 :: u32) :: u64) = 512" by simp
  have m: "unat (ucast c * 4 mod 512 :: u64) = unat c * 4 mod 512" using c4 by (simp add: unat_mod)
  have "unat (ucast (ucast c * 4 mod 512 :: u64) :: u32) = unat c * 4 mod 512"
    unfolding m [symmetric] by (rule unat_down) (simp add: m order.strict_trans [OF mod_less_divisor])
  then show "fat_byte_of (bytes_per_sector fs) c = of_nat (unat c * 4 mod 512)"
    unfolding fat_byte_of_def d(1) e by (intro of_nat_of_unat) (simp only: unat_up)
  have "unat c * 4 mod (128 * 4) = unat c mod 128 * 4" by (rule mod_mult_mult2)
  moreover have "unat c mod 128 < 128" by simp
  ultimately show "unat c * 4 mod 512 + 4 \<le> 512" by simp
qed

section \<open>Buffers\<close>

lemma load32_put_list:
  assumes "k + 4 \<le> length bs" "length bs \<le> 2 ^ 64"
  shows "load32 (put_list m a bs) (a + of_nat k) = le32 bs k"
proof -
  have "put_list m a bs (a + of_nat k + of_nat j) = bs ! (k + j)" if "j < 4" for j
    using put_list_in [of "k + j" bs m a] assms that by (simp add: add.assoc)
  from this [of 0] this [of 1] this [of 2] this [of 3] show ?thesis by (simp add: load32_def le32_def)
qed

lemma byte_of_up: "(ucast (drop_bit n (ucast v :: u64)) :: u8) = ucast (drop_bit n v)" for v :: u32
  by (rule bit_eqI) (auto simp: bit_unsigned_iff bit_drop_bit_eq possible_bit_word dest: bit_imp_le_length)

lemma store32_put_list: "store32 m a v = put_list m a (le_bytes 4 (ucast v))"
proof -
  have "[0..<4] = [0, 1, 2, 3]" by (simp add: upt_conv_Cons)
  then show ?thesis by (simp add: store32_def le_bytes_def byte_of_up add.assoc)
qed

lemma length_le_bytes [simp]: "length (le_bytes n v) = n"
  by (simp add: le_bytes_def)

lemma le32_bytes: "le32 (le_bytes 4 (ucast v)) 0 = v"
proof -
  have "le_bytes 4 (ucast v :: u64) ! i = ucast (drop_bit (8 * i) v)" if "i < 4" for i
    using that by (simp add: le_bytes_def byte_of_up)
  then have e: "le32 (le_bytes 4 (ucast v)) 0 = ucast (ucast v :: u8) OR push_bit 8 (ucast (ucast (drop_bit 8 v) :: u8)) OR
      push_bit 16 (ucast (ucast (drop_bit 16 v) :: u8)) OR push_bit 24 (ucast (ucast (drop_bit 24 v) :: u8))"
    by (simp add: le32_def)
  show ?thesis unfolding e
  proof (rule bit_eqI)
    fix n assume "possible_bit TYPE(u32) n"
    then have "n < 32" by (simp add: possible_bit_word)
    then consider "n < 8" | "8 \<le> n" "n < 16" | "16 \<le> n" "n < 24" | "24 \<le> n" "n < 32" by linarith
    then show "bit (ucast (ucast v :: u8) OR push_bit 8 (ucast (ucast (drop_bit 8 v) :: u8)) OR
        push_bit 16 (ucast (ucast (drop_bit 16 v) :: u8)) OR push_bit 24 (ucast (ucast (drop_bit 24 v) :: u8)) :: u32) n = bit v n"
      by cases (auto simp: bit_or_iff bit_push_bit_iff bit_unsigned_iff bit_drop_bit_eq possible_bit_word)
  qed
qed

lemma diff_shift: "a - (q + h) = y + r \<Longrightarrow> a - ((q + y) + h) = r" for a :: u64
  by (simp add: algebra_simps)

text \<open>A buffer in free pages is written: everything else stays.\<close>

lemma buffer_frame:
  assumes "{q..<q + 2 ^ k} \<subseteq> X" "length bs \<le> 4096 * 2 ^ k" "length bs \<le> 2 ^ 64" "\<not> in_pages h X a"
  shows "put_list m (page_addr q + h) bs a = m a"
proof -
  have "\<not> unat (a - (page_addr q + h)) < length bs"
  proof
    let ?x = "unat (a - (page_addr q + h))"
    assume x: "?x < length bs"
    define p where "p = q + ?x div 4096"
    have "?x div 4096 < 2 ^ k" using x assms(2) by (simp add: less_mult_imp_div_less)
    then have "p \<in> X" using assms(1) by (auto simp: p_def)
    moreover have "a - (page_addr p + h) = of_nat (?x mod 4096)"
    proof -
      have "of_nat (?x div 4096 * 4096 + ?x mod 4096) = a - (page_addr q + h)" by simp
      then have "a - (page_addr q + h) = of_nat (?x div 4096) * 4096 + of_nat (?x mod 4096)"
        unfolding of_nat_add of_nat_mult of_nat_numeral by (rule sym)
      moreover have "page_addr p = page_addr q + of_nat (?x div 4096) * 4096" by (simp add: page_addr_def p_def algebra_simps)
      ultimately show ?thesis using diff_shift by metis
    qed
    then have "unat (a - (page_addr p + h)) < 4096" by (simp add: unat_of_nat_u64 order.strict_trans [OF mod_less_divisor])
    ultimately show False using assms(4) by (auto simp: in_pages_def)
  qed
  then show ?thesis using assms(3) by (simp add: put_list_eq)
qed

section \<open>Reading and changing a sector\<close>

definition volume :: "('d, 'p) platform \<Rightarrow> exfat_fs_t \<Rightarrow> ('d \<Rightarrow> nat \<Rightarrow> u8 list) \<Rightarrow> nat \<Rightarrow> bool" where
  "volume E fs content N \<longleftrightarrow> fs_device fs \<noteq> 0 \<and> disk_ok (handles E (fs_device fs)) content N \<and> fs_ok fs N"

lemma disk_length: "disk_ok h content N \<Longrightarrow> length (content d s) = 512"
  by (simp add: disk_ok_def)

context page_pool
begin

definition ready :: "('d, 'p) world \<Rightarrow> bool" where
  "ready w \<longleftrightarrow> pinv (pool w) \<and> idle (pool w) \<noteq> {}"

lemma ready_kept: "ready w \<Longrightarrow> kp w w' \<Longrightarrow> ready w'"
  by (simp add: ready_def kept_def)

lemma read_one:
  assumes dv: "device \<noteq> 0" "disk_ok (handles E device) content N" and r: "ready w" and s: "unat sec < N"
    and g: "\<And>m buf. g (put_list m buf (content (drives w) (unat sec))) buf = v"
  shows "\<exists>w'. with_pages E 0 e (\<lambda>buf w. do { (r, w) \<leftarrow> exfat_read_sectors E device sec 1 buf w;
      Some (if r \<noteq> 0 then e' else g (ram w) buf, w) }) w = Some (v, w') \<and> content (drives w') = content (drives w) \<and> kp w w'"
proof -
  let ?f = "\<lambda>buf w. do { (r, w) \<leftarrow> exfat_read_sectors E device sec 1 buf w; Some (if r \<noteq> 0 then e' else g (ram w) buf, w) }"
  have "\<exists>r w' p. with_pages E 0 e ?f w = Some (r, w'\<lparr>pool := p\<rparr>) \<and> (r = v \<and> content (drives w') = content (drives w)) \<and>
      kp w (w'\<lparr>pool := p\<rparr>)"
  proof (rule with_pages_rule)
    fix q p assume q: "{q..<q + 2 ^ 0} \<subseteq> idle (pool w)" and p: "pinv p"
    let ?buf = "page_addr q + w_hhdm w"
    obtain d where d: "exfat_read_sectors E device sec 1 ?buf (w\<lparr>pool := p\<rparr>) =
        Some (0, w\<lparr>pool := p, drives := d, ram := put_list (ram w) ?buf (content (drives w) (unat sec))\<rparr>)"
      "content d = content (drives w)"
      using read_sectors_ok [OF dv, of sec 1 ?buf "w\<lparr>pool := p\<rparr>"] s by auto
    then show "\<exists>r w'. ?f ?buf (w\<lparr>pool := p\<rparr>) = Some (r, w') \<and> (r = v \<and> content (drives w') = content (drives w)) \<and>
        pinv (pool w') \<and> idle (pool w') = idle p \<and> npages (pool w') = npages p \<and> w_hhdm w' = w_hhdm w \<and>
        g_sata_port w' = g_sata_port w \<and> (\<forall>a. \<not> in_pages (w_hhdm w) (idle (pool w)) a \<longrightarrow> ram w' a = ram w a)"
      using g p buffer_frame [OF q, of "content (drives w) (unat sec)"] disk_length [OF dv(2)] by simp
  qed (use r page_available in \<open>auto simp: ready_def\<close>)
  then show ?thesis by force
qed

lemma change_one:
  assumes dv: "device \<noteq> 0" "disk_ok (handles E device) content N" and r: "ready w" and s: "unat sec < N"
    and h: "\<And>m buf. h (put_list m buf (content (drives w) (unat sec))) buf =
      put_list (put_list m buf (content (drives w) (unat sec))) (buf + of_nat k) bs" and k: "k + length bs \<le> 512"
  shows "\<exists>w'. with_pages E 0 e (\<lambda>buf w. do { (r, w) \<leftarrow> exfat_read_sectors E device sec 1 buf w;
      if r \<noteq> 0 then Some (- 1, w) else let w = w\<lparr>ram := h (ram w) buf\<rparr> in exfat_write_sectors E device sec 1 buf w }) w =
      Some (0, w') \<and> content (drives w') = (content (drives w))(unat sec := patch (content (drives w) (unat sec)) k bs) \<and> kp w w'"
proof -
  let ?f = "\<lambda>buf w. do { (r, w) \<leftarrow> exfat_read_sectors E device sec 1 buf w;
      if r \<noteq> 0 then Some (- 1, w) else let w = w\<lparr>ram := h (ram w) buf\<rparr> in exfat_write_sectors E device sec 1 buf w }"
  let ?old = "content (drives w) (unat sec)"
  let ?new = "(content (drives w))(unat sec := patch ?old k bs)"
  have len: "length ?old = 512" using disk_length [OF dv(2)] .
  have "\<exists>r w' p. with_pages E 0 e ?f w = Some (r, w'\<lparr>pool := p\<rparr>) \<and> (r = 0 \<and> content (drives w') = ?new) \<and> kp w (w'\<lparr>pool := p\<rparr>)"
  proof (rule with_pages_rule)
    fix q p assume q: "{q..<q + 2 ^ 0} \<subseteq> idle (pool w)" and p: "pinv p"
    let ?buf = "page_addr q + w_hhdm w"
    let ?m = "put_list (put_list (ram w) ?buf ?old) (?buf + of_nat k) bs"
    obtain d where d: "exfat_read_sectors E device sec 1 ?buf (w\<lparr>pool := p\<rparr>) =
        Some (0, w\<lparr>pool := p, drives := d, ram := put_list (ram w) ?buf ?old\<rparr>)" "content d = content (drives w)"
      using read_sectors_ok [OF dv, of sec 1 ?buf "w\<lparr>pool := p\<rparr>"] s by auto
    have pl: "length (patch ?old k bs) = 512" using len k by simp
    have m: "?m = put_list (ram w) ?buf (patch ?old k bs)" using k len by (intro put_list_patch) simp_all
    have b: "bytes_at ?m ?buf 512 = patch ?old k bs"
      unfolding m using bytes_at_put_list [of 0 512 "patch ?old k bs" "ram w" ?buf] pl by simp
    obtain d' where d': "exfat_write_sectors E device sec 1 ?buf (w\<lparr>pool := p, drives := d, ram := ?m\<rparr>) =
        Some (0, w\<lparr>pool := p, ram := ?m, drives := d'\<rparr>)" "content d' = ?new"
      using write_sectors_ok [OF dv, of sec 1 ?buf "w\<lparr>pool := p, drives := d, ram := ?m\<rparr>"] s b d(2) write_at_1 [OF pl] by auto
    have "ram w a = ?m a" if "\<not> in_pages (w_hhdm w) (idle (pool w)) a" for a
      unfolding m using buffer_frame [OF q, of "patch ?old k bs"] pl that by simp
    then show "\<exists>r w'. ?f ?buf (w\<lparr>pool := p\<rparr>) = Some (r, w') \<and> (r = 0 \<and> content (drives w') = ?new) \<and>
        pinv (pool w') \<and> idle (pool w') = idle p \<and> npages (pool w') = npages p \<and> w_hhdm w' = w_hhdm w \<and>
        g_sata_port w' = g_sata_port w \<and> (\<forall>a. \<not> in_pages (w_hhdm w) (idle (pool w)) a \<longrightarrow> ram w' a = ram w a)"
      using d d' p h by simp
  qed (use r page_available in \<open>auto simp: ready_def\<close>)
  then show ?thesis by force
qed

lemma get_fat_entry_ok:
  assumes "volume E fs content N" "ready w" "valid_cluster fs c"
  shows "\<exists>w'. exfat_get_fat_entry E fs c w = Some (fat_word (content (drives w)) fs c, w') \<and>
    content (drives w') = content (drives w) \<and> kp w w'"
proof -
  have v: "fs_device fs \<noteq> 0" "disk_ok (handles E (fs_device fs)) content N" "fs_ok fs N" using assms(1) by (simp_all add: volume_def)
  note f = fat_position [OF v(3) assms(3)]
  have "load32 (put_list m buf (content (drives w) (fat_at fs c))) (buf + fat_byte_of (bytes_per_sector fs) c) =
      fat_word (content (drives w)) fs c" for m buf
    unfolding f(2) fat_word_def by (rule load32_put_list) (use f(5) disk_length [OF v(2)] in simp_all)
  then show ?thesis unfolding exfat_get_fat_entry_def using f(4) by (intro read_one [OF v(1,2) assms(2)]) (simp_all add: f(1))
qed

lemma set_fat_entry_ok:
  assumes "volume E fs content N" "ready w" "valid_cluster fs c"
  shows "\<exists>w'. exfat_set_fat_entry E fs c x w = Some (0, w') \<and> kp w w' \<and>
    content (drives w') = (content (drives w))
      (fat_at fs c := patch (content (drives w) (fat_at fs c)) (unat c * 4 mod 512) (le_bytes 4 (ucast x)))"
proof -
  have v: "fs_device fs \<noteq> 0" "disk_ok (handles E (fs_device fs)) content N" "fs_ok fs N" using assms(1) by (simp_all add: volume_def)
  note f = fat_position [OF v(3) assms(3)]
  let ?sec = "fat_sector_of (fat_offset fs) (bytes_per_sector fs) c"
  have "\<exists>w'. exfat_set_fat_entry E fs c x w = Some (0, w') \<and> content (drives w') = (content (drives w))
      (unat ?sec := patch (content (drives w) (unat ?sec)) (unat c * 4 mod 512) (le_bytes 4 (ucast x))) \<and> kp w w'"
    unfolding exfat_set_fat_entry_def Let_def f(2)
    by (rule change_one [OF v(1,2) assms(2), unfolded Let_def]) (use f in \<open>simp_all add: store32_put_list\<close>)
  then show ?thesis unfolding f(1) by blast
qed

end

section \<open>Directories\<close>

text \<open>Where entry \<open>i\<close> of a directory is: its cluster and the index in it. A chain must stay in the volume.\<close>

function dir_slot :: "(nat \<Rightarrow> u8 list) \<Rightarrow> exfat_fs_t \<Rightarrow> bool \<Rightarrow> u32 \<Rightarrow> nat \<Rightarrow> (u32 \<times> nat) option" where
  "dir_slot c fs contiguous clus i =
     (let epc = 16 * unat (sectors_per_cluster fs)
      in if 0 < epc \<and> epc \<le> i then
           if contiguous then dir_slot c fs contiguous (clus + 1) (i - epc)
           else if valid_cluster fs clus \<and> fat_word c fs clus \<noteq> EXFAT_FAT_EOC
           then dir_slot c fs contiguous (fat_word c fs clus) (i - epc)
           else None
         else if valid_cluster fs clus then Some (clus, i) else None)"
  by pat_completeness auto
termination
  by (relation "measure (\<lambda>(c, fs, contiguous, clus, i). i)") auto

declare dir_slot.simps [simp del]

definition slot_sector :: "exfat_fs_t \<Rightarrow> u32 \<times> nat \<Rightarrow> nat" where
  "slot_sector fs p = first_sector fs (fst p) + snd p * 32 div 512"

definition slot_byte :: "u32 \<times> nat \<Rightarrow> nat" where
  "slot_byte p = snd p * 32 mod 512"

definition slot_entry :: "(nat \<Rightarrow> u8 list) \<Rightarrow> exfat_fs_t \<Rightarrow> u32 \<times> nat \<Rightarrow> exfat_dentry_t" where
  "slot_entry c fs p = take 32 (drop (slot_byte p) (c (slot_sector fs p)))"

lemma dir_slot_valid:
  "fs_ok fs N \<Longrightarrow> dir_slot c fs contiguous clus i = Some p \<Longrightarrow>
    valid_cluster fs (fst p) \<and> snd p < 16 * unat (sectors_per_cluster fs)"
proof (induction c fs contiguous clus i rule: dir_slot.induct)
  case (1 c fs contiguous clus i)
  then show ?case using fs_okD(4) [of fs N]
    by (simp add: dir_slot.simps [of c fs contiguous clus i] Let_def split: if_splits) auto
qed

lemma slot_position:
  assumes "fs_ok fs N" "valid_cluster fs clus" "i < 16 * unat (sectors_per_cluster fs)"
  shows "unat (entry_sector fs clus (of_nat i)) = slot_sector fs (clus, i)" "entry_byte fs (of_nat i) = of_nat (slot_byte (clus, i))"
    "slot_sector fs (clus, i) < N" "unat (cluster_heap_offset fs) \<le> slot_sector fs (clus, i)" "slot_byte (clus, i) + 32 \<le> 512"
proof -
  note d = fs_okD [OF assms(1)]
  let ?spc = "unat (sectors_per_cluster fs)" and ?h = "unat (cluster_heap_offset fs)"
  have i: "unat (of_nat i :: u32) = i" using assms(3) d(5) by (simp add: unat_of_nat take_bit_nat_eq_self)
  then have i32: "unat (of_nat i * 32 :: u32) = i * 32" using assms(3) d(5) by (simp add: unat_word_ariths)
  have "Suc (unat clus - 2) \<le> unat (cluster_count fs)" using assms(2) unfolding valid_cluster_def by linarith
  then have "Suc (unat clus - 2) * ?spc \<le> unat (cluster_count fs) * ?spc" by (rule mult_le_mono1)
  then have "(unat clus - 2) * ?spc + ?spc \<le> unat (cluster_count fs) * ?spc" by simp
  moreover have "i * 32 div 512 < ?spc" using assms(3) by (simp add: less_mult_imp_div_less)
  ultimately show n: "slot_sector fs (clus, i) < N" using d(9) by (simp add: slot_sector_def first_sector_def)
  show "?h \<le> slot_sector fs (clus, i)" by (simp add: slot_sector_def first_sector_def)
  have "i * 32 mod (16 * 32) = i mod 16 * 32" by (rule mod_mult_mult2)
  moreover have "i mod 16 < 16" by simp
  ultimately show b: "slot_byte (clus, i) + 32 \<le> 512" by (simp add: slot_byte_def)
  have "unat (of_nat i * 32 mod 512 :: u32) = i * 32 mod 512" using i32 by (simp add: unat_mod)
  then show "entry_byte fs (of_nat i) = of_nat (slot_byte (clus, i))"
    unfolding entry_byte_def d(1) slot_byte_def by (intro of_nat_of_unat) (simp only: unat_up, simp)
  have lt: "(unat clus - 2) * ?spc < 2 ^ 32 * 2 ^ 23" using unat_u32 [of clus] d(5) by (intro mult_strict_mono') simp_all
  have "\<not> clus < 2" using assms(2) by (simp add: valid_cluster_def word_less_nat_alt)
  moreover have "unat (clus - 2) = unat clus - 2" using assms(2) by (simp add: valid_cluster_def unat_sub word_le_nat_alt)
  then have "unat (ucast (clus - 2) * ucast (sectors_per_cluster fs) :: u64) = (unat clus - 2) * ?spc"
    using lt by (subst unat_mult_u64) simp_all
  moreover have "unat (of_nat i * 32 div 512 :: u32) = i * 32 div 512" using i32 by (simp add: unat_div)
  moreover have "i * 32 div 512 < 2 ^ 23" using \<open>i * 32 div 512 < ?spc\<close> d(5) by simp
  ultimately show "unat (entry_sector fs clus (of_nat i)) = slot_sector fs (clus, i)"
    using lt unat_u32 [of "cluster_heap_offset fs"] d(1)
    by (simp add: entry_sector_def exfat_cluster_to_sector_def slot_sector_def first_sector_def unat_plus_u64)
qed

context page_pool
begin

lemma dir_walk_ok:
  assumes v: "volume E fs content N"
  shows "ready w \<Longrightarrow> dir_slot (content (drives w)) fs contiguous clus (unat i) = Some p \<Longrightarrow>
    \<exists>w'. dir_walk E fs (bytes_per_cluster fs div 32) contiguous clus i w = Some (Some (fst p, of_nat (snd p)), w') \<and>
      content (drives w') = content (drives w) \<and> kp w w'"
proof (induction "unat i" arbitrary: clus i w rule: less_induct)
  case less
  let ?epc = "bytes_per_cluster fs div 32" and ?n = "16 * unat (sectors_per_cluster fs)"
  have d: "fs_ok fs N" using v by (simp add: volume_def)
  have epc: "unat ?epc = ?n" "0 < ?n" using fs_okD(3,4) [OF d] by (simp_all add: unat_div)
  note walk = dir_walk.simps [of E fs ?epc contiguous clus i w]
  note slot = less.prems(2) [unfolded dir_slot.simps [of "content (drives w)" fs contiguous clus "unat i"] Let_def]
  show ?case
  proof (cases "?epc \<le> i")
    case False
    then have "\<not> ?n \<le> unat i" using epc(1) by (simp add: word_le_nat_alt)
    then have "p = (clus, unat i)" using slot by (simp split: if_splits)
    moreover have "kp w w" using less.prems(1) by (simp add: ready_def kept_refl)
    ultimately show ?thesis using walk False by auto
  next
    case True
    then have le: "?n \<le> unat i" "unat (i - ?epc) = unat i - ?n" using epc(1) by (simp_all add: word_le_nat_alt unat_sub)
    then have lt: "unat (i - ?epc) < unat i" using epc(2) by simp
    show ?thesis
    proof (cases contiguous)
      case c: True
      then have "dir_slot (content (drives w)) fs contiguous (clus + 1) (unat (i - ?epc)) = Some p" using slot le epc(2) by simp
      then show ?thesis using less.hyps [OF lt less.prems(1), of "clus + 1"] walk True c by simp
    next
      case c: False
      let ?c = "fat_word (content (drives w)) fs clus"
      have vc: "valid_cluster fs clus" "?c \<noteq> EXFAT_FAT_EOC"
        and s: "dir_slot (content (drives w)) fs contiguous ?c (unat (i - ?epc)) = Some p"
        using slot le epc(2) c by (simp_all split: if_splits)
      obtain w1 where w1: "exfat_get_fat_entry E fs clus w = Some (?c, w1)" "content (drives w1) = content (drives w)" "kp w w1"
        using get_fat_entry_ok [OF v less.prems(1) vc(1)] by blast
      obtain w2 where w2: "dir_walk E fs ?epc contiguous ?c (i - ?epc) w1 = Some (Some (fst p, of_nat (snd p)), w2)"
        "content (drives w2) = content (drives w)" "kp w1 w2"
        using less.hyps [OF lt ready_kept [OF less.prems(1) w1(3)], of ?c] s w1(2) by auto
      have "\<not> EXFAT_FAT_EOC \<le> ?c" using vc(2) by (simp add: eoc_le)
      then show ?thesis using walk True c w1 w2 world_kept_trans [OF w1(3) w2(3)] by simp
    qed
  qed
qed

lemma read_dir_entry_ok:
  assumes v: "volume E fs content N" and r: "ready w" and p: "dir_slot (content (drives w)) fs contiguous clus (unat i) = Some p"
  shows "\<exists>w'. exfat_read_dir_entry E fs clus contiguous i e w = Some ((0, slot_entry (content (drives w)) fs p), w') \<and>
    content (drives w') = content (drives w) \<and> kp w w'"
proof -
  have d: "fs_device fs \<noteq> 0" "disk_ok (handles E (fs_device fs)) content N" "fs_ok fs N" using v by (simp_all add: volume_def)
  obtain w1 where w1: "dir_walk E fs (bytes_per_cluster fs div 32) contiguous clus i w = Some (Some (fst p, of_nat (snd p)), w1)"
    "content (drives w1) = content (drives w)" "kp w w1" using dir_walk_ok [OF v r p] by blast
  have q: "valid_cluster fs (fst p)" "snd p < 16 * unat (sectors_per_cluster fs)" using dir_slot_valid [OF d(3) p] by auto
  note f = slot_position [OF d(3) q, unfolded prod.collapse]
  let ?S = "content (drives w1)" and ?b = "slot_byte p"
  have g: "(0, bytes_at (put_list m buf (?S (slot_sector fs p))) (buf + of_nat ?b) 32) = (0, slot_entry ?S fs p)" for m buf
    unfolding slot_entry_def using f(5) disk_length [OF d(2)] by (simp add: bytes_at_put_list)
  have "\<exists>w2. with_pages E 0 (- 1, e) (\<lambda>buf w. do {
        (r, w) \<leftarrow> exfat_read_sectors E (fs_device fs) (entry_sector fs (fst p) (of_nat (snd p))) 1 buf w;
        Some (if r \<noteq> 0 then (- 1, e) else (0, bytes_at (ram w) (buf + of_nat ?b) 32), w) }) w1 =
      Some ((0, slot_entry ?S fs p), w2) \<and> content (drives w2) = ?S \<and> kp w1 w2"
    by (rule read_one [OF d(1,2) ready_kept [OF r w1(3)]]) (use f(3) g in \<open>simp_all add: f(1)\<close>)
  then obtain w2 where w2: "exfat_read_dir_entry E fs clus contiguous i e w = Some ((0, slot_entry ?S fs p), w2)"
    "content (drives w2) = ?S" "kp w1 w2"
    unfolding exfat_read_dir_entry_def w1(1) bind.bind_lunit option.case prod.case f(2) by blast
  then show ?thesis using w1(2) world_kept_trans [OF w1(3) w2(3)] by auto
qed

lemma write_dir_entry_ok:
  assumes v: "volume E fs content N" and r: "ready w" and p: "dir_slot (content (drives w)) fs contiguous clus (unat i) = Some p"
    and e: "length e = 32"
  shows "\<exists>w'. exfat_write_dir_entry E fs clus contiguous i e w = Some (0, w') \<and> kp w w' \<and>
    content (drives w') = (content (drives w))(slot_sector fs p := patch (content (drives w) (slot_sector fs p)) (slot_byte p) e)"
proof -
  have d: "fs_device fs \<noteq> 0" "disk_ok (handles E (fs_device fs)) content N" "fs_ok fs N" using v by (simp_all add: volume_def)
  obtain w1 where w1: "dir_walk E fs (bytes_per_cluster fs div 32) contiguous clus i w = Some (Some (fst p, of_nat (snd p)), w1)"
    "content (drives w1) = content (drives w)" "kp w w1" using dir_walk_ok [OF v r p] by blast
  have q: "valid_cluster fs (fst p)" "snd p < 16 * unat (sectors_per_cluster fs)" using dir_slot_valid [OF d(3) p] by auto
  note f = slot_position [OF d(3) q, unfolded prod.collapse]
  let ?S = "content (drives w1)" and ?b = "slot_byte p" and ?sec = "entry_sector fs (fst p) (of_nat (snd p))"
  have "\<exists>w2. with_pages E 0 (- 1) (\<lambda>buf w. do { (r, w) \<leftarrow> exfat_read_sectors E (fs_device fs) ?sec 1 buf w;
        if r \<noteq> 0 then Some (- 1, w)
        else let w = w\<lparr>ram := put_list (ram w) (buf + of_nat ?b) e\<rparr> in exfat_write_sectors E (fs_device fs) ?sec 1 buf w }) w1 =
      Some (0, w2) \<and> content (drives w2) = ?S(unat ?sec := patch (?S (unat ?sec)) ?b e) \<and> kp w1 w2"
    by (rule change_one [OF d(1,2) ready_kept [OF r w1(3)]]) (use f e in simp_all)
  then obtain w2 where w2: "exfat_write_dir_entry E fs clus contiguous i e w = Some (0, w2)"
    "content (drives w2) = ?S(unat ?sec := patch (?S (unat ?sec)) ?b e)" "kp w1 w2"
    unfolding exfat_write_dir_entry_def w1(1) bind.bind_lunit option.case prod.case f(2) by blast
  then show ?thesis using w1(2) world_kept_trans [OF w1(3) w2(3)] by (auto simp: f(1))
qed

end

lemma fat_word_cong:
  assumes "fs_ok fs N" "valid_cluster fs clus" "\<And>s. s < unat (cluster_heap_offset fs) \<Longrightarrow> c' s = c s"
  shows "fat_word c' fs clus = fat_word c fs clus"
  using fat_position(3) [OF assms(1,2)] assms(3) by (simp add: fat_word_def)

lemma dir_slot_cong:
  "fs_ok fs N \<Longrightarrow> (\<And>s. s < unat (cluster_heap_offset fs) \<Longrightarrow> c' s = c s) \<Longrightarrow>
    dir_slot c' fs contiguous clus i = dir_slot c fs contiguous clus i"
proof (induction c fs contiguous clus i rule: dir_slot.induct)
  case (1 c fs contiguous clus i)
  have f: "valid_cluster fs clus \<Longrightarrow> fat_word c' fs clus = fat_word c fs clus"
    using fat_word_cong [of fs N clus c' c] "1.prems" by blast
  show ?case
  proof (cases "valid_cluster fs clus")
    case True
    then show ?thesis using 1 by (simp add: dir_slot.simps [of _ fs contiguous clus i] Let_def f [OF True])
  qed (use 1 in \<open>simp add: dir_slot.simps [of _ fs contiguous clus i] Let_def\<close>)
qed

text \<open>Different slots do not overlap.\<close>

lemma slot_apart:
  assumes "valid_cluster fs (fst p)" "valid_cluster fs (fst q)" "snd p < 16 * unat (sectors_per_cluster fs)"
    "snd q < 16 * unat (sectors_per_cluster fs)" "slot_sector fs p = slot_sector fs q" "p \<noteq> q"
  shows "slot_byte p + 32 \<le> slot_byte q \<or> slot_byte q + 32 \<le> slot_byte p"
proof -
  define g where "g r = (unat (fst r) - 2) * (16 * unat (sectors_per_cluster fs)) + snd r" for r :: "u32 \<times> nat"
  have s: "slot_sector fs r = unat (cluster_heap_offset fs) + g r div 16" for r
    by (simp add: slot_sector_def first_sector_def g_def mult.assoc [symmetric] mult.commute [of _ 16] div_mult_mult2 [of 32 "snd r" 16, simplified])
  have b: "slot_byte r = g r mod 16 * 32" for r
    using mod_mult_mult2 [of "snd r" 32 16] by (simp add: slot_byte_def g_def mult.left_commute [of _ 16] mod_mult_self3)
  have "g p \<noteq> g q"
  proof
    assume e: "g p = g q"
    let ?n = "16 * unat (sectors_per_cluster fs)"
    have "g r div ?n = unat (fst r) - 2" "g r mod ?n = snd r" if "snd r < ?n" for r using that by (simp_all add: g_def)
    from this [OF assms(3)] this [OF assms(4)] e have "unat (fst p) - 2 = unat (fst q) - 2" "snd p = snd q" by simp_all
    then show False using assms(1,2,6) by (auto simp: valid_cluster_def prod_eq_iff word_unat_eq_iff)
  qed
  moreover have "g p div 16 = g q div 16" using assms(5) s by simp
  ultimately have "g p mod 16 \<noteq> g q mod 16" by (metis mod_div_decomp)
  then show ?thesis using b by auto
qed

lemma slot_entry_write:
  assumes d: "fs_ok fs N" "length (c (slot_sector fs p)) = 512" and e: "length e = 32"
    and v: "valid_cluster fs (fst p)" "snd p < 16 * unat (sectors_per_cluster fs)"
      "valid_cluster fs (fst q)" "snd q < 16 * unat (sectors_per_cluster fs)"
  shows "slot_entry (c(slot_sector fs p := patch (c (slot_sector fs p)) (slot_byte p) e)) fs q = (if q = p then e else slot_entry c fs q)"
proof -
  have b: "slot_byte p + 32 \<le> 512" "slot_byte q + 32 \<le> 512"
    using slot_position(5) [OF d(1) v(1,2)] slot_position(5) [OF d(1) v(3,4)] by simp_all
  consider "q = p" | "q \<noteq> p" "slot_sector fs q \<noteq> slot_sector fs p" | "q \<noteq> p" "slot_sector fs q = slot_sector fs p" by blast
  then show ?thesis
  proof cases
    case 1
    then show ?thesis using b d(2) e by (simp add: slot_entry_def patch_def)
  next
    case 3
    then have a: "slot_byte p + 32 \<le> slot_byte q \<or> slot_byte q + 32 \<le> slot_byte p" using slot_apart [OF v(1,3,2,4)] by simp
    have "take 32 (drop (slot_byte q) (patch (c (slot_sector fs p)) (slot_byte p) e)) = take 32 (drop (slot_byte q) (c (slot_sector fs p)))"
      by (rule nth_equalityI) (use a b d(2) e in \<open>auto simp: nth_patch\<close>)
    then show ?thesis using 3 by (simp add: slot_entry_def)
  qed (simp add: slot_entry_def)
qed

section \<open>The kernel\<close>

definition kernel_ready :: "('d, pmm) world \<Rightarrow> bool" where
  "kernel_ready w \<longleftrightarrow> pmm_inv (pool w) \<and> free_set (pool w) \<noteq> {}"

abbreviation kernel_kept :: "('d, pmm) world \<Rightarrow> ('d, pmm) world \<Rightarrow> bool" where
  "kernel_kept \<equiv> kept pmm_inv free_set (\<lambda>s. unat (pmm_max_page s))"

text \<open>C34: a directory entry that was written is read back, and no other entry of any directory changes: not in the same
  sector, not across the clusters of a chained directory, and whether or not a directory is contiguous. Memory outside
  the free pages is untouched, and the buffers are free again.\<close>

theorem exfat_dir_entry_roundtrip:
  assumes "volume (kernel_platform rs ws hs st bh) fs content N" "kernel_ready w" "length e = 32"
    "dir_slot (content (drives w)) fs contiguous dir (unat i) = Some p"
  shows "\<exists>w'. exfat_write_dir_entry (kernel_platform rs ws hs st bh) fs dir contiguous i e w = Some (0, w') \<and> kernel_kept w w' \<and>
    (\<forall>dir' contiguous' j q old. dir_slot (content (drives w)) fs contiguous' dir' (unat j) = Some q \<longrightarrow>
       (\<exists>w''. exfat_read_dir_entry (kernel_platform rs ws hs st bh) fs dir' contiguous' j old w' =
          Some ((0, if q = p then e else slot_entry (content (drives w)) fs q), w'') \<and> kernel_kept w w''))"
proof -
  let ?E = "kernel_platform rs ws hs st bh" and ?c = "content (drives w)"
  have d: "disk_ok (handles ?E (fs_device fs)) content N" "fs_ok fs N" using assms(1) by (simp_all add: volume_def)
  have r: "kernel_pool.ready w" using assms(2) by (simp add: kernel_pool.ready_def kernel_ready_def)
  obtain w' where w': "exfat_write_dir_entry ?E fs dir contiguous i e w = Some (0, w')" "kernel_kept w w'"
    "content (drives w') = ?c(slot_sector fs p := patch (?c (slot_sector fs p)) (slot_byte p) e)"
    using kernel_pool.write_dir_entry_ok [OF assms(1) r assms(4,3)] by blast
  note pv = dir_slot_valid [OF d(2) assms(4)]
  have low: "content (drives w') s = ?c s" if "s < unat (cluster_heap_offset fs)" for s
    using slot_position(4) [OF d(2), of "fst p" "snd p"] pv that w'(3) by simp
  have "\<exists>w''. exfat_read_dir_entry ?E fs dir' contiguous' j old w' = Some ((0, if q = p then e else slot_entry ?c fs q), w'') \<and>
      kernel_kept w w''" if q: "dir_slot ?c fs contiguous' dir' (unat j) = Some q" for dir' contiguous' j q old
  proof -
    have "dir_slot (content (drives w')) fs contiguous' dir' (unat j) = Some q" using dir_slot_cong [OF d(2) low] q by simp
    then obtain w'' where "exfat_read_dir_entry ?E fs dir' contiguous' j old w' = Some ((0, slot_entry (content (drives w')) fs q), w'')"
      "kernel_kept w' w''"
      using kernel_pool.read_dir_entry_ok [OF assms(1) kernel_pool.ready_kept [OF r w'(2)]] by blast
    moreover have "slot_entry (content (drives w')) fs q = (if q = p then e else slot_entry ?c fs q)"
      unfolding w'(3) using pv dir_slot_valid [OF d(2) q] disk_length [OF d(1)] assms(3) by (intro slot_entry_write [OF d(2)]) auto
    ultimately show ?thesis using world_kept_trans [OF w'(2)] by auto
  qed
  then show ?thesis using w'(1,2) by blast
qed

text \<open>A disk in memory, and a volume of four clusters of one sector each.\<close>

definition ram_disk_content :: "(nat \<Rightarrow> u8 list) \<Rightarrow> nat \<Rightarrow> u8 list" where
  "ram_disk_content d s = take 512 (d s @ replicate 512 0)"

definition ram_disk :: "(nat \<Rightarrow> u8 list) disk_handle_t" where
  "ram_disk =
     \<lparr>partition_offset = 0,
      read_sector = Some (\<lambda>lba a (d, m). (0, d, put_list m a (ram_disk_content d (unat lba)))),
      write_sector = Some (\<lambda>lba a (d, m). (0, d(unat lba := bytes_at m a 512), m))\<rparr>"

lemma ram_disk_ok: "N \<le> 2 ^ 64 \<Longrightarrow> disk_ok ram_disk ram_disk_content N"
  unfolding disk_ok_def ram_disk_def
  by (simp add: unat_of_nat_u64, intro conjI) (auto simp: ram_disk_content_def fun_eq_iff min_def)

definition demo_platform :: "(nat \<Rightarrow> u8 list, pmm) platform" where
  "demo_platform = kernel_platform (\<lambda>a s. (0, s)) (\<lambda>a v s. s) (\<lambda>_. ram_disk) (replicate 32 0) (\<lambda>_. 0)"

definition demo_fs :: exfat_fs_t where
  "demo_fs = \<lparr>bytes_per_sector = 512, sectors_per_cluster = 1, bytes_per_cluster = 512, fat_offset = 1, fat_length = 1,
     cluster_heap_offset = 2, cluster_count = 4, root_dir_cluster = 2, num_fats = 1, fs_device = 1\<rparr>"

definition demo_world :: "(nat \<Rightarrow> u8 list) \<Rightarrow> (nat \<Rightarrow> u8 list, pmm) world" where
  "demo_world d = \<lparr>drives = d, ram = (\<lambda>_. 0), pool = demo_pmm, w_hhdm = 0xFFFF800000000000, g_sata_port = 0\<rparr>"

lemma demo_volume: "volume demo_platform demo_fs ram_disk_content 6"
proof -
  have "fs_ok demo_fs 6" by (simp add: fs_ok_def demo_fs_def)
  then show ?thesis using ram_disk_ok [of 6] by (simp add: volume_def demo_platform_def kernel_platform_def demo_fs_def)
qed

lemma demo_ready: "kernel_ready (demo_world d)"
  by (simp add: kernel_ready_def demo_world_def demo_pmm_inv)

theorem exfat_dir_entry_roundtrip_witness:
  "\<exists>w w1 w2. exfat_write_dir_entry demo_platform demo_fs 2 True 3 (replicate 32 0x85) (demo_world (\<lambda>_. [])) = Some (0, w) \<and>
     exfat_read_dir_entry demo_platform demo_fs 2 True 3 [] w = Some ((0, replicate 32 0x85), w1) \<and>
     exfat_read_dir_entry demo_platform demo_fs 2 True 17 [] w = Some ((0, replicate 32 0), w2)"
proof -
  let ?c = "ram_disk_content (drives (demo_world (\<lambda>_. [])))"
  have s: "dir_slot ?c demo_fs True 2 (unat (3 :: u32)) = Some (2, 3)" "dir_slot ?c demo_fs True 2 (unat (17 :: u32)) = Some (3, 1)"
    by (simp_all add: dir_slot.simps demo_fs_def valid_cluster_def)
  have "length (replicate 32 (0x85 :: u8)) = 32" by simp
  from exfat_dir_entry_roundtrip [OF demo_volume [unfolded demo_platform_def] demo_ready [of "\<lambda>_. []"] this,
      of True 2 3 "(2, 3)", folded demo_platform_def, OF s(1)]
  obtain w where w: "exfat_write_dir_entry demo_platform demo_fs 2 True 3 (replicate 32 0x85) (demo_world (\<lambda>_. [])) = Some (0, w)"
    "\<forall>dir' contiguous' j q old. dir_slot ?c demo_fs contiguous' dir' (unat j) = Some q \<longrightarrow>
       (\<exists>w''. exfat_read_dir_entry demo_platform demo_fs dir' contiguous' j old w =
          Some ((0, if q = (2, 3) then replicate 32 0x85 else slot_entry ?c demo_fs q), w'') \<and>
          kernel_kept (demo_world (\<lambda>_. [])) w'')"
    by blast
  have "slot_entry ?c demo_fs (3, 1) = replicate 32 0"
    by (simp add: slot_entry_def slot_byte_def slot_sector_def first_sector_def demo_fs_def demo_world_def ram_disk_content_def)
  then show ?thesis using w(1) w(2) [rule_format, OF s(1), of "[]"] w(2) [rule_format, OF s(2), of "[]"] by auto
qed

end
