(* ===== verification/Exfat_Alloc.thy ===== *)
theory Exfat_Alloc
  imports Exfat_Correct
begin

text \<open>
  Allocation of clusters: the search in the allocation bitmap finds the first clear bit, sets it on the disk and
  ends the chain of the new cluster in the table.
\<close>

section \<open>The bitmap\<close>

text \<open>The cluster of the bitmap, by the first entry of type 0x81 of the root directory.\<close>

primrec bitmap_start :: "(nat \<Rightarrow> u8 list) \<Rightarrow> exfat_fs_t \<Rightarrow> nat list \<Rightarrow> u32 option" where
  "bitmap_start c fs [] = None"
| "bitmap_start c fs (i # is) =
     (case dir_slot c fs False (root_dir_cluster fs) i of
        None \<Rightarrow> None
      | Some p \<Rightarrow>
          let e = slot_entry c fs p
          in if e ! 0 = EXFAT_TYPE_EOD then None
             else if e ! 0 = 0x81 then Some (stream_first_cluster e) else bitmap_start c fs is)"

text \<open>Bit \<open>n\<close> of the bitmap, which stands for cluster \<open>n + 2\<close>, in its first cluster.\<close>

definition bitmap_bit :: "(nat \<Rightarrow> u8 list) \<Rightarrow> exfat_fs_t \<Rightarrow> u32 \<Rightarrow> nat \<Rightarrow> bool" where
  "bitmap_bit c fs b n \<longleftrightarrow> bit (c (first_sector fs b + n div 8 div 512) ! (n div 8 mod 512)) (n mod 8)"

lemma first_clear_spec:
  "case first_clear m buf i n of
     None \<Rightarrow> \<forall>j. i \<le> j \<and> j < n \<longrightarrow> (\<forall>b<8. bit (m (buf + of_nat j)) b)
   | Some (j, b) \<Rightarrow> i \<le> j \<and> j < n \<and> b < 8 \<and> \<not> bit (m (buf + of_nat j)) b \<and> (\<forall>b'<b. bit (m (buf + of_nat j)) b') \<and>
       (\<forall>k. i \<le> k \<and> k < j \<longrightarrow> (\<forall>b<8. bit (m (buf + of_nat k)) b))"
proof (induction m buf i n rule: first_clear.induct)
  case (1 m buf i n)
  let ?x = "m (buf + of_nat i)"
  let ?r = "if ?x \<noteq> 0xFF then List.find (\<lambda>b. \<not> bit ?x b) [0..<8] else None"
  show ?case
  proof (cases "i < n")
    case True
    show ?thesis
    proof (cases ?r)
      case None
      moreover have "bit (0xFF :: u8) b" if "b < 8" for b using bit_FF [where 'a = 8, of b] that by simp
      ultimately have "\<forall>b<8. bit ?x b" by (auto simp: find_None_iff split: if_splits)
      then have x: "bit (m (buf + of_nat j)) b" if "i \<le> j" "\<not> Suc i \<le> j" "b < 8" for j b using that by (metis le_antisym not_less_eq_eq)
      have e: "first_clear m buf i n = first_clear m buf (Suc i) n"
        using None by (simp only: first_clear.simps [of m buf i n] True if_True option.case)
      show ?thesis
      proof (cases "first_clear m buf (Suc i) n")
        case N: None
        then show ?thesis unfolding e using 1 [OF True None] x by (simp only: option.case) blast
      next
        case S: (Some p)
        obtain j b where "p = (j, b)" by fastforce
        then show ?thesis unfolding e S using 1 [OF True None] x by (simp only: S option.case prod.case) (use Suc_leD in blast)
      qed
    next
      case (Some b)
      then have "List.find (\<lambda>b. \<not> bit ?x b) [0..<8] = Some b" by (simp split: if_splits)
      then have "b < 8" "\<not> bit ?x b" "\<forall>b'<b. bit ?x b'" by (auto simp: find_Some_iff)
      then show ?thesis using True Some by (simp only: first_clear.simps [of m buf i n] if_True option.case) auto
    qed
  qed (auto simp: first_clear.simps [of m buf i n])
qed

lemma sectors_bit:
  assumes "\<And>s. length (c s) = 512" "n < 4096 * k"
  shows "bit (sectors_of c (first_sector fs b) k ! (n div 8)) (n mod 8) \<longleftrightarrow> bitmap_bit c fs b n"
proof -
  have "n div 8 < 512 * k" using assms(2) by (simp add: less_mult_imp_div_less)
  then show ?thesis using nth_sectors_of [OF assms(1)] by (simp add: bitmap_bit_def)
qed

text \<open>The first clear bit of the cluster in the buffer.\<close>

lemma first_clear_bitmap:
  assumes len: "\<And>s. length (c s) = 512" and k: "512 * k \<le> 4096" and n: "n < 4096 * k" "\<not> bitmap_bit c fs b n"
    and least: "\<And>j. j < n \<Longrightarrow> bitmap_bit c fs b j"
  shows "first_clear (put_list m buf (sectors_of c (first_sector fs b) k)) buf 0 (512 * k) = Some (n div 8, n mod 8)"
proof -
  let ?m = "put_list m buf (sectors_of c (first_sector fs b) k)"
  have m: "bit (?m (buf + of_nat (i div 8))) (i mod 8) \<longleftrightarrow> bitmap_bit c fs b i" if "i < 4096 * k" for i
  proof -
    have "i div 8 < 512 * k" using that by (simp add: less_mult_imp_div_less)
    then have "?m (buf + of_nat (i div 8)) = sectors_of c (first_sector fs b) k ! (i div 8)"
      using k length_sectors_of [of c, OF len] by (intro put_list_in) simp_all
    then show ?thesis using sectors_bit [OF len that] by simp
  qed
  have n8: "n div 8 < 512 * k" using n(1) by (simp add: less_mult_imp_div_less)
  note spec = first_clear_spec [where m = ?m and buf = buf and i = 0 and n = "512 * k"]
  show ?thesis
  proof (cases "first_clear ?m buf 0 (512 * k)")
    case None
    then have "bit (?m (buf + of_nat (n div 8))) (n mod 8)" using spec n8 by simp
    then show ?thesis using m [OF n(1)] n(2) by simp
  next
    case (Some p)
    obtain j b' where p: "p = (j, b')" by fastforce
    have s: "j < 512 * k" "b' < 8" "\<not> bit (?m (buf + of_nat j)) b'" "\<forall>b''<b'. bit (?m (buf + of_nat j)) b''"
      "\<forall>i<j. \<forall>b<8. bit (?m (buf + of_nat i)) b" using spec Some p by simp_all
    define i where "i = 8 * j + b'"
    have i: "i div 8 = j" "i mod 8 = b'" "i < 4096 * k" using s(1,2) by (simp_all add: i_def)
    have "\<not> bitmap_bit c fs b i" using m [OF i(3)] s(3) i by simp
    then have "\<not> i < n" using least by blast
    moreover have "\<not> n < i"
    proof
      assume "n < i"
      have "n div 8 < j \<or> n div 8 = j \<and> n mod 8 < b'"
      proof (cases "n div 8 < j")
        case False
        then have "n div 8 = j" using \<open>n < i\<close> s(2) div_le_mono [of n "8 * j + b'" 8] by (simp add: i_def)
        then show ?thesis using \<open>n < i\<close> mult_div_mod_eq [of 8 n] by (simp only: i_def) linarith
      qed simp
      then have "bit (?m (buf + of_nat (n div 8))) (n mod 8)" using s(4,5) by auto
      then show False using m [OF n(1)] n(2) by simp
    qed
    ultimately have "i = n" by simp
    then show ?thesis using Some p i by simp
  qed
qed

lemma sector_base_u32:
  assumes "i < 2 ^ 32"
  shows "(ucast (of_nat i AND NOT (512 - 1) :: u32) :: u64) = of_nat (512 * (i div 512))"
proof -
  let ?x = "of_nat i :: u32"
  have m: "(512 - 1 :: u32) = mask 9" by (simp add: mask_eq_exp_minus_1)
  have "?x AND NOT (mask 9) = ?x AND NOT (?x AND mask 9)" by (rule bit_eqI) (auto simp: bit_simps)
  also have "\<dots> = ?x - (?x AND mask 9)" by (rule disjunctive_diff [symmetric]) (auto simp: bit_simps)
  also have "?x AND mask 9 = ?x mod 2 ^ 9" unfolding take_bit_eq_mask [symmetric] by (rule take_bit_eq_mod)
  finally have e: "?x AND NOT (512 - 1) = ?x - ?x mod 512" unfolding m by simp
  have u: "unat ?x = i" using assms by (simp add: unat_of_nat take_bit_nat_eq_self)
  have "unat (?x mod 512) = i mod 512" using u by (simp add: unat_mod)
  then have "unat (?x - ?x mod 512) = i - i mod 512" using u by (simp add: unat_sub word_le_nat_alt)
  then have "unat (ucast (?x AND NOT (512 - 1) :: u32) :: u64) = 512 * (i div 512)"
    unfolding e unat_up by (simp only: minus_mod_eq_mult_div)
  then show ?thesis by (rule of_nat_of_unat)
qed

lemma cluster_sector:
  assumes "fs_ok fs N" "valid_cluster fs b"
  shows "unat (exfat_cluster_to_sector fs b) = first_sector fs b" "unat (cluster_heap_offset fs) \<le> first_sector fs b"
    "first_sector fs b + unat (sectors_per_cluster fs) \<le> N"
proof -
  have "0 < 16 * unat (sectors_per_cluster fs)" using fs_okD(4) [OF assms(1)] by simp
  from slot_position(1,4) [OF assms this]
  show "unat (exfat_cluster_to_sector fs b) = first_sector fs b" "unat (cluster_heap_offset fs) \<le> first_sector fs b"
    by (simp_all add: entry_sector_def slot_sector_def)
  have "Suc (unat b - 2) \<le> unat (cluster_count fs)" using assms(2) unfolding valid_cluster_def by linarith
  then have "Suc (unat b - 2) * unat (sectors_per_cluster fs) \<le> unat (cluster_count fs) * unat (sectors_per_cluster fs)"
    by (rule mult_le_mono1)
  then show "first_sector fs b + unat (sectors_per_cluster fs) \<le> N" using fs_okD(9) [OF assms(1)] by (simp add: first_sector_def)
qed

text \<open>One byte of a run of sectors is changed: so is the sector it lies in.\<close>

lemma sector_patch:
  assumes len: "\<And>s. length (c s) = 512" and i: "i < 512 * k"
  shows "take 512 (drop (512 * (i div 512)) (patch (sectors_of c s k) i [x])) = patch (c (s + i div 512)) (i mod 512) [x]"
proof (rule nth_equalityI)
  have l: "length (sectors_of c s k) = 512 * k" using length_sectors_of [of c, OF len] .
  have "i div 512 < k" using i by (simp add: less_mult_imp_div_less)
  then have d: "512 * (i div 512) + 512 \<le> 512 * k" by simp
  have im: "i = 512 * (i div 512) + i mod 512" by simp
  show "length (take 512 (drop (512 * (i div 512)) (patch (sectors_of c s k) i [x]))) = length (patch (c (s + i div 512)) (i mod 512) [x])"
    using l d i len by simp
  fix j assume "j < length (take 512 (drop (512 * (i div 512)) (patch (sectors_of c s k) i [x])))"
  then have j: "j < 512" by simp
  let ?g = "512 * (i div 512) + j"
  have g: "?g < 512 * k" "?g div 512 = i div 512" "?g mod 512 = j" using d j by simp_all
  have "?g = i \<longleftrightarrow> j = i mod 512" using im by linarith
  then have "patch (sectors_of c s k) i [x] ! ?g = (if j = i mod 512 then x else c (s + i div 512) ! j)"
    using nth_sectors_of [of c, OF len g(1)] i g l by (auto simp: nth_patch)
  then show "take 512 (drop (512 * (i div 512)) (patch (sectors_of c s k) i [x])) ! j = patch (c (s + i div 512)) (i mod 512) [x] ! j"
    using j d l i len by (auto simp: nth_patch)
qed

definition mark :: "(nat \<Rightarrow> u8 list) \<Rightarrow> exfat_fs_t \<Rightarrow> u32 \<Rightarrow> nat \<Rightarrow> nat \<Rightarrow> u8 list" where
  "mark c fs b n =
     (let s = first_sector fs b + n div 8 div 512; k = n div 8 mod 512
      in c(s := patch (c s) k [(c s ! k) OR push_bit (n mod 8) 1]))"

definition link :: "(nat \<Rightarrow> u8 list) \<Rightarrow> exfat_fs_t \<Rightarrow> u32 \<Rightarrow> u32 \<Rightarrow> nat \<Rightarrow> u8 list" where
  "link c fs clus v = c(fat_at fs clus := patch (c (fat_at fs clus)) (unat clus * 4 mod 512) (le_bytes 4 (ucast v)))"

lemma fat_word_link:
  assumes "fs_ok fs N" "\<And>s. length (c s) = 512" "valid_cluster fs a" "valid_cluster fs a'"
  shows "fat_word (link c fs a v) fs a' = (if a' = a then v else fat_word c fs a')"
proof -
  have b: "unat x * 4 mod 512 = unat x mod 128 * 4" for x :: u32 using mod_mult_mult2 [of "unat x" 4 128] by simp
  have le: "unat x mod 128 < 128" for x :: u32 by simp
  let ?p = "patch (c (fat_at fs a)) (unat a * 4 mod 512) (le_bytes 4 (ucast v))"
  have l: "unat a * 4 mod 512 + length (le_bytes 4 (ucast v)) \<le> length (c (fat_at fs a))" using assms(2) b le [of a] by simp
  have n: "?p ! (unat x * 4 mod 512 + j) =
      (if unat x mod 128 = unat a mod 128 then le_bytes 4 (ucast v) ! j else c (fat_at fs a) ! (unat x * 4 mod 512 + j))"
    if "j < 4" for j and x :: u32
    using nth_patch [OF l, of "unat x * 4 mod 512 + j"] that le [of x] assms(2) unfolding b by auto
  show ?thesis
  proof (cases "a' = a")
    case True
    then show ?thesis using n [of 0 a] n [of 1 a] n [of 2 a] n [of 3 a] le32_bytes [of v]
      by (simp add: fat_word_def link_def le32_def numeral_2_eq_2)
  next
    case False
    have "fat_at fs a' \<noteq> fat_at fs a \<or> unat a' mod 128 \<noteq> unat a mod 128"
    proof (rule ccontr)
      assume "\<not> ?thesis"
      then have "unat a' * 4 div 512 = unat a * 4 div 512" "unat a' mod 128 = unat a mod 128" by (simp_all add: fat_at_def)
      moreover have "x * 4 div 512 = x div 128" for x :: nat using div_mult_mult2 [of 4 x 128] by simp
      ultimately have "unat a' = unat a" by (metis mod_div_decomp)
      then show False using False by (simp add: word_unat_eq_iff)
    qed
    then show ?thesis using False n [of 0 a'] n [of 1 a'] n [of 2 a'] n [of 3 a'] by (auto simp: fat_word_def link_def le32_def)
  qed
qed

lemma bitmap_bit_mark:
  assumes "\<And>s. length (c s) = 512"
  shows "bitmap_bit (mark c fs b n) fs b j \<longleftrightarrow> j = n \<or> bitmap_bit c fs b j"
proof -
  have k: "n div 8 mod 512 + length [x] \<le> length (c s)" for s and x :: u8 using assms by (simp add: Suc_leI)
  have e: "j = n \<longleftrightarrow> j div 8 div 512 = n div 8 div 512 \<and> j div 8 mod 512 = n div 8 mod 512 \<and> j mod 8 = n mod 8"
    by (metis mod_div_decomp)
  have "patch (c s) (n div 8 mod 512) [x] ! i = (if i = n div 8 mod 512 then x else c s ! i)" if "i < 512" for s i and x :: u8
    using nth_patch [OF k, of i s x] that assms by auto
  moreover have "bit (push_bit (n mod 8) 1 :: u8) (j mod 8) \<longleftrightarrow> j mod 8 = n mod 8"
    by (auto simp: bit_exp_iff possible_bit_word)
  ultimately show ?thesis using e by (auto simp: bitmap_bit_def mark_def Let_def bit_or_iff)
qed

section \<open>The search and the allocation\<close>

context page_pool
begin

lemma bitmap_info_ok:
  assumes v: "volume E fs content N" and i: "\<forall>i\<in>set js. i < 2 ^ 32"
  shows "ready w \<Longrightarrow> bitmap_start (content (drives w)) fs js = Some b \<Longrightarrow>
    \<exists>w' sz. bitmap_info_loop E fs js w = Some (Some (b, sz), w') \<and> content (drives w') = content (drives w) \<and> kp w w'"
  using i
proof (induction js arbitrary: w)
  case (Cons i js)
  let ?c = "content (drives w)"
  obtain p where p: "dir_slot ?c fs False (root_dir_cluster fs) i = Some p" using Cons.prems(2) by (auto split: option.splits)
  let ?e = "slot_entry ?c fs p"
  have "unat (of_nat i :: u32) = i" using Cons.prems(3) by (simp add: unat_of_nat take_bit_nat_eq_self)
  then obtain w1 where w1: "exfat_read_dir_entry E fs (root_dir_cluster fs) False (of_nat i) (stale E) w = Some ((0, ?e), w1)"
    "content (drives w1) = ?c" "kp w w1"
    using read_dir_entry_ok [OF v Cons.prems(1), of False "root_dir_cluster fs" "of_nat i" p "stale E"] p by auto
  show ?case
  proof (cases "?e ! 0 = 0x81")
    case True
    then show ?thesis using w1 Cons.prems(2) p by (simp add: Let_def)
  next
    case False
    then have "bitmap_start (content (drives w1)) fs js = Some b" "?e ! 0 \<noteq> EXFAT_TYPE_EOD"
      using Cons.prems(2) p w1(2) by (simp_all add: Let_def split: if_splits)
    then obtain w2 sz where "bitmap_info_loop E fs js w1 = Some (Some (b, sz), w2)" "content (drives w2) = ?c" "kp w1 w2"
      using Cons.IH [OF ready_kept [OF Cons.prems(1) w1(3)]] w1(2) Cons.prems(3) by auto
    then show ?thesis using w1 False \<open>?e ! 0 \<noteq> EXFAT_TYPE_EOD\<close> world_kept_trans [OF w1(3)] by auto
  qed
qed simp

lemma bitmap_search_ok:
  assumes v: "volume E fs content N" and b: "valid_cluster fs b" and k: "512 * unat (sectors_per_cluster fs) \<le> 4096"
    and n: "n < 4096 * unat (sectors_per_cluster fs)" "\<not> bitmap_bit (content (drives w)) fs b n"
    and least: "\<And>j. j < n \<Longrightarrow> bitmap_bit (content (drives w)) fs b j"
  shows "\<exists>d bs. length bs \<le> 4096 \<and> bitmap_search E fs buf b 0 w =
      Some (if n < unat (cluster_count fs) then Some (of_nat n + 2) else None, w\<lparr>drives := d, ram := put_list (ram w) buf bs\<rparr>) \<and>
    content d = (if n < unat (cluster_count fs) then mark (content (drives w)) fs b n else content (drives w))"
proof -
  let ?c = "content (drives w)" and ?spc = "unat (sectors_per_cluster fs)" and ?sec = "exfat_cluster_to_sector fs b"
  let ?S = "sectors_of ?c (first_sector fs b) ?spc" and ?i = "n div 8" and ?b = "n mod 8"
  have d: "fs_device fs \<noteq> 0" "disk_ok (handles E (fs_device fs)) content N" "fs_ok fs N" using v by (simp_all add: volume_def)
  have len: "length (?c s) = 512" for s using disk_length [OF d(2)] .
  have S: "length ?S = 512 * ?spc" using length_sectors_of [of ?c, OF len] .
  note f = fs_okD [OF d(3)] and cs = cluster_sector [OF d(3) b]
  have N: "N \<le> 2 ^ 64" using d(2) by (simp add: disk_ok_def)
  obtain d1 where d1: "exfat_read_sectors E (fs_device fs) ?sec (sectors_per_cluster fs) buf w =
      Some (0, w\<lparr>drives := d1, ram := put_list (ram w) buf ?S\<rparr>)" "content d1 = ?c"
    using read_sectors_ok [OF d(1,2), of ?sec "sectors_per_cluster fs" buf w] cs by auto
  have fc: "first_clear (put_list (ram w) buf ?S) buf 0 (unat (bytes_per_cluster fs)) = Some (?i, ?b)"
    unfolding f(3) by (rule first_clear_bitmap [OF len k n]) (use least in blast)
  have i: "?i < 512 * ?spc" using n(1) by (simp add: less_mult_imp_div_less)
  have n32: "n + 2 < 2 ^ 32" using n(1) k by simp
  have fnd: "of_nat ?i * 8 + of_nat ?b = (of_nat n :: u32)"
  proof -
    have "of_nat (?i * 8 + ?b) = (of_nat n :: u32)" by simp
    then show ?thesis by (simp only: of_nat_add of_nat_mult of_nat_numeral)
  qed
  have "unat (of_nat n :: u32) = n" using n32 by (simp add: unat_of_nat take_bit_nat_eq_self)
  then have cmp: "cluster_count fs \<le> of_nat n \<longleftrightarrow> \<not> n < unat (cluster_count fs)" by (simp only: word_le_nat_alt) auto
  have lt: "b < EXFAT_FAT_EOC" using b f(8) by (simp add: valid_cluster_def word_less_nat_alt)
  let ?m = "put_list (ram w) buf ?S"
  have run: "bitmap_search E fs buf b 0 w =
      (if \<not> n < unat (cluster_count fs) then Some (None, w\<lparr>drives := d1, ram := ?m\<rparr>)
       else do {
         (_, w) \<leftarrow> exfat_write_sectors E (fs_device fs) (?sec + ucast (of_nat ?i div bytes_per_sector fs)) 1
           (buf + ucast (of_nat ?i AND NOT (bytes_per_sector fs - 1)))
           (w\<lparr>drives := d1, ram := ?m(buf + of_nat ?i := ?m (buf + of_nat ?i) OR push_bit ?b 1)\<rparr>);
         Some (Some (of_nat n + 2), w) })"
    unfolding bitmap_search.simps [of E fs buf b 0 w] Let_def if_P [OF lt] d1(1) bind.bind_lunit prod.case
    by (simp add: fc fnd cmp)
  show ?thesis
  proof (cases "n < unat (cluster_count fs)")
    case False
    then have "bitmap_search E fs buf b 0 w = Some (None, w\<lparr>drives := d1, ram := put_list (ram w) buf ?S\<rparr>)"
      using run by simp
    then show ?thesis using False d1(2) S k by (intro exI [of _ d1] exI [of _ ?S]) simp
  next
    case True
    define x where "x = (?S ! ?i) OR push_bit ?b 1"
    let ?S' = "patch ?S ?i [x]"
    let ?w = "w\<lparr>drives := d1, ram := put_list (ram w) buf ?S'\<rparr>"
    have S': "length ?S' = 512 * ?spc" using S i by simp
    have x: "(put_list (ram w) buf ?S)(buf + of_nat ?i := (put_list (ram w) buf ?S) (buf + of_nat ?i) OR push_bit ?b 1) = put_list (ram w) buf ?S'"
      using put_list_patch [of ?i "[x]" ?S "ram w" buf] put_list_in [of ?i ?S "ram w" buf] S i k by (simp add: x_def)
    have i32: "unat (of_nat ?i :: u32) = ?i" using i k by (simp add: unat_of_nat take_bit_nat_eq_self)
    have s1: "?i div 512 < ?spc" using i by (simp add: less_mult_imp_div_less)
    have "unat (ucast (of_nat ?i div 512 :: u32) :: u64) = ?i div 512" using i32 by (simp only: unat_up) (simp add: unat_div)
    moreover have "first_sector fs b + ?i div 512 < 2 ^ 64" using cs(3) s1 N by simp
    ultimately have s2: "unat (?sec + ucast (of_nat ?i div bytes_per_sector fs)) = first_sector fs b + ?i div 512"
      using cs(1) f(1) by (simp add: unat_plus_u64)
    have s3: "bytes_at (put_list (ram w) buf ?S') (buf + ucast (of_nat ?i AND NOT (bytes_per_sector fs - 1))) 512 =
        patch (?c (first_sector fs b + ?i div 512)) (?i mod 512) [x]"
    proof -
      have "?i < 2 ^ 32" using i k by simp
      then have "(ucast (of_nat ?i AND NOT (bytes_per_sector fs - 1) :: u32) :: u64) = of_nat (512 * (?i div 512))"
        unfolding f(1) by (rule sector_base_u32)
      moreover have "512 * (?i div 512) + 512 \<le> length ?S'" using s1 S' by simp
      ultimately show ?thesis using bytes_at_put_list [of "512 * (?i div 512)" 512 ?S' "ram w" buf] S' k sector_patch [of ?c, OF len i] by simp
    qed
    have s4: "?S ! ?i = ?c (first_sector fs b + ?i div 512) ! (?i mod 512)" using nth_sectors_of [of ?c, OF len i] .
    obtain d2 where d2: "exfat_write_sectors E (fs_device fs) (?sec + ucast (of_nat ?i div bytes_per_sector fs)) 1
        (buf + ucast (of_nat ?i AND NOT (bytes_per_sector fs - 1))) ?w = Some (0, ?w\<lparr>drives := d2\<rparr>)" "content d2 = mark ?c fs b n"
    proof -
      have "first_sector fs b + ?i div 512 + 1 \<le> N" using cs(3) s1 by simp
      moreover have "?i mod 512 + length [x] \<le> length (?c (first_sector fs b + ?i div 512))" using len by (simp add: Suc_leI)
      ultimately show ?thesis
        using write_sectors_ok [OF d(1,2), of "?sec + ucast (of_nat ?i div bytes_per_sector fs)" 1
          "buf + ucast (of_nat ?i AND NOT (bytes_per_sector fs - 1))" ?w] s2 s3 d1(2) len that
        by (auto simp: write_at_1 mark_def Let_def x_def s4)
    qed
    have "bitmap_search E fs buf b 0 w = Some (Some (of_nat n + 2), ?w\<lparr>drives := d2\<rparr>)"
      using run True d2(1) x by simp
    then show ?thesis using True d2(2) S' k by (intro exI [of _ d2] exI [of _ ?S']) simp
  qed
qed

lemma allocate_cluster_ok:
  assumes v: "volume E fs content N" and r: "ready w" and bs: "bitmap_start (content (drives w)) fs [0..<128] = Some b"
    and b: "valid_cluster fs b" and k: "512 * unat (sectors_per_cluster fs) \<le> 4096"
    and n: "n < 4096 * unat (sectors_per_cluster fs)" "\<not> bitmap_bit (content (drives w)) fs b n"
    and least: "\<And>j. j < n \<Longrightarrow> bitmap_bit (content (drives w)) fs b j"
  shows "\<exists>w'. kp w w' \<and>
    exfat_allocate_cluster E fs w = Some (if n < unat (cluster_count fs) then Some (of_nat n + 2) else None, w') \<and>
    content (drives w') = (if n < unat (cluster_count fs) then link (mark (content (drives w)) fs b n) fs (of_nat n + 2) EXFAT_FAT_EOC
      else content (drives w))"
proof -
  let ?c = "content (drives w)" and ?new = "of_nat n + 2 :: u32" and ?in = "n < unat (cluster_count fs)"
  obtain w1 sz where w1: "exfat_get_bitmap_info E fs w = Some (Some (b, sz), w1)" "content (drives w1) = ?c" "kp w w1"
    using bitmap_info_ok [OF v _ r bs] unfolding exfat_get_bitmap_info_def by auto
  let ?f = "\<lambda>buf w. bitmap_search E fs buf b 0 w"
  have "\<exists>r w' p. with_pages E 0 None ?f w1 = Some (r, w'\<lparr>pool := p\<rparr>) \<and>
      (r = (if ?in then Some ?new else None) \<and> content (drives w') = (if ?in then mark ?c fs b n else ?c)) \<and> kp w1 (w'\<lparr>pool := p\<rparr>)"
  proof (rule with_pages_rule)
    fix q p assume q: "{q..<q + 2 ^ 0} \<subseteq> idle (pool w1)" and p: "pinv p"
    let ?buf = "page_addr q + w_hhdm w1"
    obtain d l where d: "length l \<le> 4096" "bitmap_search E fs ?buf b 0 (w1\<lparr>pool := p\<rparr>) =
        Some (if ?in then Some ?new else None, w1\<lparr>pool := p, drives := d, ram := put_list (ram w1) ?buf l\<rparr>)"
      "content d = (if ?in then mark ?c fs b n else ?c)"
      using bitmap_search_ok [OF v b k, of n "w1\<lparr>pool := p\<rparr>" ?buf] n least w1(2) by auto
    show "\<exists>r w'. ?f ?buf (w1\<lparr>pool := p\<rparr>) = Some (r, w') \<and>
        (r = (if ?in then Some ?new else None) \<and> content (drives w') = (if ?in then mark ?c fs b n else ?c)) \<and>
        pinv (pool w') \<and> idle (pool w') = idle p \<and> npages (pool w') = npages p \<and> w_hhdm w' = w_hhdm w1 \<and>
        g_sata_port w' = g_sata_port w1 \<and> (\<forall>a. \<not> in_pages (w_hhdm w1) (idle (pool w1)) a \<longrightarrow> ram w' a = ram w1 a)"
      using d(2,3) p buffer_frame [OF q, of l] d(1) by simp
  qed (use ready_kept [OF r w1(3)] page_available in \<open>auto simp: ready_def\<close>)
  then obtain w2 where w2: "with_pages E 0 None ?f w1 = Some (if ?in then Some ?new else None, w2)" "kp w1 w2"
    "content (drives w2) = (if ?in then mark ?c fs b n else ?c)" by force
  note kp2 = world_kept_trans [OF w1(3) w2(2)]
  show ?thesis
  proof (cases ?in)
    case False
    then show ?thesis using w1(1) w2 kp2 by (simp add: exfat_allocate_cluster_def)
  next
    case True
    have "n + 2 < 2 ^ 32" using n(1) k by simp
    then have "unat (of_nat n :: u32) = n" "unat ?new = n + 2"
      by (simp_all add: unat_of_nat take_bit_nat_eq_self unat_word_ariths)
    then have "valid_cluster fs ?new" using True by (simp add: valid_cluster_def)
    from set_fat_entry_ok [OF v ready_kept [OF r kp2] this, of EXFAT_FAT_EOC]
    obtain w3 where "exfat_set_fat_entry E fs ?new EXFAT_FAT_EOC w2 = Some (0, w3)" "kp w2 w3"
      "content (drives w3) = link (mark ?c fs b n) fs ?new EXFAT_FAT_EOC"
      using w2(3) True by (auto simp: link_def)
    then show ?thesis using True w1(1) w2(1) world_kept_trans [OF kp2] by (auto simp: exfat_allocate_cluster_def)
  qed
qed

end


text \<open>The root directory is in cluster 2, and the bitmap in cluster 3 has two bits set.\<close>

definition demo_sectors :: "nat \<Rightarrow> u8 list" where
  "demo_sectors s = (if s = 2 then 0x81 # replicate 19 0 @ [3] else if s = 3 then [0x03] else [])"

lemma demo_root: "bitmap_start (ram_disk_content demo_sectors) demo_fs [0..<128] = Some 3"
proof -
  let ?c = "ram_disk_content demo_sectors"
  have "slot_entry ?c demo_fs (2, 0) = 0x81 # replicate 19 0 @ 3 # replicate 11 0"
    by (simp add: slot_entry_def slot_byte_def slot_sector_def first_sector_def demo_fs_def ram_disk_content_def demo_sectors_def)
  moreover have "dir_slot ?c demo_fs False (root_dir_cluster demo_fs) 0 = Some (2, 0)"
    by (simp add: dir_slot.simps demo_fs_def valid_cluster_def)
  moreover have "stream_first_cluster (0x81 # replicate 19 0 @ 3 # replicate 11 0) = 3"
    by code_simp
  moreover have "[0..<128] = 0 # [1..<128]" by (simp add: upt_conv_Cons)
  ultimately show ?thesis by (simp add: Let_def)
qed


end
