(* ===== verification/Exfat_Read.thy ===== *)
theory Exfat_Read
  imports Exfat_Alloc
begin

text \<open>
  Reading a file: the bytes of its clusters arrive in the buffer of the caller in order, along a chain of the
  allocation table or a contiguous run of clusters.
\<close>

section \<open>Files as byte sequences\<close>

text \<open>The clusters \<open>cl 0\<close> to \<open>cl (m - 1)\<close> of a file, and its byte \<open>x\<close>.\<close>

definition chain_ok :: "(nat \<Rightarrow> u8 list) \<Rightarrow> exfat_fs_t \<Rightarrow> bool \<Rightarrow> (nat \<Rightarrow> u32) \<Rightarrow> nat \<Rightarrow> bool" where
  "chain_ok c fs contiguous cl m \<longleftrightarrow>
     (\<forall>j<m. valid_cluster fs (cl j)) \<and>
     (\<forall>j. Suc j < m \<longrightarrow> cl (Suc j) = (if contiguous then cl j + 1 else fat_word c fs (cl j)))"

definition cluster_size :: "exfat_fs_t \<Rightarrow> nat" where
  "cluster_size fs = unat (bytes_per_cluster fs)"

definition file_byte :: "(nat \<Rightarrow> u8 list) \<Rightarrow> exfat_fs_t \<Rightarrow> (nat \<Rightarrow> u32) \<Rightarrow> nat \<Rightarrow> u8" where
  "file_byte c fs cl x =
     (let k = x mod cluster_size fs in c (first_sector fs (cl (x div cluster_size fs)) + k div 512) ! (k mod 512))"

text \<open>A handle that stands at byte \<open>pos\<close>: in front of a byte of a cluster or behind its last one.\<close>

definition stands_at :: "exfat_file_t \<Rightarrow> (nat \<Rightarrow> u32) \<Rightarrow> nat \<Rightarrow> nat \<Rightarrow> bool" where
  "stands_at file cl m pos \<longleftrightarrow>
     (\<exists>j<m. current_cluster file = cl j \<and> unat (cluster_offset file) \<le> cluster_size (x_fs file) \<and>
        pos = j * cluster_size (x_fs file) + unat (cluster_offset file))"

lemma memcpy_apart:
  assumes "\<And>i j. i < n \<Longrightarrow> j < n \<Longrightarrow> src + of_nat i \<noteq> dest + of_nat j" "n \<le> 2 ^ 64"
  shows "memcpy_loop m dest src n = put_list m dest (bytes_at m src n)"
  using assms
proof (induction n)
  case (Suc n)
  then have IH: "memcpy_loop m dest src n = put_list m dest (bytes_at m src n)" by simp
  have "\<not> unat (src + of_nat n - dest) < n"
  proof
    assume "unat (src + of_nat n - dest) < n"
    then have "src + of_nat n \<noteq> dest + of_nat (unat (src + of_nat n - dest))" using Suc.prems(1) [of n "unat (src + of_nat n - dest)"] by simp
    then show False by simp
  qed
  then have "put_list m dest (bytes_at m src n) (src + of_nat n) = m (src + of_nat n)" using Suc.prems(2) by (simp add: put_list_eq)
  moreover have "bytes_at m src (Suc n) = bytes_at m src n @ [m (src + of_nat n)]" by (simp add: bytes_at_def)
  ultimately show ?case using IH by (simp add: put_list_append Let_def)
qed (simp add: bytes_at_def)

lemma cluster_size_eq: "fs_ok fs N \<Longrightarrow> cluster_size fs = 512 * unat (sectors_per_cluster fs)"
  "fs_ok fs N \<Longrightarrow> 0 < cluster_size fs" "cluster_size fs < 2 ^ 32"
  using fs_okD(3,4) [of fs N] unat_u32 [of "bytes_per_cluster fs"] by (simp_all add: cluster_size_def)

lemma valid_not_eoc: "fs_ok fs N \<Longrightarrow> valid_cluster fs c \<Longrightarrow> \<not> EXFAT_FAT_EOC \<le> c"
  using fs_okD(8) [of fs N] by (simp add: valid_cluster_def word_le_nat_alt)

lemma clus_order_ge: "unat bpc \<le> 4096 * 2 ^ clus_order bpc 0"
proof -
  have "unat bpc \<le> 4096 * 2 ^ clus_order bpc k" if "k \<le> 20" for k
    using that
  proof (induction "20 - k" arbitrary: k)
    case 0
    then have "k = 20" by simp
    then have "\<not> push_bit k (4096 :: u64) < ucast bpc" using unat_u32 [of bpc] by (simp add: word_less_nat_alt)
    then show ?case using \<open>k = 20\<close> unat_u32 [of bpc] by (simp add: clus_order.simps [of bpc 20])
  next
    case (Suc n)
    show ?case
    proof (cases "push_bit k (4096 :: u64) < ucast bpc")
      case True
      then have "clus_order bpc k = clus_order bpc (Suc k)" using Suc.prems by (simp add: clus_order.simps [of bpc k])
      then show ?thesis using Suc.hyps(1) [of "Suc k"] Suc.hyps(2) by simp
    next
      case False
      have "(2 :: nat) ^ k \<le> 2 ^ 20" using Suc.prems by (intro power_increasing) simp_all
      then have "unat (push_bit k (4096 :: u64)) = 4096 * 2 ^ k" by (subst unat_push_bit_u64) simp_all
      then show ?thesis using False by (simp add: clus_order.simps [of bpc k] word_less_nat_alt)
    qed
  qed
  from this [of 0] show ?thesis by simp
qed

lemma page_bytes:
  assumes "{q..<q + 2 ^ k} \<subseteq> X" "i < 4096 * 2 ^ k" "i < 2 ^ 64"
  shows "in_pages h X (page_addr q + h + of_nat i)"
proof (rule ccontr)
  assume "\<not> in_pages h X (page_addr q + h + of_nat i)"
  then have "put_list (\<lambda>_. 1) (page_addr q + h) (replicate (Suc i) 0) (page_addr q + h + of_nat i) = 1"
    using assms by (intro buffer_frame) auto
  moreover have "put_list (\<lambda>_. 1) (page_addr q + h) (replicate (Suc i) 0) (page_addr q + h + of_nat i) = replicate (Suc i) 0 ! i"
    using assms(3) by (intro put_list_in) simp_all
  ultimately show False by (simp del: replicate_Suc)
qed

lemma pages_apart: "in_pages h X a \<Longrightarrow> \<not> in_pages h X b \<Longrightarrow> a \<noteq> b"
  by auto

text \<open>The bytes of a piece of a cluster, and its size.\<close>

lemma file_bytes:
  assumes "fs_ok fs N" "\<And>s. length (c s) = 512" "off + k \<le> cluster_size fs"
  shows "take k (drop off (sectors_of c (first_sector fs (cl j)) (unat (sectors_per_cluster fs)))) =
    map (file_byte c fs cl) [j * cluster_size fs + off..<j * cluster_size fs + off + k]"
proof (rule nth_equalityI)
  let ?z = "cluster_size fs" and ?b = "sectors_of c (first_sector fs (cl j)) (unat (sectors_per_cluster fs))"
  have z: "?z = 512 * unat (sectors_per_cluster fs)" using cluster_size_eq(1) [OF assms(1)] .
  have l: "length ?b = ?z" using length_sectors_of [of c, OF assms(2)] z by simp
  then show "length (take k (drop off ?b)) = length (map (file_byte c fs cl) [j * ?z + off..<j * ?z + off + k])" using assms(3) by simp
  fix i assume "i < length (take k (drop off ?b))"
  then have i: "i < k" "off + i < ?z" using assms(3) l by simp_all
  have "(j * ?z + (off + i)) div ?z = j" "(j * ?z + (off + i)) mod ?z = off + i" using i(2) by simp_all
  then have "file_byte c fs cl (j * ?z + off + i) = c (first_sector fs (cl j) + (off + i) div 512) ! ((off + i) mod 512)"
    by (simp only: file_byte_def Let_def add.assoc)
  then show "take k (drop off ?b) ! i = map (file_byte c fs cl) [j * ?z + off..<j * ?z + off + k] ! i"
    using i assms(3) l nth_sectors_of [of c, OF assms(2), of "off + i"] z by simp
qed

lemma copy_size:
  fixes off bpc copy :: u32
  assumes "unat off < unat bpc" "n < 2 ^ 64"
    and copy: "copy = (if (of_nat n :: u64) < ucast (bpc - off) then ucast (of_nat n :: u64) else bpc - off)"
  shows "unat copy = min n (unat bpc - unat off)" "(ucast copy :: u64) = of_nat (min n (unat bpc - unat off))"
    "unat (off + copy) = unat off + min n (unat bpc - unat off)"
proof -
  have a: "unat (bpc - off) = unat bpc - unat off" using assms(1) by (simp add: unat_sub word_le_nat_alt)
  have l: "unat bpc < 2 ^ 32" by (rule unat_u32)
  have "unat (of_nat n :: u64) = n" using assms(2) by (simp add: unat_of_nat_u64)
  then show c: "unat copy = min n (unat bpc - unat off)" using a l by (auto simp: copy word_less_nat_alt unat_down)
  then show "(ucast copy :: u64) = of_nat (min n (unat bpc - unat off))" by (intro of_nat_of_unat) (simp only: unat_up)
  have "unat off + min n (unat bpc - unat off) < 2 ^ 32" using assms(1) l by linarith
  then show "unat (off + copy) = unat off + min n (unat bpc - unat off)" using c by (simp add: unat_plus_u32)
qed

text \<open>The bytes \<open>bs\<close> arrive at \<open>a\<close>: the pages \<open>X\<close> may be used for buffers, the rest of memory stays.\<close>

definition delivered ::
  "('p \<Rightarrow> bool) \<Rightarrow> ('p \<Rightarrow> nat set) \<Rightarrow> ('p \<Rightarrow> nat) \<Rightarrow> nat set \<Rightarrow> u64 \<Rightarrow> u8 list \<Rightarrow> ('d, 'p) world \<Rightarrow> ('d, 'p) world \<Rightarrow> bool" where
  "delivered pinv idle npages X a bs w w' \<longleftrightarrow>
     pinv (pool w') \<and> idle (pool w') = idle (pool w) \<and> npages (pool w') = npages (pool w) \<and>
     w_hhdm w' = w_hhdm w \<and> g_sata_port w' = g_sata_port w \<and>
     (\<forall>x. \<not> in_pages (w_hhdm w) X x \<longrightarrow> ram w' x = put_list (ram w) a bs x)"

lemma kept_delivered: "kept pinv idle npages w w' \<Longrightarrow> idle (pool w) \<subseteq> X \<Longrightarrow> delivered pinv idle npages X a [] w w'"
  using in_pages_mono [of "w_hhdm w" "idle (pool w)" _ X] by (auto simp: kept_def delivered_def)

lemma put_list_cong: "m x = m' x \<Longrightarrow> length bs \<le> 2 ^ 64 \<Longrightarrow> put_list m a bs x = put_list m' a bs x"
  by (simp add: put_list_eq)

lemma delivered_trans:
  assumes "delivered pinv idle npages X a bs w w1" "delivered pinv idle npages X (a + of_nat (length bs)) bs' w1 w2" "length bs' \<le> 2 ^ 64"
  shows "delivered pinv idle npages X a (bs @ bs') w w2"
  using assms put_list_cong [of "ram w1" _ "put_list (ram w) a bs" bs' "a + of_nat (length bs)"]
  by (simp add: delivered_def put_list_append)

lemma sint_small_u32: "unat x < 2 ^ 31 \<Longrightarrow> sint x = int (unat x)" for x :: u32
proof -
  assume a: "unat x < 2 ^ 31"
  have "int (unat x) < int (2 ^ 31)" using a by (simp only: of_nat_less_iff)
  then have "uint x < 2 ^ 31" by simp
  moreover have "0 \<le> uint x" by simp
  ultimately have "signed_take_bit 31 (uint x) = uint x" by (intro signed_take_bit_int_eq_self) linarith+
  then show ?thesis by (simp add: sint_uint)
qed

section \<open>The loop\<close>

context page_pool
begin

lemma advance_ok:
  assumes v: "volume E (x_fs file) content N" and ch: "chain_ok (content (drives w)) (x_fs file) (no_fat_chain file) cl m"
    and st: "stands_at file cl m pos" and pos: "pos < m * cluster_size (x_fs file)" and r: "pinv (pool w)" "no_fat_chain file \<or> ready w"
  shows "\<exists>j off w'. (if cluster_offset file \<ge> bytes_per_cluster (x_fs file) then
             if no_fat_chain file
             then Some (False, file\<lparr>current_cluster := current_cluster file + 1, cluster_offset := 0\<rparr>, w)
             else do {
               (c, w) \<leftarrow> exfat_get_fat_entry E (x_fs file) (current_cluster file) w;
               if c \<ge> EXFAT_FAT_EOC then Some (True, file\<lparr>current_cluster := c\<rparr>, w)
               else Some (False, file\<lparr>current_cluster := c, cluster_offset := 0\<rparr>, w) }
           else Some (False, file, w)) = Some (False, file\<lparr>current_cluster := cl j, cluster_offset := off\<rparr>, w') \<and>
    j < m \<and> unat off < cluster_size (x_fs file) \<and> pos = j * cluster_size (x_fs file) + unat off \<and>
    content (drives w') = content (drives w) \<and> kp w w'"
proof -
  let ?fs = "x_fs file" and ?z = "cluster_size (x_fs file)"
  have d: "fs_ok ?fs N" using v by (simp add: volume_def)
  obtain j where j: "j < m" "current_cluster file = cl j" "unat (cluster_offset file) \<le> ?z"
    "pos = j * ?z + unat (cluster_offset file)" using st by (auto simp: stands_at_def)
  have kr: "kp w w" using r(1) by (rule kept_refl)
  show ?thesis
  proof (cases "cluster_offset file \<ge> bytes_per_cluster ?fs")
    case False
    moreover have "file\<lparr>current_cluster := cl j, cluster_offset := cluster_offset file\<rparr> = file" using j(2) by simp
    moreover have "unat (cluster_offset file) < ?z" using False by (simp add: word_le_nat_alt cluster_size_def)
    ultimately show ?thesis using j kr by (intro exI [of _ j] exI [of _ "cluster_offset file"] exI [of _ w]) simp
  next
    case True
    then have "unat (cluster_offset file) = ?z" using j(3) by (simp add: word_le_nat_alt cluster_size_def)
    then have pos': "pos = Suc j * ?z" using j(4) by simp
    then have sj: "Suc j < m" using pos by (simp only: mult_less_cancel2)
    have cj: "valid_cluster ?fs (cl j)" "valid_cluster ?fs (cl (Suc j))"
      "cl (Suc j) = (if no_fat_chain file then cl j + 1 else fat_word (content (drives w)) ?fs (cl j))"
      using ch sj j(1) unfolding chain_ok_def by blast+
    show ?thesis
    proof (cases "no_fat_chain file")
      case c: True
      then show ?thesis using True j(2) cj(3) kr sj pos' cluster_size_eq(2) [OF d]
        by (intro exI [of _ "Suc j"] exI [of _ 0] exI [of _ w]) simp
    next
      case c: False
      obtain w1 where w1: "exfat_get_fat_entry E ?fs (cl j) w = Some (cl (Suc j), w1)" "content (drives w1) = content (drives w)" "kp w w1"
        using get_fat_entry_ok [OF v _ cj(1), of w] r(2) c cj(3) by auto
      then show ?thesis using True c j(2) valid_not_eoc [OF d cj(2)] sj pos' cluster_size_eq(2) [OF d]
        by (intro exI [of _ "Suc j"] exI [of _ 0] exI [of _ w1]) simp
    qed
  qed
qed

lemma read_step:
  assumes v: "volume E (x_fs file) content N" and ch: "chain_ok (content (drives w)) (x_fs file) (no_fat_chain file) cl m"
    and st: "stands_at file cl m pos" and n: "0 < n" "n < 2 ^ 64" and pos: "pos + n \<le> m * cluster_size (x_fs file)"
    and r: "pinv (pool w)" "no_fat_chain file \<or> ready w" and X: "idle (pool w) \<subseteq> X"
    and cb: "\<And>i. i < cluster_size (x_fs file) \<Longrightarrow> in_pages (w_hhdm w) X (clus_buf + of_nat i)"
    and dst: "\<And>i. i < n \<Longrightarrow> \<not> in_pages (w_hhdm w) X (buf + of_nat (d + i))"
  shows "\<exists>k j off w'. read_loop E clus_buf buf file (of_nat n) (of_nat d) w =
      read_loop E clus_buf buf (file\<lparr>current_cluster := cl j, position := position file + of_nat k, cluster_offset := off\<rparr>)
        (of_nat (n - k)) (of_nat (d + k)) w' \<and> 0 < k \<and> k \<le> n \<and> j < m \<and> unat off \<le> cluster_size (x_fs file) \<and>
      pos + k = j * cluster_size (x_fs file) + unat off \<and> content (drives w') = content (drives w) \<and>
      delivered pinv idle npages X (buf + of_nat d) (map (file_byte (content (drives w)) (x_fs file) cl) [pos..<pos + k]) w w'"
proof -
  let ?fs = "x_fs file" and ?z = "cluster_size (x_fs file)" and ?c = "content (drives w)"
  have vd: "fs_ok ?fs N" "disk_ok (handles E (fs_device ?fs)) content N" "fs_device ?fs \<noteq> 0" using v by (simp_all add: volume_def)
  obtain j off w1 where a: "(if cluster_offset file \<ge> bytes_per_cluster ?fs then
             if no_fat_chain file
             then Some (False, file\<lparr>current_cluster := current_cluster file + 1, cluster_offset := 0\<rparr>, w)
             else do {
               (c, w) \<leftarrow> exfat_get_fat_entry E ?fs (current_cluster file) w;
               if c \<ge> EXFAT_FAT_EOC then Some (True, file\<lparr>current_cluster := c\<rparr>, w)
               else Some (False, file\<lparr>current_cluster := c, cluster_offset := 0\<rparr>, w) }
           else Some (False, file, w)) = Some (False, file\<lparr>current_cluster := cl j, cluster_offset := off\<rparr>, w1)"
    and j: "j < m" "unat off < ?z" "pos = j * ?z + unat off" "content (drives w1) = ?c" "kp w w1"
    using advance_ok [OF v ch st _ r] n pos by auto
  define k where "k = min n (?z - unat off)"
  define copy where "copy = (if (of_nat n :: u64) < ucast (bytes_per_cluster ?fs - off) then ucast (of_nat n :: u64) else bytes_per_cluster ?fs - off)"
  have k: "0 < k" "k \<le> n" "unat off + k \<le> ?z" using n j(2) by (auto simp: k_def)
  have cp: "(ucast copy :: u64) = of_nat k" "unat (off + copy) = unat off + k"
    using copy_size [OF _ n(2) copy_def] j(2) by (simp_all add: cluster_size_def k_def)
  have vj: "valid_cluster ?fs (cl j)" using ch j(1) by (simp add: chain_ok_def)
  let ?b = "sectors_of ?c (first_sector ?fs (cl j)) (unat (sectors_per_cluster ?fs))"
  have bl: "length ?b = ?z" using length_sectors_of [of ?c] disk_length [OF vd(2)] cluster_size_eq(1) [OF vd(1)] by simp
  obtain dr where dr: "exfat_read_sectors E (fs_device ?fs) (exfat_cluster_to_sector ?fs (cl j)) (sectors_per_cluster ?fs) clus_buf w1 =
      Some (0, w1\<lparr>drives := dr, ram := put_list (ram w1) clus_buf ?b\<rparr>)" "content dr = ?c"
    using read_sectors_ok [OF vd(3,2), of "exfat_cluster_to_sector ?fs (cl j)" "sectors_per_cluster ?fs" clus_buf w1]
      cluster_sector(1,3) [OF vd(1) vj] j(4) by auto
  let ?m = "put_list (ram w1) clus_buf ?b" and ?bs = "map (file_byte ?c ?fs cl) [pos..<pos + k]"
  have off: "(ucast off :: u64) = of_nat (unat off)" by (intro of_nat_of_unat) simp
  have in_cb: "in_pages (w_hhdm w) X (clus_buf + of_nat (unat off + i))" if "i < k" for i
    by (rule cb) (use that k(3) in linarith)
  have "clus_buf + of_nat (unat off) + of_nat i \<noteq> buf + of_nat d + of_nat i'" if "i < k" "i' < k" for i i'
  proof -
    have "\<not> in_pages (w_hhdm w) X (buf + of_nat (d + i'))" by (rule dst) (use that(2) k(2) in linarith)
    with in_cb [OF that(1)] have "clus_buf + of_nat (unat off + i) \<noteq> buf + of_nat (d + i')" by (rule pages_apart)
    then show ?thesis by (simp only: of_nat_add add.assoc not_False_eq_True)
  qed
  then have "memcpy ?m (buf + of_nat d) (clus_buf + ucast off) (of_nat k) =
      put_list ?m (buf + of_nat d) (bytes_at ?m (clus_buf + of_nat (unat off)) k)"
    unfolding memcpy_def off using k(2) n(2) by (simp add: unat_of_nat_u64 memcpy_apart)
  also have "bytes_at ?m (clus_buf + of_nat (unat off)) k = ?bs"
    using bytes_at_put_list [of "unat off" k ?b "ram w1" clus_buf] k(3) bl cluster_size_eq(3) [of ?fs]
      file_bytes [OF vd(1), of ?c "unat off" k cl j] disk_length [OF vd(2)] j(3) by simp
  finally have cpy: "memcpy ?m (buf + of_nat d) (clus_buf + ucast off) (of_nat k) = put_list ?m (buf + of_nat d) ?bs" .
  define w2 where "w2 = w1\<lparr>drives := dr, ram := put_list ?m (buf + of_nat d) ?bs\<rparr>"
  have "?m x = ram w x" if x: "\<not> in_pages (w_hhdm w) X x" for x
  proof -
    have "\<not> unat (x - clus_buf) < ?z" using cb [of "unat (x - clus_buf)"] x by auto
    then have "?m x = ram w1 x" using bl cluster_size_eq(3) [of ?fs] by (simp add: put_list_eq)
    then show ?thesis using keptD(6) [OF j(5)] x in_pages_mono [OF _ X] by auto
  qed
  then have "put_list ?m (buf + of_nat d) ?bs x = put_list (ram w) (buf + of_nat d) ?bs x" if "\<not> in_pages (w_hhdm w) X x" for x
    using that k(2) n(2) by (intro put_list_cong) simp_all
  then have "delivered pinv idle npages X (buf + of_nat d) ?bs w w2"
    using keptD(1-5) [OF j(5)] by (simp add: w2_def delivered_def)
  moreover have "read_loop E clus_buf buf file (of_nat n) (of_nat d) w =
      read_loop E clus_buf buf (file\<lparr>current_cluster := cl j, position := position file + of_nat k, cluster_offset := off + copy\<rparr>)
        (of_nat (n - k)) (of_nat (d + k)) w2"
  proof -
    have n0: "(0 :: u64) < of_nat n" using n by (simp add: word_less_nat_alt unat_of_nat_u64)
    have "read_loop E clus_buf buf file (of_nat n) (of_nat d) w = (let cp = copy in
        read_loop E clus_buf buf (file\<lparr>current_cluster := cl j, position := position file + ucast cp, cluster_offset := off + cp\<rparr>)
          (of_nat n - ucast cp) (of_nat d + ucast cp)
          (w1\<lparr>drives := dr, ram := memcpy ?m (buf + of_nat d) (clus_buf + ucast off) (ucast cp)\<rparr>))"
      unfolding copy_def by (subst read_loop.simps) (simp add: Let_def a n0 dr(1) cong: if_cong split del: if_split)
    then show ?thesis unfolding Let_def cp(1) cpy w2_def using k(2) by (simp add: of_nat_diff)
  qed
  moreover have "pos + k = j * ?z + unat (off + copy)" using cp(2) j(3) by simp
  moreover have "content (drives w2) = ?c" "unat (off + copy) \<le> ?z" using dr(2) cp(2) k(3) by (simp_all add: w2_def)
  ultimately show ?thesis using k(1,2) j(1) by blast
qed

lemma read_loop_ok:
  assumes v: "volume E fs content N" and ch: "chain_ok c fs contiguous cl m" and X: "\<And>i. i < cluster_size fs \<Longrightarrow> in_pages hhdm X (clus_buf + of_nat i)"
  shows "x_fs f = fs \<Longrightarrow> no_fat_chain f = contiguous \<Longrightarrow> stands_at f cl m pos \<Longrightarrow> n < 2 ^ 64 \<Longrightarrow> pos + n \<le> m * cluster_size fs \<Longrightarrow>
    content (drives w) = c \<Longrightarrow> pinv (pool w) \<Longrightarrow> contiguous \<or> ready w \<Longrightarrow> idle (pool w) \<subseteq> X \<Longrightarrow> w_hhdm w = hhdm \<Longrightarrow>
    (\<And>i. i < n \<Longrightarrow> \<not> in_pages hhdm X (buf + of_nat (d + i))) \<Longrightarrow>
    \<exists>cc off w'. read_loop E clus_buf buf f (of_nat n) (of_nat d) w =
      Some ((of_nat (d + n), f\<lparr>current_cluster := cc, position := position f + of_nat n, cluster_offset := off\<rparr>), w') \<and>
      stands_at (f\<lparr>current_cluster := cc, cluster_offset := off\<rparr>) cl m (pos + n) \<and> content (drives w') = c \<and>
      delivered pinv idle npages X (buf + of_nat d) (map (file_byte c fs cl) [pos..<pos + n]) w w'"
proof (induction n arbitrary: w d pos f rule: less_induct)
  case (less n)
  show ?case
  proof (cases "n = 0")
    case True
    have "kp w w" using less.prems(7) by (rule kept_refl)
    then have "delivered pinv idle npages X (buf + of_nat d) [] w w" using less.prems(9) by (rule kept_delivered)
    moreover have "read_loop E clus_buf buf f 0 (of_nat d) w = Some ((of_nat d, f), w)" by (subst read_loop.simps) simp
    ultimately show ?thesis using True less.prems(3,6)
      by (intro exI [of _ "current_cluster f"] exI [of _ "cluster_offset f"] exI [of _ w]) simp
  next
    case False
    obtain k j off w1 where k: "read_loop E clus_buf buf f (of_nat n) (of_nat d) w =
        read_loop E clus_buf buf (f\<lparr>current_cluster := cl j, position := position f + of_nat k, cluster_offset := off\<rparr>)
          (of_nat (n - k)) (of_nat (d + k)) w1" "0 < k" "k \<le> n" "j < m" "unat off \<le> cluster_size fs"
      "pos + k = j * cluster_size fs + unat off" "content (drives w1) = c"
      "delivered pinv idle npages X (buf + of_nat d) (map (file_byte c fs cl) [pos..<pos + k]) w w1"
      using read_step [of f content N w cl m pos n X clus_buf buf d] less.prems v ch X False by auto
    let ?g = "f\<lparr>current_cluster := cl j, position := position f + of_nat k, cluster_offset := off\<rparr>"
    note dl = k(8) [unfolded delivered_def]
    have st: "stands_at ?g cl m (pos + k)" using k(4-6) less.prems(1) by (auto simp: stands_at_def)
    have dst: "\<not> in_pages hhdm X (buf + of_nat (d + k + i))" if "i < n - k" for i using less.prems(11) [of "k + i"] that by (simp add: add.assoc)
    have "\<exists>cc off' w'. read_loop E clus_buf buf ?g (of_nat (n - k)) (of_nat (d + k)) w1 =
        Some ((of_nat (d + k + (n - k)), ?g\<lparr>current_cluster := cc, position := position ?g + of_nat (n - k), cluster_offset := off'\<rparr>), w') \<and>
      stands_at (?g\<lparr>current_cluster := cc, cluster_offset := off'\<rparr>) cl m (pos + k + (n - k)) \<and> content (drives w') = c \<and>
      delivered pinv idle npages X (buf + of_nat (d + k)) (map (file_byte c fs cl) [pos + k..<pos + k + (n - k)]) w1 w'"
      by (rule less.IH [OF _ _ _ st _ _ k(7) _ _ _ _ dst]) (use dl k(2,3) less.prems in \<open>simp_all add: ready_def\<close>)
    then obtain cc off' w' where w': "read_loop E clus_buf buf ?g (of_nat (n - k)) (of_nat (d + k)) w1 =
        Some ((of_nat (d + k + (n - k)), ?g\<lparr>current_cluster := cc, position := position ?g + of_nat (n - k), cluster_offset := off'\<rparr>), w')"
      "stands_at (?g\<lparr>current_cluster := cc, cluster_offset := off'\<rparr>) cl m (pos + k + (n - k))" "content (drives w') = c"
      "delivered pinv idle npages X (buf + of_nat (d + k)) (map (file_byte c fs cl) [pos + k..<pos + k + (n - k)]) w1 w'" by blast
    have kn: "k + (n - k) = n" using k(3) by simp
    have pn: "(of_nat k + of_nat (n - k) :: u64) = of_nat n" using kn by (simp only: of_nat_add [symmetric])
    have "[pos..<pos + n] = [pos..<pos + k] @ [pos + k..<pos + k + (n - k)]" using k(3) upt_add_eq_append [of pos "pos + k" "n - k"] by simp
    then have "delivered pinv idle npages X (buf + of_nat d) (map (file_byte c fs cl) [pos..<pos + n]) w w'"
      using delivered_trans [OF k(8), of "map (file_byte c fs cl) [pos + k..<pos + k + (n - k)]" w'] w'(4) less.prems(4) by (simp add: add.assoc)
    moreover have "stands_at (f\<lparr>current_cluster := cc, cluster_offset := off'\<rparr>) cl m (pos + n)"
      using w'(2) unfolding add.assoc kn by (simp add: stands_at_def)
    moreover have "read_loop E clus_buf buf f (of_nat n) (of_nat d) w =
        Some ((of_nat (d + n), f\<lparr>current_cluster := cc, position := position f + of_nat n, cluster_offset := off'\<rparr>), w')"
      unfolding k(1) w'(1) add.assoc kn using pn by (simp add: add.assoc)
    ultimately show ?thesis using w'(3) by blast
  qed
qed

lemma read_ok:
  assumes v: "volume E (x_fs f) content N" and ch: "chain_ok (content (drives w)) (x_fs f) (no_fat_chain f) cl m"
    and st: "stands_at f cl m (unat (position f))" and sz: "unat (position f) \<le> unat (file_size f)" "unat (file_size f) \<le> m * cluster_size (x_fs f)"
      "unat (position f) + unat len < 2 ^ 64" and r: "pinv (pool w)"
    and al: "fst (alloc_pages E (pool w) (clus_order (bytes_per_cluster (x_fs f)) 0)) \<noteq> 0"
      "no_fat_chain f \<or> 2 ^ clus_order (bytes_per_cluster (x_fs f)) 0 < card (idle (pool w))"
    and n: "n = min (unat len) (unat (file_size f) - unat (position f))" "n < 2 ^ 31"
    and buf: "buf \<noteq> 0" "\<And>i. i < n \<Longrightarrow> \<not> in_pages (w_hhdm w) (idle (pool w)) (buf + of_nat i)"
  shows "\<exists>cc off w'. exfat_read E f buf len w =
      Some ((int n, f\<lparr>current_cluster := cc, position := position f + of_nat n, cluster_offset := off\<rparr>), w') \<and>
      stands_at (f\<lparr>current_cluster := cc, cluster_offset := off\<rparr>) cl m (unat (position f) + n) \<and>
      content (drives w') = content (drives w) \<and>
      delivered pinv idle npages (idle (pool w)) buf
        (map (file_byte (content (drives w)) (x_fs f) cl) [unat (position f)..<unat (position f) + n]) w w'"
proof -
  let ?fs = "x_fs f" and ?k = "clus_order (bytes_per_cluster (x_fs f)) 0" and ?X = "idle (pool w)" and ?pos = "unat (position f)"
  let ?c = "content (drives w)" and ?h = "w_hhdm w"
  let ?bs = "map (file_byte ?c ?fs cl) [?pos..<?pos + n]"
  define g where "g = (\<lambda>clus_buf w. do { ((done, file), w) \<leftarrow> read_loop E clus_buf buf f (of_nat n) 0 w;
    Some ((sint (ucast done :: u32), file), w) })"
  have pl: "unat (position f + len) = ?pos + unat len" using sz(3) by (simp add: unat_plus_u64)
  have "(if position f + len > file_size f then file_size f - position f else len) = of_nat n"
    unfolding n(1) by (intro of_nat_of_unat) (use pl sz(1) in \<open>auto simp: word_less_nat_alt unat_sub word_le_nat_alt\<close>)
  then have e: "exfat_read E f buf len w = with_pages E ?k (- 1, f) g w" using buf(1) by (simp add: exfat_read_def g_def)
  let ?Q = "\<lambda>r w'. \<exists>cc off. r = (int n, f\<lparr>current_cluster := cc, position := position f + of_nat n, cluster_offset := off\<rparr>) \<and>
      stands_at (f\<lparr>current_cluster := cc, cluster_offset := off\<rparr>) cl m (?pos + n) \<and> content (drives w') = ?c \<and>
      w_hhdm w' = ?h \<and> g_sata_port w' = g_sata_port w \<and> (\<forall>x. \<not> in_pages ?h ?X x \<longrightarrow> ram w' x = put_list (ram w) buf ?bs x)"
  have "\<exists>r w' p. with_pages E ?k (- 1, f) g w = Some (r, w'\<lparr>pool := p\<rparr>) \<and> ?Q r w' \<and>
      pinv p \<and> idle p = ?X \<and> npages p = npages (pool w)"
  proof (rule with_pages_pool [OF r al(1)])
    fix q p assume q: "{q..<q + 2 ^ ?k} \<subseteq> ?X" and p: "pinv p" "idle p = ?X - {q..<q + 2 ^ ?k}" "npages p = npages (pool w)"
    have "idle p \<noteq> {}" if "\<not> no_fat_chain f"
    proof
      assume "idle p = {}"
      then have "?X = {q..<q + 2 ^ ?k}" using p(2) q by auto
      then show False using al(2) that by simp
    qed
    then have rd: "no_fat_chain f \<or> ready (w\<lparr>pool := p\<rparr>)" using p(1) by (auto simp: ready_def)
    have cb: "in_pages ?h ?X (page_addr q + ?h + of_nat i)" if "i < cluster_size ?fs" for i
      by (rule page_bytes [OF q]) (use that clus_order_ge [of "bytes_per_cluster ?fs"] cluster_size_eq(3) [of ?fs] in \<open>simp_all add: cluster_size_def\<close>)
    have "\<exists>cc off w'. read_loop E (page_addr q + ?h) buf f (of_nat n) (of_nat 0) (w\<lparr>pool := p\<rparr>) =
        Some ((of_nat (0 + n), f\<lparr>current_cluster := cc, position := position f + of_nat n, cluster_offset := off\<rparr>), w') \<and>
      stands_at (f\<lparr>current_cluster := cc, cluster_offset := off\<rparr>) cl m (?pos + n) \<and> content (drives w') = ?c \<and>
      delivered pinv idle npages ?X (buf + of_nat 0) ?bs (w\<lparr>pool := p\<rparr>) w'"
      by (rule read_loop_ok [OF v ch cb _ _ st _ _ _ _ rd]) (use p sz n buf(2) in auto)
    moreover have "unat (ucast (of_nat n :: u64) :: u32) = n" using n(2) by (subst unat_down) (simp_all add: unat_of_nat_u64)
    then have "sint (ucast (of_nat n :: u64) :: u32) = int n" using n(2) by (simp add: sint_small_u32)
    ultimately show "\<exists>r w'. g (page_addr q + ?h) (w\<lparr>pool := p\<rparr>) = Some (r, w') \<and> ?Q r w' \<and>
        pinv (pool w') \<and> idle (pool w') = idle p \<and> npages (pool w') = npages p"
      by (auto simp: g_def delivered_def) blast
  qed
  then show ?thesis unfolding e delivered_def by fastforce
qed

end

text \<open>C36: \<open>exfat_read\<close> from any position of a file, over any number of clusters, chained or contiguous: it
  returns the number of bytes asked for, cut at the end of the file, the bytes of the file from the position on arrive in
  the buffer of the caller, and the handle stands behind them, so that the next call goes on there. The disk, memory
  outside the buffer and the free pages, and the set of free pages are unchanged.\<close>

theorem exfat_read_correct:
  assumes "volume (kernel_platform rs ws hs st bh) (x_fs f) content N" "pmm_inv (pool w)"
    "chain_ok (content (drives w)) (x_fs f) (no_fat_chain f) cl m" "stands_at f cl m (unat (position f))"
    "unat (position f) \<le> unat (file_size f)" "unat (file_size f) \<le> m * cluster_size (x_fs f)"
    "unat (position f) + unat len < 2 ^ 64" "n = min (unat len) (unat (file_size f) - unat (position f))" "n < 2 ^ 31"
    "fst (palloc_order (pool w) (clus_order (bytes_per_cluster (x_fs f)) 0)) \<noteq> 0"
    "no_fat_chain f \<or> 2 ^ clus_order (bytes_per_cluster (x_fs f)) 0 < card (free_set (pool w))"
    "buf \<noteq> 0" "\<And>i. i < n \<Longrightarrow> \<not> in_pages (w_hhdm w) (free_set (pool w)) (buf + of_nat i)"
  shows "\<exists>f' w'. exfat_read (kernel_platform rs ws hs st bh) f buf len w = Some ((int n, f'), w') \<and>
    (\<forall>i<n. ram w' (buf + of_nat i) = file_byte (content (drives w)) (x_fs f) cl (unat (position f) + i)) \<and>
    position f' = position f + of_nat n \<and> stands_at f' cl m (unat (position f) + n) \<and>
    f' = f\<lparr>current_cluster := current_cluster f', position := position f', cluster_offset := cluster_offset f'\<rparr> \<and>
    content (drives w') = content (drives w) \<and> pmm_inv (pool w') \<and> free_set (pool w') = free_set (pool w) \<and>
    (\<forall>x. \<not> in_pages (w_hhdm w) (free_set (pool w)) x \<and> n \<le> unat (x - buf) \<longrightarrow> ram w' x = ram w x)"
proof -
  let ?E = "kernel_platform rs ws hs st bh"
  let ?bs = "map (file_byte (content (drives w)) (x_fs f) cl) [unat (position f)..<unat (position f) + n]"
  have "fst (alloc_pages ?E (pool w) (clus_order (bytes_per_cluster (x_fs f)) 0)) \<noteq> 0" using assms(10) by (simp add: kernel_platform_def)
  from kernel_pool.read_ok [OF assms(1,3-7,2) this assms(11,8,9,12,13)] obtain cc off w' where
    w': "exfat_read ?E f buf len w = Some ((int n, f\<lparr>current_cluster := cc, position := position f + of_nat n, cluster_offset := off\<rparr>), w')"
      "stands_at (f\<lparr>current_cluster := cc, cluster_offset := off\<rparr>) cl m (unat (position f) + n)"
      "content (drives w') = content (drives w)"
      "delivered pmm_inv free_set (\<lambda>s. unat (pmm_max_page s)) (free_set (pool w)) buf ?bs w w'"
    by blast
  have ln: "length ?bs = n" "n \<le> 2 ^ 64" using assms(9) by simp_all
  have "ram w' (buf + of_nat i) = file_byte (content (drives w)) (x_fs f) cl (unat (position f) + i)" if "i < n" for i
    using w'(4) assms(13) [OF that] put_list_in [of i ?bs "ram w" buf] that ln by (simp add: delivered_def)
  moreover have "ram w' x = ram w x" if "\<not> in_pages (w_hhdm w) (free_set (pool w)) x" "n \<le> unat (x - buf)" for x
    using w'(4) that put_list_eq [of ?bs "ram w" buf] ln by (simp add: delivered_def)
  moreover have "stands_at (f\<lparr>current_cluster := cc, position := position f + of_nat n, cluster_offset := off\<rparr>) cl m (unat (position f) + n)"
    using w'(2) by (simp add: stands_at_def)
  ultimately show ?thesis using w'(1,3,4) unfolding delivered_def
    by (intro exI [of _ "f\<lparr>current_cluster := cc, position := position f + of_nat n, cluster_offset := off\<rparr>"] exI [of _ w']) simp
qed

text \<open>A file of 600 bytes in the clusters 4 and 5, linked by the table: 60 bytes from position 500.\<close>

definition two_clusters :: "nat \<Rightarrow> u8 list" where
  "two_clusters s = (if s = 1 then replicate 16 0 @ [5] else if s = 4 then replicate 512 0x41 else if s = 5 then replicate 512 0x42 else [])"

definition demo_file :: exfat_file_t where
  "demo_file = \<lparr>x_fs = demo_fs, first_cluster = 4, file_size = 600, position = 500, current_cluster = 4, cluster_offset = 500,
     no_fat_chain = False, dir_cluster = 2, dir_contiguous = False, dir_index = 0\<rparr>"

theorem exfat_read_correct_witness:
  "\<exists>f w. exfat_read demo_platform demo_file 0x1000 60 (demo_world two_clusters) = Some ((60, f), w) \<and>
     ram w (0x1000 + 11) = 0x41 \<and> ram w (0x1000 + 12) = 0x42 \<and> position f = 560"
proof -
  let ?w = "demo_world two_clusters" and ?cl = "\<lambda>j :: nat. if j = 0 then 4 else 5 :: u32"
  let ?c = "ram_disk_content (drives ?w)"
  have z: "cluster_size demo_fs = 512" "x_fs demo_file = demo_fs" by (simp_all add: cluster_size_def demo_fs_def demo_file_def)
  have k: "clus_order (bytes_per_cluster (x_fs demo_file)) 0 = 0" by (simp add: clus_order.simps demo_fs_def demo_file_def)
  have "fat_word ?c demo_fs 4 = 5"
    by (simp add: fat_word_def fat_at_def demo_fs_def demo_world_def ram_disk_content_def two_clusters_def le32_def nth_append)
  moreover have "valid_cluster demo_fs 4" "valid_cluster demo_fs 5" "\<not> no_fat_chain demo_file"
    by (simp_all add: valid_cluster_def demo_fs_def demo_file_def)
  ultimately have ch: "chain_ok ?c (x_fs demo_file) (no_fat_chain demo_file) ?cl 2"
    unfolding chain_ok_def z(2) by (simp add: less_2_cases_iff)
  have st: "stands_at demo_file ?cl 2 (unat (position demo_file))"
    unfolding stands_at_def z by (intro exI [of _ 0]) (simp add: demo_file_def)
  have p: "position demo_file = 500" "file_size demo_file = 600" by (simp_all add: demo_file_def)
  have w: "w_hhdm ?w = 0xFFFF800000000000" "pool ?w = demo_pmm" "drives ?w = two_clusters" by (simp_all add: demo_world_def)
  have out: "\<not> in_pages (w_hhdm ?w) (free_set (pool ?w)) (0x1000 + of_nat i)" if "i < 60" for i
  proof -
    have "\<not> unat (0x1000 + of_nat i - (page_addr q + 0xFFFF800000000000)) < 4096" if q: "q \<in> {8..<12}" for q
    proof -
      have e: "a + b - (c + h) = (a - h) + b - c" for a b c h :: u64 by simp
      have "(0x1000 - 0xFFFF800000000000 :: u64) = of_nat 0x800000001000" by simp
      then have "(0x1000 + of_nat i - (page_addr q + 0xFFFF800000000000) :: u64) = of_nat (0x800000001000 + i - 4096 * q)"
        unfolding e using q by (simp add: page_addr_def of_nat_diff mult.commute)
      moreover have "unat (of_nat (0x800000001000 + i - 4096 * q) :: u64) = 0x800000001000 + i - 4096 * q"
        using \<open>i < 60\<close> by (intro unat_of_nat_u64) simp
      moreover have "\<not> 0x800000001000 + i - 4096 * q < 4096" using q by auto
      ultimately show ?thesis by (simp only: not_False_eq_True)
    qed
    then show ?thesis unfolding in_pages_def w demo_pmm_inv(2) by blast
  qed
  have i: "pmm_inv (pool ?w)" using demo_pmm_inv(1) by (simp add: w)
  have sz: "unat (position demo_file) \<le> unat (file_size demo_file)" "unat (file_size demo_file) \<le> 2 * cluster_size (x_fs demo_file)"
    "unat (position demo_file) + unat (60 :: u64) < 2 ^ 64"
    "60 = min (unat (60 :: u64)) (unat (file_size demo_file) - unat (position demo_file))" "60 < (2 :: nat) ^ 31"
    by (simp_all add: p z)
  have "fst (palloc_order demo_pmm 0) \<noteq> 0" by code_simp
  then have al: "fst (palloc_order (pool ?w) (clus_order (bytes_per_cluster (x_fs demo_file)) 0)) \<noteq> 0"
    "no_fat_chain demo_file \<or> 2 ^ clus_order (bytes_per_cluster (x_fs demo_file)) 0 < card (free_set (pool ?w))" "0x1000 \<noteq> (0 :: u64)"
    by (simp_all add: k w demo_pmm_inv(2))
  from exfat_read_correct [OF demo_volume [unfolded demo_platform_def, folded z(2)] i ch st sz al out, folded demo_platform_def]
  obtain f w' where *: "exfat_read demo_platform demo_file 0x1000 60 ?w = Some ((int 60, f), w')"
    "\<forall>i<60. ram w' (0x1000 + of_nat i) = file_byte ?c demo_fs ?cl (500 + i)" "position f = 500 + of_nat 60"
    by (auto simp: p z)
  have "file_byte ?c demo_fs ?cl 511 = 0x41" "file_byte ?c demo_fs ?cl 512 = 0x42"
    unfolding file_byte_def z(1) w(3) by (simp_all add: Let_def first_sector_def demo_fs_def ram_disk_content_def two_clusters_def)
  then show ?thesis using * (1,3) * (2) [rule_format, of 11] * (2) [rule_format, of 12] by (intro exI [of _ f] exI [of _ w']) simp
qed

end
