(* ===== verification/Spec2Isabelle.thy ===== *)
theory Spec2Isabelle
  imports Vmm_Correct Pfndb_Correct Sched_Correct Kernel_Modules Printf_Correct Elf_Segments Exfat_Read
begin

text \<open>
  \<^bold>\<open>Verification of the OSFIX kernel.\<close> OSFIX is a 64-bit kernel for x86 written in C. This development models its
  memory management, processor tables, scheduler, file systems, program loader, module loader, formatted output and
  the storage stack below the exFAT driver, and proves the properties that make these parts correct. Paths below are
  relative to \<^verbatim>\<open>src/\<close>; a definition has the name of the C function that it models.

  \<^bold>\<open>How the parts work together.\<close> The boot loader hands over a memory map. The page allocator builds its free lists from
  it; the page-frame database takes an array out of it; the virtual memory code builds page tables from pages of the
  allocator; the heap lives in a block of pages. On the heap rest the RAM file system, the tasks of the scheduler and the
  table of module symbols. The initial RAM disk is unpacked through the virtual file system into the RAM file
  system, from where the loader takes programs and modules. The exFAT driver takes its buffers from the page
  allocator and its sectors from a disk handle or the AHCI driver. Interrupts reach the scheduler through the descriptor
  table, the stubs and the dispatcher.

  \<^bold>\<open>Conventions.\<close> Machine integers are words of their width (\<open>u8\<close> to \<open>u64\<close>), so that all wrap-around is in the model.
  Static variables of a file are a record, and an operation maps a record to its successor. Memory is a map from
  addresses to bytes (\<open>memory\<close>); page tables and interrupt stubs use aligned words. \<^verbatim>\<open>NULL\<close> is 0 where an address
  is needed and \<open>None\<close> where only presence matters. A halt, a trap or a loop that never ends is the value \<open>None\<close> of a
  \<open>partial_function (option)\<close>; where the C code can loop forever, the properties say that it returns. Loops over a
  counter are structural recursions. Hardware, linker addresses and responses of the boot loader are arguments.

  \<^bold>\<open>Memory.\<close>
  \<^item> \<open>Prelude\<close>, \<open>Util\<close>: facts on words and linked lists that all components share; alignment macros.
  \<^item> \<open>Pmm\<close> is \<^verbatim>\<open>kernel/main/mm/pmm.c\<close>, the buddy allocator with its bitmap and its lists threaded through free pages.
    \<open>Pmm_Invariant\<close>, \<open>Pmm_Alloc\<close>, \<open>Pmm_Init\<close> build the invariant \<open>pmm_inv\<close> (lists, bitmap and the set of free pages
    agree; blocks are aligned and disjoint), and \<open>Pmm_Correct\<close> shows that initialisation establishes it, that
    allocation and release keep it and move exactly the requested pages, and that over any run no page has two owners.
    It also proves that the counter of free pages is wrong after a merge.
  \<^item> \<open>Page_Allocator\<close> states the contract as locales (\<open>page_source\<close>, \<open>page_allocator\<close>) and interprets them on \<open>palloc\<close>.
  \<^item> \<open>Vmm\<close> is \<^verbatim>\<open>kernel/main/mm/vmm.c\<close>. \<open>Vmm_Tables\<close> has trees of tables as an abstract structure with the translation
    of an address; \<open>Vmm_Memory\<close> relates it to words in memory; \<open>Vmm_Correct\<close> shows that mapping and unmapping change
    exactly one translation, splits of 2 MiB pages included, and what the stack functions and the cache flush do.
  \<^item> \<open>Pfndb\<close>, \<open>Pfndb_Correct\<close>: \<^verbatim>\<open>kernel/main/mm/pfndb.c\<close>, pointer and index round trip, initialisation, and the proof that
    its array can overlap pages that the page allocator considers free.
  \<^item> \<open>Tlsf\<close> is \<^verbatim>\<open>kernel/main/mm/heapalloc/tlsf.c\<close> on byte memory with the block headers in it. \<open>Tlsf_Mapping\<close> proves the size
    classes (a block found for a request is large enough), \<open>Tlsf_Blocks\<close> to \<open>Tlsf_Bytes\<close> the physical chain of blocks, the
    segregated lists, the invariant \<open>heap_ok\<close> and the bytes that operations keep; \<open>Tlsf_Correct\<close> shows that
    \<open>malloc\<close>, \<open>free\<close> and \<open>realloc\<close> return, keep the invariant and the contents of all other blocks, and that the
    checker of the code accepts every such heap.
  \<^item> \<open>Heap_Interface\<close> has the contract of the heap as locales (\<open>byte_memory\<close>, \<open>heap_laws\<close>), interpreted on TLSF.
  \<^item> \<open>CString\<close>, \<open>CString_Correct\<close>, \<open>Memory\<close>, \<open>Strings\<close>: \<^verbatim>\<open>kernel/main/util/string.c\<close> on memory and on string values; overlapping
    moves, the order of \<^verbatim>\<open>strcmp\<close>, bounded copies, and little-endian access.

  \<^bold>\<open>Processor.\<close>
  \<^item> \<open>Gdt\<close>: \<^verbatim>\<open>kernel/main/cpu/gdt.c\<close>; the descriptors decode to the intended segments and task state segment.
  \<^item> \<open>Interrupts\<close>, \<open>Interrupts_Correct\<close>: \<^verbatim>\<open>idt.c\<close>, \<^verbatim>\<open>isrs_gen.c\<close>, \<^verbatim>\<open>isr_stubs.S\<close>, \<^verbatim>\<open>isr.c\<close>; every gate leads to its stub, and the
    stubs hand the handler the interrupted context and restore it.
  \<^item> \<open>Sched\<close>, \<open>Sched_Correct\<close>: \<^verbatim>\<open>kernel/main/cpu/sched.c\<close>; a timer interrupt resumes the next task of the ring with its own
    context, every task runs again within one round, and what spawning does.

  \<^bold>\<open>Files, programs and text.\<close>
  \<^item> \<open>Vfs\<close>, \<open>Ramfs\<close>, \<open>Initramfs\<close>: \<^verbatim>\<open>kernel/main/fsm/\<close>; the mount with the longest matching prefix is chosen.
  \<^item> \<open>Machine\<close>, \<open>Elf\<close>, \<open>Elf_Loader\<close>, \<open>Elf_Segments\<close>: \<^verbatim>\<open>kernel/main/util/elf/\<close> on a machine with bytes, page tables and file
    systems; a loaded segment reads as the file and zeroes behind it, for every file in memory. The locale \<open>loader\<close>
    combines the contracts of the page allocator and of memory and is interpreted on the kernel.
  \<^item> \<open>Modules\<close>, \<open>Kernel_Modules\<close>: \<^verbatim>\<open>kernel/main/module/\<close> and the loading of modules in \<^verbatim>\<open>kernel/main/kernel.c\<close>.
  \<^item> \<open>Convert\<close>, \<open>Printf\<close>, \<open>Printf_Correct\<close>: \<^verbatim>\<open>util.c\<close> and \<^verbatim>\<open>kprintf.c\<close>; \<^verbatim>\<open>itoa\<close> and \<^verbatim>\<open>atoi\<close> are inverse, \<^verbatim>\<open>vsnprintf\<close> writes the text
    that a definition without buffers gives.

  \<^bold>\<open>Storage.\<close>
  \<^item> \<open>Storage\<close>: \<^verbatim>\<open>drivers/storage/sata.c\<close>, commands of the AHCI controller and disk handles.
  \<^item> \<open>Exfat\<close>, \<open>Exfat_Files\<close>: all of \<^verbatim>\<open>fs/exfat/exfat.c\<close>.
  \<^item> \<open>Exfat_Disk\<close>: a disk as its documented contract \<open>disk_ok\<close> (a sector holds what was written to it last), and the
    locale \<open>page_pool\<close> for buffers, interpreted on the page allocator. \<open>Exfat_Correct\<close>, \<open>Exfat_Alloc\<close>, \<open>Exfat_Read\<close>: the
    operations of the driver as functions of the sectors; directory entries, cluster allocation, and reading of files.

  \<^bold>\<open>Bounds and fuel.\<close> No definition has fuel of its own. The bounds of the code are kept: the waiting loop of the AHCI
  driver counts to 1000000, directories are searched up to entry 1024 and for the bitmap up to 128, and the module
  table holds 10000 names. Hypotheses exclude wrap-around where the code does not test for it, and each property with
  hypotheses has a witness on a concrete state.

  \<^bold>\<open>Not modelled.\<close> The terminal emulator (\<^verbatim>\<open>kernel/main/terminal/\<close>) and the log and serial output: output only; the
  bytes that \<^verbatim>\<open>kprintf\<close> hands to the terminal are modelled. The EHCI, ATA, ATAPI, ACPI, PCI and APIC drivers: fixed
  sequences of port and register accesses whose meaning is that of the hardware; the one acknowledgement that the
  timer interrupt needs is part of the scheduler. \<^verbatim>\<open>fs/exfat/exfat_vfs.c\<close>, which hands calls of the virtual file system to the
  driver through private pointers. Time keeping, port access and floating point helpers. The boot loader images. The
  parts of \<^verbatim>\<open>kmain\<close> that call initialisers one after the other.
\<close>

end
